(* ===== verification/Prelude.thy ===== *)
theory Prelude
  imports Main "HOL-Library.Word" "HOL-Library.Product_Lexorder" "HOL-Library.Signed_Division"
begin

text \<open>
  What the components share: the widths of the machine integers the C++ code uses, the value
  that stands for undefined behaviour, and \<^verbatim>\<open>std::map\<close>.

  A \<^verbatim>\<open>std::map\<close> is an association list in increasing key order, because the code iterates
  over its maps and the iteration order is the key order. The lookup laws hold for every list;
  that the list is sorted (\<open>smap_ok\<close>) is only needed where the code iterates or counts. The
  locale \<open>ordered_map\<close> states the interface, and \<open>sm\<close> is its interpretation on the model.
\<close>

section \<open>Machine integers and undefined behaviour\<close>

type_synonym u8 = "8 word"
type_synonym u16 = "16 word"
type_synonym u32 = "32 word"
type_synonym u64 = "64 word"
type_synonym uid = "32 word"

text \<open>
  Signed 32-bit values are integers in two's complement range; \<open>wrap32\<close> is the conversion
  to \<^verbatim>\<open>int32_t\<close> and the wrap-around of an atomic counter of that type.
\<close>

definition wrap32 :: "int \<Rightarrow> int" where
  "wrap32 x = (x + 2 ^ 31) mod 2 ^ 32 - 2 ^ 31"

text \<open>
  A computation that may run into undefined behaviour (a null or dangling pointer, the front of an
  empty list, a shift by the operand's width) returns an option: \<open>None\<close> is undefined behaviour.
\<close>

type_synonym 'a ub = "'a option"

named_theorems smap_simps \<open>lookup laws of the ordered map\<close>

lemma wrap32_id [simp]: "- (2 ^ 31) \<le> x \<Longrightarrow> x < 2 ^ 31 \<Longrightarrow> wrap32 x = x"
  by (simp add: wrap32_def)

lemma wrap32_range: "- (2 ^ 31) \<le> wrap32 x \<and> wrap32 x < 2 ^ 31"
  by (simp add: wrap32_def)

text \<open>A character of the source as a byte.\<close>

abbreviation ch :: "char \<Rightarrow> u8" where
  "ch \<equiv> of_char"

section \<open>Lists\<close>

lemma distinct_remove1_set [simp]: "distinct xs \<Longrightarrow> set (remove1 x xs) = set xs - {x}"
  by (induction xs) auto

lemma removeAll_append_last [simp]:
  "x \<noteq> y \<Longrightarrow> removeAll x (xs @ [y]) = removeAll x xs @ [y]"
  by simp

section \<open>Loops over a list whose body may have undefined behaviour\<close>

fun foldM :: "('x \<Rightarrow> 's \<Rightarrow> 's ub) \<Rightarrow> 'x list \<Rightarrow> 's \<Rightarrow> 's ub" where
  "foldM f [] s = Some s"
| "foldM f (x # xs) s = (case f x s of None \<Rightarrow> None | Some s' \<Rightarrow> foldM f xs s')"

text \<open>
  The loop rule: an invariant indexed by the elements still to come, kept by the body without
  undefined behaviour, holds at the end.
\<close>

lemma foldM_rule:
  assumes "P xs s"
    and "\<And>x ys s. P (x # ys) s \<Longrightarrow> \<exists>s'. f x s = Some s' \<and> P ys s'"
  shows "\<exists>s'. foldM f xs s = Some s' \<and> P [] s'"
  using assms(1)
proof (induction xs arbitrary: s)
  case (Cons x xs)
  then obtain s' where "f x s = Some s'" "P xs s'" using assms(2) by blast
  with Cons.IH [of s'] show ?case by simp
qed simp

section \<open>\<^verbatim>\<open>std::map\<close>\<close>

type_synonym ('k, 'v) smap = "('k \<times> 'v) list"

text \<open>\<open>find\<close>: the value at a key, \<open>None\<close> for \<^verbatim>\<open>end()\<close>.\<close>

fun smap_find :: "('k, 'v) smap \<Rightarrow> 'k \<Rightarrow> 'v option" where
  "smap_find [] k = None"
| "smap_find ((a, b) # m) k = (if a = k then Some b else smap_find m k)"

text \<open>\<open>m[k] = v\<close>: assigns in place, or inserts at the key's position.\<close>

fun smap_set :: "'k::linorder \<Rightarrow> 'v \<Rightarrow> ('k, 'v) smap \<Rightarrow> ('k, 'v) smap" where
  "smap_set k v [] = [(k, v)]"
| "smap_set k v ((a, b) # m) =
     (if k < a then (k, v) # (a, b) # m
      else if a = k then (k, v) # m
      else (a, b) # smap_set k v m)"

definition smap_erase :: "'k \<Rightarrow> ('k, 'v) smap \<Rightarrow> ('k, 'v) smap" where
  "smap_erase k m = filter (\<lambda>(a, _). a \<noteq> k) m"

text \<open>The keys in iteration order.\<close>

definition smap_keys :: "('k, 'v) smap \<Rightarrow> 'k list" where
  "smap_keys m = map fst m"

definition smap_count :: "('k, 'v) smap \<Rightarrow> 'k \<Rightarrow> bool" where
  "smap_count m k \<longleftrightarrow> smap_find m k \<noteq> None"

text \<open>\<open>emplace(k, v)\<close>: does nothing where the key is present.\<close>

definition smap_emplace :: "'k::linorder \<Rightarrow> 'v \<Rightarrow> ('k, 'v) smap \<Rightarrow> ('k, 'v) smap" where
  "smap_emplace k v m = (if smap_count m k then m else smap_set k v m)"

text \<open>
  \<open>m[k]\<close> read as a value: inserts the default where the key is absent, so it returns the map too.
\<close>

definition smap_index :: "'v \<Rightarrow> 'k::linorder \<Rightarrow> ('k, 'v) smap \<Rightarrow> 'v \<times> ('k, 'v) smap" where
  "smap_index d k m = (case smap_find m k of Some v \<Rightarrow> (v, m) | None \<Rightarrow> (d, smap_set k d m))"

definition smap_ok :: "('k::linorder, 'v) smap \<Rightarrow> bool" where
  "smap_ok m \<longleftrightarrow> sorted_wrt (<) (map fst m)"

subsection \<open>The interface and what it gives\<close>

locale ordered_map =
  fixes find :: "'m \<Rightarrow> 'k::linorder \<Rightarrow> 'v option"
    and assign :: "'k \<Rightarrow> 'v \<Rightarrow> 'm \<Rightarrow> 'm"
    and erase :: "'k \<Rightarrow> 'm \<Rightarrow> 'm"
    and keys :: "'m \<Rightarrow> 'k list"
    and ok :: "'m \<Rightarrow> bool"
  assumes find_assign: "find (assign k v m) j = (if j = k then Some v else find m j)"
    and find_erase: "find (erase k m) j = (if j = k then None else find m j)"
    and keys_find: "k \<in> set (keys m) \<longleftrightarrow> find m k \<noteq> None"
    and ok_assign: "ok m \<Longrightarrow> ok (assign k v m)"
    and ok_erase: "ok m \<Longrightarrow> ok (erase k m)"
    and ok_keys: "ok m \<Longrightarrow> sorted_wrt (<) (keys m)"
begin

lemma keys_assign: "set (keys (assign k v m)) = insert k (set (keys m))"
  by (auto simp: keys_find find_assign split: if_splits)

lemma keys_erase: "set (keys (erase k m)) = set (keys m) - {k}"
  by (auto simp: keys_find find_erase split: if_splits)

lemma keys_distinct: "ok m \<Longrightarrow> distinct (keys m)"
  using ok_keys strict_sorted_iff by blast

lemma size_erase: "find m k \<noteq> None \<Longrightarrow> card (set (keys (erase k m))) < card (set (keys m))"
  unfolding keys_erase by (rule card_Diff1_less) (simp_all add: keys_find)

lemma size_assign: "find m k \<noteq> None \<Longrightarrow> card (set (keys (assign k v m))) = card (set (keys m))"
  unfolding keys_assign using keys_find by (simp add: insert_absorb)

lemma keys_empty_iff: "keys m = [] \<longleftrightarrow> (\<forall>k. find m k = None)"
  using keys_find by (metis empty_iff empty_set last_in_set)

lemma length_keys: "ok m \<Longrightarrow> length (keys m) = card {k. find m k \<noteq> None}"
proof -
  assume "ok m"
  then have "length (keys m) = card (set (keys m))"
    using keys_distinct by (simp add: distinct_card)
  also have "set (keys m) = {k. find m k \<noteq> None}"
    using keys_find by auto
  finally show ?thesis .
qed

end

lemma smap_find_set: "smap_find (smap_set k v m) j = (if j = k then Some v else smap_find m j)"
  by (induction k v m rule: smap_set.induct) auto

lemma smap_find_erase: "smap_find (smap_erase k m) j = (if j = k then None else smap_find m j)"
  by (induction m) (auto simp: smap_erase_def)

lemma smap_keys_find: "k \<in> set (smap_keys m) \<longleftrightarrow> smap_find m k \<noteq> None"
  by (induction m k rule: smap_find.induct) (auto simp: smap_keys_def)

lemma set_map_fst_smap_set: "fst ` set (smap_set k v m) = insert k (fst ` set m)"
  by (induction k v m rule: smap_set.induct) auto

lemma smap_ok_set: "smap_ok m \<Longrightarrow> smap_ok (smap_set k v m)"
proof (induction k v m rule: smap_set.induct)
  case (2 k v a b m)
  then show ?case
    by (auto simp: smap_ok_def set_map_fst_smap_set dest: less_trans)
qed (simp add: smap_ok_def)

lemma smap_ok_erase: "smap_ok m \<Longrightarrow> smap_ok (smap_erase k m)"
  by (induction m) (auto simp: smap_ok_def smap_erase_def)

interpretation sm: ordered_map smap_find smap_set smap_erase smap_keys smap_ok
  by unfold_locales
    (simp_all only: smap_find_set smap_find_erase smap_keys_find smap_ok_set smap_ok_erase,
      simp add: smap_ok_def smap_keys_def)

lemmas [smap_simps] = smap_find_set smap_find_erase smap_count_def

lemma smap_ok_Nil [simp]: "smap_ok []"
  by (simp add: smap_ok_def)

lemma smap_find_emplace [smap_simps]:
  "smap_find (smap_emplace k v m) j =
     (if j = k \<and> smap_find m k = None then Some v else smap_find m j)"
  by (auto simp: smap_emplace_def smap_simps)

lemma smap_ok_emplace: "smap_ok m \<Longrightarrow> smap_ok (smap_emplace k v m)"
  by (simp add: smap_emplace_def smap_ok_set)

lemma smap_index_found [simp]: "smap_find m k = Some v \<Longrightarrow> smap_index d k m = (v, m)"
  by (simp add: smap_index_def)

lemma smap_find_index [smap_simps]:
  "smap_find (snd (smap_index d k m)) j =
     (if j = k \<and> smap_find m k = None then Some d else smap_find m j)"
  by (auto simp: smap_index_def smap_simps split: option.splits)

lemma smap_fst_index: "fst (smap_index d k m) = (case smap_find m k of Some v \<Rightarrow> v | None \<Rightarrow> d)"
  by (simp add: smap_index_def split: option.splits)

lemma smap_set_same_keys:
  "smap_ok m \<Longrightarrow> smap_find m k \<noteq> None \<Longrightarrow> smap_keys (smap_set k v m) = smap_keys m"
proof (induction k v m rule: smap_set.induct)
  case (2 k v a b m)
  have "k < a \<Longrightarrow> smap_find m k = None"
  proof (rule ccontr)
    assume "k < a" "smap_find m k \<noteq> None"
    then have "k \<in> fst ` set m" using smap_keys_find by (metis set_map smap_keys_def)
    with "2.prems"(1) \<open>k < a\<close> show False by (auto simp: smap_ok_def dest: less_asym)
  qed
  with 2 show ?case
    by (auto simp: smap_ok_def smap_keys_def split: if_splits)
qed simp

lemma smap_ok_distinct: "smap_ok m \<Longrightarrow> distinct (map fst m)"
  using sm.keys_distinct by (simp add: smap_keys_def)

lemma smap_in_set: "smap_ok m \<Longrightarrow> (k, v) \<in> set m \<longleftrightarrow> smap_find m k = Some v"
proof (induction m)
  case (Cons x m)
  then have "smap_ok m" "fst x \<notin> fst ` set m" using smap_ok_distinct [OF Cons.prems] by (auto simp: smap_ok_def)
  with Cons.IH show ?case by (cases x) (auto simp: image_iff)
qed simp

text \<open>The keys a loop over the map selects.\<close>

lemma smap_select:
  assumes "smap_ok m"
  shows "distinct (map fst (filter P m))"
    and "k \<in> set (map fst (filter P m)) \<longleftrightarrow> (\<exists>v. smap_find m k = Some v \<and> P (k, v))"
  using assms smap_ok_distinct [OF assms]
  by (auto simp: distinct_map_filter smap_in_set image_iff split_paired_Ex)

lemma smap_erase_absent: "smap_find m k = None \<Longrightarrow> smap_erase k m = m"
  by (induction m k rule: smap_find.induct) (auto simp: smap_erase_def split: if_splits)

subsection \<open>Sums over the values of a map\<close>

definition smap_total :: "('v \<Rightarrow> int) \<Rightarrow> ('k, 'v) smap \<Rightarrow> int" where
  "smap_total f m = sum_list (map (\<lambda>x. f (snd x)) m)"

lemma smap_total_simps [simp]: "smap_total f [] = 0" "smap_total f (x # m) = f (snd x) + smap_total f m"
  by (simp_all add: smap_total_def)

lemma smap_ok_Cons_find:
  assumes "smap_ok (x # m)" "smap_find m k = Some v"
  shows "fst x < k"
proof -
  have "k \<in> set (smap_keys m)" using assms(2) smap_keys_find by fastforce
  with assms(1) show ?thesis by (auto simp: smap_keys_def smap_ok_def)
qed

lemma smap_total_erase:
  "smap_ok m \<Longrightarrow> smap_total f (smap_erase k m) = smap_total f m - (case smap_find m k of None \<Rightarrow> 0 | Some v \<Rightarrow> f v)"
proof (induction m)
  case (Cons x m)
  have ok: "smap_ok m" using Cons.prems by (simp add: smap_ok_def)
  show ?case
  proof (cases "fst x = k")
    case True
    then have "smap_find m k = None" using smap_ok_Cons_find [OF Cons.prems] by (cases "smap_find m k") auto
    then have "smap_erase k (x # m) = m" using True smap_erase_absent [of m k] by (cases x) (simp add: smap_erase_def)
    with True show ?thesis by (cases x) simp
  next
    case False
    with Cons.IH [OF ok] show ?thesis by (cases x) (simp add: smap_erase_def)
  qed
qed (simp add: smap_erase_def)

lemma smap_total_set:
  "smap_ok m \<Longrightarrow> smap_total f (smap_set k v m) = smap_total f m + f v - (case smap_find m k of None \<Rightarrow> 0 | Some w \<Rightarrow> f w)"
proof (induction m)
  case (Cons x m)
  have ok: "smap_ok m" using Cons.prems by (simp add: smap_ok_def)
  show ?case
  proof (cases "k < fst x")
    case True
    then have "smap_find m k = None" using smap_ok_Cons_find [OF Cons.prems] by (cases "smap_find m k") force+
    with True show ?thesis by (cases x) auto
  next
    case False
    with Cons.IH [OF ok] show ?thesis by (cases x) simp
  qed
qed simp

lemma smap_total_emplace:
  "smap_ok m \<Longrightarrow> smap_total f (smap_emplace k v m) = smap_total f m + (case smap_find m k of None \<Rightarrow> f v | Some _ \<Rightarrow> 0)"
  by (auto simp: smap_emplace_def smap_count_def smap_total_set split: option.splits)

lemma smap_total_nonneg: "(\<And>v. 0 \<le> f v) \<Longrightarrow> 0 \<le> smap_total f m"
  by (induction m) simp_all

section \<open>The data model of the build\<close>

text \<open>A \<^verbatim>\<open>long\<close> has 32 or 64 bits; the conversion of a wider integer keeps the low bits.\<close>

datatype data_model = ILP32 | LP64

fun long_bits :: "data_model \<Rightarrow> nat" where
  "long_bits ILP32 = 32"
| "long_bits LP64 = 64"

definition in_long :: "data_model \<Rightarrow> int \<Rightarrow> bool" where
  "in_long w x \<longleftrightarrow> - (2 ^ (long_bits w - 1)) \<le> x \<and> x < 2 ^ (long_bits w - 1)"

definition to_long :: "data_model \<Rightarrow> int \<Rightarrow> int" where
  "to_long w x = (x + 2 ^ (long_bits w - 1)) mod 2 ^ long_bits w - 2 ^ (long_bits w - 1)"

lemma to_long_in_long: "in_long w (to_long w x)"
  by (cases w) (simp_all add: in_long_def to_long_def)

lemma to_long_id: "in_long w x \<Longrightarrow> to_long w x = x"
  by (cases w) (simp_all add: in_long_def to_long_def)

end
