(* ===== verification/Transcoding_Env.thy ===== *)
theory Transcoding_Env
  imports Prelude
begin

text \<open>
  The data the parts of the media transcoding service exchange (request parcels, session keys,
  error codes) and the environment they run in.

  Everything the service asks the platform for is a field of the record \<open>env\<close>: the steady clock,
  whether a weak callback pointer can still be locked, permissions, the importance of a uid, and
  the iteration order of an \<^verbatim>\<open>unordered_set\<close>. Each query takes the number of queries made
  before it, so that two queries of one handler may get different answers; the number is part of
  the component's state. Theorems quantify over the environment; what they need of it
  (\<open>iter_ok\<close>: an iteration visits each element once) is a named hypothesis.
\<close>

section \<open>Identifiers and parcels\<close>

type_synonym client_id = u64
type_synonym session_id = int
type_synonym session_key = "client_id \<times> session_id"
type_synonym callback = nat

definition OFFLINE_UID :: uid where
  "OFFLINE_UID = - 1"

datatype priority = kUnspecified | kLow | kNormal | kHigh

datatype error_code =
    kNoError | kDroppedByService | kServiceUnavailable | kUnknown | kMalformed | kUnsupported
  | kInvalidParameter | kInvalidOperation | kErrorIO | kInsufficientResources | kWatchdogTimeout
  | kUidGoneCancelled

text \<open>The fields of the request parcel the service reads.\<close>

record request =
  sourceFilePath :: string
  destinationFilePath :: string
  clientUid :: int
  clientPid :: int
  clientPackageName :: string
  req_priority :: priority

section \<open>The environment\<close>

record env =
  e_now :: "nat \<Rightarrow> int"
  e_alive :: "nat \<Rightarrow> callback \<Rightarrow> bool"
  e_iter :: "nat \<Rightarrow> uid set \<Rightarrow> uid list"
  e_api31 :: bool
  e_mtpGranted :: "nat \<Rightarrow> uid \<Rightarrow> bool"
  e_wmsGranted :: "nat \<Rightarrow> int \<Rightarrow> uid \<Rightarrow> bool"
  e_uidActive :: "nat \<Rightarrow> uid \<Rightarrow> bool"
  e_uidImportance :: "nat \<Rightarrow> uid \<Rightarrow> int"
  e_importanceGone :: int
  e_thermalSevere :: int

definition iter_ok :: "env \<Rightarrow> bool" where
  "iter_ok e \<longleftrightarrow> (\<forall>n S. set (e_iter e n S) = S \<and> distinct (e_iter e n S))"

text \<open>The clock readings never decrease (\<^verbatim>\<open>std::chrono::steady_clock\<close>).\<close>

definition clock_ok :: "env \<Rightarrow> bool" where
  "clock_ok e \<longleftrightarrow> (\<forall>i j. i \<le> j \<longrightarrow> e_now e i \<le> e_now e j)"

text \<open>
  An environment for evaluation: the clock advances by a millisecond per query, every callback is
  alive, no permission is granted, every uid is active with importance 100 plus its number.
\<close>

definition sample_env :: env where
  "sample_env =
     \<lparr>e_now = (\<lambda>n. 1000000 * int n), e_alive = (\<lambda>_ _. True),
      e_iter = (\<lambda>_ S. sorted_list_of_set S), e_api31 = True,
      e_mtpGranted = (\<lambda>_ _. False), e_wmsGranted = (\<lambda>_ _ _. False),
      e_uidActive = (\<lambda>_ _. True), e_uidImportance = (\<lambda>_ u. 100 + uint u),
      e_importanceGone = 1000, e_thermalSevere = 3\<rparr>"

lemma set_iter [simp]: "iter_ok e \<Longrightarrow> set (e_iter e n S) = S"
  by (simp add: iter_ok_def)

lemma distinct_iter [simp]: "iter_ok e \<Longrightarrow> distinct (e_iter e n S)"
  by (simp add: iter_ok_def)

lemma iter_ok_sample [simp]: "iter_ok sample_env"
  by (simp add: iter_ok_def sample_env_def)

lemma clock_ok_sample [simp]: "clock_ok sample_env"
  by (simp add: clock_ok_def sample_env_def)

end
