(* ===== verification/Uid_Policy.thy ===== *)
theory Uid_Policy
  imports Transcoding_Env
begin

text \<open>
  \<^verbatim>\<open>TranscodingUidPolicy\<close>: which of the uids with real-time sessions are at the top.

  The class keeps two maps, uid to importance and importance to the set of uids, and the least
  known importance with some uid. The abstract view is the first map alone; the lemmas show that
  the other two fields are determined by it, that \<open>getTopUids\<close> returns the uids of least known
  importance and never throws, and that a state change is reported exactly when that set changes.
  The locale \<open>uid_policy_interface\<close> is what the session controller relies on.
\<close>

section \<open>State and operations\<close>

definition IMPORTANCE_UNKNOWN :: int where
  "IMPORTANCE_UNKNOWN = 2147483647"

record uid_policy =
  mUidObserver :: bool
  up_mRegistered :: bool
  mTopUidState :: int
  mUidStateMap :: "(uid, int) smap"
  mStateUidMap :: "(int, uid set) smap"
  mUidPolicyCallback :: bool

text \<open>\<open>listener\<close>: whether the activity manager returned a listener.\<close>

definition up_registerSelf :: "env \<Rightarrow> bool \<Rightarrow> uid_policy \<Rightarrow> uid_policy" where
  "up_registerSelf e listener p =
     (let p = (if e_api31 e then p\<lparr>mUidObserver := listener\<rparr> else p)
      in if \<not> mUidObserver p then p else p\<lparr>up_mRegistered := True\<rparr>)"

definition up_unregisterSelf :: "env \<Rightarrow> uid_policy \<Rightarrow> uid_policy" where
  "up_unregisterSelf e p =
     (if e_api31 e then p\<lparr>mUidObserver := False, up_mRegistered := False\<rparr> else p)"

definition TranscodingUidPolicy :: "env \<Rightarrow> bool \<Rightarrow> uid_policy" where
  "TranscodingUidPolicy e listener =
     up_registerSelf e listener
       \<lparr>mUidObserver = False, up_mRegistered = False, mTopUidState = IMPORTANCE_UNKNOWN,
        mUidStateMap = [], mStateUidMap = [], mUidPolicyCallback = False\<rparr>"

definition up_setCallback :: "uid_policy \<Rightarrow> uid_policy" where
  "up_setCallback p = p\<lparr>mUidPolicyCallback := True\<rparr>"

text \<open>The scan of \<^verbatim>\<open>updateTopUid_l\<close> over the ordered map, from the least importance.\<close>

fun topUidScan :: "(int, uid set) smap \<Rightarrow> int" where
  "topUidScan [] = IMPORTANCE_UNKNOWN"
| "topUidScan ((st, us) # m) =
     (if st \<noteq> IMPORTANCE_UNKNOWN \<and> us \<noteq> {} then st else topUidScan m)"

definition updateTopUid_l :: "uid_policy \<Rightarrow> uid_policy" where
  "updateTopUid_l p = p\<lparr>mTopUidState := topUidScan (mStateUidMap p)\<rparr>"

definition getProcState_l :: "uid_policy \<Rightarrow> uid \<Rightarrow> int" where
  "getProcState_l p u =
     (case smap_find (mUidStateMap p) u of Some st \<Rightarrow> st | None \<Rightarrow> IMPORTANCE_UNKNOWN)"

definition registerMonitorUid :: "env \<Rightarrow> nat \<Rightarrow> uid \<Rightarrow> uid_policy \<Rightarrow> uid_policy" where
  "registerMonitorUid e n u p =
     (if u = OFFLINE_UID then p
      else if smap_count (mUidStateMap p) u then p
      else
        let state = (if e_api31 e \<and> up_mRegistered p \<and> e_uidActive e n u
                     then e_uidImportance e n u else IMPORTANCE_UNKNOWN);
            (us, m) = smap_index {} state (mStateUidMap p)
        in updateTopUid_l
             (p\<lparr>mUidStateMap := smap_emplace u state (mUidStateMap p),
                mStateUidMap := smap_set state (insert u us) m\<rparr>))"

definition unregisterMonitorUid :: "uid \<Rightarrow> uid_policy \<Rightarrow> uid_policy" where
  "unregisterMonitorUid u p =
     (case smap_find (mUidStateMap p) u of
        None \<Rightarrow> p
      | Some st \<Rightarrow>
          let m = (case smap_find (mStateUidMap p) st of
                     None \<Rightarrow> mStateUidMap p
                   | Some us \<Rightarrow>
                       if us - {u} = {} then smap_erase st (mStateUidMap p)
                       else smap_set st (us - {u}) (mStateUidMap p))
          in updateTopUid_l
               (p\<lparr>mStateUidMap := m, mUidStateMap := smap_erase u (mUidStateMap p)\<rparr>))"

definition isUidOnTop :: "uid_policy \<Rightarrow> uid \<Rightarrow> bool" where
  "isUidOnTop p u \<longleftrightarrow>
     mTopUidState p \<noteq> IMPORTANCE_UNKNOWN \<and> mTopUidState p = getProcState_l p u"

text \<open>\<open>None\<close>: \<^verbatim>\<open>std::map::at\<close> throws.\<close>

definition getTopUids :: "uid_policy \<Rightarrow> uid set option" where
  "getTopUids p =
     (if mTopUidState p = IMPORTANCE_UNKNOWN then Some {}
      else smap_find (mStateUidMap p) (mTopUidState p))"

datatype uid_event = TopUidsChanged "uid set" | UidGone uid

text \<open>The state change, and the callbacks it makes once the lock is released, in order.\<close>

definition onUidStateChanged ::
    "env \<Rightarrow> uid \<Rightarrow> int \<Rightarrow> uid_policy \<Rightarrow> uid_policy \<times> uid_event list" where
  "onUidStateChanged e u procState p =
     (case smap_find (mUidStateMap p) u of
        None \<Rightarrow> (p, [])
      | Some st \<Rightarrow>
          if st = procState then (p, [])
          else
            let isUidGone = (procState = e_importanceGone e);
                (topUids, m) = smap_index {} (mTopUidState p) (mStateUidMap p);
                (from, m) = smap_index {} st m;
                m = smap_set st (from - {u}) m;
                (to, m) = smap_index {} procState m;
                m = smap_set procState (insert u to) m;
                p = updateTopUid_l
                      (p\<lparr>mStateUidMap := m,
                         mUidStateMap := smap_set u procState (mUidStateMap p)\<rparr>);
                (newTop, m) = smap_index {} (mTopUidState p) (mStateUidMap p);
                p = p\<lparr>mStateUidMap := m\<rparr>
            in (p,
                (if topUids \<noteq> newTop \<and> mUidPolicyCallback p then [TopUidsChanged newTop] else [])
                @ (if isUidGone \<and> mUidPolicyCallback p then [UidGone u] else [])))"

section \<open>Invariant\<close>

text \<open>
  The two maps describe the same relation, and the cached top importance is the one the scan finds.
\<close>

definition up_rel :: "uid_policy \<Rightarrow> bool" where
  "up_rel p \<longleftrightarrow>
     smap_ok (mUidStateMap p) \<and> smap_ok (mStateUidMap p)
     \<and> (\<forall>st us. smap_find (mStateUidMap p) st = Some us \<longrightarrow>
          us = {u. smap_find (mUidStateMap p) u = Some st})
     \<and> (\<forall>u st. smap_find (mUidStateMap p) u = Some st \<longrightarrow> smap_find (mStateUidMap p) st \<noteq> None)
     \<and> smap_find (mUidStateMap p) OFFLINE_UID = None"

definition up_inv :: "uid_policy \<Rightarrow> bool" where
  "up_inv p \<longleftrightarrow> up_rel p \<and> mTopUidState p = topUidScan (mStateUidMap p)"

text \<open>The abstract view: the monitored uids with their importance.\<close>

abbreviation up_abs :: "uid_policy \<Rightarrow> uid \<Rightarrow> int option" where
  "up_abs p \<equiv> smap_find (mUidStateMap p)"

definition known_states :: "uid_policy \<Rightarrow> int set" where
  "known_states p = {st. st \<noteq> IMPORTANCE_UNKNOWN \<and> (\<exists>u. up_abs p u = Some st)}"

text \<open>What \<open>getTopUids\<close> promises, on the abstract view.\<close>

definition top_uids_spec :: "uid_policy \<Rightarrow> uid set" where
  "top_uids_spec p =
     (if known_states p = {} then {} else {u. up_abs p u = Some (Min (known_states p))})"

section \<open>The top uids\<close>

definition scan_states :: "(int, uid set) smap \<Rightarrow> int set" where
  "scan_states m = {st. st \<noteq> IMPORTANCE_UNKNOWN \<and> (\<exists>us. smap_find m st = Some us \<and> us \<noteq> {})}"

lemma smap_ok_Cons_fresh: "smap_ok ((a, b) # m) \<Longrightarrow> smap_find m k \<noteq> None \<Longrightarrow> a < k"
  using smap_keys_find [of k m] by (auto simp: smap_ok_def smap_keys_def)

lemma scan_states_Cons:
  "smap_ok ((st, us) # m) \<Longrightarrow>
   scan_states ((st, us) # m) =
     (if st \<noteq> IMPORTANCE_UNKNOWN \<and> us \<noteq> {} then insert st (scan_states m) else scan_states m)"
proof -
  assume "smap_ok ((st, us) # m)"
  then have "smap_find m st = None" using smap_ok_Cons_fresh [of st us m st] by blast
  then show ?thesis by (auto simp: scan_states_def)
qed

lemma finite_scan_states [simp]: "finite (scan_states m)"
proof (rule finite_subset)
  show "scan_states m \<subseteq> set (smap_keys m)"
    by (auto simp: scan_states_def smap_keys_find)
qed simp

lemma topUidScan_Min:
  "smap_ok m \<Longrightarrow>
   topUidScan m = (if scan_states m = {} then IMPORTANCE_UNKNOWN else Min (scan_states m))"
proof (induction m rule: topUidScan.induct)
  case 1
  show ?case by (simp add: scan_states_def)
next
  case (2 st us m)
  have ok: "smap_ok m" using "2.prems" by (simp add: smap_ok_def)
  show ?case
  proof (cases "st \<noteq> IMPORTANCE_UNKNOWN \<and> us \<noteq> {}")
    case True
    have "st \<le> x" if "x \<in> scan_states m" for x
      using that smap_ok_Cons_fresh [OF "2.prems", of x] by (auto simp: scan_states_def)
    then have "Min (insert st (scan_states m)) = st"
      by (intro Min_eqI) auto
    with True show ?thesis by (simp add: scan_states_Cons [OF "2.prems"])
  next
    case False
    with 2 ok show ?thesis by (auto simp: scan_states_Cons [OF "2.prems"])
  qed
qed

lemma up_relD:
  assumes "up_rel p"
  shows "smap_find (mStateUidMap p) st = Some us \<Longrightarrow> us = {u. up_abs p u = Some st}"
    and "up_abs p u = Some st \<Longrightarrow> \<exists>us. smap_find (mStateUidMap p) st = Some us"
  using assms unfolding up_rel_def by blast+

lemma scan_states_known: "up_rel p \<Longrightarrow> scan_states (mStateUidMap p) = known_states p"
proof -
  assume rel: "up_rel p"
  have "(\<exists>us. smap_find (mStateUidMap p) st = Some us \<and> us \<noteq> {}) \<longleftrightarrow> (\<exists>u. up_abs p u = Some st)" for st
  proof
    assume "\<exists>us. smap_find (mStateUidMap p) st = Some us \<and> us \<noteq> {}"
    then show "\<exists>u. up_abs p u = Some st" using up_relD(1) [OF rel] by blast
  next
    assume "\<exists>u. up_abs p u = Some st"
    then obtain u us where "up_abs p u = Some st" "smap_find (mStateUidMap p) st = Some us"
      using up_relD(2) [OF rel] by blast
    then show "\<exists>us. smap_find (mStateUidMap p) st = Some us \<and> us \<noteq> {}"
      using up_relD(1) [OF rel] by blast
  qed
  then show ?thesis by (simp add: scan_states_def known_states_def)
qed

lemma top_state:
  assumes "up_inv p"
  shows "mTopUidState p = (if known_states p = {} then IMPORTANCE_UNKNOWN else Min (known_states p))"
  using assms topUidScan_Min [of "mStateUidMap p"] scan_states_known [of p]
  by (simp add: up_inv_def up_rel_def)

lemma finite_known_states: "up_rel p \<Longrightarrow> finite (known_states p)"
  using scan_states_known [of p] finite_scan_states [of "mStateUidMap p"] by simp

lemma Min_known: "up_rel p \<Longrightarrow> known_states p \<noteq> {} \<Longrightarrow> Min (known_states p) \<in> known_states p"
  using finite_known_states [of p] by (rule Min_in)

lemma getTopUids_spec: "up_inv p \<Longrightarrow> getTopUids p = Some (top_uids_spec p)"
proof (cases "known_states p = {}")
  case True
  assume "up_inv p"
  with True show ?thesis by (simp add: getTopUids_def top_uids_spec_def top_state)
next
  case False
  assume inv: "up_inv p"
  let ?st = "Min (known_states p)"
  have "?st \<in> known_states p" using Min_known False inv by (simp add: up_inv_def)
  moreover from this obtain us where "smap_find (mStateUidMap p) ?st = Some us"
    using inv unfolding known_states_def up_inv_def up_rel_def by blast
  moreover from this have "us = {u. up_abs p u = Some ?st}"
    using inv unfolding up_inv_def up_rel_def by blast
  ultimately show ?thesis
    using False top_state [OF inv] by (auto simp: getTopUids_def top_uids_spec_def known_states_def)
qed

lemma isUidOnTop_spec: "up_inv p \<Longrightarrow> isUidOnTop p u \<longleftrightarrow> u \<in> top_uids_spec p"
  using Min_known [of p] top_state [of p]
  by (auto simp: isUidOnTop_def top_uids_spec_def getProcState_l_def known_states_def up_inv_def
        split: option.splits if_splits)

section \<open>Every operation keeps the invariant\<close>

lemma up_inv_updateTop: "up_rel p \<Longrightarrow> up_inv (updateTopUid_l p)"
  by (simp add: up_inv_def up_rel_def updateTopUid_l_def)

lemma updateTop_simps [simp]:
  "mUidStateMap (updateTopUid_l p) = mUidStateMap p"
  "mStateUidMap (updateTopUid_l p) = mStateUidMap p"
  "mUidPolicyCallback (updateTopUid_l p) = mUidPolicyCallback p"
  by (simp_all add: updateTopUid_l_def)

lemma up_inv_init: "up_inv (TranscodingUidPolicy e l)"
  by (simp add: TranscodingUidPolicy_def up_registerSelf_def up_inv_def up_rel_def Let_def)

lemma up_abs_init: "up_abs (TranscodingUidPolicy e l) u = None"
  by (simp add: TranscodingUidPolicy_def up_registerSelf_def Let_def)

lemma up_inv_registration:
  "up_inv p \<Longrightarrow> up_inv (up_registerSelf e l p)"
  "up_inv p \<Longrightarrow> up_inv (up_unregisterSelf e p)"
  "up_inv p \<Longrightarrow> up_inv (up_setCallback p)"
  by (simp_all add: up_inv_def up_rel_def up_registerSelf_def up_unregisterSelf_def
      up_setCallback_def Let_def)

lemma up_relI:
  assumes "smap_ok (mUidStateMap p)" "smap_ok (mStateUidMap p)"
    and "\<And>st us. smap_find (mStateUidMap p) st = Some us \<Longrightarrow> us = {u. up_abs p u = Some st}"
    and "\<And>u st. up_abs p u = Some st \<Longrightarrow> \<exists>us. smap_find (mStateUidMap p) st = Some us"
    and "up_abs p OFFLINE_UID = None"
  shows "up_rel p"
  unfolding up_rel_def using assms by blast

lemma up_rel_ok:
  "up_rel p \<Longrightarrow> smap_ok (mUidStateMap p)"
  "up_rel p \<Longrightarrow> smap_ok (mStateUidMap p)"
  "up_rel p \<Longrightarrow> up_abs p OFFLINE_UID = None"
  by (simp_all add: up_rel_def)

lemma smap_ok_index: "smap_ok m \<Longrightarrow> smap_ok (snd (smap_index d k m))"
  by (simp add: smap_index_def smap_ok_set split: option.split)

text \<open>Reading \<open>m[k]\<close> adds at most an empty set for an importance no uid has.\<close>

lemma up_rel_index:
  "up_rel p \<Longrightarrow> up_rel (p\<lparr>mStateUidMap := snd (smap_index {} st (mStateUidMap p))\<rparr>)"
  by (rule up_relI)
    (auto simp: smap_simps smap_ok_index up_rel_ok split: if_splits dest: up_relD)

lemma fst_index_states:
  "up_rel p \<Longrightarrow> fst (smap_index {} st (mStateUidMap p)) = {u. up_abs p u = Some st}"
  by (auto simp: smap_fst_index split: option.splits dest: up_relD)

lemma registerMonitorUid_spec:
  assumes "up_inv p"
  shows "up_inv (registerMonitorUid e n u p)"
    and "u \<noteq> OFFLINE_UID \<Longrightarrow> up_abs p u = None \<Longrightarrow>
         \<exists>st. up_abs (registerMonitorUid e n u p) = (up_abs p)(u \<mapsto> st)"
    and "u = OFFLINE_UID \<or> up_abs p u \<noteq> None \<Longrightarrow> registerMonitorUid e n u p = p"
proof -
  have rel: "up_rel p" using assms by (simp add: up_inv_def)
  show "up_inv (registerMonitorUid e n u p)"
  proof (cases "u = OFFLINE_UID \<or> smap_count (mUidStateMap p) u")
    case False
    define st where "st = (if e_api31 e \<and> up_mRegistered p \<and> e_uidActive e n u
                     then e_uidImportance e n u else IMPORTANCE_UNKNOWN)"
    have fresh: "up_abs p u = None" and off: "u \<noteq> OFFLINE_UID" using False by (simp_all add: smap_simps)
    let ?m = "snd (smap_index {} st (mStateUidMap p))"
    have "up_rel (p\<lparr>mUidStateMap := smap_emplace u st (mUidStateMap p),
            mStateUidMap := smap_set st (insert u {v. up_abs p v = Some st}) ?m\<rparr>)"
      using rel fresh off
      by (intro up_relI) (auto simp: smap_simps smap_ok_index smap_ok_set smap_ok_emplace up_rel_ok
          split: if_splits dest: up_relD)
    with False show ?thesis
      by (auto simp: registerMonitorUid_def st_def [symmetric] Let_def case_prod_beta
          fst_index_states [OF rel] intro: up_inv_updateTop)
  qed (use assms in \<open>auto simp: registerMonitorUid_def\<close>)
qed (auto simp: registerMonitorUid_def Let_def case_prod_beta smap_simps fun_eq_iff)

lemma unregisterMonitorUid_spec:
  assumes "up_inv p"
  shows "up_inv (unregisterMonitorUid u p)"
    and "up_abs (unregisterMonitorUid u p) = (up_abs p)(u := None)"
proof -
  have rel: "up_rel p" using assms by (simp add: up_inv_def)
  show "up_abs (unregisterMonitorUid u p) = (up_abs p)(u := None)"
    by (auto simp: unregisterMonitorUid_def Let_def smap_simps fun_eq_iff split: option.splits)
  show "up_inv (unregisterMonitorUid u p)"
  proof (cases "up_abs p u")
    case (Some st)
    obtain us where us: "smap_find (mStateUidMap p) st = Some us"
      using up_relD(2) [OF rel Some] by blast
    have us_eq: "us = {v. up_abs p v = Some st}" using up_relD(1) [OF rel us] .
    let ?m = "if us - {u} = {} then smap_erase st (mStateUidMap p)
              else smap_set st (us - {u}) (mStateUidMap p)"
    have "up_rel (p\<lparr>mStateUidMap := ?m, mUidStateMap := smap_erase u (mUidStateMap p)\<rparr>)"
      using rel us_eq Some
      by (intro up_relI) (auto simp: smap_simps smap_ok_set smap_ok_erase up_rel_ok
          split: if_splits dest: up_relD)
    with Some us show ?thesis
      by (simp add: unregisterMonitorUid_def Let_def up_inv_updateTop)
  qed (use assms in \<open>simp add: unregisterMonitorUid_def\<close>)
qed

lemma topUidScan_index: "smap_ok m \<Longrightarrow> topUidScan (snd (smap_index {} k m)) = topUidScan m"
proof -
  assume ok: "smap_ok m"
  have "scan_states (snd (smap_index {} k m)) = scan_states m"
    by (auto simp: scan_states_def smap_simps)
  then show ?thesis by (simp add: topUidScan_Min ok smap_ok_index)
qed

lemma up_inv_index:
  "up_inv p \<Longrightarrow> up_inv (p\<lparr>mStateUidMap := snd (smap_index {} st (mStateUidMap p))\<rparr>)"
  using up_rel_index [of p st] by (simp add: up_inv_def topUidScan_index up_rel_ok)

lemma up_rel_move:
  assumes rel: "up_rel p" and st: "up_abs p u = Some st" and ne: "st \<noteq> st'"
  shows "up_rel (p\<lparr>mStateUidMap :=
             smap_set st' (insert u {v. up_abs p v = Some st'})
               (snd (smap_index {} st' (smap_set st ({v. up_abs p v = Some st} - {u})
                 (snd (smap_index {} st (mStateUidMap p)))))),
           mUidStateMap := smap_set u st' (mUidStateMap p)\<rparr>)"
proof -
  have "u \<noteq> OFFLINE_UID" using st up_rel_ok(3) [OF rel] by auto
  with assms show ?thesis
    by (intro up_relI) (auto simp: smap_simps smap_ok_index smap_ok_set up_rel_ok
        split: if_splits dest: up_relD)
qed

text \<open>The set the code compares: the uids whose importance is the cached top importance.\<close>

definition top_set :: "uid_policy \<Rightarrow> uid set" where
  "top_set p = {u. up_abs p u = Some (mTopUidState p)}"

lemma top_set_spec: "up_inv p \<Longrightarrow> known_states p \<noteq> {} \<Longrightarrow> top_set p = top_uids_spec p"
  by (simp add: top_set_def top_uids_spec_def top_state)

lemma up_rel_state_irrelevant [simp]:
  "up_rel (p\<lparr>mTopUidState := t\<rparr>) = up_rel p"
  by (simp add: up_rel_def)

lemma onUidStateChanged_spec:
  assumes inv: "up_inv p" and st: "up_abs p u = Some st" and ne: "st \<noteq> st'"
    and res: "onUidStateChanged e u st' p = (p', evs)"
  shows "up_inv p'" and "up_abs p' = (up_abs p)(u \<mapsto> st')"
    and "evs = (if top_set p \<noteq> top_set p' \<and> mUidPolicyCallback p then [TopUidsChanged (top_set p')] else [])
             @ (if st' = e_importanceGone e \<and> mUidPolicyCallback p then [UidGone u] else [])"
proof -
  have rel: "up_rel p" using inv by (simp add: up_inv_def)
  define p1 where "p1 = p\<lparr>mStateUidMap := snd (smap_index {} (mTopUidState p) (mStateUidMap p))\<rparr>"
  have rel1: "up_rel p1" using up_rel_index [OF rel] by (simp add: p1_def)
  define m where "m = smap_set st' (insert u {v. up_abs p v = Some st'})
               (snd (smap_index {} st' (smap_set st ({v. up_abs p v = Some st} - {u})
                 (snd (smap_index {} st (mStateUidMap p1))))))"
  define p2 where "p2 = updateTopUid_l (p1\<lparr>mStateUidMap := m, mUidStateMap := smap_set u st' (mUidStateMap p)\<rparr>)"
  have abs1: "mUidStateMap p1 = mUidStateMap p" by (simp add: p1_def)
  have inv2: "up_inv p2"
    using up_rel_move [OF rel1, of u st st'] st ne unfolding p2_def m_def abs1
    by (intro up_inv_updateTop) simp
  have f1: "fst (smap_index {} st (mStateUidMap p1)) = {v. up_abs p v = Some st}"
    using fst_index_states [OF rel1] by (simp add: abs1)
  have "smap_find (mStateUidMap p1) st' = smap_find (smap_set st X (snd (smap_index {} st (mStateUidMap p1)))) st'" for X
    using ne by (simp add: smap_simps)
  then have f2: "fst (smap_index {} st' (smap_set st X (snd (smap_index {} st (mStateUidMap p1)))))
                 = {v. up_abs p v = Some st'}" for X
    using fst_index_states [OF rel1, of st'] abs1 by (simp add: smap_fst_index)
  have f3: "fst (smap_index {} (mTopUidState p2) (mStateUidMap p2)) = top_set p2"
    using inv2 fst_index_states [of p2] by (simp add: top_set_def up_inv_def)
  have smap1: "mStateUidMap p1 = snd (smap_index {} (mTopUidState p) (mStateUidMap p))"
    and p2_alt: "p2 = updateTopUid_l (p\<lparr>mStateUidMap := m, mUidStateMap := smap_set u st' (mUidStateMap p)\<rparr>)"
    and cb2: "mUidPolicyCallback p2 = mUidPolicyCallback p"
    by (simp_all add: p1_def p2_def)
  have f0: "fst (smap_index {} (mTopUidState p) (mStateUidMap p)) = top_set p"
    using fst_index_states [OF rel] by (simp add: top_set_def)
  have p': "p' = p2\<lparr>mStateUidMap := snd (smap_index {} (mTopUidState p2) (mStateUidMap p2))\<rparr>"
    and evs: "evs = (if top_set p \<noteq> top_set p2 \<and> mUidPolicyCallback p then [TopUidsChanged (top_set p2)] else [])
             @ (if st' = e_importanceGone e \<and> mUidPolicyCallback p then [UidGone u] else [])"
    using res unfolding onUidStateChanged_def st option.case Let_def case_prod_beta f0
      ne [THEN if_not_P] smap1 [symmetric] f1 f2 m_def [symmetric] p2_alt [symmetric] f3
    by (simp_all add: cb2)
  show "up_inv p'" unfolding p' by (rule up_inv_index [OF inv2])
  show "up_abs p' = (up_abs p)(u \<mapsto> st')"
    unfolding p' by (auto simp: p2_def smap_simps fun_eq_iff)
  have "top_set p' = top_set p2" unfolding p' by (simp add: top_set_def)
  with evs show "evs = (if top_set p \<noteq> top_set p' \<and> mUidPolicyCallback p then [TopUidsChanged (top_set p')] else [])
             @ (if st' = e_importanceGone e \<and> mUidPolicyCallback p then [UidGone u] else [])"
    by simp
qed

lemma onUidStateChanged_ignored:
  "up_abs p u = None \<or> up_abs p u = Some st' \<Longrightarrow> onUidStateChanged e u st' p = (p, [])"
  by (auto simp: onUidStateChanged_def)

section \<open>The interface the session controller relies on\<close>

definition up_monitored :: "uid_policy \<Rightarrow> uid \<Rightarrow> bool" where
  "up_monitored p u \<longleftrightarrow> up_abs p u \<noteq> None"

locale uid_policy_interface =
  fixes ok :: "'p \<Rightarrow> bool"
    and monitored :: "'p \<Rightarrow> uid \<Rightarrow> bool"
    and register :: "env \<Rightarrow> nat \<Rightarrow> uid \<Rightarrow> 'p \<Rightarrow> 'p"
    and unregister :: "uid \<Rightarrow> 'p \<Rightarrow> 'p"
    and onTop :: "'p \<Rightarrow> uid \<Rightarrow> bool"
    and topUids :: "'p \<Rightarrow> uid set option"
  assumes ok_register: "ok p \<Longrightarrow> ok (register e n u p)"
    and ok_unregister: "ok p \<Longrightarrow> ok (unregister u p)"
    and monitored_register:
      "ok p \<Longrightarrow> u \<noteq> OFFLINE_UID \<Longrightarrow> monitored (register e n u p) v \<longleftrightarrow> v = u \<or> monitored p v"
    and monitored_unregister:
      "ok p \<Longrightarrow> monitored (unregister u p) v \<longleftrightarrow> v \<noteq> u \<and> monitored p v"
    and offline_not_monitored: "ok p \<Longrightarrow> \<not> monitored p OFFLINE_UID"
    and top_defined: "ok p \<Longrightarrow> \<exists>us. topUids p = Some us"
    and top_onTop: "ok p \<Longrightarrow> topUids p = Some us \<Longrightarrow> u \<in> us \<longleftrightarrow> onTop p u"
    and top_monitored: "ok p \<Longrightarrow> onTop p u \<Longrightarrow> monitored p u"
begin

lemma top_subset: "ok p \<Longrightarrow> topUids p = Some us \<Longrightarrow> u \<in> us \<Longrightarrow> monitored p u \<and> u \<noteq> OFFLINE_UID"
  using top_onTop top_monitored offline_not_monitored by blast

end

lemma up_inv_offline: "up_inv p \<Longrightarrow> up_abs p OFFLINE_UID = None"
  by (simp add: up_inv_def up_rel_def)

interpretation up: uid_policy_interface
  up_inv up_monitored registerMonitorUid unregisterMonitorUid isUidOnTop getTopUids
proof unfold_locales
  fix p e n and u v :: uid
  assume inv: "up_inv p"
  show "up_monitored (registerMonitorUid e n u p) v \<longleftrightarrow> v = u \<or> up_monitored p v"
    if off: "u \<noteq> OFFLINE_UID"
  proof (cases "up_abs p u")
    case None
    then obtain st where "up_abs (registerMonitorUid e n u p) = (up_abs p)(u \<mapsto> st)"
      using registerMonitorUid_spec(2) [OF inv off] by blast
    then show ?thesis by (simp add: up_monitored_def)
  next
    case (Some st)
    then show ?thesis
      using registerMonitorUid_spec(3) [OF inv, of u] by (auto simp: up_monitored_def)
  qed
next
  fix p :: uid_policy and u us
  assume "up_inv p" "getTopUids p = Some us"
  then show "u \<in> us \<longleftrightarrow> isUidOnTop p u" by (simp add: getTopUids_spec isUidOnTop_spec)
next
  fix p :: uid_policy and u
  assume "up_inv p" "isUidOnTop p u"
  then show "up_monitored p u"
    by (auto simp: isUidOnTop_spec top_uids_spec_def up_monitored_def split: if_splits)
qed (auto simp: registerMonitorUid_spec(1) unregisterMonitorUid_spec up_monitored_def
      getTopUids_spec up_inv_offline)

section \<open>Any sequence of calls\<close>

datatype up_op =
    URegisterSelf bool
  | UUnregisterSelf
  | USetCallback
  | URegister nat uid
  | UUnregister uid
  | UStateChanged uid int

fun up_step :: "env \<Rightarrow> up_op \<Rightarrow> uid_policy \<Rightarrow> uid_policy" where
  "up_step e (URegisterSelf l) p = up_registerSelf e l p"
| "up_step e UUnregisterSelf p = up_unregisterSelf e p"
| "up_step e USetCallback p = up_setCallback p"
| "up_step e (URegister n u) p = registerMonitorUid e n u p"
| "up_step e (UUnregister u) p = unregisterMonitorUid u p"
| "up_step e (UStateChanged u s) p = fst (onUidStateChanged e u s p)"

definition up_run :: "env \<Rightarrow> bool \<Rightarrow> up_op list \<Rightarrow> uid_policy" where
  "up_run e l ops = fold (up_step e) ops (TranscodingUidPolicy e l)"

lemma up_inv_state_changed:
  assumes "up_inv p"
  shows "up_inv (fst (onUidStateChanged e u s p))"
proof -
  obtain p' evs where r: "onUidStateChanged e u s p = (p', evs)" by (cases "onUidStateChanged e u s p")
  show ?thesis
    using assms onUidStateChanged_spec(1) [OF assms _ _ r] onUidStateChanged_ignored [of p u s e] r
    by (cases "up_abs p u"; cases "up_abs p u = Some s"; auto)
qed

lemma up_inv_step: "up_inv p \<Longrightarrow> up_inv (up_step e x p)"
  by (cases x) (simp_all add: up_inv_registration up.ok_register up.ok_unregister up_inv_state_changed)

lemma up_inv_run: "up_inv (up_run e l ops)"
proof -
  have "up_inv p \<Longrightarrow> up_inv (fold (up_step e) ops p)" for p
    by (induction ops arbitrary: p) (simp_all add: up_inv_step)
  then show ?thesis unfolding up_run_def using up_inv_init by blast
qed

text \<open>
  C29: after any sequence of registrations and state changes, \<open>getTopUids\<close> finds its entry and
  returns exactly the monitored uids of the best known importance (none if no importance is known),
  and \<open>isUidOnTop\<close> says whether a uid is one of them.
\<close>

theorem uid_policy_top_uids:
  "getTopUids (up_run e l ops) = Some (top_uids_spec (up_run e l ops)) \<and>
   (\<forall>u. isUidOnTop (up_run e l ops) u \<longleftrightarrow> u \<in> top_uids_spec (up_run e l ops))"
  using getTopUids_spec isUidOnTop_spec up_inv_run by blast

text \<open>
  A state change of a uid that is not monitored, or to the same importance, does nothing;
  any other records the importance of that uid alone, reports the new top uids exactly when their
  set changed, and then that the uid is gone exactly when its importance says so.
\<close>

theorem uid_policy_state_change:
  fixes e l ops
  defines "p \<equiv> up_run e l ops"
  shows "if up_abs p u = None \<or> up_abs p u = Some s then onUidStateChanged e u s p = (p, [])
         else \<exists>p'. up_abs p' = (up_abs p)(u \<mapsto> s) \<and>
           onUidStateChanged e u s p =
             (p', (if top_set p \<noteq> top_set p' \<and> mUidPolicyCallback p then [TopUidsChanged (top_set p')] else [])
                  @ (if s = e_importanceGone e \<and> mUidPolicyCallback p then [UidGone u] else []))"
proof -
  have inv: "up_inv p" unfolding p_def by (rule up_inv_run)
  obtain p' evs where r: "onUidStateChanged e u s p = (p', evs)" by (cases "onUidStateChanged e u s p")
  show ?thesis
  proof (cases "up_abs p u = None \<or> up_abs p u = Some s")
    case True
    then show ?thesis using onUidStateChanged_ignored by simp
  next
    case False
    then obtain t where t: "up_abs p u = Some t" "t \<noteq> s" by auto
    show ?thesis
      using False onUidStateChanged_spec(2,3) [OF inv t r] r by auto
  qed
qed

end
