(* ===== verification/Device_Policies.thy ===== *)
theory Device_Policies
  imports Transcoding_Env
begin

unbundle bit_operations_syntax

text \<open>
  \<^verbatim>\<open>TranscodingResourcePolicy\<close> and \<^verbatim>\<open>TranscodingThermalPolicy\<close>: when codecs taken away from
  the service are available again, and when the device is too hot to transcode.

  Each operation returns the new state and whether it calls the session controller back. The lemmas
  show that a lost codec is reported available at most once, and only for a release by another
  process, and that the thermal callbacks follow the throttling status exactly.
\<close>

section \<open>\<^verbatim>\<open>TranscodingResourcePolicy\<close>\<close>

record resource_policy =
  rp_mRegistered :: bool
  mService :: bool
  mObserver :: bool
  mResourceLostPid :: int
  mResourcePolicyCallback :: bool

datatype observable_type = kInvalid | kVideoSecureCodec | kVideoNonSecureCodec

definition kIdle :: u64 where
  "kIdle = 2"

text \<open>
  \<open>found\<close>: whether the observer service was found; \<open>registered\<close>: whether it took the observer.
\<close>

definition rp_registerSelf :: "bool \<Rightarrow> bool \<Rightarrow> resource_policy \<Rightarrow> resource_policy" where
  "rp_registerSelf found registered p =
     (if rp_mRegistered p then p
      else
        let p = p\<lparr>mService := found\<rparr> in
        if \<not> mService p then p
        else
          let p = p\<lparr>mObserver := True\<rparr> in
          if \<not> registered then p\<lparr>mService := False, mObserver := False\<rparr>
          else p\<lparr>rp_mRegistered := True\<rparr>)"

definition rp_unregisterSelf :: "resource_policy \<Rightarrow> resource_policy ub" where
  "rp_unregisterSelf p =
     (if \<not> rp_mRegistered p then Some p
      else if \<not> mService p then None
      else Some (p\<lparr>mService := False, mObserver := False, rp_mRegistered := False\<rparr>))"

definition TranscodingResourcePolicy :: "bool \<Rightarrow> bool \<Rightarrow> resource_policy" where
  "TranscodingResourcePolicy found registered =
     rp_registerSelf found registered
       \<lparr>rp_mRegistered = False, mService = False, mObserver = False, mResourceLostPid = - 1,
        mResourcePolicyCallback = False\<rparr>"

text \<open>The death of the observer service: \<open>owner\<close> is null only for a null cookie.\<close>

definition rp_BinderDiedCallback :: "resource_policy option \<Rightarrow> resource_policy option ub" where
  "rp_BinderDiedCallback owner =
     (case owner of None \<Rightarrow> Some None | Some p \<Rightarrow> map_option Some (rp_unregisterSelf p))"

definition rp_setCallback :: "resource_policy \<Rightarrow> resource_policy" where
  "rp_setCallback p = p\<lparr>mResourcePolicyCallback := True\<rparr>"

definition setPidResourceLost :: "int \<Rightarrow> resource_policy \<Rightarrow> resource_policy" where
  "setPidResourceLost pid p = p\<lparr>mResourceLostPid := pid\<rparr>"

definition rp_onResourceAvailable :: "int \<Rightarrow> resource_policy \<Rightarrow> resource_policy \<times> bool" where
  "rp_onResourceAvailable pid p =
     (if mResourceLostPid p \<noteq> - 1 \<and> mResourceLostPid p \<noteq> pid
      then (p\<lparr>mResourceLostPid := - 1\<rparr>, mResourcePolicyCallback p)
      else (p, False))"

text \<open>
  The observer: only the types of the observables matter. The log line reads \<open>observables[0]\<close>,
  which is undefined for an empty vector.
\<close>

definition onStatusChanged ::
    "u64 \<Rightarrow> int \<Rightarrow> observable_type list \<Rightarrow> resource_policy \<Rightarrow> (resource_policy \<times> bool) ub" where
  "onStatusChanged event pid observables p =
     (if observables = [] then None
      else if event AND kIdle \<noteq> 0 \<and>
           list_ex (\<lambda>t. t = kVideoSecureCodec \<or> t = kVideoNonSecureCodec) observables
      then Some (rp_onResourceAvailable pid p)
      else Some (p, False))"

definition event_frees_codec :: "u64 \<Rightarrow> observable_type list \<Rightarrow> bool" where
  "event_frees_codec event observables \<longleftrightarrow>
     event AND kIdle \<noteq> 0 \<and> list_ex (\<lambda>t. t = kVideoSecureCodec \<or> t = kVideoNonSecureCodec) observables"

definition rp_inv :: "resource_policy \<Rightarrow> bool" where
  "rp_inv p \<longleftrightarrow> (rp_mRegistered p \<longleftrightarrow> mService p) \<and> (rp_mRegistered p \<longleftrightarrow> mObserver p)"

lemma rp_inv_init: "rp_inv (TranscodingResourcePolicy f r)"
  by (simp add: TranscodingResourcePolicy_def rp_registerSelf_def rp_inv_def Let_def)

lemma rp_inv_ops:
  assumes "rp_inv p"
  shows "rp_inv (rp_registerSelf f r p)"
    and "\<exists>p'. rp_unregisterSelf p = Some p' \<and> rp_inv p' \<and> \<not> rp_mRegistered p'"
    and "rp_inv (rp_setCallback p)" and "rp_inv (setPidResourceLost pid p)"
    and "rp_inv (fst (rp_onResourceAvailable pid p))"
  using assms
  by (auto simp: rp_inv_def rp_registerSelf_def rp_unregisterSelf_def rp_setCallback_def
      setPidResourceLost_def rp_onResourceAvailable_def Let_def)

section \<open>\<^verbatim>\<open>TranscodingThermalPolicy\<close>\<close>

record thermal_policy =
  tp_mRegistered :: bool
  mThermalManager :: bool
  mIsThrottling :: bool
  mThermalPolicyCallback :: bool

definition needThrottling :: "env \<Rightarrow> int \<Rightarrow> bool" where
  "needThrottling e status \<longleftrightarrow> status \<ge> e_thermalSevere e"

text \<open>
  \<open>manager\<close>: whether a thermal manager was acquired; \<open>ret\<close>: the result of registering the
  listener; \<open>status\<close>: the current thermal status.
\<close>

definition tp_registerSelf ::
    "env \<Rightarrow> bool \<Rightarrow> int \<Rightarrow> int \<Rightarrow> thermal_policy \<Rightarrow> thermal_policy" where
  "tp_registerSelf e manager ret status p =
     (if tp_mRegistered p then p
      else if e_api31 e then
        if \<not> manager then p
        else if ret \<noteq> 0 then p
        else p\<lparr>mIsThrottling := needThrottling e status, mThermalManager := True,
                tp_mRegistered := True\<rparr>
      else p\<lparr>tp_mRegistered := True\<rparr>)"

definition tp_unregisterSelf :: "env \<Rightarrow> thermal_policy \<Rightarrow> thermal_policy" where
  "tp_unregisterSelf e p =
     (if \<not> tp_mRegistered p then p
      else
        let p = (if e_api31 e \<and> mThermalManager p then p\<lparr>mThermalManager := False\<rparr> else p)
        in p\<lparr>tp_mRegistered := False\<rparr>)"

definition TranscodingThermalPolicy :: "env \<Rightarrow> bool \<Rightarrow> int \<Rightarrow> int \<Rightarrow> thermal_policy" where
  "TranscodingThermalPolicy e manager ret status =
     tp_registerSelf e manager ret status
       \<lparr>tp_mRegistered = False, mThermalManager = False, mIsThrottling = False,
        mThermalPolicyCallback = False\<rparr>"

definition tp_setCallback :: "thermal_policy \<Rightarrow> thermal_policy" where
  "tp_setCallback p = p\<lparr>mThermalPolicyCallback := True\<rparr>"

definition getThrottlingStatus :: "thermal_policy \<Rightarrow> bool" where
  "getThrottlingStatus p = mIsThrottling p"

datatype thermal_event = ThrottlingStarted | ThrottlingStopped

definition onStatusChange ::
    "env \<Rightarrow> int \<Rightarrow> thermal_policy \<Rightarrow> thermal_policy \<times> thermal_event option" where
  "onStatusChange e status p =
     (let isThrottling = needThrottling e status in
      if isThrottling = mIsThrottling p then (p, None)
      else
        let p = p\<lparr>mIsThrottling := isThrottling\<rparr>
        in (p, if mThermalPolicyCallback p
               then Some (if isThrottling then ThrottlingStarted else ThrottlingStopped)
               else None))"

text \<open>A sequence of status changes: the final state and the callbacks in order.\<close>

fun thermal_run :: "env \<Rightarrow> int list \<Rightarrow> thermal_policy \<Rightarrow> thermal_policy \<times> thermal_event list" where
  "thermal_run e [] p = (p, [])"
| "thermal_run e (s # ss) p =
     (let (p, ev) = onStatusChange e s p; (p, evs) = thermal_run e ss p
      in (p, (case ev of None \<Rightarrow> evs | Some x \<Rightarrow> x # evs)))"

fun alternates :: "bool \<Rightarrow> thermal_event list \<Rightarrow> bool" where
  "alternates throttling [] = True"
| "alternates throttling (x # xs) \<longleftrightarrow>
     x = (if throttling then ThrottlingStopped else ThrottlingStarted)
     \<and> alternates (\<not> throttling) xs"

lemma onStatusChange_throttling: "mIsThrottling (fst (onStatusChange e s p)) = needThrottling e s"
  by (simp add: onStatusChange_def Let_def)

lemma onStatusChange_callback:
  "mThermalPolicyCallback (fst (onStatusChange e s p)) = mThermalPolicyCallback p"
  by (simp add: onStatusChange_def Let_def)

lemma onStatusChange_event:
  "mThermalPolicyCallback p \<Longrightarrow>
   snd (onStatusChange e s p) =
     (if needThrottling e s = mIsThrottling p then None
      else Some (if mIsThrottling p then ThrottlingStopped else ThrottlingStarted))"
  by (auto simp: onStatusChange_def Let_def)

lemma thermal_run_status:
  "mIsThrottling (fst (thermal_run e ss p)) =
     (if ss = [] then mIsThrottling p else needThrottling e (last ss))"
  by (induction ss arbitrary: p)
    (simp_all add: Let_def case_prod_beta onStatusChange_throttling)

lemma thermal_run_alternates:
  "mThermalPolicyCallback p \<Longrightarrow> alternates (mIsThrottling p) (snd (thermal_run e ss p))"
proof (induction ss arbitrary: p)
  case (Cons s ss)
  define p1 where "p1 = fst (onStatusChange e s p)"
  have "alternates (mIsThrottling p1) (snd (thermal_run e ss p1))"
    using Cons by (simp add: p1_def onStatusChange_callback)
  then show ?case
    using Cons.prems
    by (auto simp: Let_def case_prod_beta onStatusChange_event onStatusChange_throttling p1_def
        split: if_splits)
qed simp

lemma thermal_run_parity:
  "mThermalPolicyCallback p \<Longrightarrow>
   mIsThrottling (fst (thermal_run e ss p)) = (mIsThrottling p \<noteq> odd (length (snd (thermal_run e ss p))))"
proof (induction ss arbitrary: p)
  case (Cons s ss)
  then show ?case
    using Cons.IH [of "fst (onStatusChange e s p)"] Cons.prems
    by (auto simp: Let_def case_prod_beta onStatusChange_callback onStatusChange_event
        onStatusChange_throttling split: if_splits)
qed simp

lemma alternates_parity:
  "alternates t evs \<Longrightarrow> evs \<noteq> [] \<Longrightarrow>
   last evs = (if t = odd (length evs) then ThrottlingStopped else ThrottlingStarted)"
  by (induction t evs rule: alternates.induct) (auto split: if_splits)

text \<open>
  for any sequence of thermal status changes after the callback is set, the policy's status is
  that of the last change, and the callbacks alternate starting from the initial status, so the last
  callback always says what the status is.
\<close>

theorem thermal_callbacks_follow_status:
  assumes "mThermalPolicyCallback p"
  shows "mIsThrottling (fst (thermal_run e ss p)) =
           (if ss = [] then mIsThrottling p else needThrottling e (last ss))
         \<and> alternates (mIsThrottling p) (snd (thermal_run e ss p))
         \<and> mIsThrottling (fst (thermal_run e ss p)) =
             (mIsThrottling p \<noteq> odd (length (snd (thermal_run e ss p))))"
  using thermal_run_status thermal_run_alternates [OF assms] thermal_run_parity [OF assms] by blast

theorem thermal_callbacks_follow_status_witness:
  "mIsThrottling (fst (thermal_run sample_env [1, 3, 4, 2]
       (tp_setCallback (TranscodingThermalPolicy sample_env True 0 0)))) = False
   \<and> snd (thermal_run sample_env [1, 3, 4, 2] (tp_setCallback (TranscodingThermalPolicy sample_env True 0 0)))
       = [ThrottlingStarted, ThrottlingStopped]"
  using thermal_callbacks_follow_status [of "tp_setCallback (TranscodingThermalPolicy sample_env True 0 0)"
      sample_env "[1, 3, 4, 2]"]
  by (simp add: tp_setCallback_def TranscodingThermalPolicy_def tp_registerSelf_def sample_env_def
      needThrottling_def onStatusChange_def Let_def)

text \<open>
  a loss of resources by a process is reported available exactly once, by the first
  idle event for a video codec that comes from another process; events of the same process, or of
  no video codec, or that are not idle events, report nothing and keep the loss recorded.
\<close>

theorem resource_available_once:
  assumes "mResourceLostPid p = lost" "lost \<noteq> - 1" "mResourcePolicyCallback p" "obs \<noteq> []"
  shows "\<exists>p'. onStatusChanged ev pid obs p =
           Some (p', event_frees_codec ev obs \<and> pid \<noteq> lost)
         \<and> (if event_frees_codec ev obs \<and> pid \<noteq> lost
            then mResourceLostPid p' = - 1 \<and>
                 (\<forall>ev' pid' obs'. obs' \<noteq> [] \<longrightarrow> onStatusChanged ev' pid' obs' p' = Some (p', False))
            else p' = p)"
  using assms by (auto simp: onStatusChanged_def event_frees_codec_def rp_onResourceAvailable_def)

theorem resource_available_once_witness:
  "\<exists>p'. onStatusChanged kIdle 8 [kVideoSecureCodec]
      (setPidResourceLost 7 (rp_setCallback (TranscodingResourcePolicy True True))) = Some (p', True)
     \<and> mResourceLostPid p' = - 1"
  using resource_available_once [of "setPidResourceLost 7 (rp_setCallback (TranscodingResourcePolicy True True))" 7
      "[kVideoSecureCodec]" kIdle 8]
  by (simp add: setPidResourceLost_def rp_setCallback_def TranscodingResourcePolicy_def rp_registerSelf_def
      event_frees_codec_def kIdle_def Let_def) blast

end
