(* ===== verification/Pacer.thy ===== *)
theory Pacer
  imports Transcoding_Env
begin

text \<open>
  \<^verbatim>\<open>TranscodingSessionController::Pacer\<close>: the burst quota of a uid other uids submit sessions for.

  Times are in nanoseconds, as \<^verbatim>\<open>steady_clock\<close> counts; \<open>runningTime\<close> comes in microseconds.
  The lemmas give the decision of \<open>onSessionStarted\<close> on every branch, and show that being over
  quota is final: the quota test comes before the test of the gap since the last completion, and
  nothing else resets the counts.
\<close>

section \<open>State and operations\<close>

record controller_config =
  watchdogTimeoutUs :: int
  pacerBurstThresholdMs :: int
  pacerBurstCountQuota :: int
  pacerBurstTimeQuotaSeconds :: int

definition default_config :: controller_config where
  "default_config =
     \<lparr>watchdogTimeoutUs = 3000000, pacerBurstThresholdMs = 1000, pacerBurstCountQuota = 10,
      pacerBurstTimeQuotaSeconds = 120\<rparr>"

record uid_history =
  sessionActive :: bool
  burstCount :: int
  burstDuration :: int
  lastCompletedTime :: int

definition fresh_history :: uid_history where
  "fresh_history =
     \<lparr>sessionActive = False, burstCount = 0, burstDuration = 0, lastCompletedTime = 0\<rparr>"

record pacer =
  mBurstThresholdMs :: int
  mBurstCountQuota :: int
  mBurstTimeQuotaSec :: int
  mUidHistoryMap :: "(uid, uid_history) smap"
  mMtpUids :: "uid set"
  mNonMtpUids :: "uid set"

definition Pacer :: "controller_config \<Rightarrow> pacer" where
  "Pacer config =
     \<lparr>mBurstThresholdMs = pacerBurstThresholdMs config,
      mBurstCountQuota = pacerBurstCountQuota config,
      mBurstTimeQuotaSec = pacerBurstTimeQuotaSeconds config,
      mUidHistoryMap = [], mMtpUids = {}, mNonMtpUids = {}\<rparr>"

definition isSubjectToQuota :: "env \<Rightarrow> nat \<Rightarrow> uid \<Rightarrow> uid \<Rightarrow> pacer \<Rightarrow> bool \<times> pacer" where
  "isSubjectToQuota e n u callingUid p =
     (if u = callingUid then (False, p)
      else if u \<in> mMtpUids p then (False, p)
      else if u \<in> mNonMtpUids p then (True, p)
      else if e_api31 e \<and> e_mtpGranted e n u
      then (False, p\<lparr>mMtpUids := insert u (mMtpUids p)\<rparr>)
      else (True, p\<lparr>mNonMtpUids := insert u (mNonMtpUids p)\<rparr>))"

definition over_quota :: "pacer \<Rightarrow> uid_history \<Rightarrow> bool" where
  "over_quota p h \<longleftrightarrow>
     burstCount h \<ge> mBurstCountQuota p \<and> burstDuration h \<ge> mBurstTimeQuotaSec p * 1000000000"

definition onSessionStarted :: "env \<Rightarrow> nat \<Rightarrow> uid \<Rightarrow> uid \<Rightarrow> pacer \<Rightarrow> bool \<times> pacer" where
  "onSessionStarted e n u callingUid p =
     (let (subject, p) = isSubjectToQuota e n u callingUid p in
      if \<not> subject then (True, p)
      else case smap_find (mUidHistoryMap p) u of
        None \<Rightarrow>
          (True, p\<lparr>mUidHistoryMap :=
                     smap_set u (fresh_history\<lparr>sessionActive := True\<rparr>) (mUidHistoryMap p)\<rparr>)
      | Some h \<Rightarrow>
          let timeSinceLastComplete = e_now e n - lastCompletedTime h in
          if over_quota p h then (False, p)
          else
            let h = (if timeSinceLastComplete > mBurstThresholdMs p * 1000000
                     then h\<lparr>burstCount := 0, burstDuration := 0\<rparr> else h)
            in (True, p\<lparr>mUidHistoryMap :=
                          smap_set u (h\<lparr>sessionActive := True\<rparr>) (mUidHistoryMap p)\<rparr>))"

definition onSessionCompleted :: "env \<Rightarrow> nat \<Rightarrow> uid \<Rightarrow> int \<Rightarrow> pacer \<Rightarrow> pacer" where
  "onSessionCompleted e n u runningTime p =
     (case smap_find (mUidHistoryMap p) u of
        None \<Rightarrow> p
      | Some h \<Rightarrow>
          if \<not> sessionActive h then p
          else p\<lparr>mUidHistoryMap :=
                  smap_set u
                    (h\<lparr>sessionActive := False, burstCount := wrap32 (burstCount h + 1),
                       burstDuration := burstDuration h + runningTime * 1000,
                       lastCompletedTime := e_now e n\<rparr>) (mUidHistoryMap p)\<rparr>)"

definition onSessionCancelled :: "uid \<Rightarrow> pacer \<Rightarrow> pacer" where
  "onSessionCancelled u p =
     (case smap_find (mUidHistoryMap p) u of
        None \<Rightarrow> p
      | Some h \<Rightarrow>
          p\<lparr>mUidHistoryMap := smap_set u (h\<lparr>sessionActive := False\<rparr>) (mUidHistoryMap p)\<rparr>)"

text \<open>Any later use of the pacer, as a list of calls with the query number of each.\<close>

datatype pacer_op =
    PStarted nat uid uid
  | PCompleted nat uid int
  | PCancelled uid

fun pacer_step :: "env \<Rightarrow> pacer_op \<Rightarrow> pacer \<Rightarrow> pacer" where
  "pacer_step e (PStarted n u c) p = snd (onSessionStarted e n u c p)"
| "pacer_step e (PCompleted n u t) p = onSessionCompleted e n u t p"
| "pacer_step e (PCancelled u) p = onSessionCancelled u p"

fun pacer_run :: "env \<Rightarrow> pacer_op list \<Rightarrow> pacer \<Rightarrow> pacer" where
  "pacer_run e [] p = p"
| "pacer_run e (x # xs) p = pacer_run e xs (pacer_step e x p)"

section \<open>Decisions\<close>

text \<open>
  A uid the pacer has found to be subject to quota, with no session running and over its quota.
\<close>

definition blocked :: "uid \<Rightarrow> pacer \<Rightarrow> bool" where
  "blocked u p \<longleftrightarrow>
     u \<in> mNonMtpUids p \<and> u \<notin> mMtpUids p
     \<and> (\<exists>h. smap_find (mUidHistoryMap p) u = Some h \<and> over_quota p h \<and> \<not> sessionActive h)"

lemma isSubjectToQuota_frame [simp]:
  "mUidHistoryMap (snd (isSubjectToQuota e n u c p)) = mUidHistoryMap p"
  "mBurstThresholdMs (snd (isSubjectToQuota e n u c p)) = mBurstThresholdMs p"
  "mBurstCountQuota (snd (isSubjectToQuota e n u c p)) = mBurstCountQuota p"
  "mBurstTimeQuotaSec (snd (isSubjectToQuota e n u c p)) = mBurstTimeQuotaSec p"
  by (simp_all add: isSubjectToQuota_def)

lemma isSubjectToQuota_self: "isSubjectToQuota e n u u p = (False, p)"
  by (simp add: isSubjectToQuota_def)

lemma isSubjectToQuota_blocked: "blocked u p \<Longrightarrow> u \<noteq> c \<Longrightarrow> isSubjectToQuota e n u c p = (True, p)"
  by (simp add: isSubjectToQuota_def blocked_def)

lemma isSubjectToQuota_keeps_blocked:
  "blocked u p \<Longrightarrow> blocked u (snd (isSubjectToQuota e n v c p))"
  by (auto simp: isSubjectToQuota_def blocked_def over_quota_def)

lemma blocked_set_other:
  "blocked u p \<Longrightarrow> v \<noteq> u \<Longrightarrow> m = mUidHistoryMap p \<Longrightarrow>
   blocked u (p\<lparr>mUidHistoryMap := smap_set v h m\<rparr>)"
  by (auto simp: blocked_def smap_simps over_quota_def)

lemma onSessionStarted_blocked: "blocked u p \<Longrightarrow> u \<noteq> c \<Longrightarrow> onSessionStarted e n u c p = (False, p)"
  using isSubjectToQuota_blocked [of u p c e n]
  by (auto simp: onSessionStarted_def blocked_def)

lemma blocked_started: "blocked u p \<Longrightarrow> blocked u (snd (onSessionStarted e n v c p))"
proof (cases "v = u")
  case True
  assume "blocked u p"
  with True show ?thesis
    using onSessionStarted_blocked [of u p c e n] isSubjectToQuota_self [of e n u p]
    by (cases "u = c") (auto simp: onSessionStarted_def)
next
  case False
  assume "blocked u p"
  then have "blocked u (snd (isSubjectToQuota e n v c p))"
    by (rule isSubjectToQuota_keeps_blocked)
  with False show ?thesis
    by (auto simp: onSessionStarted_def Let_def case_prod_beta split: option.splits
        intro: blocked_set_other)
qed

lemma blocked_completed: "blocked u p \<Longrightarrow> blocked u (onSessionCompleted e n v t p)"
  by (cases "v = u")
    (auto simp: onSessionCompleted_def blocked_def smap_simps over_quota_def split: option.splits)

lemma blocked_cancelled: "blocked u p \<Longrightarrow> blocked u (onSessionCancelled v p)"
  by (cases "v = u")
    (auto simp: onSessionCancelled_def blocked_def smap_simps over_quota_def split: option.splits)

lemma blocked_run: "blocked u p \<Longrightarrow> blocked u (pacer_run e ops p)"
proof (induction ops arbitrary: p)
  case (Cons x ops)
  then have "blocked u (pacer_step e x p)"
    by (cases x) (simp_all add: blocked_started blocked_completed blocked_cancelled)
  with Cons.IH show ?case by simp
qed simp

text \<open>A uid not over quota is admitted, and its burst is forgotten after a long enough gap.\<close>

lemma onSessionStarted_admitted:
  assumes "smap_find (mUidHistoryMap p) u = Some h" "\<not> over_quota p h"
    and "fst (isSubjectToQuota e n u c p)"
  shows "fst (onSessionStarted e n u c p)"
    and "\<exists>h'. smap_find (mUidHistoryMap (snd (onSessionStarted e n u c p))) u = Some h' \<and>
              sessionActive h' \<and>
              (if e_now e n - lastCompletedTime h > mBurstThresholdMs p * 1000000
               then burstCount h' = 0 \<and> burstDuration h' = 0
               else burstCount h' = burstCount h \<and> burstDuration h' = burstDuration h)"
  using assms
  by (auto simp: onSessionStarted_def case_prod_beta Let_def over_quota_def smap_simps)

text \<open>
  once a uid that is subject to quota is over it with no session active, every further session
  other uids submit for it is refused, whatever time passes and whatever else happens: the quota test
  comes before the test of the gap since the last completion.
\<close>

theorem pacer_over_quota_is_final:
  assumes "blocked u p" "u \<noteq> callingUid"
  shows "onSessionStarted e n u callingUid (pacer_run e ops p) = (False, pacer_run e ops p)"
  using onSessionStarted_blocked [OF blocked_run [OF assms(1)] assms(2)] .

definition demo_pacer :: pacer where
  "demo_pacer =
     pacer_run sample_env [PStarted 0 7 5, PCompleted 1 7 1000000]
       (Pacer (default_config\<lparr>pacerBurstCountQuota := 1, pacerBurstTimeQuotaSeconds := 1\<rparr>))"

theorem pacer_over_quota_is_final_witness:
  "onSessionStarted sample_env 1000000 7 5 (pacer_run sample_env [PCancelled 7] demo_pacer)
     = (False, pacer_run sample_env [PCancelled 7] demo_pacer)"
proof (rule pacer_over_quota_is_final)
  show "blocked 7 demo_pacer" by (simp add: blocked_def demo_pacer_def sample_env_def default_config_def
        Pacer_def onSessionStarted_def isSubjectToQuota_def onSessionCompleted_def over_quota_def fresh_history_def)
qed simp

end
