(* ===== verification/Watchdog.thy ===== *)
theory Watchdog
  imports Transcoding_Env
begin

text \<open>
  \<^verbatim>\<open>TranscodingSessionController::Watchdog\<close>: the timer that reports a running session which has
  not shown a sign of life for the timeout. One turn of the thread's loop is a step that either
  finds nothing to do or reports a timeout and deactivates the watchdog. Times are nanoseconds.
\<close>

record watchdog =
  mTimeoutUs :: int
  mActive :: bool
  mAbort :: bool
  mNextTimeoutTime :: int
  mSessionToWatch :: session_key

definition Watchdog :: "int \<Rightarrow> watchdog" where
  "Watchdog timeoutUs =
     \<lparr>mTimeoutUs = timeoutUs, mActive = False, mAbort = False, mNextTimeoutTime = 0,
      mSessionToWatch = (0, 0)\<rparr>"

definition updateTimer_l :: "int \<Rightarrow> watchdog \<Rightarrow> watchdog" where
  "updateTimer_l now w = w\<lparr>mNextTimeoutTime := now + mTimeoutUs w * 1000\<rparr>"

definition wd_start :: "int \<Rightarrow> session_key \<Rightarrow> watchdog \<Rightarrow> watchdog" where
  "wd_start now key w =
     (if \<not> mActive w then updateTimer_l now (w\<lparr>mActive := True, mSessionToWatch := key\<rparr>) else w)"

definition wd_stop :: "watchdog \<Rightarrow> watchdog" where
  "wd_stop w = (if mActive w then w\<lparr>mActive := False\<rparr> else w)"

definition wd_keepAlive :: "int \<Rightarrow> watchdog \<Rightarrow> watchdog" where
  "wd_keepAlive now w = (if mActive w then updateTimer_l now w else w)"

definition wd_destroy :: "watchdog \<Rightarrow> watchdog" where
  "wd_destroy w = w\<lparr>mAbort := True\<rparr>"

text \<open>
  One turn of the loop at time \<open>now\<close>: the loop ends once aborted, waits while inactive, and
  otherwise waits until the timeout; a wake-up before that changes nothing.
\<close>

definition wd_threadLoop :: "int \<Rightarrow> watchdog \<Rightarrow> watchdog \<times> session_key option" where
  "wd_threadLoop now w =
     (if mAbort w then (w, None)
      else if \<not> mActive w then (w, None)
      else if now \<ge> mNextTimeoutTime w then (w\<lparr>mActive := False\<rparr>, Some (mSessionToWatch w))
      else (w, None))"

lemma wd_simps [simp]:
  "mActive (Watchdog t) = False"
  "mActive (wd_start now k w)"
  "\<not> mActive (wd_stop w)"
  "mActive (wd_keepAlive now w) = mActive w"
  "mSessionToWatch (wd_keepAlive now w) = mSessionToWatch w"
  "mSessionToWatch (wd_stop w) = mSessionToWatch w"
  "mSessionToWatch (wd_start now k w) = (if mActive w then mSessionToWatch w else k)"
  "mTimeoutUs (wd_keepAlive now w) = mTimeoutUs w"
  "mTimeoutUs (wd_start now k w) = mTimeoutUs w"
  "mTimeoutUs (wd_stop w) = mTimeoutUs w"
  by (simp_all add: Watchdog_def wd_start_def wd_stop_def wd_keepAlive_def updateTimer_l_def)

text \<open>
  A session is reported only when it was started or kept alive at \<open>t\<close> and the whole timeout has
  passed since; after a report nothing is reported until the watchdog is started again.
\<close>

lemma wd_timeout_after_keepAlive:
  "mActive w \<Longrightarrow> wd_threadLoop now (wd_keepAlive t w) = (w', Some k) \<Longrightarrow>
   k = mSessionToWatch w \<and> now \<ge> t + mTimeoutUs w * 1000 \<and> \<not> mActive w'"
  by (auto simp: wd_threadLoop_def wd_keepAlive_def updateTimer_l_def split: if_splits)

lemma wd_no_second_report:
  "wd_threadLoop now w = (w', Some k) \<Longrightarrow> wd_threadLoop now' w' = (w', None)"
  by (auto simp: wd_threadLoop_def split: if_splits)

end
