(* ===== verification/Session_Controller.thy ===== *)
theory Session_Controller
  imports Uid_Policy Device_Policies Pacer Watchdog
begin

text \<open>
  \<^verbatim>\<open>TranscodingSessionController\<close>: the state and every operation.

  A pointer to a session is its key: the sessions live in the nodes of a \<^verbatim>\<open>std::map\<close>, which do
  not move. Following a pointer to a session that is no longer in the map, taking the front of an
  empty list and calling through a null pointer are undefined behaviour and give \<open>None\<close>. The
  calls the controller makes (to the transcoder, to the clients' callbacks) are appended to
  \<open>outs\<close>; \<open>envReads\<close> numbers the queries to the environment.
  The iterator \<^verbatim>\<open>mOfflineUidIterator\<close> always denotes the position of the offline uid.
\<close>

section \<open>Data\<close>

datatype session_state =
  INVALID | NOT_STARTED | RUNNING | PAUSED | FINISHED | CANCELED | ERROR | DROPPED_BY_PACER

record session =
  s_key :: session_key
  s_callingUid :: uid
  allClientUids :: "uid set"
  lastProgress :: int
  pauseCount :: int
  stateEnterTime :: int
  waitingTime :: int
  runningTime :: int
  pausedTime :: int
  s_request :: request
  s_callback :: "callback option"
  s_state :: session_state

definition default_request :: request where
  "default_request =
     \<lparr>sourceFilePath = [], destinationFilePath = [], clientUid = - 1, clientPid = - 1,
      clientPackageName = [], req_priority = kUnspecified\<rparr>"

definition default_session :: session where
  "default_session =
     \<lparr>s_key = (0, 0), s_callingUid = 0, allClientUids = {}, lastProgress = 0, pauseCount = 0,
      stateEnterTime = 0, waitingTime = 0, runningTime = 0, pausedTime = 0,
      s_request = default_request, s_callback = None, s_state = INVALID\<rparr>"

datatype ctrl_out =
    TxCreate nat
  | TxStart nat session_key uid
  | TxResume nat session_key uid
  | TxPause nat session_key
  | TxStop nat session_key bool
  | CbStarted callback session_id
  | CbPaused callback session_id
  | CbResumed callback session_id
  | CbFinished callback session_id
  | CbFailed callback session_id error_code
  | CbProgress callback session_id int

record ctrl =
  mConfig :: controller_config
  mSessionMap :: "(session_key, session) smap"
  mSessionQueues :: "(uid, session_key list) smap"
  mUidSortedList :: "uid list"
  mUidPackageNames :: "(uid, string) smap"
  mTranscoder :: "nat option"
  txCount :: nat
  mUidPolicy :: uid_policy
  mResourcePolicy :: "resource_policy option"
  mThermalPolicy :: "thermal_policy option"
  mCurrentSession :: "session_key option"
  mResourceLost :: bool
  mThermalThrottling :: bool
  mSessionHistory :: "session list"
  mWatchdog :: "watchdog option"
  mPacer :: pacer
  envReads :: nat
  outs :: "ctrl_out list"

definition kSessionHistoryMax :: nat where
  "kSessionHistoryMax = 100"

abbreviation session_of :: "ctrl \<Rightarrow> session_key \<Rightarrow> session option" where
  "session_of c k \<equiv> smap_find (mSessionMap c) k"

abbreviation queue_of :: "ctrl \<Rightarrow> uid \<Rightarrow> session_key list option" where
  "queue_of c u \<equiv> smap_find (mSessionQueues c) u"

definition tick :: "ctrl \<Rightarrow> ctrl" where
  "tick c = c\<lparr>envReads := Suc (envReads c)\<rparr>"

definition emit :: "ctrl_out \<Rightarrow> ctrl \<Rightarrow> ctrl" where
  "emit x c = c\<lparr>outs := outs c @ [x]\<rparr>"

text \<open>\<open>callback.lock()\<close>, and the call if the callback is still alive.\<close>

definition callClient :: "env \<Rightarrow> callback option \<Rightarrow> (callback \<Rightarrow> ctrl_out) \<Rightarrow> ctrl \<Rightarrow> ctrl" where
  "callClient e cb out c =
     (case cb of
        None \<Rightarrow> c
      | Some b \<Rightarrow> if e_alive e (envReads c) b then emit (out b) (tick c) else tick c)"

text \<open>A call through \<open>mTranscoder\<close>.\<close>

definition callTranscoder :: "(nat \<Rightarrow> ctrl_out) \<Rightarrow> ctrl \<Rightarrow> ctrl ub" where
  "callTranscoder out c =
     (case mTranscoder c of None \<Rightarrow> None | Some t \<Rightarrow> Some (emit (out t) c))"

section \<open>Construction\<close>

text \<open>The thermal policy is read without a null check.\<close>

definition TranscodingSessionController ::
    "uid_policy \<Rightarrow> resource_policy option \<Rightarrow> thermal_policy option \<Rightarrow> controller_config option
     \<Rightarrow> ctrl ub" where
  "TranscodingSessionController up rp tp config =
     (case tp of
        None \<Rightarrow> None
      | Some t \<Rightarrow>
          let cfg = (case config of None \<Rightarrow> default_config | Some x \<Rightarrow> x) in
          Some \<lparr>mConfig = cfg, mSessionMap = [], mSessionQueues = smap_emplace OFFLINE_UID [] [],
                mUidSortedList = [OFFLINE_UID],
                mUidPackageNames = smap_set OFFLINE_UID ''(offline)'' [],
                mTranscoder = None, txCount = 0, mUidPolicy = up, mResourcePolicy = rp,
                mThermalPolicy = tp, mCurrentSession = None, mResourceLost = False,
                mThermalThrottling = getThrottlingStatus t, mSessionHistory = [],
                mWatchdog = None, mPacer = Pacer cfg, envReads = 0, outs = []\<rparr>)"

section \<open>Choosing the session to run\<close>

definition globallyPaused :: "ctrl \<Rightarrow> bool" where
  "globallyPaused c \<longleftrightarrow>
     (mResourcePolicy c \<noteq> None \<and> mResourceLost c) \<or> (mThermalPolicy c \<noteq> None \<and> mThermalThrottling c)"

definition getTopSession_l :: "ctrl \<Rightarrow> (session_key option \<times> ctrl) ub" where
  "getTopSession_l c =
     (if mSessionMap c = [] then Some (None, c)
      else if globallyPaused c then Some (None, c)
      else case mUidSortedList c of
        [] \<Rightarrow> None
      | topUid # _ \<Rightarrow>
          let fromQueue =
                (let (q, qs) = smap_index [] topUid (mSessionQueues c) in
                 case q of
                   [] \<Rightarrow> None
                 | k # _ \<Rightarrow>
                     let (s, m) = smap_index default_session k (mSessionMap c)
                     in Some (Some k, c\<lparr>mSessionQueues := qs, mSessionMap := m\<rparr>))
          in case mCurrentSession c of
               None \<Rightarrow> fromQueue
             | Some k \<Rightarrow>
                 (case session_of c k of
                    None \<Rightarrow> None
                  | Some s \<Rightarrow>
                      if s_state s = RUNNING \<and> topUid \<in> allClientUids s then Some (Some k, c)
                      else fromQueue))"

definition setState :: "int \<Rightarrow> session_state \<Rightarrow> session \<Rightarrow> session" where
  "setState nowTime newState s =
     (if s_state s = newState then s
      else
        let elapsedTime = (nowTime - stateEnterTime s) sdiv 1000;
            s = (case s_state s of
                   PAUSED \<Rightarrow> s\<lparr>pausedTime := pausedTime s + elapsedTime\<rparr>
                 | RUNNING \<Rightarrow> s\<lparr>runningTime := runningTime s + elapsedTime\<rparr>
                 | NOT_STARTED \<Rightarrow> s\<lparr>waitingTime := waitingTime s + elapsedTime\<rparr>
                 | _ \<Rightarrow> s);
            s = (if newState = PAUSED then s\<lparr>pauseCount := wrap32 (pauseCount s + 1)\<rparr> else s)
        in s\<lparr>stateEnterTime := nowTime, s_state := newState\<rparr>)"

definition setSessionState_l :: "env \<Rightarrow> session_key \<Rightarrow> session_state \<Rightarrow> ctrl \<Rightarrow> ctrl ub" where
  "setSessionState_l e k state c =
     (case session_of c k of
        None \<Rightarrow> None
      | Some s \<Rightarrow>
          let wasRunning = (s_state s = RUNNING);
              s' = setState (e_now e (envReads c)) state s;
              c = tick (c\<lparr>mSessionMap := smap_set k s' (mSessionMap c)\<rparr>);
              isRunning = (s_state s' = RUNNING)
          in if wasRunning = isRunning then Some c
             else case mWatchdog c of
               None \<Rightarrow> None
             | Some w \<Rightarrow>
                 if isRunning
                 then Some (tick (c\<lparr>mWatchdog :=
                                     Some (wd_start (e_now e (envReads c)) (s_key s') w)\<rparr>))
                 else Some (c\<lparr>mWatchdog := Some (wd_stop w)\<rparr>))"

section \<open>Uid queues\<close>

text \<open>
  The loop of \<^verbatim>\<open>moveUidsToTop_l\<close>: \<open>front\<close> holds what was pushed to the front, \<open>skipped\<close>
  the elements the iterator has passed, the list argument the elements still to visit.
\<close>

fun moveUidsLoop ::
    "uid set \<Rightarrow> uid \<Rightarrow> bool \<Rightarrow> uid list \<Rightarrow> uid list \<Rightarrow> bool \<Rightarrow> nat \<Rightarrow> uid list
     \<Rightarrow> uid list \<times> bool" where
  "moveUidsLoop uids cur preserve front skipped pushCur moved [] = (front @ skipped, pushCur)"
| "moveUidsLoop uids cur preserve front skipped pushCur moved (u # rest) =
     (if u \<noteq> OFFLINE_UID \<and> u \<in> uids then
        let keep = (u = cur \<and> preserve);
            pushCur = (pushCur \<or> keep);
            front = (if keep then front else u # front);
            moved = Suc moved
        in if moved = card uids then (front @ skipped @ rest, pushCur)
           else moveUidsLoop uids cur preserve front skipped pushCur moved rest
      else moveUidsLoop uids cur preserve front (skipped @ [u]) pushCur moved rest)"

definition moveUidsToTop_l :: "uid set \<Rightarrow> bool \<Rightarrow> ctrl \<Rightarrow> ctrl ub" where
  "moveUidsToTop_l uids preserveTopUid c =
     (if uids = {} then Some c
      else case mUidSortedList c of
        [] \<Rightarrow> None
      | curTopUid # _ \<Rightarrow>
          let (l, pushCurTopToFront) =
                moveUidsLoop uids curTopUid preserveTopUid [] [] False 0 (mUidSortedList c);
              l = (if pushCurTopToFront then curTopUid # l else l)
          in Some (c\<lparr>mUidSortedList := l\<rparr>))"

definition insertBeforeOffline :: "uid \<Rightarrow> uid list \<Rightarrow> uid list" where
  "insertBeforeOffline u l =
     takeWhile (\<lambda>x. x \<noteq> OFFLINE_UID) l @ [u] @ dropWhile (\<lambda>x. x \<noteq> OFFLINE_UID) l"

text \<open>Appending a session to a uid's queue, which is created where it is missing.\<close>

definition enqueue :: "uid \<Rightarrow> session_key \<Rightarrow> ctrl \<Rightarrow> ctrl" where
  "enqueue u k c =
     (let (q, qs) = smap_index [] u (mSessionQueues c)
      in c\<lparr>mSessionQueues := smap_set u (q @ [k]) qs\<rparr>)"

definition addUidToSession_l :: "env \<Rightarrow> uid \<Rightarrow> session_key \<Rightarrow> ctrl \<Rightarrow> ctrl ub" where
  "addUidToSession_l e u k c =
     (if u = OFFLINE_UID then Some (enqueue u k c)
      else if \<not> smap_count (mSessionQueues c) u then
        let c = tick (c\<lparr>mUidPolicy := registerMonitorUid e (envReads c) u (mUidPolicy c)\<rparr>)
        in if isUidOnTop (mUidPolicy c) u
           then Some (enqueue u k (c\<lparr>mUidSortedList := u # mUidSortedList c\<rparr>))
           else Some (enqueue u k (c\<lparr>mUidSortedList := insertBeforeOffline u (mUidSortedList c)\<rparr>))
      else case mUidSortedList c of
        [] \<Rightarrow> None
      | topUid # _ \<Rightarrow>
          if u \<noteq> topUid \<and> isUidOnTop (mUidPolicy c) u
          then Some (enqueue u k (c\<lparr>mUidSortedList := u # removeAll u (mUidSortedList c)\<rparr>))
          else Some (enqueue u k c))"

section \<open>Removing a session\<close>

text \<open>
  The loop over the client uids of a session. Its state is the controller, whether a uid's queue
  was removed, and the uids that stay.
\<close>

definition removeUidStep ::
    "session_key \<Rightarrow> (uid \<Rightarrow> bool) option \<Rightarrow> uid \<Rightarrow> ctrl \<times> bool \<times> uid set \<Rightarrow> ctrl \<times> bool \<times> uid set"
  where
  "removeUidStep k keepUid u = (\<lambda>(c, uidQueueRemoved, remainingUids).
     if (case keepUid of None \<Rightarrow> False | Some f \<Rightarrow> f u)
     then (c, uidQueueRemoved, insert u remainingUids)
     else
       let c = (if keepUid \<noteq> None then c\<lparr>mPacer := onSessionCancelled u (mPacer c)\<rparr> else c);
           (q, qs) = smap_index [] u (mSessionQueues c);
           c = c\<lparr>mSessionQueues := qs\<rparr>
       in if k \<notin> set q then (c, uidQueueRemoved, remainingUids)
          else
            let q = remove1 k q;
                c = c\<lparr>mSessionQueues := smap_set u q (mSessionQueues c)\<rparr>
            in if u \<noteq> OFFLINE_UID \<and> q = []
               then (c\<lparr>mUidSortedList := removeAll u (mUidSortedList c),
                       mSessionQueues := smap_erase u (mSessionQueues c),
                       mUidPolicy := unregisterMonitorUid u (mUidPolicy c)\<rparr>,
                     True, remainingUids)
               else (c, uidQueueRemoved, remainingUids))"

definition completeUid :: "env \<Rightarrow> int \<Rightarrow> uid \<Rightarrow> ctrl \<Rightarrow> ctrl" where
  "completeUid e t u c =
     tick (c\<lparr>mPacer := onSessionCompleted e (envReads c) u t (mPacer c)\<rparr>)"

definition pushHistory :: "session \<Rightarrow> ctrl \<Rightarrow> ctrl" where
  "pushHistory s c =
     (let h = mSessionHistory c @ [s]
      in c\<lparr>mSessionHistory := (if length h > kSessionHistoryMax then tl h else h)\<rparr>)"

text \<open>What follows when no uid is kept: the session ends.\<close>

definition finishSession :: "env \<Rightarrow> session_key \<Rightarrow> session_state \<Rightarrow> ctrl \<Rightarrow> ctrl ub" where
  "finishSession e k finalState c =
     (let c = (if mCurrentSession c = Some k then c\<lparr>mCurrentSession := None\<rparr> else c)
      in case setSessionState_l e k finalState c of
           None \<Rightarrow> None
         | Some c \<Rightarrow>
             (case session_of c k of
                None \<Rightarrow> None
              | Some s \<Rightarrow>
                  let uids = e_iter e (envReads c) (allClientUids s);
                      c = fold (completeUid e (runningTime s)) uids (tick c);
                      c = pushHistory s c
                  in Some (c\<lparr>mSessionMap := smap_erase k (mSessionMap c)\<rparr>)))"

definition removeSession_l ::
    "env \<Rightarrow> session_key \<Rightarrow> session_state \<Rightarrow> (uid \<Rightarrow> bool) option \<Rightarrow> ctrl \<Rightarrow> ctrl ub" where
  "removeSession_l e k finalState keepUid c =
     (case session_of c k of
        None \<Rightarrow> Some c
      | Some s \<Rightarrow>
          let uids = e_iter e (envReads c) (allClientUids s);
              (c, uidQueueRemoved, remainingUids) =
                fold (removeUidStep k keepUid) uids (tick c, False, {});
              moved = (if uidQueueRemoved
                       then (case getTopUids (mUidPolicy c) of
                               None \<Rightarrow> None
                             | Some topUids \<Rightarrow> moveUidsToTop_l topUids False c)
                       else Some c)
          in case moved of
               None \<Rightarrow> None
             | Some c \<Rightarrow>
                 if keepUid \<noteq> None
                 then Some (c\<lparr>mSessionMap :=
                                smap_set k (s\<lparr>allClientUids := remainingUids\<rparr>) (mSessionMap c)\<rparr>)
                 else finishSession e k finalState c)"

section \<open>Which operations touch the session map\<close>

lemma tick_simps [simp]:
  "mConfig (tick c) = mConfig c" "mSessionMap (tick c) = mSessionMap c"
  "mSessionQueues (tick c) = mSessionQueues c" "mUidSortedList (tick c) = mUidSortedList c"
  "mUidPackageNames (tick c) = mUidPackageNames c" "mTranscoder (tick c) = mTranscoder c"
  "txCount (tick c) = txCount c" "mUidPolicy (tick c) = mUidPolicy c"
  "mResourcePolicy (tick c) = mResourcePolicy c" "mThermalPolicy (tick c) = mThermalPolicy c"
  "mCurrentSession (tick c) = mCurrentSession c" "mResourceLost (tick c) = mResourceLost c"
  "mThermalThrottling (tick c) = mThermalThrottling c"
  "mSessionHistory (tick c) = mSessionHistory c" "mWatchdog (tick c) = mWatchdog c"
  "mPacer (tick c) = mPacer c" "outs (tick c) = outs c"
  by (simp_all add: tick_def)

lemma emit_simps [simp]:
  "mConfig (emit x c) = mConfig c" "mSessionMap (emit x c) = mSessionMap c"
  "mSessionQueues (emit x c) = mSessionQueues c" "mUidSortedList (emit x c) = mUidSortedList c"
  "mUidPackageNames (emit x c) = mUidPackageNames c" "mTranscoder (emit x c) = mTranscoder c"
  "txCount (emit x c) = txCount c" "mUidPolicy (emit x c) = mUidPolicy c"
  "mResourcePolicy (emit x c) = mResourcePolicy c" "mThermalPolicy (emit x c) = mThermalPolicy c"
  "mCurrentSession (emit x c) = mCurrentSession c" "mResourceLost (emit x c) = mResourceLost c"
  "mThermalThrottling (emit x c) = mThermalThrottling c"
  "mSessionHistory (emit x c) = mSessionHistory c" "mWatchdog (emit x c) = mWatchdog c"
  "mPacer (emit x c) = mPacer c" "envReads (emit x c) = envReads c"
  by (simp_all add: emit_def)

text \<open>
  A call to a client or a pacer update leaves everything but the pacer, the query count and the
  recorded calls alone: \<open>ctrl_frame c c'\<close>.
\<close>

definition ctrl_core :: "ctrl \<Rightarrow> ctrl" where
  "ctrl_core c = c\<lparr>mPacer := Pacer default_config, envReads := 0, outs := []\<rparr>"

definition ctrl_frame :: "ctrl \<Rightarrow> ctrl \<Rightarrow> bool" where
  "ctrl_frame c c' \<longleftrightarrow> ctrl_core c' = ctrl_core c"

lemma ctrl_frame_refl [simp]: "ctrl_frame c c"
  by (simp add: ctrl_frame_def)

lemma ctrl_frame_trans: "ctrl_frame a b \<Longrightarrow> ctrl_frame b c \<Longrightarrow> ctrl_frame a c"
  by (simp add: ctrl_frame_def)

lemma ctrl_frame_steps [simp]:
  "ctrl_frame c (tick c)" "ctrl_frame c (emit x c)" "ctrl_frame c (c\<lparr>mPacer := p\<rparr>)"
  by (simp_all add: ctrl_frame_def ctrl_core_def tick_def emit_def)

lemma ctrl_frame_simps:
  assumes "ctrl_frame c c'"
  shows "mConfig c' = mConfig c" "mSessionMap c' = mSessionMap c"
    "mSessionQueues c' = mSessionQueues c" "mUidSortedList c' = mUidSortedList c"
    "mUidPackageNames c' = mUidPackageNames c" "mTranscoder c' = mTranscoder c"
    "txCount c' = txCount c" "mUidPolicy c' = mUidPolicy c"
    "mResourcePolicy c' = mResourcePolicy c" "mThermalPolicy c' = mThermalPolicy c"
    "mCurrentSession c' = mCurrentSession c" "mResourceLost c' = mResourceLost c"
    "mThermalThrottling c' = mThermalThrottling c"
    "mSessionHistory c' = mSessionHistory c" "mWatchdog c' = mWatchdog c"
  using assms unfolding ctrl_frame_def ctrl_core_def by (cases c; cases c'; simp)+

lemma callClient_frame [simp]: "ctrl_frame c (callClient e cb out c)"
  unfolding callClient_def
  by (auto split: option.split intro: ctrl_frame_trans [of c "tick c"])

lemma callTranscoder_frame: "callTranscoder out c = Some c' \<Longrightarrow> ctrl_frame c c'"
  by (auto simp: callTranscoder_def split: option.splits)

lemma fold_completeUid_frame [simp]: "ctrl_frame c (fold (completeUid e t) us c)"
proof (induction us arbitrary: c)
  case (Cons u us)
  have "ctrl_frame c (completeUid e t u c)"
    unfolding completeUid_def by (rule ctrl_frame_trans [OF ctrl_frame_steps(3) ctrl_frame_steps(1)])
  with Cons.IH [of "completeUid e t u c"] show ?case by (auto intro: ctrl_frame_trans)
qed simp

lemmas callClient_simps [simp] = ctrl_frame_simps [OF callClient_frame]
lemmas fold_completeUid_simps [simp] = ctrl_frame_simps [OF fold_completeUid_frame]

lemma moveUidsToTop_l_only_list:
  "moveUidsToTop_l us pr c = Some c' \<Longrightarrow> \<exists>l. c' = c\<lparr>mUidSortedList := l\<rparr>"
  by (cases c) (auto simp: moveUidsToTop_l_def Let_def case_prod_beta split: if_splits list.splits)

lemma removeUidStep_map [simp]:
  "mSessionMap (fst (removeUidStep k ku u cr)) = mSessionMap (fst cr)"
  by (auto simp: removeUidStep_def Let_def case_prod_beta)

lemma fold_removeUidStep_map [simp]:
  "mSessionMap (fst (fold (removeUidStep k ku) us cr)) = mSessionMap (fst cr)"
  by (induction us arbitrary: cr) auto

lemma setSessionState_l_keys:
  "setSessionState_l e k st c = Some c' \<Longrightarrow>
   set (smap_keys (mSessionMap c')) = set (smap_keys (mSessionMap c)) \<and> session_of c k \<noteq> None"
  by (auto simp: setSessionState_l_def Let_def sm.keys_assign insert_absorb smap_keys_find
      split: option.splits if_splits)

lemma finishSession_keys:
  "finishSession e k st c = Some c' \<Longrightarrow>
   set (smap_keys (mSessionMap c')) = set (smap_keys (mSessionMap c)) - {k}"
proof -
  assume fin: "finishSession e k st c = Some c'"
  obtain c1 where st: "setSessionState_l e k st
      (if mCurrentSession c = Some k then c\<lparr>mCurrentSession := None\<rparr> else c) = Some c1"
    using fin by (auto simp: finishSession_def Let_def split: option.splits)
  have "mSessionMap c' = smap_erase k (mSessionMap c1)"
    using fin st fold_completeUid_frame [THEN ctrl_frame_simps(2)]
    by (auto simp: finishSession_def Let_def pushHistory_def split: option.splits)
  with setSessionState_l_keys [OF st] show ?thesis
    by (simp add: sm.keys_erase split: if_splits)
qed

lemma removeSession_l_keys:
  assumes "removeSession_l e k st None c = Some c'" "session_of c k \<noteq> None"
  shows "set (smap_keys (mSessionMap c')) = set (smap_keys (mSessionMap c)) - {k}"
proof -
  obtain s where s: "session_of c k = Some s" using assms by blast
  define r where "r = fold (removeUidStep k None) (e_iter e (envReads c) (allClientUids s)) (tick c, False, {})"
  have r: "mSessionMap (fst r) = mSessionMap c" by (simp add: r_def)
  obtain c1 where c1: "finishSession e k st c1 = Some c'" "mSessionMap c1 = mSessionMap (fst r)"
    using assms(1) s
    by (fastforce simp: removeSession_l_def Let_def case_prod_beta r_def [symmetric]
        dest: moveUidsToTop_l_only_list split: if_splits option.splits)
  with finishSession_keys [OF c1(1)] r show ?thesis by simp
qed

end
