(* ===== verification/Session_Handlers.thy ===== *)
theory Session_Handlers
  imports Session_Controller
begin

text \<open>
  \<^verbatim>\<open>TranscodingSessionController\<close>, continued: the loop that brings the right session to run, the
  calls of the clients, the callbacks of the transcoder and of the policies, and the debug check
  \<^verbatim>\<open>validateState_l\<close>. The loop terminates because every turn that continues drops a session.
\<close>

section \<open>The scheduling loop\<close>

definition ensureTranscoder :: "ctrl \<Rightarrow> ctrl" where
  "ensureTranscoder c =
     (if mTranscoder c = None
      then emit (TxCreate (txCount c))
             (c\<lparr>mTranscoder := Some (txCount c), txCount := Suc (txCount c),
                mWatchdog := Some (Watchdog (watchdogTimeoutUs (mConfig c)))\<rparr>)
      else c)"

definition pauseCurrent :: "env \<Rightarrow> session_key option \<Rightarrow> ctrl \<Rightarrow> ctrl ub" where
  "pauseCurrent e cur c =
     (case cur of
        None \<Rightarrow> Some c
      | Some k \<Rightarrow>
          (case session_of c k of
             None \<Rightarrow> None
           | Some s \<Rightarrow>
               if s_state s = RUNNING
               then (case callTranscoder (\<lambda>t. TxPause t (s_key s)) c of
                       None \<Rightarrow> None
                     | Some c \<Rightarrow> setSessionState_l e k PAUSED c)
               else Some c))"

text \<open>
  The pacer is asked for every uid, also after one was admitted, for its book-keeping.
\<close>

definition admitUid :: "env \<Rightarrow> uid \<Rightarrow> uid \<Rightarrow> bool \<times> ctrl \<Rightarrow> bool \<times> ctrl" where
  "admitUid e callingUid u = (\<lambda>(keepForClient, c).
     let (ok, p) = onSessionStarted e (envReads c) u callingUid (mPacer c)
     in (keepForClient \<or> ok, tick (c\<lparr>mPacer := p\<rparr>)))"

definition admitSession :: "env \<Rightarrow> session \<Rightarrow> ctrl \<Rightarrow> bool \<times> ctrl" where
  "admitSession e s c =
     fold (admitUid e (s_callingUid s)) (e_iter e (envReads c) (allClientUids s)) (False, tick c)"

definition dropSession :: "env \<Rightarrow> session \<Rightarrow> session_key \<Rightarrow> ctrl \<Rightarrow> ctrl ub" where
  "dropSession e s k c =
     removeSession_l e k DROPPED_BY_PACER None
       (callClient e (s_callback s) (\<lambda>b. CbFailed b (snd k) kDroppedByService) c)"

text \<open>Starting or resuming the top session: a call to the transcoder, then the new state.\<close>

definition runSession :: "env \<Rightarrow> (nat \<Rightarrow> ctrl_out) \<Rightarrow> session_key \<Rightarrow> ctrl \<Rightarrow> ctrl ub" where
  "runSession e out k c =
     (case callTranscoder out c of
        None \<Rightarrow> None
      | Some c \<Rightarrow> setSessionState_l e k RUNNING c)"

lemma fold_admitUid_frame: "ctrl_frame (snd bc) (snd (fold (admitUid e cu) us bc))"
proof (induction us arbitrary: bc)
  case (Cons u us)
  have "ctrl_frame (snd bc) (snd (admitUid e cu u bc))"
    unfolding admitUid_def
    by (auto simp: case_prod_beta Let_def
        intro: ctrl_frame_trans [OF ctrl_frame_steps(3) ctrl_frame_steps(1)])
  with Cons.IH [of "admitUid e cu u bc"] show ?case by (auto intro: ctrl_frame_trans)
qed simp

lemma admitSession_frame: "ctrl_frame c (snd (admitSession e s c))"
  using fold_admitUid_frame [of "(False, tick c)" e]
  by (auto simp: admitSession_def intro: ctrl_frame_trans [of c "tick c"])

lemma dropSession_keys:
  assumes "dropSession e s k c = Some c'" "session_of c k \<noteq> None"
  shows "set (smap_keys (mSessionMap c')) = set (smap_keys (mSessionMap c)) - {k}"
  using removeSession_l_keys [OF assms(1) [unfolded dropSession_def]] assms(2) by simp

lemma snd_index_keys: "set (smap_keys (snd (smap_index d k m))) = insert k (set (smap_keys m))"
  by (simp add: smap_index_def sm.keys_assign insert_absorb smap_keys_find split: option.split)

lemma getTopSession_l_keys:
  assumes "getTopSession_l c = Some (Some k, c1)"
  shows "session_of c1 k \<noteq> None"
    and "set (smap_keys (mSessionMap c1)) = insert k (set (smap_keys (mSessionMap c)))"
    and "session_of c k = None \<Longrightarrow> session_of c1 k = Some default_session"
proof -
  have "mSessionMap c1 = snd (smap_index default_session k (mSessionMap c))"
    using assms
    by (auto simp: getTopSession_l_def Let_def case_prod_beta split: if_splits list.splits option.splits)
  then show "session_of c1 k \<noteq> None"
    and "set (smap_keys (mSessionMap c1)) = insert k (set (smap_keys (mSessionMap c)))"
    and "session_of c k = None \<Longrightarrow> session_of c1 k = Some default_session"
    by (simp_all add: smap_simps snd_index_keys)
qed

text \<open>Pausing either does nothing or calls the transcoder and sets the state.\<close>

lemma pauseCurrent_cases:
  assumes "pauseCurrent e cur c = Some c'"
  obtains "c' = c"
  | j c1 where "cur = Some j" "map_option s_state (session_of c j) = Some RUNNING"
      "ctrl_frame c c1" "setSessionState_l e j PAUSED c1 = Some c'"
  using assms callTranscoder_frame
  unfolding pauseCurrent_def by (fastforce split: option.splits if_splits)

lemma pauseCurrent_keys:
  assumes "pauseCurrent e cur c = Some c'"
  shows "set (smap_keys (mSessionMap c')) = set (smap_keys (mSessionMap c))"
  using assms by (cases rule: pauseCurrent_cases)
    (simp_all add: setSessionState_l_keys ctrl_frame_simps)

lemma setSessionState_l_state:
  assumes "setSessionState_l e k st c = Some c'"
  shows "map_option s_state (session_of c' j) =
         (if j = k then Some st else map_option s_state (session_of c j))"
  using assms
  by (auto simp: setSessionState_l_def Let_def setState_def smap_simps
      split: option.splits if_splits session_state.splits)

lemma pauseCurrent_not_started:
  assumes "pauseCurrent e cur c = Some c'" "session_of c' k = Some s" "s_state s = NOT_STARTED"
  shows "map_option s_state (session_of c k) = Some NOT_STARTED"
  using assms(1)
proof (cases rule: pauseCurrent_cases)
  case (2 j c1)
  then show ?thesis
    using setSessionState_l_state [of e j PAUSED c1 c' k] assms(2,3) ctrl_frame_simps(2) [of c c1]
    by (auto split: if_splits)
qed (use assms in simp)

text \<open>
  One turn of the loop: the top session is determined anew; the loop ends when it is the current
  one and runs. Only a dropped session makes it go round again.
\<close>

function updateLoop ::
    "env \<Rightarrow> session_key option \<Rightarrow> ctrl \<Rightarrow> (session_key option \<times> ctrl) ub" where
  "updateLoop e cur c =
     (case getTopSession_l c of
        None \<Rightarrow> None
      | Some (topSession, c1) \<Rightarrow>
          let running = (case topSession of
                           None \<Rightarrow> True
                         | Some k \<Rightarrow> map_option s_state (session_of c1 k) = Some RUNNING)
          in if topSession = cur \<and> running then Some (topSession, c1)
          else case pauseCurrent e cur c1 of
            None \<Rightarrow> None
          | Some c2 \<Rightarrow>
              (case topSession of
                 None \<Rightarrow> Some (None, c2)
               | Some k \<Rightarrow>
                   (case session_of c2 k of
                      None \<Rightarrow> None
                    | Some s \<Rightarrow>
                        if s_state s = NOT_STARTED then
                          let (keepForClient, c3) = admitSession e s c2
                          in if \<not> keepForClient
                             then (case dropSession e s k c3 of
                                     None \<Rightarrow> None
                                   | Some c4 \<Rightarrow> updateLoop e cur c4)
                             else map_option (Pair (Some k))
                                    (runSession e (\<lambda>t. TxStart t (s_key s) (s_callingUid s)) k c3)
                        else if s_state s = PAUSED
                        then map_option (Pair (Some k))
                               (runSession e (\<lambda>t. TxResume t (s_key s) (s_callingUid s)) k c2)
                        else Some (Some k, c2))))"
  by pat_completeness auto
termination
proof (relation "measure (\<lambda>(e, cur, c). card (set (smap_keys (mSessionMap c))))", goal_cases)
  case (2 e cur c tc topSession c1 r c2 k s ac keep c3 c4)
  have top: "getTopSession_l c = Some (Some k, c1)" using 2 by simp
  have s: "session_of c2 k = Some s" and ns: "s_state s = NOT_STARTED" using 2 by simp_all
  have m3: "mSessionMap c3 = mSessionMap c2"
    using ctrl_frame_simps(2) [OF admitSession_frame, of e s c2] 2 by (metis snd_conv)
  have "map_option s_state (session_of c1 k) = Some NOT_STARTED"
    using pauseCurrent_not_started [of e cur c1 c2 k s] 2 by simp
  then have "session_of c k \<noteq> None"
    using getTopSession_l_keys(3) [OF top] by (cases "session_of c k") (simp_all add: default_session_def)
  then have "set (smap_keys (mSessionMap c1)) = set (smap_keys (mSessionMap c))"
    using getTopSession_l_keys(2) [OF top] by (simp add: insert_absorb smap_keys_find)
  then have eq: "set (smap_keys (mSessionMap c3)) = set (smap_keys (mSessionMap c))"
    using pauseCurrent_keys [of e cur c1 c2] 2 m3 by simp
  have "set (smap_keys (mSessionMap c4)) = set (smap_keys (mSessionMap c)) - {k}"
    using dropSession_keys [of e s k c3 c4] 2 s m3 eq by simp
  moreover have "k \<in> set (smap_keys (mSessionMap c))" using \<open>session_of c k \<noteq> None\<close>
    by (simp add: smap_keys_find)
  ultimately have "card (set (smap_keys (mSessionMap c4))) < card (set (smap_keys (mSessionMap c)))"
    by (metis List.finite_set card_Diff1_less)
  then show ?case by simp
qed simp

declare updateLoop.simps [simp del]

definition updateCurrentSession_l :: "env \<Rightarrow> ctrl \<Rightarrow> ctrl ub" where
  "updateCurrentSession_l e c =
     (case updateLoop e (mCurrentSession c) (ensureTranscoder c) of
        None \<Rightarrow> None
      | Some (topSession, c') \<Rightarrow> Some (c'\<lparr>mCurrentSession := topSession\<rparr>))"

section \<open>Calls of the clients\<close>

definition submit ::
    "env \<Rightarrow> client_id \<Rightarrow> session_id \<Rightarrow> uid \<Rightarrow> uid \<Rightarrow> request \<Rightarrow> callback option \<Rightarrow> ctrl
     \<Rightarrow> (bool \<times> ctrl) ub" where
  "submit e clientId sessionId callingUid cUid request cb c =
     (let sessionKey = (clientId, sessionId) in
      if smap_count (mSessionMap c) sessionKey then Some (False, c)
      else
        let c = c\<lparr>mUidPackageNames :=
                    smap_emplace cUid (clientPackageName request) (mUidPackageNames c)\<rparr>;
            cUid = (if req_priority request = kUnspecified then OFFLINE_UID else cUid);
            s = default_session
                  \<lparr>s_key := sessionKey, s_callingUid := callingUid, allClientUids := {cUid},
                   s_request := request, s_callback := cb\<rparr>;
            c = c\<lparr>mSessionMap := smap_set sessionKey s (mSessionMap c)\<rparr>
        in case setSessionState_l e sessionKey NOT_STARTED c of
             None \<Rightarrow> None
           | Some c \<Rightarrow>
               (case addUidToSession_l e cUid sessionKey c of
                  None \<Rightarrow> None
                | Some c \<Rightarrow> map_option (Pair True) (updateCurrentSession_l e c)))"

text \<open>
  Removing one session of \<open>cancel\<close> and \<open>onUidGone\<close>: the transcoder is told to discard a
  session that was ever started.
\<close>

definition stopSession :: "session_key \<Rightarrow> ctrl \<Rightarrow> (session \<times> ctrl) ub" where
  "stopSession k c =
     (let (s, m) = smap_index default_session k (mSessionMap c);
          c = c\<lparr>mSessionMap := m\<rparr>
      in if s_state s \<noteq> NOT_STARTED
         then map_option (Pair s) (callTranscoder (\<lambda>t. TxStop t k False) c)
         else Some (s, c))"

definition cancelOne :: "env \<Rightarrow> session_key \<Rightarrow> ctrl \<Rightarrow> ctrl ub" where
  "cancelOne e k c =
     (case stopSession k c of
        None \<Rightarrow> None
      | Some (s, c) \<Rightarrow> removeSession_l e k CANCELED None c)"

definition cancel :: "env \<Rightarrow> client_id \<Rightarrow> session_id \<Rightarrow> ctrl \<Rightarrow> (bool \<times> ctrl) ub" where
  "cancel e clientId sessionId c =
     (let sessionKey = (clientId, sessionId);
          mine = filter (\<lambda>(k, s). fst k = clientId) (mSessionMap c);
          (sessionsToRemove, sessionsForOffline) =
            (if sessionId < 0
             then (map fst (filter (\<lambda>(k, s). OFFLINE_UID \<notin> allClientUids s) mine),
                   map fst (filter (\<lambda>(k, s). OFFLINE_UID \<in> allClientUids s) mine))
             else ([sessionKey], []))
      in if \<not> sessionId < 0 \<and> \<not> smap_count (mSessionMap c) sessionKey then Some (False, c)
         else case foldM (cancelOne e) sessionsToRemove c of
           None \<Rightarrow> None
         | Some c \<Rightarrow>
             (case foldM (\<lambda>k. removeSession_l e k CANCELED (Some (\<lambda>u. u = OFFLINE_UID)))
                     sessionsForOffline c of
                None \<Rightarrow> None
              | Some c \<Rightarrow> map_option (Pair True) (updateCurrentSession_l e c)))"

definition addClientUid ::
    "env \<Rightarrow> client_id \<Rightarrow> session_id \<Rightarrow> uid \<Rightarrow> ctrl \<Rightarrow> (bool \<times> ctrl) ub" where
  "addClientUid e clientId sessionId cUid c =
     (let sessionKey = (clientId, sessionId) in
      case session_of c sessionKey of
        None \<Rightarrow> Some (False, c)
      | Some s \<Rightarrow>
          if cUid \<in> allClientUids s then Some (False, c)
          else
            let c = c\<lparr>mSessionMap :=
                        smap_set sessionKey (s\<lparr>allClientUids := insert cUid (allClientUids s)\<rparr>)
                          (mSessionMap c)\<rparr>
            in case addUidToSession_l e cUid sessionKey c of
                 None \<Rightarrow> None
               | Some c \<Rightarrow> map_option (Pair True) (updateCurrentSession_l e c))"

text \<open>The client uids as \<^verbatim>\<open>int32_t\<close>s; \<open>None\<close> for an unknown session.\<close>

definition getClientUids :: "env \<Rightarrow> client_id \<Rightarrow> session_id \<Rightarrow> ctrl \<Rightarrow> int list option" where
  "getClientUids e clientId sessionId c =
     (case session_of c (clientId, sessionId) of
        None \<Rightarrow> None
      | Some s \<Rightarrow>
          Some (map (\<lambda>u. wrap32 (uint u))
            (filter (\<lambda>u. u \<noteq> OFFLINE_UID) (e_iter e (envReads c) (allClientUids s)))))"

definition getSession :: "client_id \<Rightarrow> session_id \<Rightarrow> ctrl \<Rightarrow> request option" where
  "getSession clientId sessionId c =
     map_option s_request (session_of c (clientId, sessionId))"

section \<open>Callbacks of the transcoder\<close>

definition notifyClient ::
    "client_id \<Rightarrow> session_id \<Rightarrow> (session_key \<Rightarrow> session \<Rightarrow> ctrl \<Rightarrow> ctrl ub) \<Rightarrow> ctrl \<Rightarrow> ctrl ub" where
  "notifyClient clientId sessionId func c =
     (let sessionKey = (clientId, sessionId) in
      case session_of c sessionKey of
        None \<Rightarrow> Some c
      | Some s \<Rightarrow>
          if s_state s = NOT_STARTED then Some c
          else func sessionKey s c)"

definition onStarted :: "env \<Rightarrow> client_id \<Rightarrow> session_id \<Rightarrow> ctrl \<Rightarrow> ctrl ub" where
  "onStarted e clientId sessionId =
     notifyClient clientId sessionId
       (\<lambda>k s c. Some (callClient e (s_callback s) (\<lambda>b. CbStarted b sessionId) c))"

definition onPaused :: "env \<Rightarrow> client_id \<Rightarrow> session_id \<Rightarrow> ctrl \<Rightarrow> ctrl ub" where
  "onPaused e clientId sessionId =
     notifyClient clientId sessionId
       (\<lambda>k s c. Some (callClient e (s_callback s) (\<lambda>b. CbPaused b sessionId) c))"

definition onResumed :: "env \<Rightarrow> client_id \<Rightarrow> session_id \<Rightarrow> ctrl \<Rightarrow> ctrl ub" where
  "onResumed e clientId sessionId =
     notifyClient clientId sessionId
       (\<lambda>k s c. Some (callClient e (s_callback s) (\<lambda>b. CbResumed b sessionId) c))"

definition onFinish :: "env \<Rightarrow> client_id \<Rightarrow> session_id \<Rightarrow> ctrl \<Rightarrow> ctrl ub" where
  "onFinish e clientId sessionId =
     notifyClient clientId sessionId
       (\<lambda>k s c.
          let c = callClient e (s_callback s) (\<lambda>b. CbFinished b sessionId) c
          in case removeSession_l e k FINISHED None c of
               None \<Rightarrow> None
             | Some c \<Rightarrow> updateCurrentSession_l e c)"

text \<open>Abandoning the transcoder: stop it, forget it, and create a new one.\<close>

definition abandonTranscoder :: "session_key \<Rightarrow> ctrl \<Rightarrow> ctrl ub" where
  "abandonTranscoder k c =
     (case callTranscoder (\<lambda>t. TxStop t k True) c of
        None \<Rightarrow> None
      | Some c \<Rightarrow>
          Some (emit (TxCreate (txCount c))
                  (c\<lparr>mTranscoder := Some (txCount c), txCount := Suc (txCount c)\<rparr>)))"

definition onError ::
    "env \<Rightarrow> client_id \<Rightarrow> session_id \<Rightarrow> error_code \<Rightarrow> ctrl \<Rightarrow> ctrl ub" where
  "onError e clientId sessionId err =
     notifyClient clientId sessionId
       (\<lambda>k s c.
          case (if err = kWatchdogTimeout then abandonTranscoder k c else Some c) of
            None \<Rightarrow> None
          | Some c \<Rightarrow>
              let c = callClient e (s_callback s) (\<lambda>b. CbFailed b sessionId err) c
              in case removeSession_l e k ERROR None c of
                   None \<Rightarrow> None
                 | Some c \<Rightarrow> updateCurrentSession_l e c)"

definition onProgressUpdate :: "env \<Rightarrow> client_id \<Rightarrow> session_id \<Rightarrow> int \<Rightarrow> ctrl \<Rightarrow> ctrl ub" where
  "onProgressUpdate e clientId sessionId progress =
     notifyClient clientId sessionId
       (\<lambda>k s c.
          let c = callClient e (s_callback s) (\<lambda>b. CbProgress b sessionId progress) c
          in Some (c\<lparr>mSessionMap := smap_set k (s\<lparr>lastProgress := progress\<rparr>) (mSessionMap c)\<rparr>))"

definition onHeartBeat :: "env \<Rightarrow> client_id \<Rightarrow> session_id \<Rightarrow> ctrl \<Rightarrow> ctrl ub" where
  "onHeartBeat e clientId sessionId =
     notifyClient clientId sessionId
       (\<lambda>k s c. case mWatchdog c of
          None \<Rightarrow> None
        | Some w \<Rightarrow>
            Some (tick (c\<lparr>mWatchdog := Some (wd_keepAlive (e_now e (envReads c)) w)\<rparr>)))"

definition onResourceLost :: "env \<Rightarrow> client_id \<Rightarrow> session_id \<Rightarrow> ctrl \<Rightarrow> ctrl ub" where
  "onResourceLost e clientId sessionId =
     notifyClient clientId sessionId
       (\<lambda>k s c.
          if mResourceLost c then Some c
          else if s_state s \<noteq> RUNNING then Some c
          else case setSessionState_l e k PAUSED c of
            None \<Rightarrow> None
          | Some c \<Rightarrow>
              let c = callClient e (s_callback s) (\<lambda>b. CbPaused b (snd k)) c;
                  c = c\<lparr>mResourcePolicy :=
                          map_option (setPidResourceLost (clientPid (s_request s)))
                            (mResourcePolicy c)\<rparr>
              in Some (c\<lparr>mResourceLost := True\<rparr>))"

section \<open>Callbacks of the policies\<close>

definition onTopUidsChanged :: "env \<Rightarrow> uid set \<Rightarrow> ctrl \<Rightarrow> ctrl ub" where
  "onTopUidsChanged e uids c =
     (if uids = {} then Some c
      else case moveUidsToTop_l uids True c of
        None \<Rightarrow> None
      | Some c \<Rightarrow> updateCurrentSession_l e c)"

definition goneOne :: "env \<Rightarrow> session_key \<Rightarrow> ctrl \<Rightarrow> ctrl ub" where
  "goneOne e k c =
     (case stopSession k c of
        None \<Rightarrow> None
      | Some (s, c) \<Rightarrow>
          removeSession_l e k CANCELED None
            (callClient e (s_callback s) (\<lambda>b. CbFailed b (snd k) kUidGoneCancelled) c))"

definition onUidGone :: "env \<Rightarrow> uid \<Rightarrow> ctrl \<Rightarrow> ctrl ub" where
  "onUidGone e goneUid c =
     (let mine = filter (\<lambda>(k, s). goneUid \<in> allClientUids s) (mSessionMap c);
          sessionsForOtherUids = map fst (filter (\<lambda>(k, s). card (allClientUids s) > 1) mine);
          sessionsToRemove = map fst (filter (\<lambda>(k, s). \<not> card (allClientUids s) > 1) mine)
      in case foldM (goneOne e) sessionsToRemove c of
           None \<Rightarrow> None
         | Some c \<Rightarrow>
             (case foldM (\<lambda>k. removeSession_l e k CANCELED (Some (\<lambda>u. u \<noteq> goneUid)))
                     sessionsForOtherUids c of
                None \<Rightarrow> None
              | Some c \<Rightarrow> updateCurrentSession_l e c))"

definition onResourceAvailable :: "env \<Rightarrow> ctrl \<Rightarrow> ctrl ub" where
  "onResourceAvailable e c =
     (if \<not> mResourceLost c then Some c
      else updateCurrentSession_l e (c\<lparr>mResourceLost := False\<rparr>))"

definition onThrottlingStarted :: "env \<Rightarrow> ctrl \<Rightarrow> ctrl ub" where
  "onThrottlingStarted e c =
     (if mThermalThrottling c then Some c
      else updateCurrentSession_l e (c\<lparr>mThermalThrottling := True\<rparr>))"

definition onThrottlingStopped :: "env \<Rightarrow> ctrl \<Rightarrow> ctrl ub" where
  "onThrottlingStopped e c =
     (if \<not> mThermalThrottling c then Some c
      else updateCurrentSession_l e (c\<lparr>mThermalThrottling := False\<rparr>))"

section \<open>The debug check\<close>

text \<open>\<open>False\<close>: one of the assertions of \<^verbatim>\<open>validateState_l\<close> aborts the service.\<close>

definition validateState_l :: "ctrl \<Rightarrow> bool" where
  "validateState_l c \<longleftrightarrow>
     smap_count (mSessionQueues c) OFFLINE_UID
     \<and> OFFLINE_UID \<in> set (mUidSortedList c)
     \<and> length (mUidSortedList c) = length (mSessionQueues c)
     \<and> list_all (\<lambda>u. case queue_of c u of
                        None \<Rightarrow> False
                      | Some q \<Rightarrow> list_all (smap_count (mSessionMap c)) q) (mUidSortedList c)
     \<and> wrap32 (\<Sum>u\<leftarrow>mUidSortedList c.
                 case queue_of c u of None \<Rightarrow> 0 | Some q \<Rightarrow> int (length q))
       = wrap32 (\<Sum>(k, s)\<leftarrow>mSessionMap c. int (card (allClientUids s)))"

section \<open>The controller as a state machine\<close>

text \<open>
  Everything that can happen to the controller, under its lock, in any order: the calls above, a
  turn of the watchdog thread, a change of the uid policy's state and the registration of its
  listener. The uid policy's callbacks are separate events, since other calls may come between a
  change and its callback.
\<close>

datatype ctrl_event =
    EvSubmit client_id session_id uid uid request "callback option"
  | EvCancel client_id session_id
  | EvAddClientUid client_id session_id uid
  | EvStarted client_id session_id
  | EvPaused client_id session_id
  | EvResumed client_id session_id
  | EvFinish client_id session_id
  | EvError client_id session_id error_code
  | EvProgress client_id session_id int
  | EvHeartBeat client_id session_id
  | EvResourceLost client_id session_id
  | EvTopUidsChanged "uid set"
  | EvUidGone uid
  | EvResourceAvailable
  | EvThrottlingStarted
  | EvThrottlingStopped
  | EvUidState uid int
  | EvWatchdog

text \<open>
  The thread releases its own lock before it reports the timeout to \<open>onError\<close>, so the report is
  an event of its own (\<open>EvError\<close> with \<open>kWatchdogTimeout\<close>), and others may come before it.
\<close>

definition watchdogTurn :: "env \<Rightarrow> ctrl \<Rightarrow> ctrl \<times> session_key option" where
  "watchdogTurn e c =
     (case mWatchdog c of
        None \<Rightarrow> (c, None)
      | Some w \<Rightarrow>
          let (w, report) = wd_threadLoop (e_now e (envReads c)) w
          in (tick (c\<lparr>mWatchdog := Some w\<rparr>), report))"

fun handle :: "env \<Rightarrow> ctrl_event \<Rightarrow> ctrl \<Rightarrow> ctrl ub" where
  "handle e (EvSubmit ci si cu u r cb) c = map_option snd (submit e ci si cu u r cb c)"
| "handle e (EvCancel ci si) c = map_option snd (cancel e ci si c)"
| "handle e (EvAddClientUid ci si u) c = map_option snd (addClientUid e ci si u c)"
| "handle e (EvStarted ci si) c = onStarted e ci si c"
| "handle e (EvPaused ci si) c = onPaused e ci si c"
| "handle e (EvResumed ci si) c = onResumed e ci si c"
| "handle e (EvFinish ci si) c = onFinish e ci si c"
| "handle e (EvError ci si err) c = onError e ci si err c"
| "handle e (EvProgress ci si p) c = onProgressUpdate e ci si p c"
| "handle e (EvHeartBeat ci si) c = onHeartBeat e ci si c"
| "handle e (EvResourceLost ci si) c = onResourceLost e ci si c"
| "handle e (EvTopUidsChanged us) c = onTopUidsChanged e us c"
| "handle e (EvUidGone u) c = onUidGone e u c"
| "handle e EvResourceAvailable c = onResourceAvailable e c"
| "handle e EvThrottlingStarted c = onThrottlingStarted e c"
| "handle e EvThrottlingStopped c = onThrottlingStopped e c"
| "handle e (EvUidState u st) c =
     Some (c\<lparr>mUidPolicy := fst (onUidStateChanged e u st (mUidPolicy c))\<rparr>)"
| "handle e EvWatchdog c = Some (fst (watchdogTurn e c))"

text \<open>The states the controller can reach from its construction.\<close>

inductive reachable :: "env \<Rightarrow> ctrl \<Rightarrow> bool" for e where
  start: "TranscodingSessionController (TranscodingUidPolicy e l) rp tp config = Some c \<Longrightarrow>
     reachable e c"
| step: "reachable e c \<Longrightarrow> handle e ev c = Some c' \<Longrightarrow> reachable e c'"

end
