(* ===== verification/Session_Queues.thy ===== *)
theory Session_Queues
  imports Session_Handlers
begin

text \<open>
  The uid queues of the session controller. \<open>queues_ok c R\<close> says that the queues, the sorted uid
  list and the uid policy are consistent with each other and that the queues hold exactly the pairs
  of \<open>R\<close>; each operation on the queues is a change of \<open>R\<close> alone.
\<close>

section \<open>Consistency of the queues\<close>

definition in_queue :: "ctrl \<Rightarrow> uid \<Rightarrow> session_key \<Rightarrow> bool" where
  "in_queue c u k \<longleftrightarrow> (\<exists>q. queue_of c u = Some q \<and> k \<in> set q)"

definition is_client :: "ctrl \<Rightarrow> uid \<Rightarrow> session_key \<Rightarrow> bool" where
  "is_client c u k \<longleftrightarrow> (\<exists>s. session_of c k = Some s \<and> u \<in> allClientUids s)"

definition queues_ok :: "ctrl \<Rightarrow> (uid \<Rightarrow> session_key \<Rightarrow> bool) \<Rightarrow> bool" where
  "queues_ok c R \<longleftrightarrow>
     smap_ok (mSessionQueues c) \<and> up_inv (mUidPolicy c)
     \<and> distinct (mUidSortedList c)
     \<and> (\<forall>u. u \<in> set (mUidSortedList c) \<longleftrightarrow> queue_of c u \<noteq> None)
     \<and> (\<exists>us. mUidSortedList c = us @ [OFFLINE_UID])
     \<and> (\<forall>u. up_monitored (mUidPolicy c) u \<longleftrightarrow> u \<noteq> OFFLINE_UID \<and> queue_of c u \<noteq> None)
     \<and> (\<forall>u q. queue_of c u = Some q \<longrightarrow> distinct q \<and> (u \<noteq> OFFLINE_UID \<longrightarrow> q \<noteq> []))
     \<and> (\<forall>u k. in_queue c u k \<longleftrightarrow> R u k)"

lemma queues_okI:
  assumes "smap_ok (mSessionQueues c)" "up_inv (mUidPolicy c)" "distinct (mUidSortedList c)"
    and "\<And>u. u \<in> set (mUidSortedList c) \<longleftrightarrow> queue_of c u \<noteq> None"
    and "\<exists>us. mUidSortedList c = us @ [OFFLINE_UID]"
    and "\<And>u. up_monitored (mUidPolicy c) u \<longleftrightarrow> u \<noteq> OFFLINE_UID \<and> queue_of c u \<noteq> None"
    and "\<And>u q. queue_of c u = Some q \<Longrightarrow> distinct q \<and> (u \<noteq> OFFLINE_UID \<longrightarrow> q \<noteq> [])"
    and "\<And>u k. in_queue c u k \<longleftrightarrow> R u k"
  shows "queues_ok c R"
  unfolding queues_ok_def using assms by blast

lemma queues_okD:
  assumes "queues_ok c R"
  shows "smap_ok (mSessionQueues c)" "up_inv (mUidPolicy c)" "distinct (mUidSortedList c)"
    and "u \<in> set (mUidSortedList c) \<longleftrightarrow> queue_of c u \<noteq> None"
    and "\<exists>us. mUidSortedList c = us @ [OFFLINE_UID]"
    and "up_monitored (mUidPolicy c) u \<longleftrightarrow> u \<noteq> OFFLINE_UID \<and> queue_of c u \<noteq> None"
    and "queue_of c u = Some q \<Longrightarrow> distinct q" "queue_of c u = Some q \<Longrightarrow> u \<noteq> OFFLINE_UID \<Longrightarrow> q \<noteq> []"
    and "in_queue c u k \<longleftrightarrow> R u k"
  using assms unfolding queues_ok_def by blast+

lemma queues_ok_list:
  assumes "queues_ok c R"
  shows "mUidSortedList c \<noteq> []" and "queue_of c OFFLINE_UID \<noteq> None"
    and "hd (mUidSortedList c) = OFFLINE_UID \<Longrightarrow> mUidSortedList c = [OFFLINE_UID]"
proof -
  obtain us where us: "mUidSortedList c = us @ [OFFLINE_UID]" using queues_okD(5) [OF assms] by blast
  then show "mUidSortedList c \<noteq> []" by simp
  show "queue_of c OFFLINE_UID \<noteq> None"
    using queues_okD(4) [OF assms, of OFFLINE_UID] us by simp
  show "mUidSortedList c = [OFFLINE_UID]" if "hd (mUidSortedList c) = OFFLINE_UID"
    using that us queues_okD(3) [OF assms] by (cases us) auto
qed

text \<open>Only the queues, the list and the uid policy matter.\<close>

lemma queues_ok_cong:
  "mSessionQueues c' = mSessionQueues c \<Longrightarrow> mUidSortedList c' = mUidSortedList c \<Longrightarrow>
   mUidPolicy c' = mUidPolicy c \<Longrightarrow> queues_ok c' R = queues_ok c R"
  by (simp add: queues_ok_def in_queue_def)

section \<open>Moving uids to the top\<close>

definition moves :: "uid set \<Rightarrow> uid \<Rightarrow> bool" where
  "moves uids u \<longleftrightarrow> u \<noteq> OFFLINE_UID \<and> u \<in> uids"

lemma moveUidsLoop_spec:
  "moved + length (filter (moves uids) rest) \<le> card uids \<Longrightarrow>
   moveUidsLoop uids cur pr front skipped pushCur moved rest =
     (rev (filter (\<lambda>u. moves uids u \<and> \<not> (u = cur \<and> pr)) rest) @ front @ skipped
        @ filter (\<lambda>u. \<not> moves uids u) rest,
      pushCur \<or> (pr \<and> cur \<in> set rest \<and> moves uids cur))"
proof (induction uids cur pr front skipped pushCur moved rest rule: moveUidsLoop.induct)
  case (2 uids cur pr front skipped pushCur moved u rest)
  show ?case
  proof (cases "moves uids u")
    case True
    show ?thesis
    proof (cases "Suc moved = card uids")
      case True
      have "moved + Suc (length (filter (moves uids) rest)) \<le> card uids"
        using "2.prems" \<open>moves uids u\<close> by simp
      then have "length (filter (moves uids) rest) = 0" using True by linarith
      then have "filter (moves uids) rest = []" by simp
      then have "\<And>x. x \<in> set rest \<Longrightarrow> \<not> moves uids x" by (simp add: filter_empty_conv)
      then have "filter (\<lambda>u. moves uids u \<and> \<not> (u = cur \<and> pr)) rest = []"
        and "filter (\<lambda>u. \<not> moves uids u) rest = rest" by (auto intro: filter_False)
      with True \<open>moves uids u\<close> \<open>\<And>x. x \<in> set rest \<Longrightarrow> \<not> moves uids x\<close> show ?thesis
        by (auto simp: moves_def Let_def)
    next
      case False
      with 2 True show ?thesis by (auto simp: moves_def Let_def)
    qed
  next
    case False
    with 2 show ?thesis by (auto simp: moves_def)
  qed
qed simp

text \<open>The list \<^verbatim>\<open>moveUidsToTop_l\<close> leaves.\<close>

definition movedList :: "uid set \<Rightarrow> bool \<Rightarrow> uid list \<Rightarrow> uid list" where
  "movedList uids pr l =
     (if pr \<and> moves uids (hd l) then [hd l] else [])
     @ rev (filter (\<lambda>u. moves uids u \<and> \<not> (u = hd l \<and> pr)) l)
     @ filter (\<lambda>u. \<not> moves uids u) l"

lemma moveUidsToTop_l_eq:
  assumes "distinct (mUidSortedList c)" "mUidSortedList c \<noteq> []" "uids \<noteq> {}"
  shows "moveUidsToTop_l uids pr c =
           Some (c\<lparr>mUidSortedList := movedList uids pr (mUidSortedList c)\<rparr>)"
proof -
  have "length (filter (moves uids) (mUidSortedList c)) = card (set (filter (moves uids) (mUidSortedList c)))"
    using assms(1) by (simp add: distinct_card [symmetric])
  also have "\<dots> \<le> card uids"
    by (rule card_mono) (auto simp: moves_def)
  finally show ?thesis
    using assms moveUidsLoop_spec [of 0 uids "mUidSortedList c"]
    by (auto simp: moveUidsToTop_l_def movedList_def Let_def neq_Nil_conv)
qed

lemma set_movedList: "set (movedList uids pr l) = set l" if "l \<noteq> []"
  using that by (cases l) (auto simp: movedList_def)

lemma distinct_movedList: "distinct l \<Longrightarrow> l \<noteq> [] \<Longrightarrow> distinct (movedList uids pr l)"
  by (cases l) (auto simp: movedList_def)

lemma movedList_offline_last:
  "\<exists>us. movedList uids pr (xs @ [OFFLINE_UID]) = us @ [OFFLINE_UID]"
  by (auto simp: movedList_def moves_def)

lemma moveUidsToTop_l_ok:
  assumes "queues_ok c R"
  shows "\<exists>l. moveUidsToTop_l uids pr c = Some (c\<lparr>mUidSortedList := l\<rparr>) \<and>
             queues_ok (c\<lparr>mUidSortedList := l\<rparr>) R"
proof (cases "uids = {}")
  case True
  then show ?thesis
    using assms by (intro exI [of _ "mUidSortedList c"]) (simp add: moveUidsToTop_l_def)
next
  case False
  let ?l = "movedList uids pr (mUidSortedList c)"
  obtain us where "mUidSortedList c = us @ [OFFLINE_UID]" using queues_okD(5) [OF assms] by blast
  then have "\<exists>us. ?l = us @ [OFFLINE_UID]" using movedList_offline_last by simp
  then have "queues_ok (c\<lparr>mUidSortedList := ?l\<rparr>) R"
    using assms queues_ok_list(1) [OF assms]
    unfolding queues_ok_def in_queue_def by (simp add: set_movedList distinct_movedList)
  then show ?thesis
    using moveUidsToTop_l_eq [OF queues_okD(3) [OF assms] queues_ok_list(1) [OF assms] False] by blast
qed

section \<open>What the queue operations leave alone\<close>

definition queue_core :: "ctrl \<Rightarrow> ctrl" where
  "queue_core c =
     (ctrl_core c)\<lparr>mSessionQueues := [], mUidSortedList := [],
                   mUidPolicy := TranscodingUidPolicy sample_env True\<rparr>"

definition queue_frame :: "ctrl \<Rightarrow> ctrl \<Rightarrow> bool" where
  "queue_frame c c' \<longleftrightarrow> queue_core c' = queue_core c"

lemma queue_frame_refl [simp]: "queue_frame c c"
  by (simp add: queue_frame_def)

lemma queue_frame_trans: "queue_frame a b \<Longrightarrow> queue_frame b c \<Longrightarrow> queue_frame a c"
  by (simp add: queue_frame_def)

lemma queue_frame_steps:
  "queue_frame c (c\<lparr>mSessionQueues := q\<rparr>)" "queue_frame c (c\<lparr>mUidSortedList := l\<rparr>)"
  "queue_frame c (c\<lparr>mUidPolicy := p\<rparr>)" "queue_frame c (c\<lparr>mPacer := pc\<rparr>)" "queue_frame c (tick c)"
  by (simp_all add: queue_frame_def queue_core_def ctrl_core_def tick_def)

lemma ctrl_frame_queue_frame: "ctrl_frame c c' \<Longrightarrow> queue_frame c c'"
  by (simp add: ctrl_frame_def queue_frame_def queue_core_def)

lemma queue_frame_simps:
  assumes "queue_frame c c'"
  shows "mConfig c' = mConfig c" "mSessionMap c' = mSessionMap c"
    "mUidPackageNames c' = mUidPackageNames c" "mTranscoder c' = mTranscoder c"
    "txCount c' = txCount c"
    "mResourcePolicy c' = mResourcePolicy c" "mThermalPolicy c' = mThermalPolicy c"
    "mCurrentSession c' = mCurrentSession c" "mResourceLost c' = mResourceLost c"
    "mThermalThrottling c' = mThermalThrottling c"
    "mSessionHistory c' = mSessionHistory c" "mWatchdog c' = mWatchdog c"
  using assms unfolding queue_frame_def queue_core_def ctrl_core_def by (cases c; cases c'; simp)+

section \<open>Adding a session to a uid's queue\<close>

abbreviation with_pair ::
    "(uid \<Rightarrow> session_key \<Rightarrow> bool) \<Rightarrow> uid \<Rightarrow> session_key \<Rightarrow> uid \<Rightarrow> session_key \<Rightarrow> bool" where
  "with_pair R u k \<equiv> \<lambda>v j. (v = u \<and> j = k) \<or> R v j"

abbreviation without_pair ::
    "(uid \<Rightarrow> session_key \<Rightarrow> bool) \<Rightarrow> uid \<Rightarrow> session_key \<Rightarrow> uid \<Rightarrow> session_key \<Rightarrow> bool" where
  "without_pair R u k \<equiv> \<lambda>v j. R v j \<and> \<not> (v = u \<and> j = k)"

lemma queue_of_enqueue:
  "queue_of (enqueue u k c) v =
     (if v = u then Some ((case queue_of c u of None \<Rightarrow> [] | Some q \<Rightarrow> q) @ [k]) else queue_of c v)"
  by (auto simp: enqueue_def case_prod_beta smap_simps smap_fst_index)

lemma enqueue_simps [simp]:
  "mUidSortedList (enqueue u k c) = mUidSortedList c" "mUidPolicy (enqueue u k c) = mUidPolicy c"
  by (simp_all add: enqueue_def case_prod_beta)

lemma enqueue_frame [simp]: "queue_frame c (enqueue u k c)"
  by (simp add: enqueue_def case_prod_beta queue_frame_steps)

text \<open>
  The queues after adding to a uid that is already in the list and known to the policy, or has
  just been put there.
\<close>

lemma queues_ok_enqueue:
  assumes ok: "queues_ok c R" and new: "\<not> R u k"
    and c': "mSessionQueues c' = mSessionQueues c" "up_inv (mUidPolicy c')"
    and list: "distinct (mUidSortedList c')" "set (mUidSortedList c') = insert u (set (mUidSortedList c))"
      "\<exists>us. mUidSortedList c' = us @ [OFFLINE_UID]"
    and mon: "\<And>v. up_monitored (mUidPolicy c') v \<longleftrightarrow>
                  v \<noteq> OFFLINE_UID \<and> (v = u \<or> queue_of c v \<noteq> None)"
  shows "queues_ok (enqueue u k c') (with_pair R u k)"
proof (rule queues_okI)
  have q: "queue_of c' v = queue_of c v" for v by (simp add: c')
  have notin: "k \<notin> set (case queue_of c u of None \<Rightarrow> [] | Some q \<Rightarrow> q)"
    using queues_okD(9) [OF ok, of u k] new by (auto simp: in_queue_def split: option.split)
  have dist: "distinct (case queue_of c u of None \<Rightarrow> [] | Some q \<Rightarrow> q)"
    using queues_okD(7) [OF ok, of u] by (auto split: option.split)
  show "smap_ok (mSessionQueues (enqueue u k c'))"
    using queues_okD(1) [OF ok]
    by (simp add: enqueue_def case_prod_beta c' smap_ok_set smap_ok_index)
  show "v \<in> set (mUidSortedList (enqueue u k c')) \<longleftrightarrow> queue_of (enqueue u k c') v \<noteq> None" for v
    using queues_okD(4) [OF ok, of v] by (simp add: list queue_of_enqueue q)
  show "up_monitored (mUidPolicy (enqueue u k c')) v \<longleftrightarrow>
          v \<noteq> OFFLINE_UID \<and> queue_of (enqueue u k c') v \<noteq> None" for v
    using mon [of v] by (simp add: queue_of_enqueue q)
  show "distinct p \<and> (v \<noteq> OFFLINE_UID \<longrightarrow> p \<noteq> [])" if "queue_of (enqueue u k c') v = Some p" for v p
    using that notin dist queues_okD(7,8) [OF ok, of v p]
    by (auto simp: queue_of_enqueue q split: if_splits)
  show "in_queue (enqueue u k c') v j \<longleftrightarrow> with_pair R u k v j" for v j
    using queues_okD(9) [OF ok, of v j]
    by (auto simp: in_queue_def queue_of_enqueue q split: option.splits)
qed (use c' list in simp_all)

lemma insertBeforeOffline_last:
  "OFFLINE_UID \<notin> set us \<Longrightarrow> insertBeforeOffline u (us @ [OFFLINE_UID]) = us @ [u, OFFLINE_UID]"
  unfolding insertBeforeOffline_def
  by (subst takeWhile_append2, fastforce, subst dropWhile_append2, fastforce) simp

lemma case_list_hd: "l \<noteq> [] \<Longrightarrow> (case l of [] \<Rightarrow> None | x # _ \<Rightarrow> f x) = f (hd l)"
  by (cases l) simp_all

lemma addUidToSession_l_ok:
  assumes ok: "queues_ok c R" and new: "\<not> R u k"
  shows "\<exists>c'. addUidToSession_l e u k c = Some c' \<and> queue_frame c c' \<and> queues_ok c' (with_pair R u k)"
proof -
  obtain us where us: "mUidSortedList c = us @ [OFFLINE_UID]" using queues_okD(5) [OF ok] by blast
  have off: "OFFLINE_UID \<notin> set us" using queues_okD(3) [OF ok] us by simp
  consider (offline) "u = OFFLINE_UID" | (fresh) "u \<noteq> OFFLINE_UID" "queue_of c u = None"
    | (known) "u \<noteq> OFFLINE_UID" "queue_of c u \<noteq> None" by blast
  then show ?thesis
  proof cases
    case offline
    have "queues_ok (enqueue u k c) (with_pair R u k)"
      using offline queues_ok_list(2) [OF ok] us queues_okD(2,3,5,6) [OF ok]
      by (intro queues_ok_enqueue [OF ok new]) auto
    then show ?thesis
      using offline by (auto simp: addUidToSession_l_def)
  next
    case fresh
    define c1 where "c1 = tick (c\<lparr>mUidPolicy := registerMonitorUid e (envReads c) u (mUidPolicy c)\<rparr>)"
    have c1: "mSessionQueues c1 = mSessionQueues c" "mUidSortedList c1 = mUidSortedList c"
      "queue_frame c c1" "up_inv (mUidPolicy c1)"
      "\<And>v. up_monitored (mUidPolicy c1) v \<longleftrightarrow> v \<noteq> OFFLINE_UID \<and> (v = u \<or> queue_of c v \<noteq> None)"
      using queues_okD(2,6) [OF ok] up.ok_register up.monitored_register fresh
      by (auto simp: c1_def intro: queue_frame_trans [OF queue_frame_steps(3) queue_frame_steps(5)])
    have notin: "u \<notin> set (mUidSortedList c)" using queues_okD(4) [OF ok, of u] fresh by simp
    let ?l = "if isUidOnTop (mUidPolicy c1) u then u # mUidSortedList c1
              else insertBeforeOffline u (mUidSortedList c1)"
    have l: "distinct ?l" "set ?l = insert u (set (mUidSortedList c))" "\<exists>us. ?l = us @ [OFFLINE_UID]"
      using notin queues_okD(3) [OF ok] us off c1(2) by (auto simp: insertBeforeOffline_last)
    have "queues_ok (enqueue u k (c1\<lparr>mUidSortedList := ?l\<rparr>)) (with_pair R u k)"
      by (rule queues_ok_enqueue [OF ok new]) (use c1 l in simp_all)
    moreover have "addUidToSession_l e u k c = Some (enqueue u k (c1\<lparr>mUidSortedList := ?l\<rparr>))"
      using fresh by (simp add: addUidToSession_l_def smap_count_def c1_def Let_def)
    moreover have "queue_frame c (enqueue u k (c1\<lparr>mUidSortedList := ?l\<rparr>))"
      using c1(3) queue_frame_steps(2) enqueue_frame by (blast intro: queue_frame_trans)
    ultimately show ?thesis by blast
  next
    case known
    let ?top = "u \<noteq> hd (mUidSortedList c) \<and> isUidOnTop (mUidPolicy c) u"
    let ?l = "if ?top then u # removeAll u (mUidSortedList c) else mUidSortedList c"
    have "u \<in> set (mUidSortedList c)" using queues_okD(4) [OF ok, of u] known by simp
    then have l: "distinct ?l" "set ?l = insert u (set (mUidSortedList c))" "\<exists>us. ?l = us @ [OFFLINE_UID]"
      using queues_okD(3) [OF ok] us known by (auto simp: distinct_removeAll)
    have "queues_ok (enqueue u k (c\<lparr>mUidSortedList := ?l\<rparr>)) (with_pair R u k)"
      by (rule queues_ok_enqueue [OF ok new]) (use known l queues_okD(2,6) [OF ok] in auto)
    moreover have "addUidToSession_l e u k c = Some (enqueue u k (c\<lparr>mUidSortedList := ?l\<rparr>))"
      using known queues_ok_list(1) [OF ok]
      by (simp add: addUidToSession_l_def smap_count_def case_list_hd)
    moreover have "queue_frame c (enqueue u k (c\<lparr>mUidSortedList := ?l\<rparr>))"
      using queue_frame_steps(2) enqueue_frame by (blast intro: queue_frame_trans)
    ultimately show ?thesis by blast
  qed
qed

section \<open>Removing a session from the queues\<close>

lemma removeUidStep_ok:
  assumes ok: "queues_ok c R" and in_R: "R u k" and drop: "\<not> (case ku of None \<Rightarrow> False | Some f \<Rightarrow> f u)"
  obtains c' r' where "removeUidStep k ku u (c, r, rem) = (c', r', rem)"
    "queue_frame c c'" "queues_ok c' (without_pair R u k)"
proof -
  define c1 where "c1 = (if ku \<noteq> None then c\<lparr>mPacer := onSessionCancelled u (mPacer c)\<rparr> else c)"
  have c1: "mSessionQueues c1 = mSessionQueues c" "mUidSortedList c1 = mUidSortedList c"
    "mUidPolicy c1 = mUidPolicy c" "queue_frame c c1"
    by (simp_all add: c1_def queue_frame_steps)
  obtain q where q: "queue_of c u = Some q" and k: "k \<in> set q"
    using queues_okD(9) [OF ok, of u k] in_R by (auto simp: in_queue_def)
  note dq = queues_okD(7) [OF ok q]
  let ?gone = "u \<noteq> OFFLINE_UID \<and> remove1 k q = []"
  let ?c2 = "c1\<lparr>mSessionQueues := smap_set u (remove1 k q) (mSessionQueues c)\<rparr>"
  let ?c3 = "?c2\<lparr>mUidSortedList := removeAll u (mUidSortedList c),
                 mSessionQueues := smap_erase u (smap_set u (remove1 k q) (mSessionQueues c)),
                 mUidPolicy := unregisterMonitorUid u (mUidPolicy c)\<rparr>"
  let ?c = "if ?gone then ?c3 else ?c2"
  have step: "removeUidStep k ku u (c, r, rem) = (?c, if ?gone then True else r, rem)"
    unfolding c1_def using drop q k
    by (cases ku; cases "u = OFFLINE_UID"; cases "remove1 k q = []") (simp_all add: removeUidStep_def Let_def)
  have frame: "queue_frame c ?c"
    by (simp add: c1_def queue_frame_def queue_core_def ctrl_core_def)
  have q3: "queue_of ?c v = (if v = u then (if ?gone then None else Some (remove1 k q)) else queue_of c v)" for v
    by (auto simp: smap_simps)
  have only: "remove1 k q = [] \<Longrightarrow> j \<in> set q \<Longrightarrow> j = k" for j
    using distinct_remove1_set [OF dq, of k] by auto
  have iq: "in_queue ?c v j \<longleftrightarrow> R v j \<and> \<not> (v = u \<and> j = k)" for v j
    using queues_okD(9) [OF ok, of v j] q dq only [of j] unfolding in_queue_def q3
    by (auto split: if_splits)
  obtain us where us: "mUidSortedList c = us @ [OFFLINE_UID]" using queues_okD(5) [OF ok] by blast
  have "queues_ok ?c (without_pair R u k)"
  proof (rule queues_okI)
    show "smap_ok (mSessionQueues ?c)" using queues_okD(1) [OF ok] by (simp add: smap_ok_set smap_ok_erase)
    show "up_inv (mUidPolicy ?c)" using queues_okD(2) [OF ok] c1 up.ok_unregister by simp
    show "distinct (mUidSortedList ?c)" using queues_okD(3) [OF ok] c1 by (simp add: distinct_removeAll)
    show "\<exists>us. mUidSortedList ?c = us @ [OFFLINE_UID]" using us c1 by auto
    show "v \<in> set (mUidSortedList ?c) \<longleftrightarrow> queue_of ?c v \<noteq> None" for v
      unfolding q3 using queues_okD(4) [OF ok, of v] c1 q by auto
    show "up_monitored (mUidPolicy ?c) v \<longleftrightarrow> v \<noteq> OFFLINE_UID \<and> queue_of ?c v \<noteq> None" for v
      unfolding q3 using queues_okD(6) [OF ok, of v] queues_okD(2) [OF ok] c1 q
      by (auto simp: up.monitored_unregister)
    show "distinct p \<and> (v \<noteq> OFFLINE_UID \<longrightarrow> p \<noteq> [])" if "queue_of ?c v = Some p" for v p
      using that dq queues_okD(7,8) [OF ok, of v p] unfolding q3 by (auto split: if_splits)
  qed (rule iq)
  with step frame that show thesis by blast
qed

lemma removeUidStep_keep:
  "(case ku of None \<Rightarrow> False | Some f \<Rightarrow> f u) \<Longrightarrow>
   removeUidStep k ku u (c, r, rem) = (c, r, insert u rem)"
  by (simp add: removeUidStep_def)

text \<open>The whole loop: every uid that is not kept loses the session, the kept ones are collected.\<close>

lemma fold_removeUidStep_ok:
  assumes "queues_ok c R" "\<forall>u \<in> set us. R u k" "distinct us"
  shows "\<exists>c' r'. fold (removeUidStep k ku) us (c, r, rem) =
            (c', r', rem \<union> {u \<in> set us. case ku of None \<Rightarrow> False | Some f \<Rightarrow> f u})
          \<and> queue_frame c c'
          \<and> queues_ok c' (\<lambda>v j. R v j \<and>
                \<not> (j = k \<and> v \<in> set us \<and> \<not> (case ku of None \<Rightarrow> False | Some f \<Rightarrow> f v)))"
  using assms
proof (induction us arbitrary: c r rem R)
  case (Cons u us)
  let ?K = "\<lambda>u. case ku of None \<Rightarrow> False | Some f \<Rightarrow> f u"
  let ?R = "\<lambda>us R v j. R v j \<and> \<not> (j = k \<and> v \<in> set us \<and> \<not> ?K v)"
  show ?case
  proof (cases "?K u")
    case True
    have "\<forall>v \<in> set us. R v k" "distinct us" using Cons.prems by auto
    from Cons.IH [OF Cons.prems(1) this, of r "insert u rem"]
    obtain c' r' where c': "fold (removeUidStep k ku) us (c, r, insert u rem) =
        (c', r', insert u rem \<union> {v \<in> set us. ?K v})" "queue_frame c c'" "queues_ok c' (?R us R)"
      by blast
    have rel: "?R us R = ?R (u # us) R" using True by (intro ext) auto
    have rem: "insert u rem \<union> {v \<in> set us. ?K v} = rem \<union> {v \<in> set (u # us). ?K v}"
      using True by auto
    show ?thesis
      using c' unfolding rel rem fold_simps(2) removeUidStep_keep [where ku = ku, OF True] by blast
  next
    case False
    obtain c1 r1 where c1: "removeUidStep k ku u (c, r, rem) = (c1, r1, rem)" "queue_frame c c1"
      "queues_ok c1 (without_pair R u k)"
      by (rule removeUidStep_ok [OF Cons.prems(1) _ False, of k r rem]) (use Cons.prems(2) in simp)
    have "\<forall>v \<in> set us. without_pair R u k v k" "distinct us" using Cons.prems by auto
    from Cons.IH [OF c1(3) this, of r1 rem]
    obtain c' r' where c': "fold (removeUidStep k ku) us (c1, r1, rem) =
        (c', r', rem \<union> {v \<in> set us. ?K v})" "queue_frame c1 c'"
        "queues_ok c' (?R us (without_pair R u k))"
      by blast
    have rel: "?R us (without_pair R u k) = ?R (u # us) R" using False by (intro ext) auto
    have rem: "{v \<in> set (u # us). ?K v} = {v \<in> set us. ?K v}" using False by auto
    show ?thesis
      using c'(1) c'(3) [unfolded rel] queue_frame_trans [OF c1(2) c'(2)]
      unfolding rem fold_simps(2) c1(1) by blast
  qed
qed simp

end
