(* ===== verification/Session_Invariant.thy ===== *)
theory Session_Invariant
  imports Session_Queues
begin

text \<open>
  The invariant of the session controller: \<open>base_inv\<close> holds at every point of every handler where
  one operation ends and the next begins, \<open>sched_inv\<close> between handlers. The section for each
  operation shows that it has no undefined behaviour under \<open>base_inv\<close> and keeps it;
  the scheduling loop establishes \<open>sched_inv\<close>.
\<close>

declare split_paired_All [simp del] split_paired_Ex [simp del]

section \<open>The invariant\<close>

definition st :: "ctrl \<Rightarrow> session_key \<Rightarrow> session_state option" where
  "st c k = map_option s_state (session_of c k)"

definition sess_ok :: "session_key \<Rightarrow> session \<Rightarrow> bool" where
  "sess_ok k s \<longleftrightarrow>
     s_key s = k \<and> allClientUids s \<noteq> {} \<and> s_state s \<in> {NOT_STARTED, RUNNING, PAUSED}"

text \<open>
  The current session was started; a running session is the current one; sessions are only ever
  started with a transcoder; the watchdog exists with the transcoder and, when it is active,
  watches the running session.
\<close>

definition run_ok :: "ctrl \<Rightarrow> bool" where
  "run_ok c \<longleftrightarrow>
     (\<forall>k. mCurrentSession c = Some k \<longrightarrow> st c k = Some RUNNING \<or> st c k = Some PAUSED)
     \<and> (\<forall>k. st c k = Some RUNNING \<longrightarrow> mCurrentSession c = Some k)
     \<and> (\<forall>k. st c k = Some RUNNING \<or> st c k = Some PAUSED \<longrightarrow> mTranscoder c \<noteq> None)
     \<and> (mTranscoder c = None \<longleftrightarrow> mWatchdog c = None)
     \<and> (\<forall>w. mWatchdog c = Some w \<longrightarrow> mActive w \<longrightarrow> st c (mSessionToWatch w) = Some RUNNING)"

definition base_inv :: "ctrl \<Rightarrow> bool" where
  "base_inv c \<longleftrightarrow>
     smap_ok (mSessionMap c) \<and> queues_ok c (is_client c)
     \<and> (\<forall>k s. session_of c k = Some s \<longrightarrow> sess_ok k s)
     \<and> run_ok c \<and> length (mSessionHistory c) \<le> kSessionHistoryMax"

text \<open>
  Between handlers: while paused for heat or lost resources nothing runs; otherwise, if there is
  a session, one of the front uid of the list runs. (Without a resource policy, a session that lost
  its resources stays paused until the next rescheduling.)
\<close>

definition sched_inv :: "ctrl \<Rightarrow> bool" where
  "sched_inv c \<longleftrightarrow>
     (if mSessionMap c = [] \<or> globallyPaused c then \<forall>k. st c k \<noteq> Some RUNNING
      else mResourceLost c \<or>
        (\<exists>k s. mCurrentSession c = Some k \<and> session_of c k = Some s \<and> s_state s = RUNNING
               \<and> hd (mUidSortedList c) \<in> allClientUids s))"

definition ctrl_inv :: "ctrl \<Rightarrow> bool" where
  "ctrl_inv c \<longleftrightarrow> base_inv c \<and> sched_inv c"

lemma base_invD:
  assumes "base_inv c"
  shows "smap_ok (mSessionMap c)" "queues_ok c (is_client c)" "run_ok c"
    "length (mSessionHistory c) \<le> kSessionHistoryMax"
    "session_of c k = Some s \<Longrightarrow> sess_ok k s"
  using assms unfolding base_inv_def by blast+

lemma run_okD:
  assumes "run_ok c"
  shows "mCurrentSession c = Some k \<Longrightarrow> st c k = Some RUNNING \<or> st c k = Some PAUSED"
    and "st c k = Some RUNNING \<Longrightarrow> mCurrentSession c = Some k"
    and "st c k = Some RUNNING \<or> st c k = Some PAUSED \<Longrightarrow> mTranscoder c \<noteq> None"
    and "mTranscoder c = None \<longleftrightarrow> mWatchdog c = None"
    and "mWatchdog c = Some w \<Longrightarrow> mActive w \<Longrightarrow> st c (mSessionToWatch w) = Some RUNNING"
  using assms unfolding run_ok_def by blast+

lemma sess_okD:
  assumes "sess_ok k s"
  shows "s_key s = k" "allClientUids s \<noteq> {}" "s_state s = NOT_STARTED \<or> s_state s = RUNNING \<or> s_state s = PAUSED"
  using assms by (auto simp: sess_ok_def)

lemma base_inv_states:
  assumes "base_inv c" "st c j = Some x"
  shows "x = NOT_STARTED \<or> x = RUNNING \<or> x = PAUSED"
  using assms(2) sess_okD(3) [OF base_invD(5) [OF assms(1), of j]] by (auto simp: st_def)

text \<open>The invariant reads only these fields.\<close>

lemma base_inv_cong:
  assumes "mSessionMap c' = mSessionMap c" "mSessionQueues c' = mSessionQueues c"
    "mUidSortedList c' = mUidSortedList c" "mUidPolicy c' = mUidPolicy c"
    "mCurrentSession c' = mCurrentSession c" "mTranscoder c' = mTranscoder c"
    "mWatchdog c' = mWatchdog c" "mSessionHistory c' = mSessionHistory c"
  shows "base_inv c' = base_inv c"
proof -
  have "st c' = st c" "is_client c' = is_client c"
    by (intro ext, simp add: st_def is_client_def assms(1))+
  then show ?thesis
    unfolding base_inv_def run_ok_def using queues_ok_cong [of c' c] by (simp add: assms)
qed

lemma sched_inv_cong:
  assumes "mSessionMap c' = mSessionMap c" "mUidSortedList c' = mUidSortedList c"
    "mCurrentSession c' = mCurrentSession c" "mResourceLost c' = mResourceLost c"
    "mThermalThrottling c' = mThermalThrottling c"
    "(mResourcePolicy c' = None) = (mResourcePolicy c = None)" "mThermalPolicy c' = mThermalPolicy c"
  shows "sched_inv c' = sched_inv c"
  unfolding sched_inv_def globallyPaused_def st_def by (simp only: assms)

lemma ctrl_frame_base_inv: "ctrl_frame c c' \<Longrightarrow> base_inv c' = base_inv c"
  by (rule base_inv_cong) (simp_all add: ctrl_frame_simps)

lemma ctrl_frame_ctrl_inv: "ctrl_frame c c' \<Longrightarrow> ctrl_inv c' = ctrl_inv c"
  unfolding ctrl_inv_def
  by (simp add: ctrl_frame_base_inv sched_inv_cong [of c' c] ctrl_frame_simps)

lemma base_inv_run_simps [simp]:
  "base_inv (callClient e cb out c) = base_inv c" "base_inv (tick c) = base_inv c"
  "base_inv (emit x c) = base_inv c"
  by (simp_all add: ctrl_frame_base_inv)

section \<open>State changes\<close>

lemma setState_simps [simp]:
  "s_state (setState t n s) = n" "s_key (setState t n s) = s_key s"
  "allClientUids (setState t n s) = allClientUids s" "s_callback (setState t n s) = s_callback s"
  "s_callingUid (setState t n s) = s_callingUid s" "s_request (setState t n s) = s_request s"
  by (auto simp: setState_def Let_def split: session_state.split)

text \<open>What \<^verbatim>\<open>setSessionState_l\<close> does to the watchdog.\<close>

definition watchdogAfter ::
    "int \<Rightarrow> session_state \<Rightarrow> session_state \<Rightarrow> session_key \<Rightarrow> watchdog option \<Rightarrow> watchdog option" where
  "watchdogAfter t old new k w =
     (if (old = RUNNING) = (new = RUNNING) then w
      else if new = RUNNING then map_option (wd_start t k) w else map_option wd_stop w)"

lemma setSessionState_l_eq:
  assumes "session_of c k = Some s"
    and "(s_state s = RUNNING) = (new = RUNNING) \<or> mWatchdog c \<noteq> None"
  obtains t t' n where "setSessionState_l e k new c =
    Some (c\<lparr>mSessionMap := smap_set k (setState t new s) (mSessionMap c),
            mWatchdog := watchdogAfter t' (s_state s) new (s_key s) (mWatchdog c), envReads := n\<rparr>)"
proof (cases "(s_state s = RUNNING) = (new = RUNNING)")
  case True
  then show thesis
    using assms(1)
    by (intro that [where n = "Suc (envReads c)" and t = "e_now e (envReads c)"])
      (cases c, simp add: setSessionState_l_def Let_def tick_def watchdogAfter_def)
next
  case False
  then obtain w where "mWatchdog c = Some w" using assms(2) by blast
  with False assms(1) show thesis
    by (intro that [where t = "e_now e (envReads c)" and t' = "e_now e (Suc (envReads c))"
          and n = "if new = RUNNING then Suc (Suc (envReads c)) else Suc (envReads c)"])
      (cases c, simp add: setSessionState_l_def Let_def tick_def watchdogAfter_def)
qed

definition clients :: "ctrl \<Rightarrow> session_key \<Rightarrow> uid set option" where
  "clients c k = map_option allClientUids (session_of c k)"

lemma is_client_clients: "is_client c u k \<longleftrightarrow> (\<exists>U. clients c k = Some U \<and> u \<in> U)"
  by (auto simp: is_client_def clients_def)

lemma current_only [simp]:
  "clients (c\<lparr>mCurrentSession := t\<rparr>) = clients c" "st (c\<lparr>mCurrentSession := t\<rparr>) = st c"
  "globallyPaused (c\<lparr>mCurrentSession := t\<rparr>) = globallyPaused c"
  by (simp_all add: clients_def st_def fun_eq_iff globallyPaused_def)

lemma current_same: "mCurrentSession c = t \<Longrightarrow> c\<lparr>mCurrentSession := t\<rparr> = c"
  by (cases c) simp

lemma calls_only [simp]:
  "clients (emit x c) = clients c" "st (emit x c) = st c"
  "clients (tick c) = clients c" "st (tick c) = st c"
  "clients (callClient e cb out c) = clients c" "st (callClient e cb out c) = st c"
  by (simp_all add: clients_def st_def fun_eq_iff)

text \<open>What the loop of the scheduler never changes.\<close>

definition same_mode :: "ctrl \<Rightarrow> ctrl \<Rightarrow> bool" where
  "same_mode c c' \<longleftrightarrow>
     mTranscoder c' = mTranscoder c \<and> mResourcePolicy c' = mResourcePolicy c
     \<and> mResourceLost c' = mResourceLost c \<and> mThermalPolicy c' = mThermalPolicy c
     \<and> mThermalThrottling c' = mThermalThrottling c"

lemma same_mode_refl [simp]: "same_mode c c"
  by (simp add: same_mode_def)

lemma same_mode_trans: "same_mode a b \<Longrightarrow> same_mode b c \<Longrightarrow> same_mode a c"
  by (simp add: same_mode_def)

lemma ctrl_frame_same_mode: "ctrl_frame c c' \<Longrightarrow> same_mode c c'"
  by (simp add: same_mode_def ctrl_frame_simps)

lemma same_mode_paused: "same_mode c c' \<Longrightarrow> globallyPaused c' = globallyPaused c"
  by (simp add: same_mode_def globallyPaused_def)

text \<open>A change of the sessions' states and nothing else the invariant reads.\<close>

definition state_frame :: "ctrl \<Rightarrow> ctrl \<Rightarrow> bool" where
  "state_frame c c' \<longleftrightarrow>
     same_mode c c' \<and> mCurrentSession c' = mCurrentSession c
     \<and> mSessionQueues c' = mSessionQueues c \<and> mUidSortedList c' = mUidSortedList c
     \<and> mUidPolicy c' = mUidPolicy c \<and> mSessionHistory c' = mSessionHistory c
     \<and> (smap_ok (mSessionMap c) \<longrightarrow> smap_ok (mSessionMap c')) \<and> clients c' = clients c
     \<and> (\<forall>j. map_option s_key (session_of c' j) = map_option s_key (session_of c j))"

lemma state_frame_refl [simp]: "state_frame c c"
  by (simp add: state_frame_def)

lemma state_frame_trans: "state_frame a b \<Longrightarrow> state_frame b c \<Longrightarrow> state_frame a c"
  by (simp add: state_frame_def same_mode_def)

lemma ctrl_frame_state_frame: "ctrl_frame c c' \<Longrightarrow> state_frame c c'"
  by (auto simp: state_frame_def ctrl_frame_same_mode ctrl_frame_simps clients_def)

lemma ctrl_frame_st: "ctrl_frame c c' \<Longrightarrow> st c' = st c"
  by (intro ext) (simp add: st_def ctrl_frame_simps)

lemma map_empty_clients: "mSessionMap c = [] \<longleftrightarrow> (\<forall>j. clients c j = None)"
  using sm.keys_empty_iff [of "mSessionMap c"] by (simp add: clients_def smap_keys_def)

text \<open>A state change keeps the invariant when it keeps the part about running.\<close>

lemma state_frame_base_inv:
  assumes inv: "base_inv c" and fr: "state_frame c c'" and run: "run_ok (c'\<lparr>mCurrentSession := t\<rparr>)"
    and states: "\<And>k x. st c' k = Some x \<Longrightarrow> x = NOT_STARTED \<or> x = RUNNING \<or> x = PAUSED"
  shows "base_inv (c'\<lparr>mCurrentSession := t\<rparr>)"
proof -
  let ?c = "c'\<lparr>mCurrentSession := t\<rparr>"
  have cl: "is_client ?c = is_client c"
    using fr by (intro ext) (simp add: is_client_clients state_frame_def)
  have "queues_ok ?c (is_client c)"
    using queues_ok_cong [of ?c c] fr base_invD(2) [OF inv] by (simp add: state_frame_def)
  moreover have "sess_ok k s" if s: "session_of c' k = Some s" for k s
  proof -
    obtain s0 where s0: "session_of c k = Some s0" "s_key s = s_key s0"
      using fr s unfolding state_frame_def by (metis map_option_eq_Some option.inject)
    have "clients c' k = clients c k" using fr by (simp add: state_frame_def)
    then have "allClientUids s = allClientUids s0" using s s0 by (simp add: clients_def)
    then show ?thesis
      using base_invD(5) [OF inv s0(1)] s0(2) states [of k "s_state s"] s
      by (auto simp: sess_ok_def st_def)
  qed
  ultimately show ?thesis
    using inv fr run unfolding base_inv_def cl by (simp add: state_frame_def)
qed

lemma setSessionState_l_frame:
  assumes "session_of c k = Some s"
    and "(s_state s = RUNNING) = (new = RUNNING) \<or> mWatchdog c \<noteq> None"
  obtains c' t where "setSessionState_l e k new c = Some c'" "state_frame c c'"
    "st c' = (st c)(k := Some new)"
    "mWatchdog c' = watchdogAfter t (s_state s) new (s_key s) (mWatchdog c)"
proof -
  obtain t t' n where eq: "setSessionState_l e k new c =
    Some (c\<lparr>mSessionMap := smap_set k (setState t new s) (mSessionMap c),
            mWatchdog := watchdogAfter t' (s_state s) new (s_key s) (mWatchdog c), envReads := n\<rparr>)"
    using setSessionState_l_eq [OF assms] by metis
  show thesis
    by (rule that [OF eq])
      (use assms(1) in \<open>auto simp: state_frame_def same_mode_def clients_def st_def fun_eq_iff
        smap_simps smap_ok_set\<close>)
qed

text \<open>Pausing the running session.\<close>

lemma pause_ok:
  assumes inv: "base_inv c" and s: "session_of c k = Some s" "s_state s = RUNNING"
  obtains c' where "setSessionState_l e k PAUSED c = Some c'" "base_inv c'" "state_frame c c'"
    "st c' = (st c)(k := Some PAUSED)"
proof -
  note run = run_okD [OF base_invD(3) [OF inv]]
  have st: "st c k = Some RUNNING" using s by (simp add: st_def)
  then obtain w where w: "mWatchdog c = Some w" using run(3,4) by fastforce
  obtain c' t where c': "setSessionState_l e k PAUSED c = Some c'" "state_frame c c'"
    "st c' = (st c)(k := Some PAUSED)"
    "mWatchdog c' = watchdogAfter t (s_state s) PAUSED (s_key s) (mWatchdog c)"
    using setSessionState_l_frame [OF s(1), of PAUSED] w by (metis option.distinct(1))
  have wd: "mWatchdog c' = Some (wd_stop w)" using c'(4) s(2) w by (simp add: watchdogAfter_def)
  have cur: "mCurrentSession c' = Some k" "mCurrentSession c = Some k" "mTranscoder c' = mTranscoder c"
    using run(2) [OF st] c'(2) by (simp_all add: state_frame_def same_mode_def)
  have only: "st c j = Some RUNNING \<Longrightarrow> j = k" for j using run(2) [of j] cur(2) by simp
  have "mTranscoder c \<noteq> None" using run(3) st by blast
  then have "run_ok c'"
    unfolding run_ok_def c'(3) cur wd using only by auto
  moreover have "x = NOT_STARTED \<or> x = RUNNING \<or> x = PAUSED" if "st c' j = Some x" for j x
    using that base_inv_states [OF inv, of j x] unfolding c'(3) by (auto split: if_splits)
  ultimately have "base_inv (c'\<lparr>mCurrentSession := mCurrentSession c'\<rparr>)"
    by (intro state_frame_base_inv [OF inv c'(2)]) simp_all
  then show thesis using that c' by simp
qed

text \<open>Starting or resuming a session while none runs makes it the current one.\<close>

lemma run_session_ok:
  assumes inv: "base_inv c" and tx: "mTranscoder c \<noteq> None"
    and s: "session_of c k = Some s" and none: "\<And>j. st c j \<noteq> Some RUNNING"
  obtains c' where "runSession e out k c = Some c'" "base_inv (c'\<lparr>mCurrentSession := Some k\<rparr>)"
    "state_frame c c'" "st c' = (st c)(k := Some RUNNING)"
proof -
  note run = run_okD [OF base_invD(3) [OF inv]]
  obtain t where t: "mTranscoder c = Some t" using tx by blast
  obtain w where w: "mWatchdog c = Some w" using run(4) tx by blast
  let ?c = "emit (out t) c"
  have ns: "s_state s \<noteq> RUNNING" using none [of k] s by (simp add: st_def)
  have key: "s_key s = k" using sess_okD(1) base_invD(5) [OF inv s] .
  have inact: "\<not> mActive w" using run(5) [OF w] none by blast
  obtain c' t' where c': "setSessionState_l e k RUNNING ?c = Some c'" "state_frame ?c c'"
    "st c' = (st ?c)(k := Some RUNNING)"
    "mWatchdog c' = watchdogAfter t' (s_state s) RUNNING (s_key s) (mWatchdog ?c)"
    using setSessionState_l_frame [of ?c k s RUNNING] w s by (metis emit_simps(2,15) option.distinct(1))
  have fr: "state_frame c c'"
    by (rule state_frame_trans [OF ctrl_frame_state_frame c'(2)]) simp
  have st': "st c' = (st c)(k := Some RUNNING)" using c'(3) by (simp add: ctrl_frame_st)
  have wd: "mWatchdog c' = Some (wd_start t' k w)"
    using c'(4) ns w key by (simp add: watchdogAfter_def)
  have "mTranscoder c' \<noteq> None" using fr tx by (simp add: state_frame_def same_mode_def)
  then have "run_ok (c'\<lparr>mCurrentSession := Some k\<rparr>)"
    unfolding run_ok_def using st' wd none inact by simp
  moreover have "x = NOT_STARTED \<or> x = RUNNING \<or> x = PAUSED" if "st c' j = Some x" for j x
    using that base_inv_states [OF inv, of j x] unfolding st' by (auto split: if_splits)
  ultimately have "base_inv (c'\<lparr>mCurrentSession := Some k\<rparr>)"
    by (intro state_frame_base_inv [OF inv fr]) simp_all
  moreover have "runSession e out k c = Some c'"
    using c'(1) t by (simp add: runSession_def callTranscoder_def)
  ultimately show thesis using that fr st' by blast
qed

text \<open>After the loop has paused the current session, nothing runs.\<close>

lemma pauseCurrent_ok:
  assumes inv: "base_inv c"
  obtains c' where "pauseCurrent e (mCurrentSession c) c = Some c'" "base_inv c'" "state_frame c c'"
    "\<And>j. st c' j = (if st c j = Some RUNNING then Some PAUSED else st c j)"
proof -
  note run = run_okD [OF base_invD(3) [OF inv]]
  show thesis
  proof (cases "\<exists>k. mCurrentSession c = Some k \<and> st c k = Some RUNNING")
    case True
    then obtain k s where cur: "mCurrentSession c = Some k" and s: "session_of c k = Some s" "s_state s = RUNNING"
      by (auto simp: st_def)
    have only: "st c j = Some RUNNING \<longleftrightarrow> j = k" for j
      using run(2) [of j] cur s by (auto simp: st_def)
    obtain t where t: "mTranscoder c = Some t" using run(3) [of k] s by (auto simp: st_def)
    let ?c = "emit (TxPause t (s_key s)) c"
    have "base_inv ?c" "session_of ?c k = Some s" using inv s by simp_all
    from pause_ok [OF this s(2), of e]
    obtain c' where c': "setSessionState_l e k PAUSED ?c = Some c'" "base_inv c'" "state_frame ?c c'"
      "st c' = (st ?c)(k := Some PAUSED)" by blast
    show thesis
    proof (rule that [of c'])
      show "pauseCurrent e (mCurrentSession c) c = Some c'"
        using cur s t c'(1) by (simp add: pauseCurrent_def callTranscoder_def)
      show "state_frame c c'" by (rule state_frame_trans [OF ctrl_frame_state_frame c'(3)]) simp
      show "st c' j = (if st c j = Some RUNNING then Some PAUSED else st c j)" for j
        unfolding c'(4) only by (simp add: ctrl_frame_st)
    qed (rule c'(2))
  next
    case False
    have "pauseCurrent e (mCurrentSession c) c = Some c"
      using False run(1)
      by (auto simp: pauseCurrent_def st_def split: option.split)
    moreover have "st c j \<noteq> Some RUNNING" for j using run(2) False by blast
    ultimately show thesis using that [of c] inv by simp
  qed
qed

section \<open>The top session\<close>

lemma getTopSession_l_ok:
  assumes inv: "base_inv c"
  obtains "getTopSession_l c = Some (None, c)" "mSessionMap c = [] \<or> globallyPaused c"
  | k s where "getTopSession_l c = Some (Some k, c)" "session_of c k = Some s"
      "mSessionMap c \<noteq> []" "\<not> globallyPaused c" "hd (mUidSortedList c) \<in> allClientUids s"
proof (cases "mSessionMap c = [] \<or> globallyPaused c")
  case True
  then show thesis using that(1) by (auto simp: getTopSession_l_def)
next
  case False
  note q = base_invD(2) [OF inv]
  obtain top us where us: "mUidSortedList c = top # us"
    using queues_ok_list(1) [OF q] by (metis list.exhaust_sel)
  have "\<exists>p. queue_of c top = Some p \<and> p \<noteq> []"
  proof (cases "top = OFFLINE_UID")
    case True
    obtain j where "session_of c j \<noteq> None"
      using False sm.keys_empty_iff [of "mSessionMap c"] by (auto simp: smap_keys_def)
    then obtain s u where s: "session_of c j = Some s" "u \<in> allClientUids s"
      using sess_okD(2) [OF base_invD(5) [OF inv, of j]] by fastforce
    then have "in_queue c u j" using queues_okD(9) [OF q, of u j] by (auto simp: is_client_def)
    then have "u \<in> set (mUidSortedList c)"
      using queues_okD(4) [OF q, of u] by (auto simp: in_queue_def)
    then have "u = OFFLINE_UID" using queues_ok_list(3) [OF q] True us by simp
    with \<open>in_queue c u j\<close> True show ?thesis by (auto simp: in_queue_def)
  next
    case False
    have "queue_of c top \<noteq> None" using queues_okD(4) [OF q, of top] us by simp
    then show ?thesis using queues_okD(8) [OF q, of top] False by blast
  qed
  then obtain k p where p: "queue_of c top = Some (k # p)" by (metis neq_Nil_conv)
  then have "in_queue c top k" by (simp add: in_queue_def)
  then obtain s where s: "session_of c k = Some s" "top \<in> allClientUids s"
    using queues_okD(9) [OF q, of top k] by (auto simp: is_client_def)
  show thesis
  proof (cases "\<exists>j t. mCurrentSession c = Some j \<and> session_of c j = Some t \<and> s_state t = RUNNING
                      \<and> top \<in> allClientUids t")
    case True
    then obtain j t where "mCurrentSession c = Some j" "session_of c j = Some t" "s_state t = RUNNING"
      "top \<in> allClientUids t" by blast
    then show thesis
      using that(2) [of j t] False us by (simp add: getTopSession_l_def)
  next
    case notcur: False
    have "getTopSession_l c = Some (Some k, c)"
      using notcur False p s(1) run_okD(1) [OF base_invD(3) [OF inv]]
      by (auto simp: getTopSession_l_def us st_def Let_def split: option.split)
    then show thesis using that(2) False s us by simp
  qed
qed

end
