(* ===== verification/Session_Removal.thy ===== *)
theory Session_Removal
  imports Session_Invariant
begin

text \<open>
  Removing sessions: a session that ends leaves the map, the queues, the uid list, the uid policy
  and the current-session pointer together; removing some of a session's client uids shrinks its
  queues accordingly. Neither has undefined behaviour, whatever the iteration order.
\<close>

section \<open>The queues\<close>

lemma removeSession_l_queues:
  fixes ku :: "(uid \<Rightarrow> bool) option"
  assumes it: "iter_ok e" and q: "queues_ok c (is_client c)" and s: "session_of c k = Some s"
  defines "keep \<equiv> \<lambda>u. case ku of None \<Rightarrow> False | Some f \<Rightarrow> f u"
  obtains c2 where "queue_frame c c2"
    "queues_ok c2 (\<lambda>v j. is_client c v j \<and> \<not> (j = k \<and> \<not> keep v))"
    "removeSession_l e k fin ku c =
       (if ku \<noteq> None
        then Some (c2\<lparr>mSessionMap :=
                        smap_set k (s\<lparr>allClientUids := {u \<in> allClientUids s. keep u}\<rparr>) (mSessionMap c)\<rparr>)
        else finishSession e k fin c2)"
proof -
  let ?us = "e_iter e (envReads c) (allClientUids s)"
  have "queues_ok (tick c) (is_client c)" using q queues_ok_cong [of "tick c" c] by simp
  from fold_removeUidStep_ok [OF this, of ?us k ku False "{}"]
  obtain c1 r where c1: "fold (removeUidStep k ku) ?us (tick c, False, {}) =
      (c1, r, {u \<in> allClientUids s. keep u})" "queue_frame (tick c) c1"
      "queues_ok c1 (\<lambda>v j. is_client c v j \<and> \<not> (j = k \<and> v \<in> allClientUids s \<and> \<not> keep v))"
    using it s unfolding keep_def by (auto simp: is_client_def)
  have R: "(\<lambda>v j. is_client c v j \<and> \<not> (j = k \<and> v \<in> allClientUids s \<and> \<not> keep v)) =
           (\<lambda>v j. is_client c v j \<and> \<not> (j = k \<and> \<not> keep v))"
    using s by (intro ext) (auto simp: is_client_def)
  have fr1: "queue_frame c c1" by (rule queue_frame_trans [OF queue_frame_steps(5) c1(2)])
  obtain topUids where top: "getTopUids (mUidPolicy c1) = Some topUids"
    using up.top_defined [OF queues_okD(2) [OF c1(3)]] by blast
  obtain l where l: "moveUidsToTop_l topUids False c1 = Some (c1\<lparr>mUidSortedList := l\<rparr>)"
      "queues_ok (c1\<lparr>mUidSortedList := l\<rparr>) (\<lambda>v j. is_client c v j \<and> \<not> (j = k \<and> \<not> keep v))"
    using moveUidsToTop_l_ok [OF c1(3) [unfolded R], of topUids False] by blast
  define c2 where "c2 = (if r then c1\<lparr>mUidSortedList := l\<rparr> else c1)"
  have fr: "queue_frame c c2"
    unfolding c2_def using fr1 queue_frame_trans [OF fr1 queue_frame_steps(2)] by simp
  show thesis
  proof (rule that [OF fr])
    show "queues_ok c2 (\<lambda>v j. is_client c v j \<and> \<not> (j = k \<and> \<not> keep v))"
      using c1(3) l(2) R by (simp add: c2_def)
    have "(if r then (case getTopUids (mUidPolicy c1) of None \<Rightarrow> None
             | Some topUids \<Rightarrow> moveUidsToTop_l topUids False c1) else Some c1) = Some c2"
      using top l(1) by (simp add: c2_def)
    then show "removeSession_l e k fin ku c =
       (if ku \<noteq> None
        then Some (c2\<lparr>mSessionMap :=
                        smap_set k (s\<lparr>allClientUids := {u \<in> allClientUids s. keep u}\<rparr>) (mSessionMap c)\<rparr>)
        else finishSession e k fin c2)"
      using s c1(1) queue_frame_simps(2) [OF fr] by (simp add: removeSession_l_def)
  qed
qed

section \<open>Ending a session\<close>

lemma pushHistory_length:
  "length (mSessionHistory c) \<le> kSessionHistoryMax \<Longrightarrow>
   length (mSessionHistory (pushHistory s c)) \<le> kSessionHistoryMax"
  by (auto simp: pushHistory_def Let_def)

lemma pushHistory_simps [simp]:
  "mSessionMap (pushHistory s c) = mSessionMap c" "mSessionQueues (pushHistory s c) = mSessionQueues c"
  "mUidSortedList (pushHistory s c) = mUidSortedList c" "mUidPolicy (pushHistory s c) = mUidPolicy c"
  "mCurrentSession (pushHistory s c) = mCurrentSession c" "mTranscoder (pushHistory s c) = mTranscoder c"
  "mWatchdog (pushHistory s c) = mWatchdog c" "mResourcePolicy (pushHistory s c) = mResourcePolicy c"
  "mThermalPolicy (pushHistory s c) = mThermalPolicy c" "mResourceLost (pushHistory s c) = mResourceLost c"
  "mThermalThrottling (pushHistory s c) = mThermalThrottling c"
  by (simp_all add: pushHistory_def Let_def)

text \<open>
  The effect of ending session \<open>k\<close>, as far as the invariant reads it.
\<close>

definition ended :: "int \<Rightarrow> session_key \<Rightarrow> session \<Rightarrow> session_state \<Rightarrow> ctrl \<Rightarrow> ctrl \<Rightarrow> bool" where
  "ended t k s fin c c' \<longleftrightarrow>
     same_mode c c' \<and> mSessionQueues c' = mSessionQueues c \<and> mUidSortedList c' = mUidSortedList c
     \<and> mUidPolicy c' = mUidPolicy c
     \<and> mCurrentSession c' = (if mCurrentSession c = Some k then None else mCurrentSession c)
     \<and> mWatchdog c' = watchdogAfter t (s_state s) fin (s_key s) (mWatchdog c)
     \<and> (\<forall>j. session_of c' j = (if j = k then None else session_of c j))
     \<and> (smap_ok (mSessionMap c) \<longrightarrow> smap_ok (mSessionMap c'))
     \<and> (length (mSessionHistory c) \<le> kSessionHistoryMax \<longrightarrow> length (mSessionHistory c') \<le> kSessionHistoryMax)"

lemma finishSession_eq:
  assumes "session_of c k = Some s" "s_state s = RUNNING \<Longrightarrow> mWatchdog c \<noteq> None" "fin \<noteq> RUNNING"
  obtains c' t where "finishSession e k fin c = Some c'" "ended t k s fin c c'"
proof -
  define c1 where "c1 = (if mCurrentSession c = Some k then c\<lparr>mCurrentSession := None\<rparr> else c)"
  have c1: "session_of c1 k = Some s" "(s_state s = RUNNING) = (fin = RUNNING) \<or> mWatchdog c1 \<noteq> None"
    using assms by (auto simp: c1_def)
  obtain t t' n where eq: "setSessionState_l e k fin c1 =
    Some (c1\<lparr>mSessionMap := smap_set k (setState t fin s) (mSessionMap c1),
            mWatchdog := watchdogAfter t' (s_state s) fin (s_key s) (mWatchdog c1), envReads := n\<rparr>)"
    (is "_ = Some ?c2") by (rule setSessionState_l_eq [OF c1, of e])
  let ?s = "setState t fin s"
  let ?us = "e_iter e (envReads ?c2) (allClientUids ?s)"
  let ?c3 = "pushHistory ?s (fold (completeUid e (runningTime ?s)) ?us (tick ?c2))"
  let ?c' = "?c3\<lparr>mSessionMap := smap_erase k (mSessionMap ?c3)\<rparr>"
  have fin: "finishSession e k fin c = Some ?c'"
    unfolding finishSession_def c1_def [symmetric] Let_def eq by (simp add: smap_simps)
  have "length (mSessionHistory ?c') \<le> kSessionHistoryMax"
    if "length (mSessionHistory c) \<le> kSessionHistoryMax"
    using that by (simp add: c1_def pushHistory_length)
  then have "ended t' k s fin c ?c'"
    by (simp add: ended_def same_mode_def c1_def smap_simps smap_ok_set smap_ok_erase)
  with fin show thesis by (rule that)
qed

text \<open>
  Removing a session without keeping any uid.
\<close>

lemma removeSession_l_ok:
  assumes it: "iter_ok e" and inv: "base_inv c" and s: "session_of c k = Some s" and fin: "fin \<noteq> RUNNING"
  obtains c' where "removeSession_l e k fin None c = Some c'" "base_inv c'" "same_mode c c'"
    "\<And>j. session_of c' j = (if j = k then None else session_of c j)"
    "mCurrentSession c' = (if mCurrentSession c = Some k then None else mCurrentSession c)"
proof -
  note run = run_okD [OF base_invD(3) [OF inv]]
  obtain c2 where c2: "queue_frame c c2" "queues_ok c2 (\<lambda>v j. is_client c v j \<and> j \<noteq> k)"
    "removeSession_l e k fin None c = finishSession e k fin c2"
    by (rule removeSession_l_queues [OF it base_invD(2) [OF inv] s, of None fin]) simp
  note fr = queue_frame_simps [OF c2(1)]
  have s2: "session_of c2 k = Some s" using s fr by simp
  have wd: "mWatchdog c2 \<noteq> None" if "s_state s = RUNNING"
    using run(3) [of k] run(4) that s fr by (simp add: st_def)
  obtain c' t where c': "finishSession e k fin c2 = Some c'" "ended t k s fin c2 c'"
    by (rule finishSession_eq [OF s2 wd fin, of e])
  note en = c'(2) [unfolded ended_def fr]
  have mode: "same_mode c c'" using en fr by (simp add: same_mode_def)
  have st': "st c' = (st c)(k := None)" using en by (simp add: st_def fun_eq_iff)
  have "is_client c' = (\<lambda>v j. is_client c v j \<and> j \<noteq> k)"
    using en by (intro ext) (simp add: is_client_def)
  then have "queues_ok c' (is_client c')" using c2(2) queues_ok_cong [of c' c2] c'(2) by (simp add: ended_def)
  moreover have "run_ok c'"
  proof -
    have tx: "mTranscoder c' = mTranscoder c" using mode by (simp add: same_mode_def)
    have "st c (mSessionToWatch w) = Some RUNNING \<and> mSessionToWatch w \<noteq> k"
      if w: "mWatchdog c' = Some w" "mActive w" for w
    proof -
      have "mWatchdog c = Some w \<and> s_state s \<noteq> RUNNING"
        using w en fin by (auto simp: watchdogAfter_def split: if_splits)
      then show ?thesis using run(5) [of w] w(2) s by (auto simp: st_def)
    qed
    moreover have "mWatchdog c' = None \<longleftrightarrow> mWatchdog c = None" using en by (simp add: watchdogAfter_def)
    moreover have "mCurrentSession c' = (if mCurrentSession c = Some k then None else mCurrentSession c)"
      using en by blast
    ultimately show ?thesis
      using base_invD(3) [OF inv] unfolding run_ok_def st' tx by auto
  qed
  moreover have "sess_ok j r" if "session_of c' j = Some r" for j r
    using that base_invD(5) [OF inv, of j r] en by (simp split: if_splits)
  ultimately have "base_inv c'"
    using base_invD(1,4) [OF inv] en unfolding base_inv_def by simp
  then show thesis using that c2(3) c'(1) en mode by simp
qed

section \<open>Removing some client uids\<close>

text \<open>A change of a session's client uids, with the queues that go with it.\<close>

lemma client_change_ok:
  assumes inv: "base_inv c" and s: "session_of c k = Some s" and U: "U \<noteq> {}"
    and fr: "queue_frame c c2" and q: "queues_ok c2 (\<lambda>v j. if j = k then v \<in> U else is_client c v j)"
  defines "c' \<equiv> c2\<lparr>mSessionMap := smap_set k (s\<lparr>allClientUids := U\<rparr>) (mSessionMap c)\<rparr>"
  shows "base_inv c'" "same_mode c c'" "mCurrentSession c' = mCurrentSession c" "st c' = st c"
    "\<And>j. clients c' j = (if j = k then Some U else clients c j)"
proof -
  note frs = queue_frame_simps [OF fr]
  show mode: "same_mode c c'" and cur: "mCurrentSession c' = mCurrentSession c"
    by (simp_all add: same_mode_def c'_def frs)
  show st': "st c' = st c" using s by (simp add: st_def c'_def smap_simps fun_eq_iff)
  show cl: "clients c' j = (if j = k then Some U else clients c j)" for j
    by (simp add: clients_def c'_def smap_simps)
  have "is_client c' = (\<lambda>v j. if j = k then v \<in> U else is_client c v j)"
    by (intro ext) (simp add: is_client_clients cl)
  then have "queues_ok c' (is_client c')"
    using q queues_ok_cong [of c' c2] by (simp add: c'_def)
  moreover have "sess_ok j r" if "session_of c' j = Some r" for j r
    using that base_invD(5) [OF inv, of j] s U
    by (auto simp: c'_def smap_simps sess_ok_def split: if_splits)
  moreover have tw: "mTranscoder c' = mTranscoder c" "mWatchdog c' = mWatchdog c" by (simp_all add: c'_def frs)
  have "run_ok c'" using base_invD(3) [OF inv] unfolding run_ok_def st' cur tw .
  ultimately show "base_inv c'"
    using base_invD(1,4) [OF inv] unfolding base_inv_def by (simp add: c'_def frs smap_ok_set)
qed

lemma removeSession_l_keep_ok:
  assumes it: "iter_ok e" and inv: "base_inv c" and s: "session_of c k = Some s"
    and keep: "u \<in> allClientUids s" "f u"
  obtains c' where "removeSession_l e k fin (Some f) c = Some c'" "base_inv c'" "same_mode c c'"
    "mCurrentSession c' = mCurrentSession c" "st c' = st c"
    "\<And>j. clients c' j = (if j = k then Some {u \<in> allClientUids s. f u} else clients c j)"
proof -
  let ?U = "{u \<in> allClientUids s. f u}"
  obtain c2 where c2: "queue_frame c c2" "queues_ok c2 (\<lambda>v j. is_client c v j \<and> \<not> (j = k \<and> \<not> f v))"
    "removeSession_l e k fin (Some f) c =
       Some (c2\<lparr>mSessionMap := smap_set k (s\<lparr>allClientUids := ?U\<rparr>) (mSessionMap c)\<rparr>)"
    by (rule removeSession_l_queues [OF it base_invD(2) [OF inv] s, of "Some f" fin]) simp
  have "(\<lambda>v j. is_client c v j \<and> \<not> (j = k \<and> \<not> f v)) = (\<lambda>v j. if j = k then v \<in> ?U else is_client c v j)"
    using s by (intro ext) (auto simp: is_client_def)
  with c2(2) have q: "queues_ok c2 (\<lambda>v j. if j = k then v \<in> ?U else is_client c v j)" by simp
  have U: "?U \<noteq> {}" using keep by blast
  show thesis
    by (rule that [OF c2(3) client_change_ok [OF inv s U c2(1) q]])
qed

end
