(* ===== verification/Session_Scheduling.thy ===== *)
theory Session_Scheduling
  imports Session_Removal
begin

text \<open>
  The scheduling loop: it always ends, never has undefined behaviour, and leaves either nothing
  running (no session, or paused globally) or a running session of the front uid. The only
  sessions it drops were never started.
\<close>

section \<open>The loop\<close>

definition scheduled :: "ctrl \<Rightarrow> bool" where
  "scheduled c \<longleftrightarrow>
     (if mSessionMap c = [] \<or> globallyPaused c then mCurrentSession c = None
      else \<exists>k s. mCurrentSession c = Some k \<and> session_of c k = Some s \<and> s_state s = RUNNING
               \<and> hd (mUidSortedList c) \<in> allClientUids s)"

lemma scheduled_sched_inv:
  assumes "base_inv c" "scheduled c"
  shows "sched_inv c"
  using assms(2) run_okD(2) [OF base_invD(3) [OF assms(1)]]
  unfolding scheduled_def sched_inv_def by (auto split: if_splits)

text \<open>What a turn may do to the sessions.\<close>

definition drops_unstarted :: "ctrl \<Rightarrow> ctrl \<Rightarrow> bool" where
  "drops_unstarted c c' \<longleftrightarrow>
     (\<forall>j. clients c' j = clients c j \<or> (clients c' j = None \<and> st c j = Some NOT_STARTED))"

definition loop_post :: "ctrl \<Rightarrow> session_key option \<Rightarrow> ctrl \<Rightarrow> bool" where
  "loop_post c t c' \<longleftrightarrow>
     base_inv (c'\<lparr>mCurrentSession := t\<rparr>) \<and> scheduled (c'\<lparr>mCurrentSession := t\<rparr>)
     \<and> same_mode c c' \<and> drops_unstarted c c'"

lemma state_frame_drops: "state_frame c c' \<Longrightarrow> drops_unstarted c c'"
  by (simp add: state_frame_def drops_unstarted_def)

lemma state_frame_mode: "state_frame c c' \<Longrightarrow> same_mode c c'"
  by (simp add: state_frame_def)

lemma state_frame_empty: "state_frame c c' \<Longrightarrow> (mSessionMap c' = []) = (mSessionMap c = [])"
  by (simp add: map_empty_clients state_frame_def)

text \<open>Running the chosen session satisfies the postcondition.\<close>

lemma run_session_post:
  assumes inv: "base_inv c" and tx: "mTranscoder c \<noteq> None" and none: "\<And>j. st c j \<noteq> Some RUNNING"
    and fr: "state_frame b c" and s: "session_of c k = Some s"
    and b: "mSessionMap b \<noteq> []" "\<not> globallyPaused b" "hd (mUidSortedList b) \<in> allClientUids s"
  shows "\<exists>c'. runSession e out k c = Some c' \<and> loop_post b (Some k) c'"
proof -
  obtain c' where c': "runSession e out k c = Some c'" "base_inv (c'\<lparr>mCurrentSession := Some k\<rparr>)"
    "state_frame c c'" "st c' = (st c)(k := Some RUNNING)"
    by (rule run_session_ok [OF inv tx s none, of e out])
  have bc: "state_frame b c'" by (rule state_frame_trans [OF fr c'(3)])
  obtain s' where s': "session_of c' k = Some s'" "s_state s' = RUNNING"
    using fun_cong [OF c'(4), of k] by (auto simp: st_def)
  have "clients c' k = clients c k" using c'(3) by (simp add: state_frame_def)
  then have "allClientUids s' = allClientUids s" using s s' by (simp add: clients_def)
  moreover have "mUidSortedList c' = mUidSortedList b" "mSessionMap c' \<noteq> []"
    using bc b(1) state_frame_empty [OF bc] by (simp_all add: state_frame_def)
  moreover have "\<not> globallyPaused c'" using same_mode_paused [OF state_frame_mode [OF bc]] b(2) by simp
  then have "\<not> globallyPaused (c'\<lparr>mCurrentSession := Some k\<rparr>)" by (simp add: globallyPaused_def)
  ultimately have "scheduled (c'\<lparr>mCurrentSession := Some k\<rparr>)"
    using s' b(3) by (simp add: scheduled_def)
  then have "loop_post b (Some k) c'"
    using c'(2) bc by (simp add: loop_post_def state_frame_mode state_frame_drops)
  with c'(1) show ?thesis by blast
qed

lemma loop_post_trans:
  assumes "loop_post b t c'" "same_mode a b" "drops_unstarted a b"
    and "\<And>j. st b j = Some NOT_STARTED \<Longrightarrow> st a j = Some NOT_STARTED"
  shows "loop_post a t c'"
  using assms unfolding loop_post_def drops_unstarted_def by (metis same_mode_trans)

text \<open>A dropped session was not started, so the current session stays.\<close>

lemma dropSession_ok:
  assumes it: "iter_ok e" and inv: "base_inv c" and s: "session_of c k = Some s" "s_state s = NOT_STARTED"
  obtains c' where "dropSession e s k c = Some c'" "base_inv c'" "same_mode c c'"
    "mCurrentSession c' = mCurrentSession c" "drops_unstarted c c'" "st c' = (st c)(k := None)"
proof -
  let ?c = "callClient e (s_callback s) (\<lambda>b. CbFailed b (snd k) kDroppedByService) c"
  have "base_inv ?c" "session_of ?c k = Some s" using inv s by simp_all
  from removeSession_l_ok [OF it this, of DROPPED_BY_PACER]
  obtain c' where c': "removeSession_l e k DROPPED_BY_PACER None ?c = Some c'" "base_inv c'"
    "same_mode ?c c'" "\<And>j. session_of c' j = (if j = k then None else session_of ?c j)"
    "mCurrentSession c' = (if mCurrentSession ?c = Some k then None else mCurrentSession ?c)"
    by blast
  have "mCurrentSession c \<noteq> Some k"
    using run_okD(1) [OF base_invD(3) [OF inv], of k] s by (auto simp: st_def)
  moreover have "st c k = Some NOT_STARTED" using s by (simp add: st_def)
  ultimately show thesis
    using c'(1,2) same_mode_trans [OF ctrl_frame_same_mode [OF callClient_frame] c'(3)] c'(4,5)
    by (intro that [of c']) (auto simp: dropSession_def drops_unstarted_def clients_def st_def)
qed

lemma updateLoop_turn:
  assumes "getTopSession_l c = Some (Some k, c)" "\<not> (cur = Some k \<and> st c k = Some RUNNING)"
    "pauseCurrent e cur c = Some c2" "session_of c2 k = Some s"
  shows "s_state s = NOT_STARTED \<Longrightarrow> admitSession e s c2 = (False, c3) \<Longrightarrow>
           dropSession e s k c3 = Some c4 \<Longrightarrow> updateLoop e cur c = updateLoop e cur c4"
    and "s_state s = NOT_STARTED \<Longrightarrow> admitSession e s c2 = (True, c3) \<Longrightarrow>
           updateLoop e cur c = map_option (Pair (Some k))
             (runSession e (\<lambda>t. TxStart t (s_key s) (s_callingUid s)) k c3)"
    and "s_state s = PAUSED \<Longrightarrow> updateLoop e cur c = map_option (Pair (Some k))
             (runSession e (\<lambda>t. TxResume t (s_key s) (s_callingUid s)) k c2)"
  using assms by (subst updateLoop.simps; auto simp: st_def)+

lemma updateLoop_ok:
  assumes it: "iter_ok e"
  shows "base_inv c \<Longrightarrow> mCurrentSession c = cur \<Longrightarrow> mTranscoder c \<noteq> None \<Longrightarrow>
         \<exists>t c'. updateLoop e cur c = Some (t, c') \<and> loop_post c t c'"
proof (induction "card (set (smap_keys (mSessionMap c)))" arbitrary: c rule: less_induct)
  case less
  note inv = less.prems(1) and cur = less.prems(2) and tx = less.prems(3)
  obtain c2 where c2: "pauseCurrent e cur c = Some c2" "base_inv c2" "state_frame c c2"
    "\<And>j. st c2 j = (if st c j = Some RUNNING then Some PAUSED else st c j)"
    using pauseCurrent_ok [OF inv, of e] cur by metis
  have tx2: "mTranscoder c2 \<noteq> None" using c2(3) tx by (simp add: state_frame_def same_mode_def)
  have none: "st c2 j \<noteq> Some RUNNING" for j using c2(4) by simp
  from inv show ?case
  proof (cases rule: getTopSession_l_ok)
    case 1
    have "loop_post c None (if cur = None then c else c2)"
    proof -
      have empty: "mSessionMap c2 = [] \<or> globallyPaused c2"
        using 1(2) state_frame_empty [OF c2(3)] same_mode_paused [OF state_frame_mode [OF c2(3)]] by simp
      have "run_ok (c2\<lparr>mCurrentSession := None\<rparr>)"
        using base_invD(3) [OF c2(2)] none unfolding run_ok_def by auto
      then have "base_inv (c2\<lparr>mCurrentSession := None\<rparr>)"
        by (rule state_frame_base_inv [OF c2(2) state_frame_refl]) (rule base_inv_states [OF c2(2)])
      then have "loop_post c None c2"
        using empty c2(3) by (simp add: loop_post_def scheduled_def state_frame_mode state_frame_drops)
      moreover have "loop_post c None c" if "cur = None"
        using that 1(2) inv cur
        by (simp add: current_same loop_post_def scheduled_def drops_unstarted_def)
      ultimately show ?thesis by simp
    qed
    then show ?thesis
      using 1 c2(1) cur by (subst updateLoop.simps) (auto split: if_splits)
  next
    case (2 k s)
    show ?thesis
    proof (cases "cur = Some k \<and> st c k = Some RUNNING")
      case True
      then have "loop_post c (Some k) c"
        using 2 inv cur
        by (auto simp: current_same loop_post_def scheduled_def drops_unstarted_def st_def)
      then show ?thesis
        using 2(1) True by (subst updateLoop.simps) (simp add: st_def)
    next
      case False
      have nr: "st c k \<noteq> Some RUNNING"
        using False run_okD(2) [OF base_invD(3) [OF inv], of k] cur by blast
      then have st2: "st c2 k = st c k" using c2(4) [of k] by simp
      then obtain s2 where s2: "session_of c2 k = Some s2" "s_state s2 = s_state s"
        using 2(2) by (auto simp: st_def)
      have "clients c2 k = clients c k" using c2(3) by (simp add: state_frame_def)
      then have top: "hd (mUidSortedList c) \<in> allClientUids s2"
        using 2(2,5) s2 by (simp add: clients_def)
      note turn = updateLoop_turn [OF 2(1) False c2(1) s2(1)]
      consider "s_state s2 = PAUSED" | c3 where "s_state s2 = NOT_STARTED" "admitSession e s2 c2 = (True, c3)"
        | c3 where "s_state s2 = NOT_STARTED" "admitSession e s2 c2 = (False, c3)"
        using base_inv_states [OF c2(2), of k "s_state s2"] s2(1) none [of k]
        by (cases "admitSession e s2 c2") (auto simp: st_def)
      then show ?thesis
      proof cases
        case 1
        then show ?thesis
          using run_session_post [OF c2(2) tx2 none c2(3) s2(1) 2(3,4) top] turn(3) by fastforce
      next
        case (2 c3)
        then have fr: "ctrl_frame c2 c3" using admitSession_frame [of c2 e s2] by simp
        have "\<exists>c'. runSession e (\<lambda>t. TxStart t (s_key s2) (s_callingUid s2)) k c3 = Some c'
                   \<and> loop_post c (Some k) c'"
          using c2(2) tx2 none state_frame_trans [OF c2(3) ctrl_frame_state_frame [OF fr]] s2(1)
            \<open>mSessionMap c \<noteq> []\<close> \<open>\<not> globallyPaused c\<close> top
          by (intro run_session_post) (simp_all add: ctrl_frame_base_inv [OF fr] ctrl_frame_simps [OF fr] ctrl_frame_st [OF fr])
        then show ?thesis using turn(2) [OF 2] by fastforce
      next
        case (3 c3)
        then have fr: "ctrl_frame c2 c3" using admitSession_frame [of c2 e s2] by simp
        note fr3 = state_frame_trans [OF c2(3) ctrl_frame_state_frame [OF fr]]
        have s3: "session_of c3 k = Some s2" "base_inv c3" "st c3 = st c2"
          using s2 c2(2) ctrl_frame_base_inv [OF fr] ctrl_frame_simps [OF fr] ctrl_frame_st [OF fr] by simp_all
        obtain c4 where c4: "dropSession e s2 k c3 = Some c4" "base_inv c4" "same_mode c3 c4"
          "mCurrentSession c4 = mCurrentSession c3" "drops_unstarted c3 c4" "st c4 = (st c3)(k := None)"
          by (rule dropSession_ok [OF it s3(2,1) 3(1)])
        have keys: "set (smap_keys (mSessionMap c3)) = set (smap_keys (mSessionMap c))"
          using pauseCurrent_keys [OF c2(1)] ctrl_frame_simps(2) [OF fr] by simp
        have "k \<in> set (smap_keys (mSessionMap c3))" using s3(1) by (simp add: smap_keys_find)
        then have "card (set (smap_keys (mSessionMap c4))) < card (set (smap_keys (mSessionMap c)))"
          unfolding keys [symmetric] dropSession_keys [OF c4(1), unfolded s3, simplified]
          by (rule card_Diff1_less [OF finite_set])
        moreover have "mCurrentSession c4 = cur" "mTranscoder c4 \<noteq> None"
          using c4(3,4) fr3 cur tx by (simp_all add: state_frame_def same_mode_def)
        ultimately obtain t c' where c': "updateLoop e cur c4 = Some (t, c')" "loop_post c4 t c'"
          using less.hyps c4(2) by blast
        have ns: "st c3 j = Some NOT_STARTED \<Longrightarrow> st c j = Some NOT_STARTED" for j
          using c2(4) [of j] s3(3) by (simp split: if_splits)
        have "loop_post c t c'"
        proof (rule loop_post_trans [OF c'(2)])
          show "same_mode c c4" using same_mode_trans [OF state_frame_mode [OF fr3] c4(3)] .
          show "drops_unstarted c c4"
            using c4(5) fr3 ns unfolding drops_unstarted_def by (simp add: state_frame_def) blast
          show "st c4 j = Some NOT_STARTED \<Longrightarrow> st c j = Some NOT_STARTED" for j
            using ns [of j] unfolding c4(6) by (simp split: if_splits)
        qed
        with c'(1) turn(1) [OF 3 c4(1)] show ?thesis by simp
      qed
    qed
  qed
qed

end
