(* ===== verification/Session_Correctness.thy ===== *)
theory Session_Correctness
  imports Session_Scheduling
begin

text \<open>
  Every handler of the session controller: no undefined behaviour, the invariant afterwards, and
  what becomes of the sessions' client uids. The main facts are that the invariant holds in every
  reachable state, and what follows from it: the debug check never fires, at most one session runs,
  and a session of the front uid runs whenever one may.
\<close>

section \<open>Rescheduling\<close>

lemma ensureTranscoder_simps [simp]:
  "mSessionMap (ensureTranscoder c) = mSessionMap c" "mSessionQueues (ensureTranscoder c) = mSessionQueues c"
  "mUidSortedList (ensureTranscoder c) = mUidSortedList c" "mUidPolicy (ensureTranscoder c) = mUidPolicy c"
  "mCurrentSession (ensureTranscoder c) = mCurrentSession c" "mSessionHistory (ensureTranscoder c) = mSessionHistory c"
  "mResourcePolicy (ensureTranscoder c) = mResourcePolicy c" "mResourceLost (ensureTranscoder c) = mResourceLost c"
  "mThermalPolicy (ensureTranscoder c) = mThermalPolicy c" "mThermalThrottling (ensureTranscoder c) = mThermalThrottling c"
  "mTranscoder (ensureTranscoder c) \<noteq> None" "clients (ensureTranscoder c) = clients c" "st (ensureTranscoder c) = st c"
  by (simp_all add: ensureTranscoder_def clients_def st_def fun_eq_iff)

text \<open>Building the invariant of a state from that of an earlier one with the same running session.\<close>

lemma base_inv_build:
  assumes inv: "base_inv c" and ok: "smap_ok (mSessionMap c')" "queues_ok c' (is_client c')"
    and sess: "\<And>k s. session_of c' k = Some s \<Longrightarrow> sess_ok k s"
    and eq: "mCurrentSession c' = mCurrentSession c" "mTranscoder c' = mTranscoder c"
      "mWatchdog c' = mWatchdog c" "mSessionHistory c' = mSessionHistory c"
    and st: "\<And>j. st c' j = st c j \<or> st c j = None \<and> st c' j = Some NOT_STARTED"
  shows "base_inv c'"
proof -
  have run: "st c' j = Some RUNNING \<longleftrightarrow> st c j = Some RUNNING"
    and paused: "st c' j = Some PAUSED \<longleftrightarrow> st c j = Some PAUSED" for j
    using st [of j] by auto
  have "run_ok c'" using base_invD(3) [OF inv] unfolding run_ok_def run paused eq .
  then show ?thesis
    using ok sess base_invD(4) [OF inv] eq(4) unfolding base_inv_def by simp
qed

lemma base_inv_ensureTranscoder:
  assumes inv: "base_inv c"
  shows "base_inv (ensureTranscoder c)"
proof (cases "mTranscoder c")
  case None
  let ?c = "ensureTranscoder c"
  note run = run_okD [OF base_invD(3) [OF inv]]
  have none: "st c j \<noteq> Some RUNNING" "st c j \<noteq> Some PAUSED" for j using run(3) [of j] None by auto
  have wd: "mWatchdog ?c = Some (Watchdog (watchdogTimeoutUs (mConfig c)))"
    using None by (simp add: ensureTranscoder_def)
  have "run_ok ?c" using none run(1) wd unfolding run_ok_def by (cases "mCurrentSession c") auto
  moreover have "is_client ?c = is_client c" by (intro ext) (simp add: is_client_clients)
  ultimately show ?thesis
    using inv queues_ok_cong [of ?c c] unfolding base_inv_def by simp
qed (simp add: ensureTranscoder_def inv)

lemma updateCurrentSession_l_ok:
  assumes it: "iter_ok e" and inv: "base_inv c"
  obtains c' where "updateCurrentSession_l e c = Some c'" "ctrl_inv c'" "scheduled c'"
    "drops_unstarted c c'" "globallyPaused c' = globallyPaused c"
proof -
  let ?c = "ensureTranscoder c"
  obtain t c' where c': "updateLoop e (mCurrentSession c) ?c = Some (t, c')" "loop_post ?c t c'"
    using updateLoop_ok [OF it base_inv_ensureTranscoder [OF inv] refl] by auto
  let ?c' = "c'\<lparr>mCurrentSession := t\<rparr>"
  have "same_mode ?c c'" "base_inv ?c'" "scheduled ?c'" "drops_unstarted ?c c'"
    using c'(2) unfolding loop_post_def by blast+
  moreover have "globallyPaused ?c = globallyPaused c" by (simp add: globallyPaused_def)
  ultimately show thesis
    using c'(1) by (intro that [of ?c'])
      (simp_all add: updateCurrentSession_l_def ctrl_inv_def scheduled_sched_inv same_mode_paused
        drops_unstarted_def)
qed

text \<open>No session appears.\<close>

definition keys_shrink :: "ctrl \<Rightarrow> ctrl \<Rightarrow> bool" where
  "keys_shrink c c' \<longleftrightarrow> (\<forall>j. clients c j = None \<longrightarrow> clients c' j = None)"

lemma keys_shrink_trans: "keys_shrink a b \<Longrightarrow> keys_shrink b c \<Longrightarrow> keys_shrink a c"
  by (simp add: keys_shrink_def)

lemma keys_shrink_same: "clients c' = clients c \<Longrightarrow> keys_shrink c c'"
  by (simp add: keys_shrink_def)

lemma ctrl_frame_shrink: "ctrl_frame c c' \<Longrightarrow> keys_shrink c c'"
  by (simp add: keys_shrink_def clients_def ctrl_frame_simps)

lemma drops_shrink: "drops_unstarted c c' \<Longrightarrow> keys_shrink c c'"
  unfolding drops_unstarted_def keys_shrink_def by metis

lemma resched_ok:
  assumes "iter_ok e" "base_inv c"
  shows "\<exists>c'. updateCurrentSession_l e c = Some c' \<and> ctrl_inv c' \<and> keys_shrink c c'"
  by (rule updateCurrentSession_l_ok [OF assms]) (use drops_shrink in blast)

section \<open>Submitting and adding client uids\<close>

lemma addUid_base_inv:
  assumes inv: "base_inv c" and new: "\<not> is_client c u k"
    and c1: "mSessionQueues c1 = mSessionQueues c" "mUidSortedList c1 = mUidSortedList c"
      "mUidPolicy c1 = mUidPolicy c" "mCurrentSession c1 = mCurrentSession c"
      "mTranscoder c1 = mTranscoder c" "mWatchdog c1 = mWatchdog c" "mSessionHistory c1 = mSessionHistory c"
    and map: "smap_ok (mSessionMap c1)" "\<And>j s. session_of c1 j = Some s \<Longrightarrow> sess_ok j s"
    and st: "\<And>j. st c1 j = st c j \<or> st c j = None \<and> st c1 j = Some NOT_STARTED"
    and cl: "is_client c1 = with_pair (is_client c) u k"
  obtains c2 where "addUidToSession_l e u k c1 = Some c2" "base_inv c2" "clients c2 = clients c1"
    "st c2 = st c1" "globallyPaused c2 = globallyPaused c1"
proof -
  have "queues_ok c1 (is_client c)" using base_invD(2) [OF inv] queues_ok_cong [of c1 c] c1 by simp
  from addUidToSession_l_ok [OF this new, of e]
  obtain c2 where c2: "addUidToSession_l e u k c1 = Some c2" "queue_frame c1 c2"
    "queues_ok c2 (with_pair (is_client c) u k)" by blast
  note fr = queue_frame_simps [OF c2(2)]
  have st2: "st c2 = st c1" and cl2: "clients c2 = clients c1"
    by (simp_all add: st_def clients_def fr fun_eq_iff)
  have "is_client c2 = is_client c1" by (intro ext) (simp add: is_client_clients cl2)
  then have "base_inv c2"
    using c2(3) map st st2 cl c1 by (intro base_inv_build [OF inv]) (simp_all add: fr)
  then show thesis using that c2(1) cl2 st2 by (simp add: globallyPaused_def fr)
qed

lemma submit_base_inv:
  assumes inv: "base_inv c" and new: "session_of c k = None"
    and s: "s_key s = k" "allClientUids s = {u}" "s_state s = INVALID"
  obtains c2 c3 where
    "setSessionState_l e k NOT_STARTED (c\<lparr>mUidPackageNames := p, mSessionMap := smap_set k s (mSessionMap c)\<rparr>)
       = Some c2"
    "addUidToSession_l e u k c2 = Some c3" "base_inv c3" "clients c3 = (clients c)(k := Some {u})"
    "st c3 = (st c)(k := Some NOT_STARTED)" "globallyPaused c3 = globallyPaused c"
proof -
  let ?c1 = "c\<lparr>mUidPackageNames := p, mSessionMap := smap_set k s (mSessionMap c)\<rparr>"
  have s1: "session_of ?c1 k = Some s" by (simp add: smap_simps)
  obtain t t' n where eq: "setSessionState_l e k NOT_STARTED ?c1 =
    Some (?c1\<lparr>mSessionMap := smap_set k (setState t NOT_STARTED s) (mSessionMap ?c1),
            mWatchdog := watchdogAfter t' (s_state s) NOT_STARTED (s_key s) (mWatchdog ?c1), envReads := n\<rparr>)"
    (is "_ = Some ?c2") by (rule setSessionState_l_eq [OF s1, of NOT_STARTED e]) (use s(3) in simp_all)
  have cl: "clients ?c2 = (clients c)(k := Some {u})" and st: "st ?c2 = (st c)(k := Some NOT_STARTED)"
    using s by (simp_all add: clients_def st_def smap_simps fun_eq_iff)
  have nc: "\<not> is_client c v k" for v using new by (simp add: is_client_def)
  have "clients c k = None" using new by (simp add: clients_def)
  then have isc: "is_client ?c2 = with_pair (is_client c) u k"
    by (intro ext) (simp only: is_client_clients cl fun_upd_apply, simp)
  have gp: "globallyPaused ?c2 = globallyPaused c" by (simp add: globallyPaused_def)
  obtain c3 where c3: "addUidToSession_l e u k ?c2 = Some c3" "base_inv c3" "clients c3 = clients ?c2"
    "st c3 = st ?c2" "globallyPaused c3 = globallyPaused ?c2"
  proof (rule addUid_base_inv [OF inv nc [of u] _ _ _ _ _ _ _ _ _ _ isc, of e])
    show "smap_ok (mSessionMap ?c2)" using base_invD(1) [OF inv] by (simp add: smap_ok_set)
    show "sess_ok j r" if "session_of ?c2 j = Some r" for j r
      using that base_invD(5) [OF inv, of j r] s
      by (auto simp: smap_simps sess_ok_def split: if_splits)
    show "st ?c2 j = st c j \<or> st c j = None \<and> st ?c2 j = Some NOT_STARTED" for j
      unfolding st using new by (simp add: st_def)
  qed (simp_all add: watchdogAfter_def s(3))
  show thesis
    by (rule that [OF eq c3(1,2)]) (simp_all only: c3 cl st gp)
qed

definition submit_uid :: "request \<Rightarrow> uid \<Rightarrow> uid" where
  "submit_uid r u = (if req_priority r = kUnspecified then OFFLINE_UID else u)"

lemma submit_ok:
  assumes it: "iter_ok e" and inv: "base_inv c" and new: "session_of c (ci, si) = None"
  obtains c' where "submit e ci si cu u r cb c = Some (True, c')" "ctrl_inv c'" "scheduled c'"
    "\<And>j. clients c' j = ((clients c)((ci, si) := Some {submit_uid r u})) j \<or>
          clients c' j = None \<and> (j = (ci, si) \<or> st c j = Some NOT_STARTED)"
proof -
  let ?k = "(ci, si)"
  let ?s = "default_session\<lparr>s_key := ?k, s_callingUid := cu, allClientUids := {submit_uid r u},
               s_request := r, s_callback := cb\<rparr>"
  obtain c2 c3 where c3:
    "setSessionState_l e ?k NOT_STARTED
       (c\<lparr>mUidPackageNames := smap_emplace u (clientPackageName r) (mUidPackageNames c),
          mSessionMap := smap_set ?k ?s (mSessionMap c)\<rparr>) = Some c2"
    "addUidToSession_l e (submit_uid r u) ?k c2 = Some c3" "base_inv c3"
    "clients c3 = (clients c)(?k := Some {submit_uid r u})" "st c3 = (st c)(?k := Some NOT_STARTED)"
    by (rule submit_base_inv [OF inv new, of ?s "submit_uid r u" e]) (simp_all add: default_session_def)
  obtain c' where c': "updateCurrentSession_l e c3 = Some c'" "ctrl_inv c'" "scheduled c'" "drops_unstarted c3 c'"
    by (rule updateCurrentSession_l_ok [OF it c3(3)])
  have "submit e ci si cu u r cb c = Some (True, c')"
    using c3(1,2) c'(1) new by (simp add: submit_def smap_count_def submit_uid_def Let_def)
  then show thesis
  proof (rule that [OF _ c'(2,3)])
    show "clients c' j = ((clients c)(?k := Some {submit_uid r u})) j \<or>
          clients c' j = None \<and> (j = ?k \<or> st c j = Some NOT_STARTED)" for j
      using c'(4) unfolding drops_unstarted_def c3(4,5) by (auto dest: spec [of _ j] split: if_splits)
  qed
qed

lemma addClientUid_ok:
  assumes it: "iter_ok e" and inv: "base_inv c" and s: "session_of c (ci, si) = Some s"
    and new: "u \<notin> allClientUids s"
  obtains c' where "addClientUid e ci si u c = Some (True, c')" "ctrl_inv c'" "scheduled c'"
    "\<And>j. clients c' j = ((clients c)((ci, si) := Some (insert u (allClientUids s)))) j \<or>
          clients c' j = None \<and> st c j = Some NOT_STARTED"
proof -
  let ?k = "(ci, si)"
  let ?c1 = "c\<lparr>mSessionMap :=
               smap_set ?k (s\<lparr>allClientUids := insert u (allClientUids s)\<rparr>) (mSessionMap c)\<rparr>"
  have cl: "clients ?c1 = (clients c)(?k := Some (insert u (allClientUids s)))" and st: "st ?c1 = st c"
    using s by (simp_all add: clients_def st_def smap_simps fun_eq_iff)
  have "clients c ?k = Some (allClientUids s)" using s by (simp add: clients_def)
  then have isc: "is_client ?c1 = with_pair (is_client c) u ?k"
    by (intro ext) (simp only: is_client_clients cl fun_upd_apply, simp)
  have nc: "\<not> is_client c u ?k" using s new by (simp add: is_client_def)
  obtain c2 where c2: "addUidToSession_l e u ?k ?c1 = Some c2" "base_inv c2" "clients c2 = clients ?c1"
    "st c2 = st ?c1"
  proof (rule addUid_base_inv [OF inv nc _ _ _ _ _ _ _ _ _ _ isc, of e])
    show "smap_ok (mSessionMap ?c1)" using base_invD(1) [OF inv] by (simp add: smap_ok_set)
    show "sess_ok j r" if "session_of ?c1 j = Some r" for j r
      using that base_invD(5) [OF inv, of j] s by (auto simp: smap_simps sess_ok_def split: if_splits)
    show "st ?c1 j = st c j \<or> st c j = None \<and> st ?c1 j = Some NOT_STARTED" for j by (simp add: st)
  qed simp_all
  obtain c' where c': "updateCurrentSession_l e c2 = Some c'" "ctrl_inv c'" "scheduled c'" "drops_unstarted c2 c'"
    by (rule updateCurrentSession_l_ok [OF it c2(2)])
  have "addClientUid e ci si u c = Some (True, c')"
    using c2(1) c'(1) s new by (simp add: addClientUid_def Let_def)
  then show thesis
  proof (rule that [OF _ c'(2,3)])
    show "clients c' j = ((clients c)(?k := Some (insert u (allClientUids s)))) j \<or>
          clients c' j = None \<and> st c j = Some NOT_STARTED" for j
      using c'(4) unfolding drops_unstarted_def c2(3,4) cl st by blast
  qed
qed

section \<open>Cancelling, and uids that go away\<close>

lemma stopSession_ok:
  assumes inv: "base_inv c" and s: "session_of c k = Some s"
  obtains c' where "stopSession k c = Some (s, c')" "ctrl_frame c c'"
proof (cases "s_state s = NOT_STARTED")
  case True
  then show thesis using that [of c] s by (simp add: stopSession_def)
next
  case False
  then have "st c k = Some RUNNING \<or> st c k = Some PAUSED"
    using sess_okD(3) [OF base_invD(5) [OF inv s]] s by (auto simp: st_def)
  then obtain t where "mTranscoder c = Some t" using run_okD(3) [OF base_invD(3) [OF inv]] by blast
  then show thesis
    using that [of "emit (TxStop t k False) c"] s False by (simp add: stopSession_def callTranscoder_def)
qed

lemma cancelOne_ok:
  assumes it: "iter_ok e" and inv: "base_inv c" and k: "clients c k \<noteq> None"
  shows "\<exists>c'. cancelOne e k c = Some c' \<and> base_inv c' \<and> clients c' = (clients c)(k := None)"
proof -
  obtain s where s: "session_of c k = Some s" using k by (auto simp: clients_def)
  obtain c1 where c1: "stopSession k c = Some (s, c1)" "ctrl_frame c c1" by (rule stopSession_ok [OF inv s])
  have "base_inv c1" "session_of c1 k = Some s"
    using ctrl_frame_base_inv [OF c1(2)] inv s ctrl_frame_simps(2) [OF c1(2)] by simp_all
  then obtain c' where c': "removeSession_l e k CANCELED None c1 = Some c'" "base_inv c'"
    "\<And>j. session_of c' j = (if j = k then None else session_of c1 j)"
    using removeSession_l_ok [OF it, of c1 k s CANCELED] by blast
  have "clients c' = (clients c)(k := None)"
    using c'(3) ctrl_frame_simps(2) [OF c1(2)] by (simp add: clients_def fun_eq_iff)
  then show ?thesis using c1(1) c'(1,2) by (simp add: cancelOne_def)
qed

lemma goneOne_ok:
  assumes it: "iter_ok e" and inv: "base_inv c" and k: "clients c k \<noteq> None"
  shows "\<exists>c'. goneOne e k c = Some c' \<and> base_inv c' \<and> clients c' = (clients c)(k := None)"
proof -
  obtain s where s: "session_of c k = Some s" using k by (auto simp: clients_def)
  obtain c1 where c1: "stopSession k c = Some (s, c1)" "ctrl_frame c c1" by (rule stopSession_ok [OF inv s])
  let ?c2 = "callClient e (s_callback s) (\<lambda>b. CbFailed b (snd k) kUidGoneCancelled) c1"
  have fr: "ctrl_frame c ?c2" by (rule ctrl_frame_trans [OF c1(2) callClient_frame])
  have "base_inv ?c2" "session_of ?c2 k = Some s"
    using ctrl_frame_base_inv [OF fr] inv s ctrl_frame_simps(2) [OF fr] by simp_all
  then obtain c' where c': "removeSession_l e k CANCELED None ?c2 = Some c'" "base_inv c'"
    "\<And>j. session_of c' j = (if j = k then None else session_of ?c2 j)"
    using removeSession_l_ok [OF it, of ?c2 k s CANCELED] by blast
  have "clients c' = (clients c)(k := None)"
    using c'(3) ctrl_frame_simps(2) [OF fr] by (simp add: clients_def fun_eq_iff)
  then show ?thesis using c1(1) c'(1,2) by (simp add: goneOne_def)
qed

text \<open>The loop that removes sessions, and the loop that removes some of their client uids.\<close>

lemma foldM_remove_ok:
  assumes step: "\<And>k c. base_inv c \<Longrightarrow> clients c k \<noteq> None \<Longrightarrow>
      \<exists>c'. f k c = Some c' \<and> base_inv c' \<and> clients c' = (clients c)(k := None)"
  shows "base_inv c \<Longrightarrow> distinct ks \<Longrightarrow> (\<forall>k \<in> set ks. clients c k \<noteq> None) \<Longrightarrow>
    \<exists>c'. foldM f ks c = Some c' \<and> base_inv c' \<and>
         clients c' = (\<lambda>j. if j \<in> set ks then None else clients c j)"
proof (induction ks arbitrary: c)
  case (Cons k ks)
  then obtain c1 where c1: "f k c = Some c1" "base_inv c1" "clients c1 = (clients c)(k := None)"
    using step [of c k] by auto
  have "\<forall>k \<in> set ks. clients c1 k \<noteq> None" using Cons.prems(2,3) unfolding c1(3) by auto
  then obtain c' where "foldM f ks c1 = Some c'" "base_inv c'"
    "clients c' = (\<lambda>j. if j \<in> set ks then None else clients c1 j)"
    using Cons.IH [OF c1(2)] Cons.prems(2) by auto
  with c1 show ?case by (auto simp: fun_eq_iff)
qed simp

lemma foldM_keep_ok:
  assumes it: "iter_ok e"
  shows "base_inv c \<Longrightarrow> distinct ks \<Longrightarrow> (\<forall>k \<in> set ks. \<exists>U u. clients c k = Some U \<and> u \<in> U \<and> f u) \<Longrightarrow>
    \<exists>c'. foldM (\<lambda>k. removeSession_l e k CANCELED (Some f)) ks c = Some c' \<and> base_inv c' \<and>
         clients c' = (\<lambda>j. if j \<in> set ks then map_option (Set.filter f) (clients c j) else clients c j)"
proof (induction ks arbitrary: c)
  case (Cons k ks)
  then obtain s u where s: "session_of c k = Some s" "u \<in> allClientUids s" "f u"
    by (auto simp: clients_def)
  obtain c1 where c1: "removeSession_l e k CANCELED (Some f) c = Some c1" "base_inv c1"
    "\<And>j. clients c1 j = (if j = k then Some {u \<in> allClientUids s. f u} else clients c j)"
    by (rule removeSession_l_keep_ok [where f = f and fin = CANCELED, OF it Cons.prems(1) s]) blast
  then have c1': "clients c1 = (clients c)(k := map_option (Set.filter f) (clients c k))"
    using s by (auto simp: fun_eq_iff clients_def)
  have "\<forall>k \<in> set ks. \<exists>U u. clients c1 k = Some U \<and> u \<in> U \<and> f u"
    using Cons.prems(2,3) unfolding c1' by auto
  then obtain c' where "foldM (\<lambda>k. removeSession_l e k CANCELED (Some f)) ks c1 = Some c'" "base_inv c'"
    "clients c' = (\<lambda>j. if j \<in> set ks then map_option (Set.filter f) (clients c1 j) else clients c1 j)"
    using Cons.IH [OF c1(2)] Cons.prems(2) by auto
  with c1(1) Cons.prems(2) show ?case unfolding c1' by (auto simp: fun_eq_iff)
qed simp

text \<open>
  What cancelling removes: one session, or all of a client's, except that a session that is also
  submitted offline stays for the offline uid alone.
\<close>

definition cancelled :: "client_id \<Rightarrow> session_id \<Rightarrow> (session_key \<Rightarrow> uid set option) \<Rightarrow> session_key \<Rightarrow> uid set option" where
  "cancelled ci si cl j =
     (if si < 0 then
        if fst j = ci
        then (case cl j of None \<Rightarrow> None | Some U \<Rightarrow> if OFFLINE_UID \<in> U then Some {OFFLINE_UID} else None)
        else cl j
      else if j = (ci, si) then None else cl j)"

lemma cancel_ok:
  assumes it: "iter_ok e" and inv: "base_inv c" and known: "si < 0 \<or> session_of c (ci, si) \<noteq> None"
  obtains c' where "cancel e ci si c = Some (True, c')" "ctrl_inv c'" "scheduled c'"
    "\<And>j. clients c' j = cancelled ci si (clients c) j \<or> clients c' j = None"
proof -
  note ok = base_invD(1) [OF inv]
  let ?mine = "filter (\<lambda>(k, s). fst k = ci) (mSessionMap c)"
  define rm where "rm = (if si < 0 then map fst (filter (\<lambda>(k, s). OFFLINE_UID \<notin> allClientUids s) ?mine)
                         else [(ci, si)])"
  define off where "off = (if si < 0 then map fst (filter (\<lambda>(k, s). OFFLINE_UID \<in> allClientUids s) ?mine)
                          else [])"
  have d: "distinct rm" "distinct off"
    using smap_select(1) [OF ok] by (simp_all add: rm_def off_def filter_filter)
  have rm: "k \<in> set rm \<longleftrightarrow> (if si < 0 then fst k = ci \<and> (\<exists>U. clients c k = Some U \<and> OFFLINE_UID \<notin> U) else k = (ci, si))" for k
    unfolding rm_def using smap_select(2) [OF ok, of k] by (auto simp: clients_def)
  have off: "k \<in> set off \<longleftrightarrow> si < 0 \<and> fst k = ci \<and> (\<exists>U. clients c k = Some U \<and> OFFLINE_UID \<in> U)" for k
    unfolding off_def using smap_select(2) [OF ok, of k] by (auto simp: clients_def)
  have "\<forall>k \<in> set rm. clients c k \<noteq> None" using known by (auto simp: rm clients_def split: if_splits)
  then obtain c1 where c1: "foldM (cancelOne e) rm c = Some c1" "base_inv c1"
    "clients c1 = (\<lambda>j. if j \<in> set rm then None else clients c j)"
    using foldM_remove_ok [of "cancelOne e", OF cancelOne_ok [OF it]] inv d(1) by blast
  let ?f = "\<lambda>u. u = OFFLINE_UID"
  have "\<forall>k \<in> set off. \<exists>U u. clients c1 k = Some U \<and> u \<in> U \<and> ?f u"
    unfolding c1(3) by (auto simp: rm off)
  then obtain c2 where c2: "foldM (\<lambda>k. removeSession_l e k CANCELED (Some ?f)) off c1 = Some c2" "base_inv c2"
    "clients c2 = (\<lambda>j. if j \<in> set off then map_option (Set.filter ?f) (clients c1 j) else clients c1 j)"
    using foldM_keep_ok [OF it c1(2) d(2), of ?f] by blast
  have cl: "clients c2 = cancelled ci si (clients c)"
  proof (rule ext)
    fix j
    have "Set.filter ?f U = {OFFLINE_UID}" if "OFFLINE_UID \<in> U" for U using that by auto
    then show "clients c2 j = cancelled ci si (clients c) j"
      unfolding c2(3) c1(3) cancelled_def by (auto simp: rm off split: option.split)
  qed
  obtain c' where c': "updateCurrentSession_l e c2 = Some c'" "ctrl_inv c'" "scheduled c'" "drops_unstarted c2 c'"
    by (rule updateCurrentSession_l_ok [OF it c2(2)])
  have lists: "(if si < 0 then (map fst (filter (\<lambda>(k, s). OFFLINE_UID \<notin> allClientUids s) ?mine),
      map fst (filter (\<lambda>(k, s). OFFLINE_UID \<in> allClientUids s) ?mine)) else ([(ci, si)], [])) = (rm, off)"
    by (simp add: rm_def off_def)
  have guard: "(\<not> si < 0 \<and> \<not> smap_count (mSessionMap c) (ci, si)) = False"
    using known by (auto simp: smap_count_def)
  have "cancel e ci si c = Some (True, c')"
    unfolding cancel_def Let_def lists guard by (simp add: c1(1) c2(1) c'(1))
  then show thesis
  proof (rule that [OF _ c'(2,3)])
    show "clients c' j = cancelled ci si (clients c) j \<or> clients c' j = None" for j
      using c'(4) [unfolded drops_unstarted_def cl, THEN spec, of j] by auto
  qed
qed

text \<open>A uid that is gone is removed from every session; sessions of it alone end.\<close>

definition without_uid :: "uid \<Rightarrow> uid set option \<Rightarrow> uid set option" where
  "without_uid u cl = (case cl of None \<Rightarrow> None | Some U \<Rightarrow> if U - {u} = {} then None else Some (U - {u}))"

lemma onUidGone_ok:
  assumes it: "iter_ok e" and inv: "base_inv c"
  obtains c' where "onUidGone e u c = Some c'" "ctrl_inv c'" "scheduled c'"
    "\<And>j. clients c' j = without_uid u (clients c j) \<or> clients c' j = None"
proof -
  note ok = base_invD(1) [OF inv]
  let ?mine = "filter (\<lambda>(k, s). u \<in> allClientUids s) (mSessionMap c)"
  define others where "others = map fst (filter (\<lambda>(k, s). card (allClientUids s) > 1) ?mine)"
  define rm where "rm = map fst (filter (\<lambda>(k, s). \<not> card (allClientUids s) > 1) ?mine)"
  have d: "distinct rm" "distinct others"
    using smap_select(1) [OF ok] by (simp_all add: rm_def others_def filter_filter)
  have rm: "k \<in> set rm \<longleftrightarrow> (\<exists>U. clients c k = Some U \<and> u \<in> U \<and> \<not> card U > 1)"
    and oth: "k \<in> set others \<longleftrightarrow> (\<exists>U. clients c k = Some U \<and> u \<in> U \<and> card U > 1)" for k
    unfolding rm_def others_def using smap_select(2) [OF ok, of k] by (auto simp: clients_def)
  have "\<forall>k \<in> set rm. clients c k \<noteq> None" by (auto simp: rm)
  then obtain c1 where c1: "foldM (goneOne e) rm c = Some c1" "base_inv c1"
    "clients c1 = (\<lambda>j. if j \<in> set rm then None else clients c j)"
    using foldM_remove_ok [of "goneOne e", OF goneOne_ok [OF it]] inv d(1) by blast
  let ?f = "\<lambda>v. v \<noteq> u"
  have single: "card U > 1 \<longleftrightarrow> U - {u} \<noteq> {}" if "u \<in> U" for U :: "uid set"
    using card_Diff_singleton [OF that] card_0_eq [of "U - {u}"] by (simp, linarith)
  have "\<forall>k \<in> set others. \<exists>U v. clients c1 k = Some U \<and> v \<in> U \<and> ?f v"
  proof
    fix k assume "k \<in> set others"
    then obtain U where U: "clients c k = Some U" "u \<in> U" "card U > 1" using oth by blast
    then have "clients c1 k = Some U" unfolding c1(3) by (simp add: rm)
    moreover have "U - {u} \<noteq> {}" using single U by blast
    ultimately show "\<exists>U v. clients c1 k = Some U \<and> v \<in> U \<and> ?f v" by blast
  qed
  then obtain c2 where c2: "foldM (\<lambda>k. removeSession_l e k CANCELED (Some ?f)) others c1 = Some c2" "base_inv c2"
    "clients c2 = (\<lambda>j. if j \<in> set others then map_option (Set.filter ?f) (clients c1 j) else clients c1 j)"
    using foldM_keep_ok [OF it c1(2) d(2), of ?f] by blast
  have ne: "clients c j \<noteq> Some {}" for j
    using sess_okD(2) [OF base_invD(5) [OF inv, of j]] by (auto simp: clients_def)
  have cl: "clients c2 = (\<lambda>j. without_uid u (clients c j))"
  proof (rule ext)
    fix j
    have "Set.filter ?f U = U - {u}" for U by auto
    then show "clients c2 j = without_uid u (clients c j)"
      unfolding c2(3) c1(3) without_uid_def using single ne [of j] by (auto simp: rm oth split: option.split)
  qed
  obtain c' where c': "updateCurrentSession_l e c2 = Some c'" "ctrl_inv c'" "scheduled c'" "drops_unstarted c2 c'"
    by (rule updateCurrentSession_l_ok [OF it c2(2)])
  have "onUidGone e u c = Some c'"
    using c1(1) c2(1) c'(1) by (simp add: onUidGone_def rm_def others_def Let_def)
  then show thesis
  proof (rule that [OF _ c'(2,3)])
    show "clients c' j = without_uid u (clients c j) \<or> clients c' j = None" for j
      using c'(4) [unfolded drops_unstarted_def cl, THEN spec, of j] by auto
  qed
qed

end
