(* ===== verification/Session_Machine.thy ===== *)
theory Session_Machine
  imports Session_Correctness
begin

text \<open>
  The controller as a state machine: every event is handled without undefined behaviour and keeps
  the invariant, so the invariant holds in every reachable state.
\<close>

section \<open>Callbacks of the transcoder\<close>

lemma notify_ok:
  assumes inv: "ctrl_inv c"
    and f: "\<And>s. session_of c (ci, si) = Some s \<Longrightarrow> s_state s \<noteq> NOT_STARTED \<Longrightarrow>
        \<exists>c'. f (ci, si) s c = Some c' \<and> ctrl_inv c' \<and> keys_shrink c c'"
  shows "\<exists>c'. notifyClient ci si f c = Some c' \<and> ctrl_inv c' \<and> keys_shrink c c'"
proof (cases "session_of c (ci, si)")
  case (Some s)
  then show ?thesis using inv f [OF Some] by (simp add: notifyClient_def keys_shrink_same)
qed (simp add: notifyClient_def inv keys_shrink_same)

lemma notify_call_ok:
  assumes "ctrl_inv c"
  shows "\<exists>c'. notifyClient ci si (\<lambda>k s c. Some (callClient e (s_callback s) out c)) c = Some c' \<and> ctrl_inv c' \<and> keys_shrink c c'"
  using assms by (intro notify_ok) (simp_all add: ctrl_frame_ctrl_inv [OF callClient_frame] ctrl_frame_shrink)

lemma started_running:
  assumes "base_inv c" "session_of c k = Some s" "s_state s \<noteq> NOT_STARTED"
  shows "mTranscoder c \<noteq> None" "mWatchdog c \<noteq> None"
proof -
  have "st c k = Some RUNNING \<or> st c k = Some PAUSED"
    using sess_okD(3) [OF base_invD(5) [OF assms(1,2)]] assms(2,3) by (auto simp: st_def)
  then show "mTranscoder c \<noteq> None" using run_okD(3) [OF base_invD(3) [OF assms(1)]] by blast
  then show "mWatchdog c \<noteq> None" using run_okD(4) [OF base_invD(3) [OF assms(1)]] by simp
qed

lemma end_and_resched_ok:
  assumes "iter_ok e" "base_inv c" "session_of c k = Some s" "fin \<noteq> RUNNING"
  shows "\<exists>c'. (case removeSession_l e k fin None c of None \<Rightarrow> None
               | Some c \<Rightarrow> updateCurrentSession_l e c) = Some c' \<and> ctrl_inv c' \<and> keys_shrink c c'"
proof -
  obtain c1 where c1: "removeSession_l e k fin None c = Some c1" "base_inv c1"
    "\<And>j. session_of c1 j = (if j = k then None else session_of c j)"
    using removeSession_l_ok [OF assms] by metis
  have "keys_shrink c c1" by (simp add: keys_shrink_def clients_def c1(3))
  then show ?thesis using resched_ok [OF assms(1) c1(2)] c1(1) keys_shrink_trans by fastforce
qed

lemma onFinish_ok:
  assumes "iter_ok e" "ctrl_inv c"
  shows "\<exists>c'. onFinish e ci si c = Some c' \<and> ctrl_inv c' \<and> keys_shrink c c'"
  unfolding onFinish_def using assms(2)
proof (rule notify_ok)
  fix s assume s: "session_of c (ci, si) = Some s"
  let ?c = "callClient e (s_callback s) (\<lambda>b. CbFinished b si) c"
  have "base_inv ?c" "session_of ?c (ci, si) = Some s" using assms(2) s by (simp_all add: ctrl_inv_def)
  from end_and_resched_ok [OF assms(1) this, of FINISHED]
  show "\<exists>c'. (let c = ?c in case removeSession_l e (ci, si) FINISHED None c of None \<Rightarrow> None
          | Some c \<Rightarrow> updateCurrentSession_l e c) = Some c' \<and> ctrl_inv c' \<and> keys_shrink c c'"
    by (simp add: Let_def keys_shrink_def)
qed

lemma abandonTranscoder_ok:
  assumes inv: "base_inv c" and tx: "mTranscoder c \<noteq> None"
  obtains c' where "abandonTranscoder k c = Some c'" "base_inv c'" "mSessionMap c' = mSessionMap c"
proof -
  obtain t where t: "mTranscoder c = Some t" using tx by blast
  let ?c1 = "emit (TxStop t k True) c"
  let ?c = "emit (TxCreate (txCount c)) (?c1\<lparr>mTranscoder := Some (txCount c), txCount := Suc (txCount c)\<rparr>)"
  have st: "st ?c = st c" and cl: "clients ?c = clients c" by (simp_all add: st_def clients_def fun_eq_iff)
  have "is_client ?c = is_client c" by (intro ext) (simp only: is_client_clients cl)
  moreover have "run_ok ?c"
    using base_invD(3) [OF inv] tx unfolding run_ok_def st by auto
  ultimately have "base_inv ?c"
    using inv queues_ok_cong [of ?c c] unfolding base_inv_def by simp
  then show thesis
    using that [of ?c] t by (simp add: abandonTranscoder_def callTranscoder_def)
qed

lemma onError_ok:
  assumes "iter_ok e" "ctrl_inv c"
  shows "\<exists>c'. onError e ci si err c = Some c' \<and> ctrl_inv c' \<and> keys_shrink c c'"
  unfolding onError_def using assms(2)
proof (rule notify_ok)
  fix s assume s: "session_of c (ci, si) = Some s" "s_state s \<noteq> NOT_STARTED"
  have inv: "base_inv c" using assms(2) by (simp add: ctrl_inv_def)
  obtain c1 where c1: "(if err = kWatchdogTimeout then abandonTranscoder (ci, si) c else Some c) = Some c1"
    "base_inv c1" "mSessionMap c1 = mSessionMap c"
  proof (cases "err = kWatchdogTimeout")
    case True
    then show thesis
      using abandonTranscoder_ok [OF inv started_running(1) [OF inv s], of "(ci, si)"] that by auto
  qed (use that [of c] inv in simp)
  let ?c2 = "callClient e (s_callback s) (\<lambda>b. CbFailed b si err) c1"
  have "base_inv ?c2" "session_of ?c2 (ci, si) = Some s" using c1(2,3) s by simp_all
  from end_and_resched_ok [OF assms(1) this, of ERROR]
  show "\<exists>c'. (case (if err = kWatchdogTimeout then abandonTranscoder (ci, si) c else Some c) of None \<Rightarrow> None
          | Some c \<Rightarrow> let c = callClient e (s_callback s) (\<lambda>b. CbFailed b si err) c
              in case removeSession_l e (ci, si) ERROR None c of None \<Rightarrow> None
                 | Some c \<Rightarrow> updateCurrentSession_l e c) = Some c' \<and> ctrl_inv c' \<and> keys_shrink c c'"
    unfolding c1(1) by (simp add: Let_def keys_shrink_def clients_def c1(3))
qed

text \<open>Changes of a session's other fields.\<close>

lemma state_frame_ctrl_inv:
  assumes inv: "ctrl_inv c" and fr: "state_frame c c'" and st: "st c' = st c"
    and wd: "mWatchdog c' = mWatchdog c"
  shows "ctrl_inv c'"
proof -
  have b: "base_inv c" using inv by (simp add: ctrl_inv_def)
  have eq: "mCurrentSession c' = mCurrentSession c" "mTranscoder c' = mTranscoder c"
    using fr by (simp_all add: state_frame_def same_mode_def)
  have "run_ok c'" using base_invD(3) [OF b] unfolding run_ok_def st wd eq .
  then have "base_inv (c'\<lparr>mCurrentSession := mCurrentSession c'\<rparr>)"
    using base_inv_states [OF b] unfolding st [symmetric]
    by (intro state_frame_base_inv [OF b fr]) (simp_all only: current_same)
  moreover have "sched_inv c'"
  proof -
    have cl: "clients c' = clients c" using fr by (simp add: state_frame_def)
    have alt: "(\<exists>k s. mCurrentSession x = Some k \<and> session_of x k = Some s \<and> s_state s = RUNNING \<and> u \<in> allClientUids s)
        \<longleftrightarrow> (\<exists>k U. mCurrentSession x = Some k \<and> st x k = Some RUNNING \<and> clients x k = Some U \<and> u \<in> U)" for x u
      by (auto simp: st_def clients_def)
    show ?thesis
      using inv fr same_mode_paused [of c c'] state_frame_empty [OF fr]
      unfolding ctrl_inv_def sched_inv_def alt st cl by (auto simp: state_frame_def same_mode_def)
  qed
  ultimately show ?thesis by (simp add: ctrl_inv_def current_same)
qed

lemma onProgressUpdate_ok:
  assumes "ctrl_inv c"
  shows "\<exists>c'. onProgressUpdate e ci si p c = Some c' \<and> ctrl_inv c' \<and> keys_shrink c c'"
  unfolding onProgressUpdate_def using assms
proof (rule notify_ok)
  fix s assume s: "session_of c (ci, si) = Some s"
  let ?c = "callClient e (s_callback s) (\<lambda>b. CbProgress b si p) c"
  let ?c' = "?c\<lparr>mSessionMap := smap_set (ci, si) (s\<lparr>lastProgress := p\<rparr>) (mSessionMap ?c)\<rparr>"
  have "state_frame c ?c'"
    using s by (auto simp: state_frame_def same_mode_def clients_def smap_simps smap_ok_set fun_eq_iff)
  moreover have "st ?c' = st c" using s by (auto simp: st_def smap_simps fun_eq_iff)
  ultimately have "ctrl_inv ?c'" "keys_shrink c ?c'"
    by (simp_all add: state_frame_ctrl_inv [OF assms] state_frame_def keys_shrink_same)
  then show "\<exists>c'. (let c = ?c in Some (c\<lparr>mSessionMap :=
        smap_set (ci, si) (s\<lparr>lastProgress := p\<rparr>) (mSessionMap c)\<rparr>)) = Some c' \<and> ctrl_inv c' \<and> keys_shrink c c'"
    by (simp add: Let_def)
qed

text \<open>Changes of the watchdog that do not make it watch another session.\<close>

lemma watchdog_change_ok:
  assumes inv: "ctrl_inv c" and w: "mWatchdog c = Some w"
    and w': "mActive w' \<Longrightarrow> mActive w \<and> mSessionToWatch w' = mSessionToWatch w"
  shows "ctrl_inv (c\<lparr>mWatchdog := Some w'\<rparr>)"
proof -
  let ?c = "c\<lparr>mWatchdog := Some w'\<rparr>"
  have b: "base_inv c" using inv by (simp add: ctrl_inv_def)
  have st: "st ?c = st c" and cl: "clients ?c = clients c" by (simp_all add: st_def clients_def fun_eq_iff)
  have "run_ok ?c"
    using base_invD(3) [OF b] w w' unfolding run_ok_def st by auto
  moreover have "is_client ?c = is_client c" by (intro ext) (simp add: is_client_clients cl)
  ultimately have "base_inv ?c" using b queues_ok_cong [of ?c c] unfolding base_inv_def by simp
  then show ?thesis using inv sched_inv_cong [of ?c c] by (simp add: ctrl_inv_def)
qed

lemma onHeartBeat_ok:
  assumes "ctrl_inv c"
  shows "\<exists>c'. onHeartBeat e ci si c = Some c' \<and> ctrl_inv c' \<and> keys_shrink c c'"
  unfolding onHeartBeat_def using assms
proof (rule notify_ok)
  fix s assume s: "session_of c (ci, si) = Some s" "s_state s \<noteq> NOT_STARTED"
  obtain w where w: "mWatchdog c = Some w"
    using started_running(2) [OF _ s] assms by (auto simp: ctrl_inv_def)
  then have "ctrl_inv (c\<lparr>mWatchdog := Some (wd_keepAlive (e_now e (envReads c)) w)\<rparr>)"
    by (intro watchdog_change_ok [OF assms]) simp_all
  with w show "\<exists>c'. (case mWatchdog c of None \<Rightarrow> None
      | Some w \<Rightarrow> Some (tick (c\<lparr>mWatchdog := Some (wd_keepAlive (e_now e (envReads c)) w)\<rparr>))) = Some c' \<and> ctrl_inv c' \<and> keys_shrink c c'"
    by (simp add: ctrl_frame_ctrl_inv [OF ctrl_frame_steps(1)] keys_shrink_def clients_def)
qed

lemma watchdogTurn_shrink: "keys_shrink c (fst (watchdogTurn e c))"
  by (auto simp: watchdogTurn_def Let_def case_prod_beta keys_shrink_def clients_def split: option.split)

lemma watchdogTurn_ok: "ctrl_inv c \<Longrightarrow> ctrl_inv (fst (watchdogTurn e c))"
  by (auto simp: watchdogTurn_def wd_threadLoop_def Let_def split: option.split
      intro!: watchdog_change_ok ctrl_frame_ctrl_inv [OF ctrl_frame_steps(1), THEN iffD2])

lemma onResourceLost_ok:
  assumes "ctrl_inv c"
  shows "\<exists>c'. onResourceLost e ci si c = Some c' \<and> ctrl_inv c' \<and> keys_shrink c c'"
  unfolding onResourceLost_def using assms
proof (rule notify_ok)
  let ?k = "(ci, si)"
  fix s assume s: "session_of c ?k = Some s"
  let ?f = "\<lambda>c1. (callClient e (s_callback s) (\<lambda>b. CbPaused b (snd ?k)) c1)
     \<lparr>mResourcePolicy := map_option (setPidResourceLost (clientPid (s_request s)))
        (mResourcePolicy (callClient e (s_callback s) (\<lambda>b. CbPaused b (snd ?k)) c1)), mResourceLost := True\<rparr>"
  have inv: "base_inv c" using assms by (simp add: ctrl_inv_def)
  have "\<exists>c1. setSessionState_l e ?k PAUSED c = Some c1 \<and> ctrl_inv (?f c1) \<and> keys_shrink c (?f c1)" if r: "s_state s = RUNNING"
  proof -
    obtain c1 where c1: "setSessionState_l e ?k PAUSED c = Some c1" "base_inv c1" "st c1 = (st c)(?k := Some PAUSED)"
      "state_frame c c1" by (rule pause_ok [OF inv s r])
    have none: "st c1 j \<noteq> Some RUNNING" for j
      using run_okD(2) [OF base_invD(3) [OF inv], of j] run_okD(2) [OF base_invD(3) [OF inv], of ?k] s r
      unfolding c1(3) by (auto simp: st_def)
    have "base_inv (?f c1)" using c1(2) base_inv_cong [of "?f c1" c1] by simp
    moreover have "st (?f c1) = st c1" by (simp add: st_def fun_eq_iff)
    moreover have "clients (?f c1) = clients c" using c1(4) by (simp add: state_frame_def clients_def fun_eq_iff)
    ultimately show ?thesis using c1(1) none by (simp add: ctrl_inv_def sched_inv_def keys_shrink_same)
  qed
  then show "\<exists>c'. (if mResourceLost c then Some c else if s_state s \<noteq> RUNNING then Some c
       else case setSessionState_l e ?k PAUSED c of None \<Rightarrow> None
          | Some c \<Rightarrow>
              let c = callClient e (s_callback s) (\<lambda>b. CbPaused b (snd ?k)) c;
                  c = c\<lparr>mResourcePolicy :=
                          map_option (setPidResourceLost (clientPid (s_request s))) (mResourcePolicy c)\<rparr>
              in Some (c\<lparr>mResourceLost := True\<rparr>)) = Some c' \<and> ctrl_inv c' \<and> keys_shrink c c'"
    using assms by (auto simp: Let_def keys_shrink_same)
qed

section \<open>Callbacks of the policies\<close>

lemma moveUidsToTop_base_inv:
  assumes inv: "base_inv c"
  obtains l where "moveUidsToTop_l us pr c = Some (c\<lparr>mUidSortedList := l\<rparr>)" "base_inv (c\<lparr>mUidSortedList := l\<rparr>)"
proof -
  obtain l where l: "moveUidsToTop_l us pr c = Some (c\<lparr>mUidSortedList := l\<rparr>)"
    "queues_ok (c\<lparr>mUidSortedList := l\<rparr>) (is_client c)"
    using moveUidsToTop_l_ok [OF base_invD(2) [OF inv]] by blast
  let ?c = "c\<lparr>mUidSortedList := l\<rparr>"
  have st: "st ?c = st c" and cl: "is_client ?c = is_client c"
    by (simp_all add: st_def is_client_def fun_eq_iff)
  have "base_inv ?c"
    using l(2) base_invD(1,5) [OF inv] st unfolding cl [symmetric]
    by (intro base_inv_build [OF inv]) simp_all
  with l(1) show thesis by (rule that)
qed

lemma onTopUidsChanged_ok:
  assumes "iter_ok e" "ctrl_inv c"
  shows "\<exists>c'. onTopUidsChanged e us c = Some c' \<and> ctrl_inv c' \<and> keys_shrink c c'"
proof (cases "us = {}")
  case False
  have inv: "base_inv c" using assms(2) by (simp add: ctrl_inv_def)
  obtain l where "moveUidsToTop_l us True c = Some (c\<lparr>mUidSortedList := l\<rparr>)" "base_inv (c\<lparr>mUidSortedList := l\<rparr>)"
    by (rule moveUidsToTop_base_inv [OF inv])
  then show ?thesis
    using resched_ok [OF assms(1)] False by (fastforce simp: onTopUidsChanged_def keys_shrink_def clients_def)
qed (simp add: onTopUidsChanged_def assms keys_shrink_same)

lemma mode_change_ok:
  assumes "iter_ok e" "ctrl_inv c"
  shows "\<exists>c'. updateCurrentSession_l e (c\<lparr>mResourceLost := b\<rparr>) = Some c' \<and> ctrl_inv c' \<and> keys_shrink c c'"
    and "\<exists>c'. updateCurrentSession_l e (c\<lparr>mThermalThrottling := b\<rparr>) = Some c' \<and> ctrl_inv c' \<and> keys_shrink c c'"
  using assms(2) base_inv_cong [of "c\<lparr>mResourceLost := b\<rparr>" c] base_inv_cong [of "c\<lparr>mThermalThrottling := b\<rparr>" c]
    resched_ok [OF assms(1), of "c\<lparr>mResourceLost := b\<rparr>"] resched_ok [OF assms(1), of "c\<lparr>mThermalThrottling := b\<rparr>"]
  by (simp_all add: ctrl_inv_def keys_shrink_def clients_def)

lemma uid_policy_change_ok:
  assumes inv: "ctrl_inv c" and p: "up_inv p" "\<And>u. up_monitored p u = up_monitored (mUidPolicy c) u"
  shows "ctrl_inv (c\<lparr>mUidPolicy := p\<rparr>)"
proof -
  let ?c = "c\<lparr>mUidPolicy := p\<rparr>"
  have b: "base_inv c" using inv by (simp add: ctrl_inv_def)
  have st: "st ?c = st c" and cl: "is_client ?c = is_client c"
    by (simp_all add: st_def is_client_def fun_eq_iff)
  have "queues_ok ?c (is_client c)"
    using base_invD(2) [OF b] p unfolding queues_ok_def in_queue_def by simp
  then have "base_inv ?c"
    using base_invD(1,5) [OF b] st unfolding cl [symmetric] by (intro base_inv_build [OF b]) simp_all
  then show ?thesis using inv sched_inv_cong [of ?c c] by (simp add: ctrl_inv_def)
qed

lemma onUidStateChanged_monitored:
  assumes "up_inv p"
  shows "up_inv (fst (onUidStateChanged e u s p))"
    and "up_monitored (fst (onUidStateChanged e u s p)) v = up_monitored p v"
proof -
  obtain p' evs where r: "onUidStateChanged e u s p = (p', evs)" by (cases "onUidStateChanged e u s p")
  show "up_inv (fst (onUidStateChanged e u s p))"
    and "up_monitored (fst (onUidStateChanged e u s p)) v = up_monitored p v"
    using assms onUidStateChanged_spec(1,2) [OF assms _ _ r] onUidStateChanged_ignored [of p u s e] r
    by (cases "up_abs p u"; cases "up_abs p u = Some s"; auto simp: up_monitored_def)+
qed

section \<open>Every event\<close>

definition is_submit :: "ctrl_event \<Rightarrow> bool" where
  "is_submit ev = (case ev of EvSubmit _ _ _ _ _ _ \<Rightarrow> True | _ \<Rightarrow> False)"

lemma handle_other_ok:
  assumes it: "iter_ok e" and inv: "ctrl_inv c" and ns: "\<not> is_submit ev"
  shows "\<exists>c'. handle e ev c = Some c' \<and> ctrl_inv c' \<and> keys_shrink c c'"
proof -
  have b: "base_inv c" using inv by (simp add: ctrl_inv_def)
  show ?thesis
  proof (cases ev)
    case (EvSubmit ci si cu u r cb)
    then show ?thesis using ns by (simp add: is_submit_def)
  next
    case (EvCancel ci si)
    show ?thesis
    proof (cases "si < 0 \<or> session_of c (ci, si) \<noteq> None")
      case True
      obtain c' where c': "cancel e ci si c = Some (True, c')" "ctrl_inv c'"
        "\<And>j. clients c' j = cancelled ci si (clients c) j \<or> clients c' j = None"
        using cancel_ok [OF it b True] by metis
      have "clients c' j = None" if "clients c j = None" for j
        using c'(3) [of j] that by (auto simp: cancelled_def split: if_splits)
      with c' show ?thesis by (simp add: EvCancel keys_shrink_def)
    qed (simp add: EvCancel cancel_def smap_count_def inv keys_shrink_same)
  next
    case (EvAddClientUid ci si u)
    show ?thesis
    proof (cases "session_of c (ci, si)")
      case (Some s)
      show ?thesis
      proof (cases "u \<in> allClientUids s")
        case False
        obtain c' where c': "addClientUid e ci si u c = Some (True, c')" "ctrl_inv c'"
          "\<And>j. clients c' j = ((clients c)((ci, si) := Some (insert u (allClientUids s)))) j \<or>
            clients c' j = None \<and> st c j = Some NOT_STARTED"
          using addClientUid_ok [OF it b Some False] by metis
        have "clients c' j = None" if "clients c j = None" for j
          using c'(3) [of j] that Some by (auto simp: clients_def split: if_splits)
        with c' show ?thesis by (simp add: EvAddClientUid keys_shrink_def)
      qed (simp add: EvAddClientUid addClientUid_def Some inv keys_shrink_same)
    qed (simp add: EvAddClientUid addClientUid_def inv keys_shrink_same)
  next
    case (EvUidGone u)
    obtain c' where c': "onUidGone e u c = Some c'" "ctrl_inv c'"
      "\<And>j. clients c' j = without_uid u (clients c j) \<or> clients c' j = None"
      using onUidGone_ok [OF it b] by metis
    have "clients c' j = None" if "clients c j = None" for j
      using c'(3) [of j] that by (simp add: without_uid_def)
    with c' show ?thesis by (simp add: EvUidGone keys_shrink_def)
  next
    case (EvUidState u s)
    have up: "up_inv (mUidPolicy c)" using queues_okD(2) [OF base_invD(2) [OF b]] .
    show ?thesis
      using uid_policy_change_ok [OF inv onUidStateChanged_monitored [OF up]] by (simp add: EvUidState keys_shrink_def clients_def)
  next
    case EvThrottlingStarted
    then show ?thesis using mode_change_ok(2) [OF it inv, of True] inv by (simp add: onThrottlingStarted_def keys_shrink_same)
  next
    case EvThrottlingStopped
    then show ?thesis using mode_change_ok(2) [OF it inv, of False] inv by (simp add: onThrottlingStopped_def keys_shrink_same)
  next
    case EvResourceAvailable
    then show ?thesis using mode_change_ok(1) [OF it inv, of False] inv by (simp add: onResourceAvailable_def keys_shrink_same)
  qed (simp_all add: onFinish_ok onError_ok onProgressUpdate_ok onHeartBeat_ok onResourceLost_ok
      onTopUidsChanged_ok watchdogTurn_ok watchdogTurn_shrink onStarted_def onPaused_def onResumed_def notify_call_ok it inv)
qed

lemma handle_ok:
  assumes it: "iter_ok e" and inv: "ctrl_inv c"
  shows "\<exists>c'. handle e ev c = Some c' \<and> ctrl_inv c'"
proof (cases ev)
  case (EvSubmit ci si cu u r cb)
  have b: "base_inv c" using inv by (simp add: ctrl_inv_def)
  show ?thesis
  proof (cases "session_of c (ci, si)")
    case None
    obtain c' where "submit e ci si cu u r cb c = Some (True, c')" "ctrl_inv c'"
      by (rule submit_ok [OF it b None])
    then show ?thesis by (simp add: EvSubmit)
  qed (simp add: EvSubmit submit_def smap_count_def inv)
qed (use handle_other_ok [OF it inv, of ev] in \<open>auto simp: is_submit_def\<close>)

lemma ctrl_inv_init:
  assumes "TranscodingSessionController (TranscodingUidPolicy e l) rp tp config = Some c"
  shows "ctrl_inv c"
proof -
  have f: "mSessionMap c = []" "mSessionQueues c = [(OFFLINE_UID, [])]" "mUidSortedList c = [OFFLINE_UID]"
    "mUidPolicy c = TranscodingUidPolicy e l" "mCurrentSession c = None" "mTranscoder c = None"
    "mWatchdog c = None" "mSessionHistory c = []"
    using assms
    by (auto simp: TranscodingSessionController_def Let_def smap_emplace_def smap_count_def split: option.splits)
  have "queues_ok c (is_client c)"
    by (rule queues_okI)
      (simp_all add: f up_inv_init up_monitored_def up_abs_init in_queue_def is_client_def smap_ok_def split: if_splits)
  then have "base_inv c" by (simp add: base_inv_def run_ok_def st_def f)
  then show ?thesis by (simp add: ctrl_inv_def sched_inv_def f st_def)
qed

lemma reachable_inv:
  assumes "iter_ok e"
  shows "reachable e c \<Longrightarrow> ctrl_inv c"
proof (induction rule: reachable.induct)
  case (start l rp tp config c)
  then show ?case using ctrl_inv_init by blast
next
  case (step c ev c')
  then show ?case using handle_ok [OF assms, of c ev] by auto
qed

section \<open>The debug check\<close>

text \<open>
  The queues hold each pair of a session and a client uid once, so the two totals the check
  compares count the same pairs.
\<close>

lemma sum_list_distinct_int: "distinct xs \<Longrightarrow> (\<Sum>x\<leftarrow>xs. f x) = (\<Sum>x\<in>set xs. f x)"
  for f :: "'a \<Rightarrow> int"
  by (simp add: sum_list_distinct_conv_sum_set)

lemma queue_length:
  assumes inv: "base_inv c" and q: "queue_of c u = Some q"
  shows "int (length q) = (\<Sum>k\<in>set (smap_keys (mSessionMap c)). if is_client c u k then 1 else 0)"
proof -
  note ok = base_invD(2) [OF inv]
  have "set q = {k \<in> set (smap_keys (mSessionMap c)). is_client c u k}"
    using queues_okD(9) [OF ok, of u] q by (auto simp: in_queue_def is_client_def smap_keys_find)
  moreover have "length q = card (set q)" using queues_okD(7) [OF ok q] by (simp add: distinct_card)
  ultimately show ?thesis by (simp add: sum.If_cases Collect_conj_eq Int_commute Collect_mem_eq)
qed

lemma clients_card:
  assumes inv: "base_inv c" and s: "session_of c k = Some s"
  shows "int (card (allClientUids s)) = (\<Sum>u\<in>set (mUidSortedList c). if is_client c u k then 1 else 0)"
proof -
  note ok = base_invD(2) [OF inv]
  have "u \<in> set (mUidSortedList c)" if "is_client c u k" for u
    using that queues_okD(4) [OF ok, of u] queues_okD(9) [OF ok, of u k] by (auto simp: in_queue_def)
  then have "allClientUids s = {u \<in> set (mUidSortedList c). is_client c u k}"
    using s by (auto simp: is_client_def)
  then show ?thesis by (simp add: sum.If_cases Collect_conj_eq Int_commute Collect_mem_eq)
qed

lemma validateState_l_ok:
  assumes inv: "base_inv c"
  shows "validateState_l c"
proof -
  note ok = base_invD(2) [OF inv]
  let ?K = "set (smap_keys (mSessionMap c))" and ?U = "set (mUidSortedList c)"
  have off: "queue_of c OFFLINE_UID \<noteq> None" by (rule queues_ok_list(2) [OF ok])
  have "set (mUidSortedList c) = set (smap_keys (mSessionQueues c))"
    using queues_okD(4) [OF ok] by (auto simp: smap_keys_find)
  then have len: "length (mUidSortedList c) = length (mSessionQueues c)"
    using queues_okD(3) [OF ok] sm.keys_distinct [OF queues_okD(1) [OF ok]]
    by (metis distinct_card length_map smap_keys_def)
  have known: "list_all (\<lambda>u. case queue_of c u of None \<Rightarrow> False
      | Some q \<Rightarrow> list_all (smap_count (mSessionMap c)) q) (mUidSortedList c)"
    using queues_okD(4,9) [OF ok]
    by (fastforce simp: list_all_iff in_queue_def is_client_def smap_count_def split: option.split)
  have "(\<Sum>u\<leftarrow>mUidSortedList c. case queue_of c u of None \<Rightarrow> 0 | Some q \<Rightarrow> int (length q))
      = (\<Sum>u\<in>?U. \<Sum>k\<in>?K. if is_client c u k then 1 else 0)"
    unfolding sum_list_distinct_int [OF queues_okD(3) [OF ok]]
    using queues_okD(4) [OF ok] queue_length [OF inv] by (intro sum.cong) (auto split: option.split)
  also have "\<dots> = (\<Sum>k\<in>?K. \<Sum>u\<in>?U. if is_client c u k then 1 else 0)" by (rule sum.swap)
  also have "\<dots> = (\<Sum>k\<in>?K. int (card (allClientUids (the (session_of c k)))))"
    using clients_card [OF inv] by (intro sum.cong) (auto simp: smap_keys_find)
  also have "\<dots> = (\<Sum>k\<leftarrow>smap_keys (mSessionMap c). int (card (allClientUids (the (session_of c k)))))"
    using sm.keys_distinct [OF base_invD(1) [OF inv]] by (simp add: sum_list_distinct_int)
  also have "\<dots> = (\<Sum>(k, s)\<leftarrow>mSessionMap c. int (card (allClientUids s)))"
    unfolding smap_keys_def using smap_in_set [OF base_invD(1) [OF inv]]
    by (auto intro!: arg_cong [where f = sum_list] simp: comp_def)
  finally show ?thesis
    using off len known queues_okD(4) [OF ok, of OFFLINE_UID]
    by (simp add: validateState_l_def smap_count_def)
qed

end
