(* ===== verification/Controller_Properties.thy ===== *)
theory Controller_Properties
  imports Session_Machine
begin

text \<open>
  What the session controller guarantees in every state it can reach, and what each call does to the
  sessions. The witnesses evaluate runs of the controller in \<open>sample_env\<close>.
\<close>

section \<open>Concrete runs\<close>

definition demo_request :: "priority \<Rightarrow> request" where
  "demo_request p =
     \<lparr>sourceFilePath = ''in'', destinationFilePath = ''out'', clientUid = 10, clientPid = 7,
      clientPackageName = ''pkg'', req_priority = p\<rparr>"

definition demo_ctrl :: "ctrl ub" where
  "demo_ctrl =
     TranscodingSessionController (TranscodingUidPolicy sample_env True)
       (Some (TranscodingResourcePolicy True True)) (Some (TranscodingThermalPolicy sample_env True 0 0)) None"

definition demo_run :: "ctrl_event list \<Rightarrow> ctrl ub" where
  "demo_run evs = (case demo_ctrl of None \<Rightarrow> None | Some c \<Rightarrow> foldM (handle sample_env) evs c)"

abbreviation demo_submit :: "session_id \<Rightarrow> uid \<Rightarrow> priority \<Rightarrow> ctrl_event" where
  "demo_submit si u p \<equiv> EvSubmit 1 si 5 u (demo_request p) (Some 3)"

lemma foldM_reachable: "reachable e c \<Longrightarrow> foldM (handle e) evs c = Some c' \<Longrightarrow> reachable e c'"
  by (induction evs arbitrary: c) (auto split: option.splits intro: reachable.step)

lemma demo_reachable: "demo_run evs = Some c \<Longrightarrow> reachable sample_env c"
  unfolding demo_run_def demo_ctrl_def
  by (auto split: option.splits intro: foldM_reachable reachable.start)

lemma base_inv_reachable: "iter_ok e \<Longrightarrow> reachable e c \<Longrightarrow> base_inv c"
  using reachable_inv by (auto simp: ctrl_inv_def)

section \<open>In every reachable state\<close>

text \<open>
  C1: whatever events have occurred, in any order, the next event is handled without undefined
  behaviour (no null or dangling session pointer, no front of an empty list, no call through a null
  transcoder or watchdog) and the handler returns.
\<close>

theorem controller_no_undefined_behaviour:
  assumes "iter_ok e" "reachable e c"
  shows "\<exists>c'. handle e ev c = Some c' \<and> reachable e c'"
  using handle_ok [OF assms(1) reachable_inv [OF assms]] assms(2) reachable.step by blast

theorem controller_no_undefined_behaviour_witness:
  "\<exists>c c'. demo_run [demo_submit 0 10 kNormal, demo_submit 1 11 kNormal] = Some c \<and>
          handle sample_env (EvUidGone 10) c = Some c' \<and> reachable sample_env c'"
proof -
  have "demo_run [demo_submit 0 10 kNormal, demo_submit 1 11 kNormal] \<noteq> None" by code_simp
  then obtain c where c: "demo_run [demo_submit 0 10 kNormal, demo_submit 1 11 kNormal] = Some c" by blast
  then show ?thesis
    using controller_no_undefined_behaviour [OF iter_ok_sample demo_reachable [OF c], of "EvUidGone 10"] by blast
qed

text \<open>
  C2: the assertions of \<^verbatim>\<open>validateState_l\<close> hold in every reachable state: the queues and the
  uid list have the same uids with the offline uid among them, every queued session exists, and the
  lengths of the queues add up to the numbers of client uids.
\<close>

theorem controller_validates:
  assumes "iter_ok e" "reachable e c"
  shows "validateState_l c"
  by (rule validateState_l_ok [OF base_inv_reachable [OF assms]])

theorem controller_validates_witness:
  "\<exists>c. demo_run [demo_submit 0 10 kNormal, EvAddClientUid 1 0 12, EvFinish 1 0] = Some c \<and> validateState_l c"
proof -
  have "demo_run [demo_submit 0 10 kNormal, EvAddClientUid 1 0 12, EvFinish 1 0] \<noteq> None" by code_simp
  then obtain c where c: "demo_run [demo_submit 0 10 kNormal, EvAddClientUid 1 0 12, EvFinish 1 0] = Some c"
    by blast
  then show ?thesis using controller_validates [OF iter_ok_sample demo_reachable [OF c]] by blast
qed

text \<open>
  C3: a running session is the current session, so at most one session runs; a transcoder
  and its watchdog exist then, and an active watchdog always watches the running session.
\<close>

theorem controller_one_running:
  assumes "iter_ok e" "reachable e c" "st c k = Some RUNNING"
  shows "(\<forall>j. st c j = Some RUNNING \<longleftrightarrow> j = k) \<and> mCurrentSession c = Some k \<and> mTranscoder c \<noteq> None
         \<and> (\<exists>w. mWatchdog c = Some w \<and> (mActive w \<longrightarrow> mSessionToWatch w = k))"
proof -
  note run = run_okD [OF base_invD(3) [OF base_inv_reachable [OF assms(1,2)]]]
  have cur: "mCurrentSession c = Some k" by (rule run(2) [OF assms(3)])
  have tx: "mTranscoder c \<noteq> None" using run(3) assms(3) by blast
  then obtain w where w: "mWatchdog c = Some w" using run(4) by auto
  have only: "st c j = Some RUNNING \<longleftrightarrow> j = k" for j using run(2) [of j] cur assms(3) by auto
  have "mActive w \<longrightarrow> mSessionToWatch w = k" using run(5) [OF w] only by blast
  then show ?thesis using only cur tx w by blast
qed

theorem controller_one_running_witness:
  "\<exists>c. demo_run [demo_submit 0 10 kNormal, demo_submit 1 9 kNormal] = Some c \<and>
       st c (1, 1) = Some RUNNING \<and> (\<forall>j. st c j = Some RUNNING \<longleftrightarrow> j = (1, 1)) \<and> mCurrentSession c = Some (1, 1)"
proof -
  let ?r = "demo_run [demo_submit 0 10 kNormal, demo_submit 1 9 kNormal]"
  have "(case ?r of None \<Rightarrow> False | Some c \<Rightarrow> st c (1, 1) = Some RUNNING)" by code_simp
  then obtain c where c: "?r = Some c" "st c (1, 1) = Some RUNNING" by (auto split: option.splits)
  then show ?thesis using controller_one_running [OF iter_ok_sample demo_reachable [OF c(1)] c(2)] by blast
qed

text \<open>
  C4: whenever there are sessions, the device is not throttling and no resources are lost, the
  current session is running, and it is a session of the uid at the front of the list: the service
  never idles and never runs a session of another uid.
\<close>

theorem controller_front_uid_runs:
  assumes "iter_ok e" "reachable e c"
    and "mSessionMap c \<noteq> []" "\<not> globallyPaused c" "\<not> mResourceLost c"
  shows "\<exists>k s. mCurrentSession c = Some k \<and> session_of c k = Some s \<and> s_state s = RUNNING
               \<and> hd (mUidSortedList c) \<in> allClientUids s"
  using reachable_inv [OF assms(1,2)] assms(3-5) by (simp add: ctrl_inv_def sched_inv_def)

theorem controller_front_uid_runs_witness:
  "\<exists>c k s. demo_run [demo_submit 0 10 kNormal, demo_submit 1 9 kNormal, EvFinish 1 1] = Some c \<and>
           mCurrentSession c = Some k \<and> session_of c k = Some s \<and> s_state s = RUNNING
           \<and> hd (mUidSortedList c) \<in> allClientUids s"
proof -
  let ?r = "demo_run [demo_submit 0 10 kNormal, demo_submit 1 9 kNormal, EvFinish 1 1]"
  have "(case ?r of None \<Rightarrow> False
         | Some c \<Rightarrow> mSessionMap c \<noteq> [] \<and> \<not> globallyPaused c \<and> \<not> mResourceLost c)" by code_simp
  then obtain c where c: "?r = Some c" "mSessionMap c \<noteq> []" "\<not> globallyPaused c" "\<not> mResourceLost c"
    by (auto split: option.splits)
  then show ?thesis
    using controller_front_uid_runs [OF iter_ok_sample demo_reachable [OF c(1)] c(2-4)] by blast
qed

text \<open>
  C5: while the service is paused for heat or for lost resources, no session runs, and the watchdog
  is not active.
\<close>

theorem controller_paused_none_running:
  assumes "iter_ok e" "reachable e c" "globallyPaused c"
  shows "(\<forall>k. st c k \<noteq> Some RUNNING) \<and> (\<forall>w. mWatchdog c = Some w \<longrightarrow> \<not> mActive w)"
  using reachable_inv [OF assms(1,2)] run_okD(5) [OF base_invD(3) [OF base_inv_reachable [OF assms(1,2)]]] assms(3)
  by (auto simp: ctrl_inv_def sched_inv_def)

theorem controller_paused_none_running_witness:
  "\<exists>c. demo_run [demo_submit 0 10 kNormal, EvThrottlingStarted] = Some c \<and> globallyPaused c
       \<and> (\<forall>k. st c k \<noteq> Some RUNNING)"
proof -
  let ?r = "demo_run [demo_submit 0 10 kNormal, EvThrottlingStarted]"
  have "(case ?r of None \<Rightarrow> False | Some c \<Rightarrow> globallyPaused c)" by code_simp
  then obtain c where c: "?r = Some c" "globallyPaused c" by (auto split: option.splits)
  then show ?thesis
    using controller_paused_none_running [OF iter_ok_sample demo_reachable [OF c(1)] c(2)] by blast
qed

section \<open>The effect of the calls\<close>







text \<open>
  C10: moving uids to the top permutes the list: the moved uids come first, the others keep
  their order behind them with the offline uid last; with \<open>preserveTopUid\<close> a top uid among the moved
  ones stays first.
\<close>

theorem moveUidsToTop_order:
  assumes "iter_ok e" "reachable e c" "uids \<noteq> {}"
  shows "\<exists>l. moveUidsToTop_l uids pr c = Some (c\<lparr>mUidSortedList := l\<rparr>)
     \<and> distinct l \<and> set l = set (mUidSortedList c)
     \<and> l = filter (moves uids) l @ filter (\<lambda>u. \<not> moves uids u) (mUidSortedList c)
     \<and> last l = OFFLINE_UID
     \<and> (pr \<and> moves uids (hd (mUidSortedList c)) \<longrightarrow> hd l = hd (mUidSortedList c))"
proof -
  note ok = base_invD(2) [OF base_inv_reachable [OF assms(1,2)]]
  let ?l = "mUidSortedList c"
  note ne = queues_ok_list(1) [OF ok]
  obtain us where us: "?l = us @ [OFFLINE_UID]" using queues_okD(5) [OF ok] by blast
  obtain vs where vs: "movedList uids pr ?l = vs @ [OFFLINE_UID]" using movedList_offline_last us by metis
  have "movedList uids pr ?l =
        filter (moves uids) (movedList uids pr ?l) @ filter (\<lambda>u. \<not> moves uids u) ?l"
    by (auto simp: movedList_def rev_filter [symmetric] filter_filter intro!: filter_cong)
  moreover have "hd (movedList uids pr ?l) = hd ?l" if "pr" "moves uids (hd ?l)"
    using that by (simp add: movedList_def)
  moreover have "last (movedList uids pr ?l) = OFFLINE_UID" using vs by simp
  ultimately show ?thesis
    using moveUidsToTop_l_eq [OF queues_okD(3) [OF ok] ne assms(3), of pr] set_movedList [OF ne, of uids pr]
      distinct_movedList [OF queues_okD(3) [OF ok] ne, of uids pr]
    by blast
qed

theorem moveUidsToTop_order_witness:
  "\<exists>c. demo_run [demo_submit 0 10 kNormal, demo_submit 1 11 kNormal] = Some c \<and>
     (\<exists>l. moveUidsToTop_l {10, 11} True c = Some (c\<lparr>mUidSortedList := l\<rparr>)
     \<and> distinct l \<and> set l = set (mUidSortedList c)
     \<and> l = filter (moves {10, 11}) l @ filter (\<lambda>u. \<not> moves {10, 11} u) (mUidSortedList c)
     \<and> last l = OFFLINE_UID
     \<and> (True \<and> moves {10, 11} (hd (mUidSortedList c)) \<longrightarrow> hd l = hd (mUidSortedList c)))"
proof -
  have "demo_run [demo_submit 0 10 kNormal, demo_submit 1 11 kNormal] \<noteq> None" by code_simp
  then obtain c where c: "demo_run [demo_submit 0 10 kNormal, demo_submit 1 11 kNormal] = Some c" by blast
  show ?thesis
    by (rule exI [of _ c], rule conjI [OF c],
      rule moveUidsToTop_order [OF iter_ok_sample demo_reachable [OF c] insert_not_empty])
qed

text \<open>
  A change of the top uids never ends a session that was started: only sessions not yet started
  can be dropped, and the others keep their client uids.
\<close>

theorem top_uids_change_effect:
  assumes "iter_ok e" "reachable e c"
  shows "\<exists>c'. onTopUidsChanged e uids c = Some c' \<and>
    (\<forall>j. clients c' j = clients c j \<or> clients c' j = None \<and> st c j = Some NOT_STARTED)"
proof (cases "uids = {}")
  case False
  note inv = base_inv_reachable [OF assms]
  obtain l where l: "moveUidsToTop_l uids True c = Some (c\<lparr>mUidSortedList := l\<rparr>)"
    "base_inv (c\<lparr>mUidSortedList := l\<rparr>)"
    using moveUidsToTop_base_inv [OF inv] by blast
  obtain c' where c': "updateCurrentSession_l e (c\<lparr>mUidSortedList := l\<rparr>) = Some c'"
    "drops_unstarted (c\<lparr>mUidSortedList := l\<rparr>) c'"
    by (rule updateCurrentSession_l_ok [OF assms(1) l(2)])
  have "onTopUidsChanged e uids c = Some c'" using False l(1) c'(1) by (simp add: onTopUidsChanged_def)
  moreover have "drops_unstarted c c'" using c'(2) by (simp add: drops_unstarted_def clients_def st_def)
  ultimately show ?thesis by (auto simp: drops_unstarted_def)
qed (simp add: onTopUidsChanged_def)

theorem top_uids_change_effect_witness:
  "\<exists>c c'. demo_run [demo_submit 0 10 kNormal, demo_submit 1 11 kNormal] = Some c \<and>
     onTopUidsChanged sample_env {11} c = Some c' \<and>
     (\<forall>j. clients c' j = clients c j \<or> clients c' j = None \<and> st c j = Some NOT_STARTED)"
proof -
  have "demo_run [demo_submit 0 10 kNormal, demo_submit 1 11 kNormal] \<noteq> None" by code_simp
  then obtain c where c: "demo_run [demo_submit 0 10 kNormal, demo_submit 1 11 kNormal] = Some c" by blast
  then show ?thesis
    using top_uids_change_effect [OF iter_ok_sample demo_reachable [OF c], of "{11}"] by blast
qed

section \<open>Admission by the pacer\<close>

lemma fold_admit_mono: "fst bc \<Longrightarrow> fst (fold (admitUid e cu) us bc)"
  by (induction us arbitrary: bc) (auto simp: admitUid_def case_prod_beta Let_def)

lemma fold_admit_self: "cu \<in> set us \<Longrightarrow> fst (fold (admitUid e cu) us bc)"
proof (induction us arbitrary: bc)
  case (Cons u us)
  show ?case
  proof (cases "u = cu")
    case True
    have "fst (admitUid e cu cu bc)"
      by (simp add: admitUid_def case_prod_beta Let_def onSessionStarted_def isSubjectToQuota_self)
    then show ?thesis using True fold_admit_mono by simp
  next
    case False
    then show ?thesis using Cons by simp
  qed
qed simp

lemma fold_admit_blocked:
  "\<forall>u \<in> set us. blocked u (mPacer (snd bc)) \<and> u \<noteq> cu \<Longrightarrow> fst (fold (admitUid e cu) us bc) = fst bc"
proof (induction us arbitrary: bc)
  case (Cons u us)
  then have "admitUid e cu u bc = (fst bc, tick (snd bc))"
    by (cases bc) (simp add: admitUid_def onSessionStarted_blocked)
  with Cons show ?case by simp
qed simp

text \<open>
  The loop starts a session whose calling uid is one of its clients, whatever the quota,
  and refuses one all of whose client uids are other uids over their quota.
\<close>

theorem admission_by_quota:
  assumes "iter_ok e"
  shows "(s_callingUid s \<in> allClientUids s \<longrightarrow> fst (admitSession e s c)) \<and>
         (s_callingUid s \<notin> allClientUids s \<and> (\<forall>u \<in> allClientUids s. blocked u (mPacer c)) \<longrightarrow>
            \<not> fst (admitSession e s c))"
proof -
  let ?us = "e_iter e (envReads c) (allClientUids s)"
  have "fst (fold (admitUid e (s_callingUid s)) ?us (False, tick c)) = False"
    if "s_callingUid s \<notin> allClientUids s" "\<forall>u \<in> allClientUids s. blocked u (mPacer c)"
    using fold_admit_blocked [of ?us "(False, tick c)" "s_callingUid s" e] that assms by auto
  then show ?thesis
    using fold_admit_self [of "s_callingUid s" ?us] assms by (auto simp: admitSession_def)
qed

theorem admission_by_quota_witness:
  "fst (admitSession sample_env (default_session\<lparr>s_callingUid := 5, allClientUids := {5}\<rparr>) (the demo_ctrl)) \<and>
   \<not> fst (admitSession sample_env (default_session\<lparr>s_callingUid := 5, allClientUids := {7}\<rparr>)
            ((the demo_ctrl)\<lparr>mPacer := demo_pacer\<rparr>))"
proof -
  have "blocked 7 demo_pacer" by (simp add: blocked_def demo_pacer_def sample_env_def default_config_def
        Pacer_def onSessionStarted_def isSubjectToQuota_def onSessionCompleted_def over_quota_def fresh_history_def)
  then show ?thesis
    using admission_by_quota [OF iter_ok_sample, of "default_session\<lparr>s_callingUid := 5, allClientUids := {5}\<rparr>" "the demo_ctrl"]
      admission_by_quota [OF iter_ok_sample, of "default_session\<lparr>s_callingUid := 5, allClientUids := {7}\<rparr>"
        "(the demo_ctrl)\<lparr>mPacer := demo_pacer\<rparr>"]
    by simp
qed

section \<open>A late timeout report\<close>

definition race_events :: "ctrl_event list" where
  "race_events =
     [demo_submit 0 10 kNormal, EvWatchdog, demo_submit 1 9 kNormal, EvError 1 0 kWatchdogTimeout]"

definition race_ctrl :: "ctrl ub" where
  "race_ctrl =
     TranscodingSessionController (TranscodingUidPolicy sample_env True) None
       (Some (TranscodingThermalPolicy sample_env True 0 0)) (Some (default_config\<lparr>watchdogTimeoutUs := 0\<rparr>))"

text \<open>
  The watchdog thread reports a timeout after it has released its lock. If the reported session is
  paused and another one started before the report arrives, handling the report replaces the
  transcoder although the running session was started on the old one: that session is then current
  and in state \<open>RUNNING\<close>, and the new transcoder was never told about it.
\<close>

theorem watchdog_late_report:
  "case race_ctrl of None \<Rightarrow> False | Some c0 \<Rightarrow>
   (case foldM (handle sample_env) (take 1 race_events) c0 of None \<Rightarrow> False
    | Some c \<Rightarrow> snd (watchdogTurn sample_env c) = Some (1, 0)) \<and>
   (case foldM (handle sample_env) race_events c0 of None \<Rightarrow> False
    | Some c \<Rightarrow> st c (1, 1) = Some RUNNING \<and> mCurrentSession c = Some (1, 1) \<and> mTranscoder c = Some 1
         \<and> TxStart 0 (1, 1) 5 \<in> set (outs c)
         \<and> TxStart 1 (1, 1) 5 \<notin> set (outs c) \<and> TxResume 1 (1, 1) 5 \<notin> set (outs c))"
  by code_simp

end
