(* ===== verification/Client_Manager.thy ===== *)
theory Client_Manager
  imports Session_Machine
begin

text \<open>
  \<^verbatim>\<open>TranscodingClientManager\<close> with its \<^verbatim>\<open>ClientImpl\<close> objects, and the part of
  \<^verbatim>\<open>MediaTranscodingService\<close> that puts the service together.

  A \<^verbatim>\<open>ClientImpl\<close> lives as long as anyone holds a pointer to it, so the objects are in a store of
  their own (\<open>clientObjs\<close>), and a pointer is the client id. A binder is a number. \<open>owner\<close> says
  whether the weak pointer to the manager can be locked. The calling pid and uid of a binder call
  are arguments.
\<close>

section \<open>State\<close>

datatype service_error =
    ERROR_PERMISSION_DENIED | ERROR_ALREADY_EXISTS | ERROR_ILLEGAL_ARGUMENT | ERROR_DISCONNECTED
  | ERROR_INVALID_OPERATION

datatype status = StatusOk | ServiceSpecificError service_error

record client_impl =
  mClientBinder :: callback
  mClientId :: client_id
  mClientName :: string
  mClientOpPackageName :: string
  mNextSessionId :: int
  mAbandoned :: bool

record service =
  mTrustedUids :: "uid set"
  mClientIdToClientMap :: "(client_id, client_id) smap"
  mRegisteredCallbacks :: "callback set"
  sCookieCounter :: u64
  sCookie2Client :: "(client_id, client_id) smap"
  clientObjs :: "(client_id, client_impl) smap"
  permReads :: nat
  mSessionController :: ctrl

definition AID_ROOT :: uid where "AID_ROOT = 0"
definition AID_SYSTEM :: uid where "AID_SYSTEM = 1000"
definition AID_SHELL :: uid where "AID_SHELL = 2000"
definition AID_MEDIA :: uid where "AID_MEDIA = 1013"

definition USE_CALLING_UID :: int where "USE_CALLING_UID = - 1"
definition USE_CALLING_PID :: int where "USE_CALLING_PID = - 1"

definition TranscodingClientManager :: "ctrl \<Rightarrow> service" where
  "TranscodingClientManager c =
     \<lparr>mTrustedUids = {AID_ROOT, AID_SYSTEM, AID_SHELL, AID_MEDIA}, mClientIdToClientMap = [],
      mRegisteredCallbacks = {}, sCookieCounter = 0, sCookie2Client = [], clientObjs = [],
      permReads = 0, mSessionController = c\<rparr>"

text \<open>
  The service: with the simulated transcoder the pacer gets shorter limits, otherwise two
  properties override its quotas when positive; the controller becomes the callback of the three
  policies.
\<close>

definition service_config :: "bool \<Rightarrow> int \<Rightarrow> int \<Rightarrow> controller_config" where
  "service_config simulated burstCountQuota burstTimeQuotaSeconds =
     (if simulated
      then default_config\<lparr>pacerBurstThresholdMs := 500, pacerBurstCountQuota := 10,
                          pacerBurstTimeQuotaSeconds := 3\<rparr>
      else let config = default_config;
          config = (if burstCountQuota > 0
                    then config\<lparr>pacerBurstCountQuota := burstCountQuota\<rparr> else config)
      in if burstTimeQuotaSeconds > 0
         then config\<lparr>pacerBurstTimeQuotaSeconds := burstTimeQuotaSeconds\<rparr> else config)"

definition MediaTranscodingService ::
    "uid_policy \<Rightarrow> resource_policy \<Rightarrow> thermal_policy \<Rightarrow> bool \<Rightarrow> int \<Rightarrow> int \<Rightarrow> service ub" where
  "MediaTranscodingService up rp tp simulated burstCountQuota burstTimeQuotaSeconds =
     (case TranscodingSessionController up (Some rp) (Some tp)
             (Some (service_config simulated burstCountQuota burstTimeQuotaSeconds)) of
        None \<Rightarrow> None
      | Some c \<Rightarrow>
          Some (TranscodingClientManager
                  (c\<lparr>mUidPolicy := up_setCallback (mUidPolicy c),
                     mResourcePolicy := map_option rp_setCallback (mResourcePolicy c),
                     mThermalPolicy := map_option tp_setCallback (mThermalPolicy c)\<rparr>)))"

section \<open>Clients\<close>

definition isTrustedCaller :: "env \<Rightarrow> int \<Rightarrow> uid \<Rightarrow> service \<Rightarrow> bool \<times> service" where
  "isTrustedCaller e pid u s =
     (if u > 0 \<and> u \<in> mTrustedUids s then (True, s)
      else if e_api31 e then
        let s' = s\<lparr>permReads := Suc (permReads s)\<rparr> in
        if e_wmsGranted e (permReads s) pid u
        then (True, s'\<lparr>mTrustedUids := insert u (mTrustedUids s')\<rparr>)
        else (False, s')
      else (False, s))"

definition ClientImpl :: "client_id \<Rightarrow> callback \<Rightarrow> string \<Rightarrow> string \<Rightarrow> client_impl" where
  "ClientImpl ci cb clientName opPackageName =
     \<lparr>mClientBinder = cb, mClientId = ci, mClientName = clientName,
      mClientOpPackageName = opPackageName, mNextSessionId = 0, mAbandoned = False\<rparr>"

definition addClient ::
    "env \<Rightarrow> int \<Rightarrow> int \<Rightarrow> callback option \<Rightarrow> string \<Rightarrow> string \<Rightarrow> service
     \<Rightarrow> (service_error + client_id) \<times> service" where
  "addClient e callingPid callingUid callback clientName opPackageName s =
     (let (trusted, s) = isTrustedCaller e callingPid (word_of_int callingUid) s in
      if \<not> trusted then (Inl ERROR_PERMISSION_DENIED, s)
      else if callback = None \<or> clientName = [] \<or> opPackageName = [] then (Inl ERROR_ILLEGAL_ARGUMENT, s)
      else
        let binder = the callback in
        if binder \<in> mRegisteredCallbacks s then (Inl ERROR_ALREADY_EXISTS, s)
        else
          let ci = sCookieCounter s;
              s = s\<lparr>sCookieCounter := ci + 1,
                    clientObjs := smap_set ci (ClientImpl ci binder clientName opPackageName) (clientObjs s)\<rparr>;
              s = s\<lparr>sCookie2Client := smap_emplace ci ci (sCookie2Client s)\<rparr>;
              s = s\<lparr>mRegisteredCallbacks := insert binder (mRegisteredCallbacks s),
                    mClientIdToClientMap := smap_set ci ci (mClientIdToClientMap s)\<rparr>
          in (Inr ci, s))"

text \<open>The binder of a removed client is read from its object; the objects outlive the maps.\<close>

definition removeClient :: "client_id \<Rightarrow> service \<Rightarrow> ((service_error option) \<times> service) ub" where
  "removeClient clientId s =
     (case smap_find (mClientIdToClientMap s) clientId of
        None \<Rightarrow> Some (Some ERROR_INVALID_OPERATION, s)
      | Some ptr \<Rightarrow>
          (case smap_find (clientObjs s) ptr of
             None \<Rightarrow> None
           | Some client \<Rightarrow>
               Some (None,
                 s\<lparr>sCookie2Client := smap_erase (mClientId client) (sCookie2Client s),
                   mClientIdToClientMap := smap_erase clientId (mClientIdToClientMap s),
                   mRegisteredCallbacks := mRegisteredCallbacks s - {mClientBinder client}\<rparr>)))"

definition getNumOfClients :: "service \<Rightarrow> nat" where
  "getNumOfClients s = length (mClientIdToClientMap s)"

definition registerClient ::
    "env \<Rightarrow> int \<Rightarrow> int \<Rightarrow> callback option \<Rightarrow> string \<Rightarrow> string \<Rightarrow> service
     \<Rightarrow> status \<times> client_id option \<times> service" where
  "registerClient e callingPid callingUid callback clientName opPackageName s =
     (if callback = None then (ServiceSpecificError ERROR_ILLEGAL_ARGUMENT, None, s)
      else case addClient e callingPid callingUid callback clientName opPackageName s of
        (Inl err, s) \<Rightarrow> (ServiceSpecificError err, None, s)
      | (Inr ci, s) \<Rightarrow> (StatusOk, Some ci, s))"

section \<open>Calls on a client\<close>

text \<open>
  The check of a uid or pid a caller passes: the caller's own may be given as \<open>- 1\<close>; other
  negative ones are ignored; only a trusted caller may name another.
\<close>

datatype id_check = IdOk int | IdNegative | IdDenied

definition checkId :: "env \<Rightarrow> int \<Rightarrow> int \<Rightarrow> int \<Rightarrow> int \<Rightarrow> int \<Rightarrow> service \<Rightarrow> id_check \<times> service" where
  "checkId e callingPid callingUid useCalling calling given s =
     (if given = useCalling then (IdOk calling, s)
      else if given < 0 then (IdNegative, s)
      else if given \<noteq> calling then
        let (trusted, s) = isTrustedCaller e callingPid (word_of_int callingUid) s
        in (if trusted then IdOk given else IdDenied, s)
      else (IdOk given, s))"

text \<open>
  The result: the status, the id of the accepted session if any, and the new state. A client id
  without object cannot be called; following such a pointer is undefined.
\<close>

definition submitRequest ::
    "env \<Rightarrow> bool \<Rightarrow> int \<Rightarrow> int \<Rightarrow> client_id \<Rightarrow> request \<Rightarrow> service
     \<Rightarrow> (status \<times> session_id option \<times> service) ub" where
  "submitRequest e owner callingPid callingUid ptr req s =
     (case smap_find (clientObjs s) ptr of
        None \<Rightarrow> None
      | Some client \<Rightarrow>
          if mAbandoned client \<or> \<not> owner then Some (ServiceSpecificError ERROR_DISCONNECTED, None, s)
          else if sourceFilePath req = [] \<or> destinationFilePath req = [] then Some (StatusOk, None, s)
          else
            (case checkId e callingPid callingUid USE_CALLING_UID callingUid (clientUid req) s of
               (IdNegative, s) \<Rightarrow> Some (StatusOk, None, s)
             | (IdDenied, s) \<Rightarrow> Some (ServiceSpecificError ERROR_PERMISSION_DENIED, None, s)
             | (IdOk in_clientUid, s) \<Rightarrow>
                 (case checkId e callingPid callingUid USE_CALLING_PID callingPid (clientPid req) s of
                    (IdNegative, s) \<Rightarrow> Some (StatusOk, None, s)
                  | (IdDenied, s) \<Rightarrow> Some (ServiceSpecificError ERROR_PERMISSION_DENIED, None, s)
                  | (IdOk in_clientPid, s) \<Rightarrow>
                      let sessionId = mNextSessionId client;
                          s = s\<lparr>clientObjs :=
                                  smap_set ptr (client\<lparr>mNextSessionId := wrap32 (sessionId + 1)\<rparr>)
                                    (clientObjs s)\<rparr>
                      in case submit e (mClientId client) sessionId (word_of_int callingUid)
                                (word_of_int in_clientUid) req (Some (mClientBinder client))
                                (mSessionController s) of
                           None \<Rightarrow> None
                         | Some (ok, c) \<Rightarrow>
                             Some (StatusOk, (if ok then Some sessionId else None),
                                   s\<lparr>mSessionController := c\<rparr>))))"

definition cancelSession ::
    "env \<Rightarrow> bool \<Rightarrow> client_id \<Rightarrow> session_id \<Rightarrow> service \<Rightarrow> (status \<times> bool \<times> service) ub" where
  "cancelSession e owner ptr sessionId s =
     (case smap_find (clientObjs s) ptr of
        None \<Rightarrow> None
      | Some client \<Rightarrow>
          if mAbandoned client \<or> \<not> owner then Some (ServiceSpecificError ERROR_DISCONNECTED, False, s)
          else if sessionId < 0 then Some (StatusOk, False, s)
          else case cancel e (mClientId client) sessionId (mSessionController s) of
            None \<Rightarrow> None
          | Some (ok, c) \<Rightarrow> Some (StatusOk, ok, s\<lparr>mSessionController := c\<rparr>))"

definition getSessionWithId ::
    "bool \<Rightarrow> client_id \<Rightarrow> session_id \<Rightarrow> service \<Rightarrow> (status \<times> request option) ub" where
  "getSessionWithId owner ptr sessionId s =
     (case smap_find (clientObjs s) ptr of
        None \<Rightarrow> None
      | Some client \<Rightarrow>
          if mAbandoned client \<or> \<not> owner then Some (ServiceSpecificError ERROR_DISCONNECTED, None)
          else if sessionId < 0 then Some (StatusOk, None)
          else Some (StatusOk, getSession (mClientId client) sessionId (mSessionController s)))"

definition cm_addClientUid ::
    "env \<Rightarrow> bool \<Rightarrow> int \<Rightarrow> int \<Rightarrow> client_id \<Rightarrow> session_id \<Rightarrow> int \<Rightarrow> service
     \<Rightarrow> (status \<times> bool \<times> service) ub" where
  "cm_addClientUid e owner callingPid callingUid ptr sessionId given s =
     (case smap_find (clientObjs s) ptr of
        None \<Rightarrow> None
      | Some client \<Rightarrow>
          if mAbandoned client \<or> \<not> owner then Some (ServiceSpecificError ERROR_DISCONNECTED, False, s)
          else if sessionId < 0 then Some (StatusOk, False, s)
          else
            (case checkId e callingPid callingUid USE_CALLING_UID callingUid given s of
               (IdNegative, s) \<Rightarrow> Some (StatusOk, False, s)
             | (IdDenied, s) \<Rightarrow> Some (ServiceSpecificError ERROR_PERMISSION_DENIED, False, s)
             | (IdOk in_clientUid, s) \<Rightarrow>
                 (case addClientUid e (mClientId client) sessionId (word_of_int in_clientUid)
                         (mSessionController s) of
                    None \<Rightarrow> None
                  | Some (ok, c) \<Rightarrow> Some (StatusOk, ok, s\<lparr>mSessionController := c\<rparr>))))"

definition cm_getClientUids ::
    "env \<Rightarrow> bool \<Rightarrow> client_id \<Rightarrow> session_id \<Rightarrow> service \<Rightarrow> (status \<times> int list option) ub" where
  "cm_getClientUids e owner ptr sessionId s =
     (case smap_find (clientObjs s) ptr of
        None \<Rightarrow> None
      | Some client \<Rightarrow>
          if mAbandoned client \<or> \<not> owner then Some (ServiceSpecificError ERROR_DISCONNECTED, None)
          else if sessionId < 0 then Some (StatusOk, None)
          else Some (StatusOk, getClientUids e (mClientId client) sessionId (mSessionController s)))"

definition unregister :: "env \<Rightarrow> bool \<Rightarrow> client_id \<Rightarrow> service \<Rightarrow> (status \<times> service) ub" where
  "unregister e owner ptr s =
     (case smap_find (clientObjs s) ptr of
        None \<Rightarrow> None
      | Some client \<Rightarrow>
          let abandoned = mAbandoned client;
              s = s\<lparr>clientObjs := smap_set ptr (client\<lparr>mAbandoned := True\<rparr>) (clientObjs s)\<rparr>
          in if abandoned \<or> \<not> owner then Some (ServiceSpecificError ERROR_DISCONNECTED, s)
             else case cancel e (mClientId client) (- 1) (mSessionController s) of
               None \<Rightarrow> None
             | Some (_, c) \<Rightarrow>
                 (case removeClient (mClientId client) (s\<lparr>mSessionController := c\<rparr>) of
                    None \<Rightarrow> None
                  | Some (_, s) \<Rightarrow> Some (StatusOk, s)))"

definition cm_BinderDiedCallback :: "env \<Rightarrow> bool \<Rightarrow> client_id \<Rightarrow> service \<Rightarrow> service ub" where
  "cm_BinderDiedCallback e owner cookie s =
     (case smap_find (sCookie2Client s) cookie of
        None \<Rightarrow> Some s
      | Some ptr \<Rightarrow> map_option snd (unregister e owner ptr s))"

end
