(* ===== verification/Service_Machine.thy ===== *)
theory Service_Machine
  imports Client_Manager
begin

text \<open>
  The transcoding service as a state machine: clients register, submit, cancel and unregister, their
  processes die, and the callbacks of the transcoder, the watchdog and the policies come in between, in any
  order. The invariant ties the client manager's maps to the client objects and the sessions of
  the controller to the session ids the clients have been given.
\<close>

section \<open>Events\<close>

datatype svc_event =
    SRegister int int "callback option" string string
  | SSubmit int int client_id request
  | SCancel client_id session_id
  | SAddUid int int client_id session_id int
  | SUnregister client_id
  | SBinderDied client_id
  | SCtrl ctrl_event

fun svc_handle :: "env \<Rightarrow> svc_event \<Rightarrow> service \<Rightarrow> service ub" where
  "svc_handle e (SRegister pid u cb n p) s = Some (snd (snd (registerClient e pid u cb n p s)))"
| "svc_handle e (SSubmit pid u ptr req) s = map_option (\<lambda>(_, _, s). s) (submitRequest e True pid u ptr req s)"
| "svc_handle e (SCancel ptr si) s = map_option (\<lambda>(_, _, s). s) (cancelSession e True ptr si s)"
| "svc_handle e (SAddUid pid u ptr si g) s =
     map_option (\<lambda>(_, _, s). s) (cm_addClientUid e True pid u ptr si g s)"
| "svc_handle e (SUnregister ptr) s = map_option snd (unregister e True ptr s)"
| "svc_handle e (SBinderDied cookie) s = cm_BinderDiedCallback e True cookie s"
| "svc_handle e (SCtrl ev) s =
     map_option (\<lambda>c. s\<lparr>mSessionController := c\<rparr>) (handle e ev (mSessionController s))"

text \<open>
  What can happen: a call needs a client object; the controller gets submissions only through
  clients; and the two counters have not wrapped around (2^64 clients, 2^31 requests of a client).
\<close>

abbreviation obj :: "service \<Rightarrow> client_id \<Rightarrow> client_impl option" where
  "obj s ci \<equiv> smap_find (clientObjs s) ci"

fun enabled :: "service \<Rightarrow> svc_event \<Rightarrow> bool" where
  "enabled s (SRegister pid u cb n p) \<longleftrightarrow> sCookieCounter s \<noteq> - 1"
| "enabled s (SSubmit pid u ptr req) \<longleftrightarrow>
     (case obj s ptr of None \<Rightarrow> False | Some c \<Rightarrow> mNextSessionId c < 2 ^ 31 - 1)"
| "enabled s (SCancel ptr si) \<longleftrightarrow> obj s ptr \<noteq> None"
| "enabled s (SAddUid pid u ptr si g) \<longleftrightarrow> obj s ptr \<noteq> None"
| "enabled s (SUnregister ptr) \<longleftrightarrow> obj s ptr \<noteq> None"
| "enabled s (SBinderDied cookie) \<longleftrightarrow> True"
| "enabled s (SCtrl ev) \<longleftrightarrow> \<not> is_submit ev"

inductive svc_reachable :: "env \<Rightarrow> service \<Rightarrow> bool" for e where
  svc_start: "MediaTranscodingService (TranscodingUidPolicy e l) rp tp sim bq tq = Some s \<Longrightarrow> svc_reachable e s"
| svc_step: "svc_reachable e s \<Longrightarrow> enabled s ev \<Longrightarrow> svc_handle e ev s = Some s' \<Longrightarrow> svc_reachable e s'"

section \<open>Invariant\<close>

text \<open>The binder of a client that has not unregistered.\<close>

definition binder_of :: "service \<Rightarrow> client_id \<Rightarrow> callback option" where
  "binder_of s ci =
     (case obj s ci of None \<Rightarrow> None | Some c \<Rightarrow> if mAbandoned c then None else Some (mClientBinder c))"

definition objs_ok :: "service \<Rightarrow> bool" where
  "objs_ok s \<longleftrightarrow>
     (\<forall>ci c. obj s ci = Some c \<longrightarrow>
        mClientId c = ci \<and> ci < sCookieCounter s \<and> 0 \<le> mNextSessionId c \<and> mNextSessionId c < 2 ^ 31)"

definition maps_ok :: "service \<Rightarrow> bool" where
  "maps_ok s \<longleftrightarrow>
     smap_ok (mClientIdToClientMap s)
     \<and> (\<forall>ci. smap_find (mClientIdToClientMap s) ci = map_option (\<lambda>_. ci) (binder_of s ci))
     \<and> (\<forall>ci. smap_find (sCookie2Client s) ci = map_option (\<lambda>_. ci) (binder_of s ci))
     \<and> mRegisteredCallbacks s = ran (binder_of s)
     \<and> (\<forall>ci cj b. binder_of s ci = Some b \<longrightarrow> binder_of s cj = Some b \<longrightarrow> ci = cj)"

definition sessions_ok :: "service \<Rightarrow> bool" where
  "sessions_ok s \<longleftrightarrow>
     (\<forall>k. clients (mSessionController s) k \<noteq> None \<longrightarrow>
        (\<exists>c. obj s (fst k) = Some c \<and> 0 \<le> snd k \<and> snd k < mNextSessionId c))"

definition svc_inv :: "service \<Rightarrow> bool" where
  "svc_inv s \<longleftrightarrow> ctrl_inv (mSessionController s) \<and> objs_ok s \<and> maps_ok s \<and> sessions_ok s"

lemma svc_invD:
  assumes "svc_inv s"
  shows "ctrl_inv (mSessionController s)" "base_inv (mSessionController s)" "objs_ok s" "maps_ok s" "sessions_ok s"
  using assms by (simp_all add: svc_inv_def ctrl_inv_def)

text \<open>The trust check touches nothing else.\<close>

lemma isTrustedCaller_frame [simp]:
  "clientObjs (snd (isTrustedCaller e p u s)) = clientObjs s"
  "mClientIdToClientMap (snd (isTrustedCaller e p u s)) = mClientIdToClientMap s"
  "mRegisteredCallbacks (snd (isTrustedCaller e p u s)) = mRegisteredCallbacks s"
  "sCookieCounter (snd (isTrustedCaller e p u s)) = sCookieCounter s"
  "sCookie2Client (snd (isTrustedCaller e p u s)) = sCookie2Client s"
  "mSessionController (snd (isTrustedCaller e p u s)) = mSessionController s"
  by (simp_all add: isTrustedCaller_def Let_def)

lemma checkId_frame [simp]:
  "clientObjs (snd (checkId e p u d c g s)) = clientObjs s"
  "mClientIdToClientMap (snd (checkId e p u d c g s)) = mClientIdToClientMap s"
  "mRegisteredCallbacks (snd (checkId e p u d c g s)) = mRegisteredCallbacks s"
  "sCookieCounter (snd (checkId e p u d c g s)) = sCookieCounter s"
  "sCookie2Client (snd (checkId e p u d c g s)) = sCookie2Client s"
  "mSessionController (snd (checkId e p u d c g s)) = mSessionController s"
  by (simp_all add: checkId_def case_prod_beta)

lemma maps_ok_callbacks: "maps_ok s \<Longrightarrow> mRegisteredCallbacks s = ran (binder_of s)"
  by (simp add: maps_ok_def)

lemma maps_ok_cong:
  assumes "mClientIdToClientMap s' = mClientIdToClientMap s" "sCookie2Client s' = sCookie2Client s"
    "mRegisteredCallbacks s' = mRegisteredCallbacks s" "binder_of s' = binder_of s"
  shows "maps_ok s' = maps_ok s"
  unfolding maps_ok_def by (simp only: assms)

lemma svc_inv_cong:
  assumes "clientObjs s' = clientObjs s" "mClientIdToClientMap s' = mClientIdToClientMap s"
    "mRegisteredCallbacks s' = mRegisteredCallbacks s" "sCookieCounter s' = sCookieCounter s"
    "sCookie2Client s' = sCookie2Client s" "mSessionController s' = mSessionController s"
  shows "svc_inv s' = svc_inv s"
proof -
  have "binder_of s' = binder_of s" by (simp add: binder_of_def fun_eq_iff assms)
  then have "maps_ok s' = maps_ok s" by (intro maps_ok_cong assms)
  then show ?thesis
    unfolding svc_inv_def objs_ok_def sessions_ok_def by (simp only: assms)
qed

text \<open>A change of the controller that adds no session.\<close>

lemma svc_inv_ctrl:
  assumes inv: "svc_inv s" and c: "ctrl_inv c" "keys_shrink (mSessionController s) c"
  shows "svc_inv (s\<lparr>mSessionController := c\<rparr>)"
proof -
  let ?s = "s\<lparr>mSessionController := c\<rparr>"
  have "maps_ok ?s = maps_ok s" by (rule maps_ok_cong) (simp_all add: binder_of_def fun_eq_iff)
  moreover have "objs_ok ?s = objs_ok s" by (simp add: objs_ok_def)
  moreover have "sessions_ok ?s"
    unfolding sessions_ok_def
  proof (intro allI impI)
    fix k assume "clients (mSessionController ?s) k \<noteq> None"
    then have "clients (mSessionController s) k \<noteq> None"
      using c(2) by (auto simp: keys_shrink_def)
    then show "\<exists>c. obj ?s (fst k) = Some c \<and> 0 \<le> snd k \<and> snd k < mNextSessionId c"
      using svc_invD(5) [OF inv] by (simp add: sessions_ok_def)
  qed
  ultimately show ?thesis using svc_invD [OF inv] c(1) by (simp add: svc_inv_def)
qed

lemma word_less_inc: "x \<noteq> - 1 \<Longrightarrow> x < x + 1" for x :: u64
  using unatSuc [of x] by (simp add: word_less_nat_alt add.commute add_eq_0_iff)

section \<open>Registration\<close>

lemma addClient_ok:
  assumes inv: "svc_inv s" and nw: "sCookieCounter s \<noteq> - 1"
  shows "svc_inv (snd (addClient e pid u cb n p s))"
proof -
  define s1 where "s1 = snd (isTrustedCaller e pid (word_of_int u) s)"
  have inv1: "svc_inv s1" and nw1: "sCookieCounter s1 \<noteq> - 1"
    using inv svc_inv_cong [of s1 s] nw by (simp_all add: s1_def)
  show ?thesis
  proof (cases "fst (isTrustedCaller e pid (word_of_int u) s) \<and> cb \<noteq> None \<and> n \<noteq> [] \<and> p \<noteq> []
               \<and> the cb \<notin> mRegisteredCallbacks s1")
    case False
    then have "snd (addClient e pid u cb n p s) = s1"
      by (auto simp: addClient_def s1_def case_prod_beta Let_def)
    then show ?thesis using inv1 by simp
  next
    case True
    define ci where "ci = sCookieCounter s1"
    define o' where "o' = ClientImpl ci (the cb) n p"
    define s' where "s' = snd (addClient e pid u cb n p s)"
    have guards: "fst (isTrustedCaller e pid (word_of_int u) s)"
      "(cb = None \<or> n = [] \<or> p = []) = False" "(the cb \<in> mRegisteredCallbacks s1) = False"
      using True by auto
    have s': "clientObjs s' = smap_set ci o' (clientObjs s1)" "sCookieCounter s' = ci + 1"
      "sCookie2Client s' = smap_emplace ci ci (sCookie2Client s1)"
      "mRegisteredCallbacks s' = insert (the cb) (mRegisteredCallbacks s1)"
      "mClientIdToClientMap s' = smap_set ci ci (mClientIdToClientMap s1)"
      "mSessionController s' = mSessionController s1"
      unfolding s'_def addClient_def case_prod_beta Let_def s1_def [symmetric] guards(2,3) ci_def o'_def
      using guards(1) by simp_all
    have o': "mClientId o' = ci" "\<not> mAbandoned o'" "mClientBinder o' = the cb" "mNextSessionId o' = 0"
      by (simp_all add: o'_def ClientImpl_def)
    have lt: "ci < ci + 1" using nw1 word_less_inc by (simp add: ci_def)
    have new: "obj s1 ci = None"
      using svc_invD(3) [OF inv1] unfolding objs_ok_def ci_def by (meson less_irrefl not_Some_eq)
    have ob: "obj s' x = (if x = ci then Some o' else obj s1 x)" for x by (simp add: s' smap_simps)
    have "objs_ok s'"
      using svc_invD(3) [OF inv1] lt o' unfolding objs_ok_def ob s'(2)
      by (auto simp: ci_def split: if_splits dest: less_trans)
    moreover have "maps_ok s'"
    proof -
      note ok = svc_invD(4) [OF inv1]
      have bo: "binder_of s' = (binder_of s1)(ci \<mapsto> the cb)"
        using o' by (simp add: binder_of_def ob fun_eq_iff)
      have nb: "binder_of s1 ci = None" using new by (simp add: binder_of_def)
      have "the cb \<notin> ran (binder_of s1)" using guards(3) ok by (simp add: maps_ok_def)
      then have inj: "binder_of s1 x \<noteq> Some (the cb)" for x by (auto simp: ran_def)
      show ?thesis
        unfolding maps_ok_def
      proof (intro conjI allI impI)
        show "smap_ok (mClientIdToClientMap s')" using ok by (simp add: s' smap_ok_set maps_ok_def)
        show "smap_find (mClientIdToClientMap s') x = map_option (\<lambda>_. x) (binder_of s' x)" for x
          using ok by (simp add: s' bo smap_simps maps_ok_def)
        show "smap_find (sCookie2Client s') x = map_option (\<lambda>_. x) (binder_of s' x)" for x
          using ok nb by (simp add: s' bo smap_simps maps_ok_def)
        show "mRegisteredCallbacks s' = ran (binder_of s')"
          using ok nb by (simp add: s' bo maps_ok_def)
        show "x = y" if "binder_of s' x = Some b" "binder_of s' y = Some b" for x y b
          using that inj ok unfolding bo maps_ok_def by (auto split: if_splits)
      qed
    qed
    moreover have "sessions_ok s'"
      using svc_invD(5) [OF inv1] new unfolding sessions_ok_def ob s'(6) by (metis option.distinct(1))
    ultimately show ?thesis using svc_invD(1) [OF inv1] s'(6) by (simp add: svc_inv_def s'_def)
  qed
qed

lemma registerClient_ok:
  assumes "svc_inv s" "sCookieCounter s \<noteq> - 1"
  shows "svc_inv (snd (snd (registerClient e pid u cb n p s)))"
  using addClient_ok [OF assms, of e pid u cb n p] assms(1)
  by (auto simp: registerClient_def split: prod.split sum.split)

section \<open>Calls on a client\<close>

text \<open>Changing a client's next session id or abandoning it.\<close>

lemma clients_upd_sess_id:
  assumes inv: "svc_inv s" and c: "obj s ptr = Some c" and n: "mNextSessionId c \<le> n" "n < 2 ^ 31"
  defines "s' \<equiv> s\<lparr>clientObjs := smap_set ptr (c\<lparr>mNextSessionId := n\<rparr>) (clientObjs s)\<rparr>"
  shows "objs_ok s'" "maps_ok s'" "sessions_ok s'"
proof -
  have ob: "obj s' x = (if x = ptr then Some (c\<lparr>mNextSessionId := n\<rparr>) else obj s x)" for x
    by (simp add: s'_def smap_simps)
  have "mClientId c = ptr" "ptr < sCookieCounter s" "0 \<le> mNextSessionId c"
    using svc_invD(3) [OF inv] c unfolding objs_ok_def by blast+
  then show "objs_ok s'"
    using svc_invD(3) [OF inv] n unfolding objs_ok_def ob by (auto simp: s'_def)
  have "binder_of s' = binder_of s" using c by (auto simp: binder_of_def ob fun_eq_iff)
  then show "maps_ok s'" using svc_invD(4) [OF inv] maps_ok_cong [of s' s] by (simp add: s'_def)
  show "sessions_ok s'"
    unfolding sessions_ok_def
  proof (intro allI impI)
    fix k assume "clients (mSessionController s') k \<noteq> None"
    then have "clients (mSessionController s) k \<noteq> None" by (simp add: s'_def)
    then obtain d where "obj s (fst k) = Some d" "0 \<le> snd k" "snd k < mNextSessionId d"
      using svc_invD(5) [OF inv] unfolding sessions_ok_def by blast
    then show "\<exists>c. obj s' (fst k) = Some c \<and> 0 \<le> snd k \<and> snd k < mNextSessionId c"
      using c n(1) by (auto simp: ob)
  qed
qed

text \<open>
  A request that passes the checks gets the client's next session id, which no session has, so it
  is always accepted.
\<close>

lemma submitRequest_accepted:
  assumes it: "iter_ok e" and inv: "svc_inv s" and c: "obj s ptr = Some c" "\<not> mAbandoned c"
    and nw: "mNextSessionId c < 2 ^ 31 - 1"
    and paths: "sourceFilePath req \<noteq> []" "destinationFilePath req \<noteq> []"
    and cu: "checkId e pid u USE_CALLING_UID u (clientUid req) s = (IdOk cu, s1)"
    and cp: "checkId e pid u USE_CALLING_PID pid (clientPid req) s1 = (IdOk cp, s2)"
  obtains s' where "submitRequest e True pid u ptr req s = Some (StatusOk, Some (mNextSessionId c), s')"
    "svc_inv s'"
proof -
  note ctrl = svc_invD(2) [OF inv]
  let ?id = "mNextSessionId c"
  have s2: "clientObjs s2 = clientObjs s" "mSessionController s2 = mSessionController s" "svc_inv s2"
  proof -
    have "s1 = snd (checkId e pid u USE_CALLING_UID u (clientUid req) s)"
      "s2 = snd (checkId e pid u USE_CALLING_PID pid (clientPid req) s1)" using cu cp by simp_all
    then show "clientObjs s2 = clientObjs s" "mSessionController s2 = mSessionController s" "svc_inv s2"
      using inv svc_inv_cong [of s2 s] by simp_all
  qed
  have ok: "mClientId c = ptr" "0 \<le> ?id" using svc_invD(3) [OF inv] c(1) by (auto simp: objs_ok_def)
  have fresh: "session_of (mSessionController s) (ptr, ?id) = None"
  proof (rule ccontr)
    assume "session_of (mSessionController s) (ptr, ?id) \<noteq> None"
    then have "clients (mSessionController s) (ptr, ?id) \<noteq> None" by (simp add: clients_def)
    then have "?id < ?id" using svc_invD(5) [OF inv] c(1) unfolding sessions_ok_def by force
    then show False by simp
  qed
  let ?cb = "Some (mClientBinder c)"
  obtain d where d: "submit e ptr ?id (word_of_int u) (word_of_int cu) req ?cb (mSessionController s) = Some (True, d)"
    "ctrl_inv d"
    "\<And>j. clients d j = ((clients (mSessionController s))((ptr, ?id) := Some {submit_uid req (word_of_int cu)})) j \<or>
          clients d j = None \<and> (j = (ptr, ?id) \<or> st (mSessionController s) j = Some NOT_STARTED)"
    using submit_ok [OF it ctrl fresh] by metis
  let ?s3 = "s2\<lparr>clientObjs := smap_set ptr (c\<lparr>mNextSessionId := wrap32 (?id + 1)\<rparr>) (clientObjs s)\<rparr>"
  let ?s' = "?s3\<lparr>mSessionController := d\<rparr>"
  have w: "wrap32 (?id + 1) = ?id + 1" using ok nw by simp
  have c2: "obj s2 ptr = Some c" using c(1) s2(1) by simp
  have parts: "objs_ok ?s3" "maps_ok ?s3" "sessions_ok ?s3"
    using clients_upd_sess_id [OF s2(3) c2, of "?id + 1"] nw s2(1) unfolding w by simp_all
  have "maps_ok ?s'" using parts(2) maps_ok_cong [of ?s' ?s3] by (simp add: binder_of_def fun_eq_iff)
  moreover have "objs_ok ?s'" using parts(1) by (simp add: objs_ok_def)
  moreover have "sessions_ok ?s'"
    unfolding sessions_ok_def
  proof (intro allI impI)
    fix k assume k: "clients (mSessionController ?s') k \<noteq> None"
    show "\<exists>c. obj ?s' (fst k) = Some c \<and> 0 \<le> snd k \<and> snd k < mNextSessionId c"
    proof (cases "k = (ptr, ?id)")
      case True
      then show ?thesis using ok by (simp add: smap_simps w)
    next
      case False
      then have "clients (mSessionController ?s3) k \<noteq> None" using d(3) [of k] k s2(2) by auto
      then show ?thesis using parts(3) unfolding sessions_ok_def by simp
    qed
  qed
  ultimately have "svc_inv ?s'" using d(2) by (simp add: svc_inv_def)
  moreover have "submitRequest e True pid u ptr req s = Some (StatusOk, Some ?id, ?s')"
    using c paths cu cp d(1) s2 ok by (simp add: submitRequest_def Let_def)
  ultimately show thesis using that by blast
qed

lemma submitRequest_ok:
  assumes it: "iter_ok e" and inv: "svc_inv s" and c: "obj s ptr = Some c" and nw: "mNextSessionId c < 2 ^ 31 - 1"
  shows "\<exists>st r s'. submitRequest e True pid u ptr req s = Some (st, r, s') \<and> svc_inv s'"
proof -
  obtain r1 s1 where cu: "checkId e pid u USE_CALLING_UID u (clientUid req) s = (r1, s1)" by fastforce
  obtain r2 s2 where cp: "checkId e pid u USE_CALLING_PID pid (clientPid req) s1 = (r2, s2)" by fastforce
  have "s1 = snd (checkId e pid u USE_CALLING_UID u (clientUid req) s)"
    "s2 = snd (checkId e pid u USE_CALLING_PID pid (clientPid req) s1)" using cu cp by simp_all
  then have inv12: "svc_inv s1" "svc_inv s2" using inv svc_inv_cong [of s1 s] svc_inv_cong [of s2 s1] by simp_all
  show ?thesis
  proof (cases "\<not> mAbandoned c \<and> sourceFilePath req \<noteq> [] \<and> destinationFilePath req \<noteq> []
               \<and> (\<exists>a b. r1 = IdOk a \<and> r2 = IdOk b)")
    case True
    then obtain a b where r: "r1 = IdOk a" "r2 = IdOk b" by blast
    from True r show ?thesis
      using submitRequest_accepted [OF it inv c _ nw _ _ cu [unfolded r] cp [unfolded r]] by blast
  next
    case False
    then show ?thesis
      using c cu cp inv inv12 by (cases r1; cases r2) (auto simp: submitRequest_def)
  qed
qed

lemma ctrl_call_ok:
  assumes it: "iter_ok e" and inv: "svc_inv s" and ev: "\<not> is_submit ev"
  shows "\<exists>c. handle e ev (mSessionController s) = Some c \<and> svc_inv (s\<lparr>mSessionController := c\<rparr>)"
  using handle_other_ok [OF it svc_invD(1) [OF inv] ev] svc_inv_ctrl [OF inv] by blast

lemma cancelSession_ok:
  assumes it: "iter_ok e" and inv: "svc_inv s" and c: "obj s ptr = Some c"
  shows "\<exists>st r s'. cancelSession e True ptr si s = Some (st, r, s') \<and> svc_inv s'"
  using ctrl_call_ok [OF it inv, of "EvCancel (mClientId c) si"] c inv
  by (auto simp: cancelSession_def is_submit_def)

lemma cm_addClientUid_ok:
  assumes it: "iter_ok e" and inv: "svc_inv s" and c: "obj s ptr = Some c"
  shows "\<exists>st r s'. cm_addClientUid e True pid u ptr si g s = Some (st, r, s') \<and> svc_inv s'"
proof -
  obtain r1 s1 where cu: "checkId e pid u USE_CALLING_UID u g s = (r1, s1)" by fastforce
  then have "s1 = snd (checkId e pid u USE_CALLING_UID u g s)" by simp
  then have inv1: "svc_inv s1" using inv svc_inv_cong [of s1 s] by simp
  show ?thesis
  proof (cases r1)
    case (IdOk v)
    show ?thesis
      using ctrl_call_ok [OF it inv1, of "EvAddClientUid (mClientId c) si (word_of_int v)"] c cu inv IdOk
      by (auto simp: cm_addClientUid_def is_submit_def)
  qed (use c cu inv inv1 in \<open>auto simp: cm_addClientUid_def\<close>)
qed

section \<open>Unregistering\<close>

lemma ran_remove_inj:
  assumes "\<forall>x y b. m x = Some b \<longrightarrow> m y = Some b \<longrightarrow> x = y" "m p = Some b"
  shows "ran (m(p := None)) = ran m - {b}"
proof -
  have "v \<in> ran (m(p := None)) \<longleftrightarrow> v \<in> ran m - {b}" for v
    using assms unfolding ran_def by auto (metis option.inject)
  then show ?thesis by blast
qed

lemma unregister_live:
  assumes it: "iter_ok e" and inv: "svc_inv s" and c: "obj s ptr = Some c" "\<not> mAbandoned c"
  obtains d s' where "cancel e ptr (- 1) (mSessionController s) = Some (True, d)"
    "unregister e True ptr s = Some (StatusOk, s')" "svc_inv s'" "mSessionController s' = d"
    "binder_of s' = (binder_of s)(ptr := None)" "obj s' ptr = Some (c\<lparr>mAbandoned := True\<rparr>)"
proof -
  obtain d where d: "cancel e ptr (- 1) (mSessionController s) = Some (True, d)"
    by (rule cancel_ok [OF it svc_invD(2) [OF inv], of "- 1" ptr]) auto
  have dinv: "ctrl_inv d" "keys_shrink (mSessionController s) d"
    using handle_other_ok [OF it svc_invD(1) [OF inv], of "EvCancel ptr (- 1)"] d by (auto simp: is_submit_def)
  have id: "mClientId c = ptr" using svc_invD(3) [OF inv] c(1) by (auto simp: objs_ok_def)
  note ok = svc_invD(4) [OF inv]
  have b: "binder_of s ptr = Some (mClientBinder c)" using c by (simp add: binder_of_def)
  define s' where "s' = s\<lparr>clientObjs := smap_set ptr (c\<lparr>mAbandoned := True\<rparr>) (clientObjs s),
      mSessionController := d, sCookie2Client := smap_erase ptr (sCookie2Client s),
      mClientIdToClientMap := smap_erase ptr (mClientIdToClientMap s),
      mRegisteredCallbacks := mRegisteredCallbacks s - {mClientBinder c}\<rparr>"
  have "smap_find (mClientIdToClientMap s) ptr = Some ptr" using ok b by (simp add: maps_ok_def)
  then have un: "unregister e True ptr s = Some (StatusOk, s')"
    using c d id by (simp add: unregister_def removeClient_def s'_def Let_def smap_simps)
  have ob: "obj s' x = (if x = ptr then Some (c\<lparr>mAbandoned := True\<rparr>) else obj s x)" for x
    by (simp add: s'_def smap_simps)
  have bo: "binder_of s' = (binder_of s)(ptr := None)" by (simp add: binder_of_def ob fun_eq_iff)
  have f: "mClientIdToClientMap s' = smap_erase ptr (mClientIdToClientMap s)"
    "sCookie2Client s' = smap_erase ptr (sCookie2Client s)"
    "mRegisteredCallbacks s' = mRegisteredCallbacks s - {mClientBinder c}" by (simp_all add: s'_def)
  have "objs_ok s'"
    using svc_invD(3) [OF inv] c unfolding objs_ok_def ob by (auto simp: s'_def)
  moreover have "maps_ok s'"
    unfolding maps_ok_def
  proof (intro conjI allI impI)
    show "smap_ok (mClientIdToClientMap s')" using ok by (simp add: f smap_ok_erase maps_ok_def)
    show "smap_find (mClientIdToClientMap s') x = map_option (\<lambda>_. x) (binder_of s' x)"
      and "smap_find (sCookie2Client s') x = map_option (\<lambda>_. x) (binder_of s' x)" for x
      using ok by (simp_all add: bo smap_simps maps_ok_def f)
    have "ran ((binder_of s)(ptr := None)) = ran (binder_of s) - {mClientBinder c}"
      using ok b by (intro ran_remove_inj) (simp_all add: maps_ok_def)
    then show "mRegisteredCallbacks s' = ran (binder_of s')"
      using ok by (simp add: bo maps_ok_def f)
    show "x = y" if "binder_of s' x = Some b" "binder_of s' y = Some b" for x y b
      using that ok unfolding bo maps_ok_def by (auto split: if_splits)
  qed
  moreover have "sessions_ok s'"
    unfolding sessions_ok_def
  proof (intro allI impI)
    fix k assume "clients (mSessionController s') k \<noteq> None"
    then have "clients (mSessionController s) k \<noteq> None" using dinv(2) by (auto simp: s'_def keys_shrink_def)
    then show "\<exists>c. obj s' (fst k) = Some c \<and> 0 \<le> snd k \<and> snd k < mNextSessionId c"
      using svc_invD(5) [OF inv] c(1) unfolding sessions_ok_def ob by (cases "fst k = ptr") fastforce+
  qed
  ultimately have "svc_inv s'" using dinv(1) by (simp add: svc_inv_def s'_def)
  then show thesis using that [OF d un] bo ob by (simp add: s'_def)
qed

lemma unregister_abandoned:
  assumes "obj s ptr = Some c" "mAbandoned c"
  shows "unregister e True ptr s = Some (ServiceSpecificError ERROR_DISCONNECTED,
           s\<lparr>clientObjs := smap_set ptr (c\<lparr>mAbandoned := True\<rparr>) (clientObjs s)\<rparr>)"
  using assms by (simp add: unregister_def Let_def)

lemma unregister_ok:
  assumes it: "iter_ok e" and inv: "svc_inv s" and c: "obj s ptr = Some c"
  shows "\<exists>st s'. unregister e True ptr s = Some (st, s') \<and> svc_inv s'"
proof (cases "mAbandoned c")
  case False
  then show ?thesis using unregister_live [OF it inv c] by metis
next
  case True
  let ?s = "s\<lparr>clientObjs := smap_set ptr (c\<lparr>mAbandoned := True\<rparr>) (clientObjs s)\<rparr>"
  have ob: "obj ?s x = obj s x" for x using True c by (cases c) (simp add: smap_simps)
  have "binder_of ?s = binder_of s" by (intro ext) (simp only: binder_of_def ob)
  then have "maps_ok ?s" using maps_ok_cong [of ?s s] svc_invD(4) [OF inv] by simp
  then have "svc_inv ?s"
    using svc_invD [OF inv] unfolding svc_inv_def objs_ok_def sessions_ok_def ob by simp
  then show ?thesis using unregister_abandoned [OF c True] by blast
qed

lemma cm_BinderDiedCallback_ok:
  assumes it: "iter_ok e" and inv: "svc_inv s"
  shows "\<exists>s'. cm_BinderDiedCallback e True cookie s = Some s' \<and> svc_inv s'"
proof (cases "smap_find (sCookie2Client s) cookie")
  case (Some ptr)
  then have "ptr = cookie" "binder_of s ptr \<noteq> None"
    using svc_invD(4) [OF inv] by (auto simp: maps_ok_def)
  then obtain c where "obj s ptr = Some c" by (auto simp: binder_of_def split: option.splits)
  from unregister_ok [OF it inv this] Some show ?thesis by (auto simp: cm_BinderDiedCallback_def)
qed (simp add: cm_BinderDiedCallback_def inv)

section \<open>Every event\<close>

lemma svc_handle_ok:
  assumes it: "iter_ok e" and inv: "svc_inv s" and en: "enabled s ev"
  shows "\<exists>s'. svc_handle e ev s = Some s' \<and> svc_inv s'"
proof (cases ev)
  case (SSubmit pid u ptr req)
  then obtain c where "obj s ptr = Some c" "mNextSessionId c < 2 ^ 31 - 1"
    using en by (auto split: option.splits)
  from submitRequest_ok [OF it inv this] show ?thesis by (fastforce simp: SSubmit)
next
  case (SCancel ptr si)
  then obtain c where "obj s ptr = Some c" using en by auto
  from cancelSession_ok [OF it inv this] show ?thesis by (fastforce simp: SCancel)
next
  case (SAddUid pid u ptr si g)
  then obtain c where "obj s ptr = Some c" using en by auto
  from cm_addClientUid_ok [OF it inv this] show ?thesis by (fastforce simp: SAddUid)
next
  case (SUnregister ptr)
  then obtain c where "obj s ptr = Some c" using en by auto
  from unregister_ok [OF it inv this] show ?thesis by (fastforce simp: SUnregister)
next
  case (SCtrl cev)
  then show ?thesis using ctrl_call_ok [OF it inv, of cev] en by auto
qed (use registerClient_ok [OF inv] cm_BinderDiedCallback_ok [OF it inv] en in simp_all)

lemma svc_inv_init:
  assumes "MediaTranscodingService (TranscodingUidPolicy e l) rp tp sim bq tq = Some s"
  shows "svc_inv s"
proof -
  obtain c where c: "TranscodingSessionController (TranscodingUidPolicy e l) (Some rp) (Some tp)
      (Some (service_config sim bq tq)) = Some c"
    and s: "s = TranscodingClientManager (c\<lparr>mUidPolicy := up_setCallback (mUidPolicy c),
        mResourcePolicy := map_option rp_setCallback (mResourcePolicy c),
        mThermalPolicy := map_option tp_setCallback (mThermalPolicy c)\<rparr>)"
    using assms by (auto simp: MediaTranscodingService_def split: option.splits)
  have map: "mSessionMap c = []" and up: "mUidPolicy c = TranscodingUidPolicy e l"
    using c by (auto simp: TranscodingSessionController_def Let_def)
  have inv: "ctrl_inv c" by (rule ctrl_inv_init [OF c])
  have "ctrl_inv (c\<lparr>mUidPolicy := up_setCallback (mUidPolicy c)\<rparr>)"
    using up_inv_registration(3) [OF up_inv_init]
    by (intro uid_policy_change_ok [OF inv]) (simp_all add: up up_monitored_def up_setCallback_def)
  then have "base_inv (mSessionController s)"
    using base_inv_cong [of "mSessionController s" "c\<lparr>mUidPolicy := up_setCallback (mUidPolicy c)\<rparr>"]
    by (simp add: ctrl_inv_def s TranscodingClientManager_def)
  moreover have "mSessionMap (mSessionController s) = []" by (simp add: s map TranscodingClientManager_def)
  ultimately have "ctrl_inv (mSessionController s)" "clients (mSessionController s) k = None" for k
    by (simp_all add: ctrl_inv_def sched_inv_def st_def clients_def)
  then show ?thesis
    by (simp add: svc_inv_def objs_ok_def maps_ok_def sessions_ok_def binder_of_def s
        TranscodingClientManager_def ran_def)
qed

lemma svc_reachable_inv:
  assumes "iter_ok e"
  shows "svc_reachable e s \<Longrightarrow> svc_inv s"
proof (induction rule: svc_reachable.induct)
  case (svc_start l rp tp sim bq tq s)
  then show ?case by (rule svc_inv_init)
next
  case (svc_step s ev s')
  then show ?case using svc_handle_ok [OF assms, of s ev] by auto
qed

section \<open>Properties of the service\<close>

definition demo_service :: "service ub" where
  "demo_service =
     MediaTranscodingService (TranscodingUidPolicy sample_env True) (TranscodingResourcePolicy True True)
       (TranscodingThermalPolicy sample_env True 0 0) False (- 1) (- 1)"

definition svc_run :: "svc_event list \<Rightarrow> service ub" where
  "svc_run evs =
     (case demo_service of
        None \<Rightarrow> None
      | Some s \<Rightarrow> foldM (\<lambda>ev s. if enabled s ev then svc_handle sample_env ev s else None) evs s)"

abbreviation demo_req :: "int \<Rightarrow> int \<Rightarrow> request" where
  "demo_req cu cp \<equiv>
     \<lparr>sourceFilePath = ''in'', destinationFilePath = ''out'', clientUid = cu, clientPid = cp,
      clientPackageName = ''pkg'', req_priority = kNormal\<rparr>"

abbreviation demo_register :: svc_event where
  "demo_register \<equiv> SRegister 7 1000 (Some 3) ''name'' ''pkg''"

lemma foldM_svc_reachable:
  "svc_reachable e s \<Longrightarrow>
   foldM (\<lambda>ev s. if enabled s ev then svc_handle e ev s else None) evs s = Some s' \<Longrightarrow> svc_reachable e s'"
  by (induction evs arbitrary: s) (auto split: option.splits if_splits intro: svc_reachable.svc_step)

lemma svc_run_reachable: "svc_run evs = Some s \<Longrightarrow> svc_reachable sample_env s"
  unfolding svc_run_def demo_service_def
  by (auto split: option.splits intro: foldM_svc_reachable svc_reachable.svc_start)



text \<open>
  session ids are fresh: a request of a client that has not unregistered, with both paths, whose uid
  and pid pass the checks, is always accepted, under the client's next session id, which no session
  of the controller has.
\<close>

theorem submitRequest_fresh_id:
  assumes "iter_ok e" "svc_reachable e s" "obj s ptr = Some c" "\<not> mAbandoned c"
    and "mNextSessionId c < 2 ^ 31 - 1" "sourceFilePath req \<noteq> []" "destinationFilePath req \<noteq> []"
    and "checkId e pid u USE_CALLING_UID u (clientUid req) s = (IdOk cu, s1)"
    and "checkId e pid u USE_CALLING_PID pid (clientPid req) s1 = (IdOk cp, s2)"
  shows "\<exists>s'. submitRequest e True pid u ptr req s = Some (StatusOk, Some (mNextSessionId c), s')
    \<and> session_of (mSessionController s) (ptr, mNextSessionId c) = None"
proof -
  have inv: "svc_inv s" by (rule svc_reachable_inv [OF assms(1,2)])
  have "session_of (mSessionController s) (ptr, mNextSessionId c) = None"
  proof (rule ccontr)
    assume "session_of (mSessionController s) (ptr, mNextSessionId c) \<noteq> None"
    then have "clients (mSessionController s) (ptr, mNextSessionId c) \<noteq> None" by (simp add: clients_def)
    then show False using svc_invD(5) [OF inv] assms(3) unfolding sessions_ok_def by force
  qed
  moreover obtain s' where "submitRequest e True pid u ptr req s = Some (StatusOk, Some (mNextSessionId c), s')"
    by (rule submitRequest_accepted [OF assms(1) inv assms(3-9)])
  ultimately show ?thesis by blast
qed

theorem submitRequest_fresh_id_witness:
  "\<exists>s s'. svc_run [demo_register, SSubmit 7 1000 0 (demo_req 10 7)] = Some s \<and>
     submitRequest sample_env True 7 1000 0 (demo_req (- 1) (- 1)) s = Some (StatusOk, Some 1, s')"
proof -
  let ?r = "svc_run [demo_register, SSubmit 7 1000 0 (demo_req 10 7)]"
  have "(case ?r of None \<Rightarrow> False | Some s \<Rightarrow>
      (case obj s 0 of None \<Rightarrow> False | Some c \<Rightarrow> \<not> mAbandoned c \<and> mNextSessionId c = 1))" by code_simp
  then obtain s c where s: "?r = Some s" and c: "obj s 0 = Some c" "\<not> mAbandoned c" "mNextSessionId c = 1"
    by (auto split: option.splits)
  have "checkId sample_env 7 1000 USE_CALLING_UID 1000 (- 1) s = (IdOk 1000, s)"
    "checkId sample_env 7 1000 USE_CALLING_PID 7 (- 1) s = (IdOk 7, s)"
    by (simp_all add: checkId_def USE_CALLING_UID_def USE_CALLING_PID_def)
  then show ?thesis
    using submitRequest_fresh_id [OF iter_ok_sample svc_run_reachable [OF s] c(1,2), of "demo_req (- 1) (- 1)" 7 1000]
      s c(3) by simp
qed

text \<open>
  a caller that is not trusted cannot submit for another uid or pid, nor add another uid to a session:
  the call is denied and the sessions, the clients and the controller are unchanged.
\<close>

theorem untrusted_caller_denied:
  assumes "obj s ptr = Some c" "\<not> mAbandoned c"
    and "\<not> fst (isTrustedCaller e pid (word_of_int u) s)" "0 \<le> g" "g \<noteq> u"
  shows "(\<exists>s'. cm_addClientUid e True pid u ptr si g s =
             Some (if si < 0 then StatusOk else ServiceSpecificError ERROR_PERMISSION_DENIED, False, s')
           \<and> mSessionController s' = mSessionController s \<and> clientObjs s' = clientObjs s) \<and>
         (sourceFilePath req \<noteq> [] \<and> destinationFilePath req \<noteq> [] \<and> clientUid req = g \<longrightarrow>
           (\<exists>s'. submitRequest e True pid u ptr req s =
              Some (ServiceSpecificError ERROR_PERMISSION_DENIED, None, s')
            \<and> mSessionController s' = mSessionController s \<and> clientObjs s' = clientObjs s))"
  using assms
  by (auto simp: cm_addClientUid_def submitRequest_def checkId_def USE_CALLING_UID_def case_prod_beta)

theorem untrusted_caller_denied_witness:
  "\<exists>s s'. svc_run [demo_register] = Some s \<and>
     submitRequest sample_env True 7 5000 0 (demo_req 10 7) s
       = Some (ServiceSpecificError ERROR_PERMISSION_DENIED, None, s')
     \<and> mSessionController s' = mSessionController s"
proof -
  have "(case svc_run [demo_register] of None \<Rightarrow> False | Some s \<Rightarrow>
      (case obj s 0 of None \<Rightarrow> False | Some c \<Rightarrow> \<not> mAbandoned c)
      \<and> \<not> fst (isTrustedCaller sample_env 7 (word_of_int 5000) s))" by code_simp
  then obtain s c where s: "svc_run [demo_register] = Some s" and c: "obj s 0 = Some c" "\<not> mAbandoned c"
    and nt: "\<not> fst (isTrustedCaller sample_env 7 (word_of_int 5000) s)"
    by (auto split: option.splits)
  then show ?thesis
    using untrusted_caller_denied [OF c nt, of 10 0 "demo_req 10 7"] by auto
qed

text \<open>
  Unregistering a live client succeeds, ends its sessions except those kept for the offline
  uid, frees its callback for a new registration, and leaves the client disconnected: every
  further call on it returns \<open>ERROR_DISCONNECTED\<close>.
\<close>

theorem unregister_disconnects:
  assumes "iter_ok e" "svc_reachable e s" "obj s ptr = Some c" "\<not> mAbandoned c"
  shows "\<exists>s'. unregister e True ptr s = Some (StatusOk, s')
    \<and> (\<forall>si U. clients (mSessionController s') (ptr, si) = Some U \<longrightarrow> U = {OFFLINE_UID})
    \<and> mRegisteredCallbacks s' = mRegisteredCallbacks s - {mClientBinder c}
    \<and> (\<exists>s''. unregister e True ptr s' = Some (ServiceSpecificError ERROR_DISCONNECTED, s''))
    \<and> submitRequest e True pid u ptr req s' = Some (ServiceSpecificError ERROR_DISCONNECTED, None, s')
    \<and> cancelSession e True ptr i s' = Some (ServiceSpecificError ERROR_DISCONNECTED, False, s')"
proof -
  have inv: "svc_inv s" by (rule svc_reachable_inv [OF assms(1,2)])
  obtain d s' where s': "cancel e ptr (- 1) (mSessionController s) = Some (True, d)"
    "unregister e True ptr s = Some (StatusOk, s')" "svc_inv s'" "mSessionController s' = d"
    "binder_of s' = (binder_of s)(ptr := None)" "obj s' ptr = Some (c\<lparr>mAbandoned := True\<rparr>)"
    by (rule unregister_live [OF assms(1) inv assms(3,4)])
  obtain d' where d': "cancel e ptr (- 1) (mSessionController s) = Some (True, d')"
    "\<And>j. clients d' j = cancelled ptr (- 1) (clients (mSessionController s)) j \<or> clients d' j = None"
    using cancel_ok [OF assms(1) svc_invD(2) [OF inv], of "- 1" ptr] by (metis less_minus_one_simps(1))
  have "U = {OFFLINE_UID}" if "clients d (ptr, si) = Some U" for si U
    using d'(2) [of "(ptr, si)"] d'(1) s'(1) that by (auto simp: cancelled_def split: option.splits if_splits)
  moreover have "mRegisteredCallbacks s' = mRegisteredCallbacks s - {mClientBinder c}"
  proof -
    have b: "binder_of s ptr = Some (mClientBinder c)" using assms(3,4) by (simp add: binder_of_def)
    then have "ran ((binder_of s)(ptr := None)) = ran (binder_of s) - {mClientBinder c}"
      using svc_invD(4) [OF inv] by (intro ran_remove_inj) (simp_all add: maps_ok_def)
    then show ?thesis
      unfolding maps_ok_callbacks [OF svc_invD(4) [OF inv]] maps_ok_callbacks [OF svc_invD(4) [OF s'(3)]] s'(5) .
  qed
  ultimately show ?thesis
    using s' by (auto simp: submitRequest_def cancelSession_def unregister_def Let_def)
qed

theorem unregister_disconnects_witness:
  "\<exists>s c. svc_run [demo_register, SSubmit 7 1000 0 (demo_req 10 7)] = Some s \<and> obj s 0 = Some c \<and>
     (\<exists>s'. unregister sample_env True 0 s = Some (StatusOk, s')
    \<and> (\<forall>si U. clients (mSessionController s') (0, si) = Some U \<longrightarrow> U = {OFFLINE_UID})
    \<and> mRegisteredCallbacks s' = mRegisteredCallbacks s - {mClientBinder c}
    \<and> (\<exists>s''. unregister sample_env True 0 s' = Some (ServiceSpecificError ERROR_DISCONNECTED, s''))
    \<and> submitRequest sample_env True 7 1000 0 (demo_req 10 7) s' =
         Some (ServiceSpecificError ERROR_DISCONNECTED, None, s')
    \<and> cancelSession sample_env True 0 0 s' = Some (ServiceSpecificError ERROR_DISCONNECTED, False, s'))"
proof -
  let ?r = "svc_run [demo_register, SSubmit 7 1000 0 (demo_req 10 7)]"
  have "(case ?r of None \<Rightarrow> False | Some s \<Rightarrow>
      (case obj s 0 of None \<Rightarrow> False | Some c \<Rightarrow> \<not> mAbandoned c))" by code_simp
  then obtain s c where s: "?r = Some s" and c: "obj s 0 = Some c" "\<not> mAbandoned c"
    by (auto split: option.splits)
  show ?thesis
    by (rule exI [of _ s], rule exI [of _ c], rule conjI [OF s], rule conjI [OF c(1)],
      rule unregister_disconnects [OF iter_ok_sample svc_run_reachable [OF s] c])
qed


end
