(* ===== verification/Bit_Reader.thy ===== *)
theory Bit_Reader
  imports Prelude
begin

unbundle bit_operations_syntax

text \<open>
  \<^verbatim>\<open>ABitReader\<close> and \<^verbatim>\<open>NALBitReader\<close> of the foundation library: reading a byte buffer bit by bit
  through a 32-bit reservoir, the second one skipping emulation prevention bytes.

  The buffer is the list \<open>mBuffer\<close> and \<open>mData\<close> an index into it. Reading outside the buffer and
  shifting a 32-bit value by 32 are undefined behaviour (\<open>None\<close>). The virtual function
  \<open>fillReservoir\<close> is an argument of the functions of the base class; the locale
  \<open>bit_source\<close> states what they rely on, and both readers interpret it. The abstraction of a
  reader is the list of the bits still to be read.
\<close>

section \<open>Shifts and bits\<close>

definition shl32 :: "u32 \<Rightarrow> nat \<Rightarrow> u32 ub" where
  "shl32 x k = (if k < 32 then Some (push_bit k x) else None)"

definition shr32 :: "u32 \<Rightarrow> nat \<Rightarrow> u32 ub" where
  "shr32 x k = (if k < 32 then Some (drop_bit k x) else None)"

text \<open>The value of a list of bits, the most significant one first.\<close>

definition bits_val :: "bool list \<Rightarrow> u32" where
  "bits_val bs = horner_sum of_bool 2 (rev bs)"

text \<open>The first \<open>n\<close> bits of a left-aligned 32-bit value, and the bits of a byte.\<close>

definition res_bits :: "u32 \<Rightarrow> nat \<Rightarrow> bool list" where
  "res_bits w n = map (\<lambda>i. bit w (31 - i)) [0..<n]"

definition byte_bits :: "u8 \<Rightarrow> bool list" where
  "byte_bits b = map (\<lambda>i. bit b (7 - i)) [0..<8]"

lemma length_res_bits [simp]: "length (res_bits w n) = n"
  by (simp add: res_bits_def)

lemma length_byte_bits [simp]: "length (byte_bits b) = 8"
  by (simp add: byte_bits_def)

lemma bit_bits_val: "bit (bits_val bs) i \<longleftrightarrow> i < 32 \<and> i < length bs \<and> bs ! (length bs - Suc i)"
  by (auto simp: bits_val_def bit_horner_sum_bit_word_iff rev_nth)

lemma bits_val_Nil [simp]: "bits_val [] = 0"
  by (simp add: bits_val_def)

text \<open>Appending the first bits of the reservoir to a value.\<close>

lemma bits_val_append_res:
  assumes "m \<le> 32"
  shows "push_bit m (bits_val xs) OR drop_bit (32 - m) w = bits_val (xs @ res_bits w m)"
proof (rule bit_word_eqI)
  fix i assume i: "i < LENGTH(32)"
  show "bit (push_bit m (bits_val xs) OR drop_bit (32 - m) w) i = bit (bits_val (xs @ res_bits w m)) i"
  proof (cases "i < m")
    case True
    then have "31 - (m - Suc i) = 32 - m + i" using assms by simp
    then show ?thesis
      using True i assms
      by (auto simp: bit_or_iff bit_push_bit_iff bit_drop_bit_eq bit_bits_val nth_append res_bits_def)
  next
    case False
    have "\<not> bit w (32 - m + i)" using False assms by (intro notI) (auto dest: bit_imp_le_length)
    then show ?thesis
      using False i
      by (auto simp: bit_or_iff bit_push_bit_iff bit_drop_bit_eq bit_bits_val nth_append)
  qed
qed

lemma res_bits_shift:
  "m \<le> n \<Longrightarrow> n \<le> 32 \<Longrightarrow> res_bits (push_bit m w) (n - m) = drop m (res_bits w n)"
  by (rule nth_equalityI) (auto simp: res_bits_def bit_push_bit_iff add.commute)

lemma take_res_bits: "m \<le> n \<Longrightarrow> take m (res_bits w n) = res_bits w m"
  by (simp add: res_bits_def take_map)

section \<open>\<^verbatim>\<open>ABitReader\<close>\<close>

record bit_reader =
  mBuffer :: "u8 list"
  mData :: nat
  mSize :: nat
  mReservoir :: u32
  mNumBitsLeft :: nat
  mOverRead :: bool

definition ABitReader :: "u8 list \<Rightarrow> bit_reader" where
  "ABitReader data =
     \<lparr>mBuffer = data, mData = 0, mSize = length data, mReservoir = 0, mNumBitsLeft = 0,
      mOverRead = False\<rparr>"

text \<open>\<open>*mData\<close>.\<close>

definition peek :: "'a bit_reader_scheme \<Rightarrow> u8 ub" where
  "peek r = (if mData r < length (mBuffer r) then Some (mBuffer r ! mData r) else None)"

definition advance :: "'a bit_reader_scheme \<Rightarrow> 'a bit_reader_scheme" where
  "advance r = r\<lparr>mData := Suc (mData r), mSize := mSize r - 1\<rparr>"

lemma advance_simps [simp]:
  "mBuffer (advance r) = mBuffer r" "mData (advance r) = Suc (mData r)" "mSize (advance r) = mSize r - 1"
  "mReservoir (advance r) = mReservoir r" "mNumBitsLeft (advance r) = mNumBitsLeft r"
  "mOverRead (advance r) = mOverRead r"
  by (simp_all add: advance_def)

definition shiftIn :: "u8 \<Rightarrow> 'a bit_reader_scheme \<Rightarrow> 'a bit_reader_scheme" where
  "shiftIn b r = r\<lparr>mReservoir := push_bit 8 (mReservoir r) OR ucast b\<rparr>"

lemma shiftIn_simps [simp]:
  "mBuffer (shiftIn b r) = mBuffer r" "mData (shiftIn b r) = mData r" "mSize (shiftIn b r) = mSize r"
  "mNumBitsLeft (shiftIn b r) = mNumBitsLeft r" "mOverRead (shiftIn b r) = mOverRead r"
  "mReservoir (shiftIn b r) = push_bit 8 (mReservoir r) OR ucast b"
  by (simp_all add: shiftIn_def)

function fillLoop :: "nat \<Rightarrow> bit_reader \<Rightarrow> (nat \<times> bit_reader) ub" where
  "fillLoop i r =
     (if mSize r > 0 \<and> i < 4
      then (case peek r of
              None \<Rightarrow> None
            | Some b \<Rightarrow> fillLoop (Suc i) (advance (shiftIn b r)))
      else Some (i, r))"
  by pat_completeness auto
termination by (relation "measure (\<lambda>(i, r). mSize r)") auto

declare fillLoop.simps [simp del]

text \<open>The end of both versions of \<^verbatim>\<open>fillReservoir\<close>: the bits are left-aligned.\<close>

definition alignReservoir :: "nat \<Rightarrow> 'a bit_reader_scheme \<Rightarrow> (bool \<times> 'a bit_reader_scheme) ub" where
  "alignReservoir i r =
     (let r = r\<lparr>mNumBitsLeft := 8 * i\<rparr>
      in case shl32 (mReservoir r) (32 - mNumBitsLeft r) of
           None \<Rightarrow> None
         | Some w \<Rightarrow> Some (True, r\<lparr>mReservoir := w\<rparr>))"

definition fillReservoir :: "bit_reader \<Rightarrow> (bool \<times> bit_reader) ub" where
  "fillReservoir r =
     (if mSize r = 0 then Some (False, r\<lparr>mOverRead := True\<rparr>)
      else case fillLoop 0 (r\<lparr>mReservoir := 0\<rparr>) of
        None \<Rightarrow> None
      | Some (i, r) \<Rightarrow> alignReservoir i r)"

function getBitsLoop ::
    "('a bit_reader_scheme \<Rightarrow> (bool \<times> 'a bit_reader_scheme) ub) \<Rightarrow> nat \<Rightarrow> u32
     \<Rightarrow> 'a bit_reader_scheme \<Rightarrow> (u32 option \<times> 'a bit_reader_scheme) ub" where
  "getBitsLoop fill n result r =
     (if n = 0 then Some (Some result, r)
      else case (if mNumBitsLeft r = 0 then fill r else Some (True, r)) of
        None \<Rightarrow> None
      | Some (filled, r) \<Rightarrow>
          if \<not> filled then Some (None, r)
          else
            let m = min n (mNumBitsLeft r) in
            (case shl32 result m of
               None \<Rightarrow> None
             | Some high \<Rightarrow>
                 (case shr32 (mReservoir r) (32 - m) of
                    None \<Rightarrow> None
                  | Some low \<Rightarrow>
                      (case shl32 (mReservoir r) m of
                         None \<Rightarrow> None
                       | Some w \<Rightarrow>
                           getBitsLoop fill (n - m) (high OR low)
                             (r\<lparr>mReservoir := w, mNumBitsLeft := mNumBitsLeft r - m\<rparr>)))))"
  by pat_completeness auto
termination
  by (relation "measure (\<lambda>(fill, n, result, r). n)")
    (auto simp: shr32_def split: if_splits)

declare getBitsLoop.simps [simp del]

text \<open>\<open>None\<close> inside the result: the call returned \<open>false\<close>.\<close>

definition getBitsGraceful ::
    "('a bit_reader_scheme \<Rightarrow> (bool \<times> 'a bit_reader_scheme) ub) \<Rightarrow> nat \<Rightarrow> 'a bit_reader_scheme
     \<Rightarrow> (u32 option \<times> 'a bit_reader_scheme) ub" where
  "getBitsGraceful fill n r = (if n > 32 then Some (None, r) else getBitsLoop fill n 0 r)"

text \<open>\<open>CHECK\<close> aborts the process: the outer option again.\<close>

definition getBits ::
    "('a bit_reader_scheme \<Rightarrow> (bool \<times> 'a bit_reader_scheme) ub) \<Rightarrow> nat \<Rightarrow> 'a bit_reader_scheme
     \<Rightarrow> (u32 \<times> 'a bit_reader_scheme) ub" where
  "getBits fill n r =
     (case getBitsGraceful fill n r of Some (Some x, r) \<Rightarrow> Some (x, r) | _ \<Rightarrow> None)"

definition getBitsWithFallback ::
    "('a bit_reader_scheme \<Rightarrow> (bool \<times> 'a bit_reader_scheme) ub) \<Rightarrow> nat \<Rightarrow> u32 \<Rightarrow> 'a bit_reader_scheme
     \<Rightarrow> (u32 \<times> 'a bit_reader_scheme) ub" where
  "getBitsWithFallback fill n fallback r =
     (case getBitsGraceful fill n r of
        None \<Rightarrow> None
      | Some (x, r) \<Rightarrow> Some ((case x of None \<Rightarrow> fallback | Some x \<Rightarrow> x), r))"

function skipBits ::
    "('a bit_reader_scheme \<Rightarrow> (bool \<times> 'a bit_reader_scheme) ub) \<Rightarrow> nat \<Rightarrow> 'a bit_reader_scheme
     \<Rightarrow> (bool \<times> 'a bit_reader_scheme) ub" where
  "skipBits fill n r =
     (if n > 32 then
        (case getBitsGraceful fill 32 r of
           None \<Rightarrow> None
         | Some (None, r) \<Rightarrow> Some (False, r)
         | Some (Some _, r) \<Rightarrow> skipBits fill (n - 32) r)
      else if n > 0 then
        (case getBitsGraceful fill n r of
           None \<Rightarrow> None
         | Some (x, r) \<Rightarrow> Some (x \<noteq> None, r))
      else Some (True, r))"
  by pat_completeness auto
termination by (relation "measure (\<lambda>(fill, n, r). n)") auto

declare skipBits.simps [simp del]

text \<open>
  Putting bits back: \<open>size_t\<close> arithmetic wraps around; the pointer moved before the buffer is
  undefined.
\<close>

function rewindLoop :: "nat \<Rightarrow> 'a bit_reader_scheme \<Rightarrow> ('a bit_reader_scheme) ub" where
  "rewindLoop n r =
     (if (mNumBitsLeft r + n) mod 2 ^ 64 > 32 then
        if mData r = 0 then None
        else rewindLoop n (r\<lparr>mNumBitsLeft := (mNumBitsLeft r + 2 ^ 64 - 8) mod 2 ^ 64,
                              mData := mData r - 1, mSize := Suc (mSize r)\<rparr>)
      else Some r)"
  by pat_completeness auto
termination by (relation "measure (\<lambda>(n, r). mData r)") auto

declare rewindLoop.simps [simp del]

definition putBits :: "u32 \<Rightarrow> nat \<Rightarrow> 'a bit_reader_scheme \<Rightarrow> ('a bit_reader_scheme) ub" where
  "putBits x n r =
     (if mOverRead r then Some r
      else if n > 32 then None
      else case rewindLoop n r of
        None \<Rightarrow> None
      | Some r \<Rightarrow>
          (case shr32 (mReservoir r) n of
             None \<Rightarrow> None
           | Some low \<Rightarrow>
               (case shl32 x (32 - n) of
                  None \<Rightarrow> None
                | Some high \<Rightarrow>
                    Some (r\<lparr>mReservoir := low OR high,
                            mNumBitsLeft := (mNumBitsLeft r + n) mod 2 ^ 64\<rparr>))))"

definition numBitsLeft :: "'a bit_reader_scheme \<Rightarrow> nat" where
  "numBitsLeft r = mSize r * 8 + mNumBitsLeft r"

definition dataIndex :: "'a bit_reader_scheme \<Rightarrow> int" where
  "dataIndex r = int (mData r) - int ((mNumBitsLeft r + 7) div 8)"

section \<open>\<^verbatim>\<open>NALBitReader\<close>\<close>

record nal_reader = bit_reader +
  mNumZeros :: int

definition NALBitReader :: "u8 list \<Rightarrow> nal_reader" where
  "NALBitReader data = bit_reader.extend (ABitReader data) \<lparr>mNumZeros = 0\<rparr>"

definition countZeros :: "u8 \<Rightarrow> int \<Rightarrow> int" where
  "countZeros b zeros = (if b = 0 then zeros + 1 else 0)"

function nalFillLoop :: "nat \<Rightarrow> nal_reader \<Rightarrow> (nat \<times> nal_reader) ub" where
  "nalFillLoop i r =
     (if mSize r > 0 \<and> i < 4
      then (case peek r of
              None \<Rightarrow> None
            | Some b \<Rightarrow>
                let isEmulationPreventionByte = (mNumZeros r \<ge> 2 \<and> b = 3);
                    r = r\<lparr>mNumZeros := countZeros b (mNumZeros r)\<rparr>
                in if isEmulationPreventionByte then nalFillLoop i (advance r)
                   else nalFillLoop (Suc i) (advance (shiftIn b r)))
      else Some (i, r))"
  by pat_completeness auto
termination by (relation "measure (\<lambda>(i, r). mSize r)") (auto simp: Let_def)

declare nalFillLoop.simps [simp del]

definition nalFillReservoir :: "nal_reader \<Rightarrow> (bool \<times> nal_reader) ub" where
  "nalFillReservoir r =
     (if mSize r = 0 then Some (False, r\<lparr>mOverRead := True\<rparr>)
      else case nalFillLoop 0 (r\<lparr>mReservoir := 0\<rparr>) of
        None \<Rightarrow> None
      | Some (i, r) \<Rightarrow> alignReservoir i r)"

text \<open>The loop of \<^verbatim>\<open>atLeastNumBitsLeft\<close> over the bytes still in the buffer.\<close>

fun countBitsLoop :: "int \<Rightarrow> int \<Rightarrow> u8 list \<Rightarrow> int" where
  "countBitsLoop remaining zeros [] = remaining"
| "countBitsLoop remaining zeros (b # bs) =
     (if remaining > 0
      then countBitsLoop (if zeros \<ge> 2 \<and> b = 3 then remaining else remaining - 8) (countZeros b zeros) bs
      else remaining)"

definition atLeastNumBitsLeft :: "nat \<Rightarrow> nal_reader \<Rightarrow> bool" where
  "atLeastNumBitsLeft n r \<longleftrightarrow>
     n \<le> numBitsLeft r \<and>
     countBitsLoop (int n - int (mNumBitsLeft r)) (mNumZeros r) (take (mSize r) (drop (mData r) (mBuffer r))) \<le> 0"

section \<open>What the base class relies on\<close>

definition bytes_bits :: "u8 list \<Rightarrow> bool list" where
  "bytes_bits bs = concat (map byte_bits bs)"

lemma bytes_bits_simps [simp]:
  "bytes_bits [] = []" "bytes_bits (b # bs) = byte_bits b @ bytes_bits bs"
  "bytes_bits (xs @ ys) = bytes_bits xs @ bytes_bits ys" "length (bytes_bits bs) = 8 * length bs"
  by (simp_all add: bytes_bits_def) (induction bs, simp_all)

lemma bytes_bits_split: "bytes_bits (take k bs) @ bytes_bits (drop k bs) = bytes_bits bs"
  by (metis append_take_drop_id bytes_bits_simps(3))

text \<open>The bits still to be read: those of the reservoir, then those of the bytes not loaded yet.\<close>

definition bits_left :: "('a bit_reader_scheme \<Rightarrow> u8 list) \<Rightarrow> 'a bit_reader_scheme \<Rightarrow> bool list" where
  "bits_left rest r = res_bits (mReservoir r) (mNumBitsLeft r) @ bytes_bits (rest r)"

locale bit_source =
  fixes fill :: "'a bit_reader_scheme \<Rightarrow> (bool \<times> 'a bit_reader_scheme) ub"
    and rest :: "'a bit_reader_scheme \<Rightarrow> u8 list"
    and ok :: "'a bit_reader_scheme \<Rightarrow> bool"
  assumes fill_end: "ok r \<Longrightarrow> mNumBitsLeft r = 0 \<Longrightarrow> rest r = [] \<Longrightarrow>
      \<exists>r'. fill r = Some (False, r') \<and> ok r' \<and> rest r' = [] \<and> mNumBitsLeft r' = 0 \<and> mOverRead r'"
    and fill_some: "ok r \<Longrightarrow> mNumBitsLeft r = 0 \<Longrightarrow> rest r \<noteq> [] \<Longrightarrow>
      \<exists>r'. fill r = Some (True, r') \<and> ok r' \<and> mNumBitsLeft r' = 8 * min 4 (length (rest r))
         \<and> rest r' = drop 4 (rest r) \<and> mOverRead r' = mOverRead r
         \<and> res_bits (mReservoir r') (mNumBitsLeft r') = bytes_bits (take 4 (rest r))"
    and ok_take: "ok r \<Longrightarrow> m \<le> mNumBitsLeft r \<Longrightarrow>
      ok (r\<lparr>mReservoir := w, mNumBitsLeft := mNumBitsLeft r - m\<rparr>)
      \<and> rest (r\<lparr>mReservoir := w, mNumBitsLeft := mNumBitsLeft r - m\<rparr>) = rest r"
    and ok_limit: "ok r \<Longrightarrow> mNumBitsLeft r \<le> 32"
begin

abbreviation bits :: "'a bit_reader_scheme \<Rightarrow> bool list" where
  "bits \<equiv> bits_left rest"

lemmas bits_def = bits_left_def [of rest]

lemma refill:
  assumes "ok r" "bits r \<noteq> []"
  obtains r1 where "(if mNumBitsLeft r = 0 then fill r else Some (True, r)) = Some (True, r1)"
    "ok r1" "0 < mNumBitsLeft r1" "bits r1 = bits r" "mOverRead r1 = mOverRead r"
proof (cases "mNumBitsLeft r = 0")
  case True
  then have ne: "rest r \<noteq> []" using assms(2) by (auto simp: bits_def res_bits_def)
  obtain r1 where r1: "fill r = Some (True, r1)" "ok r1" "mNumBitsLeft r1 = 8 * min 4 (length (rest r))"
    "rest r1 = drop 4 (rest r)" "mOverRead r1 = mOverRead r"
    "res_bits (mReservoir r1) (mNumBitsLeft r1) = bytes_bits (take 4 (rest r))"
    using fill_some [OF assms(1) True ne] by blast
  have "bits r1 = bits r"
    unfolding bits_def r1(4,6) using True bytes_bits_split by (simp add: res_bits_def)
  then show thesis using that r1 True ne by simp
next
  case False
  then show thesis using that assms by simp
qed

lemma getBitsLoop_spec:
  "ok r \<Longrightarrow> n < 32 \<Longrightarrow>
   (if n \<le> length (bits r)
    then \<exists>r'. getBitsLoop fill n (bits_val xs) r = Some (Some (bits_val (xs @ take n (bits r))), r')
            \<and> ok r' \<and> bits r' = drop n (bits r) \<and> mOverRead r' = mOverRead r
    else \<exists>r'. getBitsLoop fill n (bits_val xs) r = Some (None, r') \<and> ok r' \<and> bits r' = [] \<and> mOverRead r')"
proof (induction n arbitrary: xs r rule: less_induct)
  case (less n)
  note okr = less.prems(1)
  consider "n = 0" | "0 < n" "bits r = []" | "0 < n" "bits r \<noteq> []" by blast
  then show ?case
  proof cases
    case 1
    then show ?thesis using okr by (simp add: getBitsLoop.simps)
  next
    case 2
    then have "mNumBitsLeft r = 0" "rest r = []"
      by (auto simp: bits_def res_bits_def) (metis bytes_bits_simps(4) length_0_conv mult_is_0 zero_neq_numeral list.size(3))
    then obtain r' where "fill r = Some (False, r')" "ok r'" "rest r' = []" "mNumBitsLeft r' = 0" "mOverRead r'"
      using fill_end [OF okr] by blast
    then show ?thesis
      using 2 \<open>mNumBitsLeft r = 0\<close> by (simp add: getBitsLoop.simps bits_def res_bits_def)
  next
    case 3
    obtain r1 where r1: "(if mNumBitsLeft r = 0 then fill r else Some (True, r)) = Some (True, r1)"
      "ok r1" "0 < mNumBitsLeft r1" "bits r1 = bits r" "mOverRead r1 = mOverRead r"
      using refill [OF okr 3(2)] by blast
    define m where "m = min n (mNumBitsLeft r1)"
    have m: "0 < m" "m \<le> n" "m \<le> mNumBitsLeft r1" "m < 32" "m \<le> 32"
      using 3(1) r1(3) less.prems(2) by (auto simp: m_def)
    let ?w = "push_bit m (mReservoir r1)"
    let ?r2 = "r1\<lparr>mReservoir := ?w, mNumBitsLeft := mNumBitsLeft r1 - m\<rparr>"
    note lim = ok_limit [OF r1(2)]
    have r2: "ok ?r2" "rest ?r2 = rest r1" using ok_take [OF r1(2) m(3)] by blast+
    have "bits ?r2 = drop m (bits r1)" "res_bits (mReservoir r1) m = take m (bits r1)" "m \<le> length (bits r1)"
      unfolding bits_def r2(2) using res_bits_shift [OF m(3) lim] take_res_bits [OF m(3)] m(3) by simp_all
    note b2 = this(1) [unfolded r1(4)] and tk = this(2) [unfolded r1(4)] and len = this(3) [unfolded r1(4)]
    let ?xs = "xs @ take m (bits r)"
    have step: "getBitsLoop fill n (bits_val xs) r = getBitsLoop fill (n - m) (bits_val ?xs) ?r2"
      using 3(1) r1(1) m bits_val_append_res [OF m(5), of xs "mReservoir r1"]
      by (subst getBitsLoop.simps) (simp add: m_def [symmetric] shl32_def shr32_def tk)
    have tkn: "take m (bits r) @ take (n - m) (drop m (bits r)) = take n (bits r)"
      using m(2) by (metis le_add_diff_inverse take_add)
    have drn: "drop (n - m) (drop m (bits r)) = drop n (bits r)" using m(2) by simp
    have "n - m < n" "n - m < 32" using m less.prems(2) by simp_all
    note ih = less.IH [OF this(1) r2(1) this(2), of ?xs, unfolded b2 append_assoc tkn drn]
    have "n - m \<le> length (drop m (bits r)) \<longleftrightarrow> n \<le> length (bits r)" "mOverRead ?r2 = mOverRead r"
      using m(2) len r1(5) by auto
    then show ?thesis using ih unfolding step by (simp only:)
  qed
qed

lemma getBitsGraceful_spec:
  assumes "ok r" "n < 32"
  shows "if n \<le> length (bits r)
    then \<exists>r'. getBitsGraceful fill n r = Some (Some (bits_val (take n (bits r))), r')
            \<and> ok r' \<and> bits r' = drop n (bits r) \<and> mOverRead r' = mOverRead r
    else \<exists>r'. getBitsGraceful fill n r = Some (None, r') \<and> ok r' \<and> bits r' = [] \<and> mOverRead r'"
  using getBitsLoop_spec [OF assms, of "[]"] assms(2) unfolding append_Nil bits_val_Nil
  by (simp add: getBitsGraceful_def split: if_splits)

lemma getBits_spec:
  assumes "ok r" "n < 32" "n \<le> length (bits r)"
  obtains r' where "getBits fill n r = Some (bits_val (take n (bits r)), r')" "ok r'" "bits r' = drop n (bits r)"
  using getBitsGraceful_spec [OF assms(1,2)] assms(3) by (auto simp: getBits_def)

end

section \<open>Filling the reservoir\<close>

definition accumulate :: "u8 list \<Rightarrow> u32 \<Rightarrow> u32" where
  "accumulate bs w = fold (\<lambda>b w. push_bit 8 w OR ucast b) bs w"

lemma bits_val_append_byte: "push_bit 8 (bits_val xs) OR ucast (b :: u8) = bits_val (xs @ byte_bits b)"
proof (rule bit_word_eqI)
  fix i assume "i < LENGTH(32)"
  moreover have "bit b i \<Longrightarrow> i < 8" using bit_imp_le_length [of b i] by simp
  moreover have "i < 8 \<Longrightarrow> 7 - (7 - i) = i" by simp
  ultimately show "bit (push_bit 8 (bits_val xs) OR ucast b) i = bit (bits_val (xs @ byte_bits b)) i"
    by (auto simp: bit_or_iff bit_push_bit_iff bit_ucast_iff bit_bits_val nth_append byte_bits_def)
qed

lemma accumulate_bits: "accumulate bs 0 = bits_val (bytes_bits bs)"
  by (induction bs rule: rev_induct) (simp_all add: accumulate_def bits_val_append_byte)

lemma res_bits_aligned:
  assumes "length bs = n" "n \<le> 32"
  shows "res_bits (push_bit (32 - n) (bits_val bs)) n = bs"
  by (rule nth_equalityI) (use assms in \<open>auto simp: res_bits_def bit_push_bit_iff bit_bits_val\<close>)

lemma alignReservoir_bits:
  assumes "mReservoir r = bits_val (bytes_bits bs)" "length bs = i" "0 < i" "i \<le> 4"
  shows "\<exists>w. alignReservoir i r = Some (True, r\<lparr>mNumBitsLeft := 8 * i, mReservoir := w\<rparr>)
     \<and> res_bits w (8 * i) = bytes_bits bs"
  using assms res_bits_aligned [of "bytes_bits bs" "8 * i"]
  by (auto simp: alignReservoir_def shl32_def)

definition raw :: "'a bit_reader_scheme \<Rightarrow> u8 list" where
  "raw r = take (mSize r) (drop (mData r) (mBuffer r))"

text \<open>The reader's window lies in its buffer \<open>B\<close> and ends at \<open>e\<close>.\<close>

definition window :: "u8 list \<Rightarrow> nat \<Rightarrow> 'a bit_reader_scheme \<Rightarrow> bool" where
  "window B e r \<longleftrightarrow> mBuffer r = B \<and> mData r + mSize r = e \<and> e \<le> length B \<and> mNumBitsLeft r \<le> 32"

lemma raw_eq: "window B e r \<Longrightarrow> raw r = drop (mData r) (take e B)"
  by (auto simp: window_def raw_def take_drop add.commute)

lemma raw_advance:
  assumes "window B e r" "0 < mSize r"
  obtains b where "peek r = Some b" "raw r = b # raw (advance r)" "window B e (advance r)"
proof -
  have "mData r < length (mBuffer r)" using assms by (auto simp: window_def)
  moreover have "raw r = mBuffer r ! mData r # raw (advance r)"
    using assms Cons_nth_drop_Suc [OF calculation]
    by (cases "mSize r") (auto simp: raw_def dest: sym)
  ultimately show thesis using that assms by (auto simp: peek_def window_def)
qed

lemma window_shiftIn [simp]: "window B e (shiftIn b r) = window B e r" "raw (shiftIn b r) = raw r"
  by (simp_all add: window_def raw_def)

lemma advance_shiftIn: "advance (shiftIn b r) = shiftIn b (advance r)"
  by (simp add: advance_def shiftIn_def)

lemma window_length: "window B e r \<Longrightarrow> length (raw r) = mSize r"
  by (auto simp: window_def raw_def)

lemma fillLoop_spec:
  "window B e r \<Longrightarrow> i \<le> 4 \<Longrightarrow>
   \<exists>r'. fillLoop i r = Some (i + length (take (4 - i) (raw r)), r') \<and> window B e r' \<and> raw r' = drop (4 - i) (raw r)
     \<and> mReservoir r' = accumulate (take (4 - i) (raw r)) (mReservoir r)
     \<and> mOverRead r' = mOverRead r \<and> mNumBitsLeft r' = mNumBitsLeft r"
proof (induction i r rule: fillLoop.induct)
  case (1 i r)
  show ?case
  proof (cases "0 < mSize r \<and> i < 4")
    case True
    obtain b where b: "peek r = Some b" "raw r = b # raw (advance r)" "window B e (advance r)"
      using raw_advance [OF 1(2)] True by blast
    obtain k where k: "4 - i = Suc k" "4 - Suc i = k" using True by (cases "4 - i") auto
    show ?thesis
      using 1(1) [OF True b(1)] True b k
      by (subst fillLoop.simps) (simp add: advance_shiftIn accumulate_def)
  next
    case False
    then have "take (4 - i) (raw r) = []" "drop (4 - i) (raw r) = raw r"
      using window_length [OF 1(2)] 1(3) by auto
    moreover have "fillLoop i r = Some (i, r)" using False by (subst fillLoop.simps) auto
    ultimately show ?thesis using 1(2) by (auto simp: accumulate_def)
  qed
qed

lemma window_drop [simp]: "window B e (r\<lparr>mReservoir := w\<rparr>) = window B e r" "raw (r\<lparr>mReservoir := w\<rparr>) = raw r"
  "window B e (r\<lparr>mOverRead := q\<rparr>) = window B e r" "raw (r\<lparr>mOverRead := q\<rparr>) = raw r"
  "raw (r\<lparr>mNumBitsLeft := k\<rparr>) = raw r"
  "window B e (r\<lparr>mNumBitsLeft := k\<rparr>) \<longleftrightarrow> window B e (r\<lparr>mNumBitsLeft := 0\<rparr>) \<and> k \<le> 32"
  by (auto simp: window_def raw_def)

interpretation ab: bit_source fillReservoir raw "window B e" for B e
proof
  fix r :: bit_reader and w :: u32 and m :: nat
  assume w: "window B e r"
  note len = window_length [OF w]
  show "mNumBitsLeft r \<le> 32" using w by (simp add: window_def)
  show "window B e (r\<lparr>mReservoir := w, mNumBitsLeft := mNumBitsLeft r - m\<rparr>)
      \<and> raw (r\<lparr>mReservoir := w, mNumBitsLeft := mNumBitsLeft r - m\<rparr>) = raw r"
    using w by (auto simp: window_def raw_def)
  assume z: "mNumBitsLeft r = 0"
  show "raw r = [] \<Longrightarrow> \<exists>r'. fillReservoir r = Some (False, r') \<and> window B e r' \<and> raw r' = [] \<and> mNumBitsLeft r' = 0 \<and> mOverRead r'"
    using w len z by (simp add: fillReservoir_def)
  assume ne: "raw r \<noteq> []"
  obtain r1 where r1: "fillLoop 0 (r\<lparr>mReservoir := 0\<rparr>) = Some (length (take 4 (raw r)), r1)" "window B e r1"
    "raw r1 = drop 4 (raw r)" "mReservoir r1 = accumulate (take 4 (raw r)) 0" "mOverRead r1 = mOverRead r"
    using fillLoop_spec [of B e "r\<lparr>mReservoir := 0\<rparr>" 0] w by auto
  obtain w where "alignReservoir (length (take 4 (raw r))) r1 =
      Some (True, r1\<lparr>mNumBitsLeft := 8 * length (take 4 (raw r)), mReservoir := w\<rparr>)"
    "res_bits w (8 * length (take 4 (raw r))) = bytes_bits (take 4 (raw r))"
    using alignReservoir_bits [of r1 "take 4 (raw r)"] r1(4) ne by (auto simp: accumulate_bits)
  then show "\<exists>r'. fillReservoir r = Some (True, r') \<and> window B e r' \<and> mNumBitsLeft r' = 8 * min 4 (length (raw r))
         \<and> raw r' = drop 4 (raw r) \<and> mOverRead r' = mOverRead r
         \<and> res_bits (mReservoir r') (mNumBitsLeft r') = bytes_bits (take 4 (raw r))"
    using r1 ne len [symmetric] by (auto simp: fillReservoir_def min.commute window_def)
qed

text \<open>The bytes of a NAL unit without its emulation prevention bytes, after \<open>zeros\<close> zero bytes.\<close>

fun unescape :: "int \<Rightarrow> u8 list \<Rightarrow> u8 list" where
  "unescape zeros [] = []"
| "unescape zeros (b # bs) =
     (if zeros \<ge> 2 \<and> b = 3 then unescape 0 bs else b # unescape (countZeros b zeros) bs)"

text \<open>The last byte is not an emulation prevention byte.\<close>

fun payload_ends :: "int \<Rightarrow> u8 list \<Rightarrow> bool" where
  "payload_ends zeros [] \<longleftrightarrow> True"
| "payload_ends zeros (b # bs) \<longleftrightarrow>
     (if zeros \<ge> 2 \<and> b = 3 then bs \<noteq> [] \<and> payload_ends 0 bs else payload_ends (countZeros b zeros) bs)"

definition nal_rest :: "nal_reader \<Rightarrow> u8 list" where
  "nal_rest r = unescape (mNumZeros r) (raw r)"

definition nal_ok :: "u8 list \<Rightarrow> nat \<Rightarrow> nal_reader \<Rightarrow> bool" where
  "nal_ok B e r \<longleftrightarrow> window B e r \<and> payload_ends (mNumZeros r) (raw r)"

lemma unescape_empty: "payload_ends z bs \<Longrightarrow> unescape z bs = [] \<longleftrightarrow> bs = []"
  by (cases bs) (auto simp: neq_Nil_conv)

lemma nalFillLoop_spec:
  "nal_ok B e r \<Longrightarrow> i \<le> 4 \<Longrightarrow>
   \<exists>r'. nalFillLoop i r = Some (i + length (take (4 - i) (nal_rest r)), r') \<and> nal_ok B e r'
     \<and> nal_rest r' = drop (4 - i) (nal_rest r)
     \<and> mReservoir r' = accumulate (take (4 - i) (nal_rest r)) (mReservoir r)
     \<and> mOverRead r' = mOverRead r \<and> mNumBitsLeft r' = mNumBitsLeft r"
proof (induction i r rule: nalFillLoop.induct)
  case (1 i r)
  have w: "window B e r" using 1(3) by (simp add: nal_ok_def)
  show ?case
  proof (cases "0 < mSize r \<and> i < 4")
    case True
    obtain b where b: "peek r = Some b" "raw r = b # raw (advance r)" "window B e (advance r)"
      using raw_advance [OF w] True by blast
    let ?emu = "mNumZeros r \<ge> 2 \<and> b = 3" and ?r = "r\<lparr>mNumZeros := countZeros b (mNumZeros r)\<rparr>"
    have r: "raw (advance ?r) = raw (advance r)" "window B e (advance ?r)" "mNumZeros (advance ?r) = countZeros b (mNumZeros r)"
      using b(3) by (simp_all add: raw_def window_def advance_def)
    have ok: "nal_ok B e (advance ?r)" using 1(3) b(2) r by (auto simp: nal_ok_def countZeros_def split: if_splits)
    obtain k where k: "4 - i = Suc k" "4 - Suc i = k" using True by (cases "4 - i") auto
    show ?thesis
    proof (cases ?emu)
      case emu: True
      then have "nal_rest (advance ?r) = nal_rest r" using b(2) r by (simp add: nal_rest_def countZeros_def)
      then show ?thesis
        using 1(1) [OF True b(1) refl refl emu ok 1(4)] True b emu
        by (subst nalFillLoop.simps) simp
    next
      case emu: False
      have "nal_rest r = b # nal_rest (advance ?r)" using b(2) r emu by (auto simp: nal_rest_def)
      moreover have "nal_ok B e (shiftIn b (advance ?r))" "nal_rest (shiftIn b (advance ?r)) = nal_rest (advance ?r)"
        using ok by (simp_all add: nal_ok_def nal_rest_def shiftIn_def)
      ultimately show ?thesis
        using 1(2) [OF True b(1) refl refl emu] True b emu k
        by (subst nalFillLoop.simps) (auto simp: advance_shiftIn accumulate_def Let_def)
    qed
  next
    case False
    then have "take (4 - i) (nal_rest r) = []" "drop (4 - i) (nal_rest r) = nal_rest r"
      using window_length [OF w] 1(4) by (auto simp: nal_rest_def)
    moreover have "nalFillLoop i r = Some (i, r)" using False by (subst nalFillLoop.simps) auto
    ultimately show ?thesis using 1(3) by (auto simp: accumulate_def)
  qed
qed

lemma nal_ok_simps [simp]: "nal_ok B e (r\<lparr>mReservoir := w\<rparr>) = nal_ok B e r" "nal_rest (r\<lparr>mReservoir := w\<rparr>) = nal_rest r"
  "nal_ok B e (r\<lparr>mOverRead := q\<rparr>) = nal_ok B e r" "nal_rest (r\<lparr>mOverRead := q\<rparr>) = nal_rest r"
  "nal_rest (r\<lparr>mNumBitsLeft := k\<rparr>) = nal_rest r"
  by (simp_all add: nal_ok_def nal_rest_def)

lemma nal_ok_left: "nal_ok B e r \<Longrightarrow> k \<le> 32 \<Longrightarrow> nal_ok B e (r\<lparr>mNumBitsLeft := k\<rparr>)"
  by (auto simp: nal_ok_def window_def)

interpretation nr: bit_source nalFillReservoir nal_rest "nal_ok B e" for B e
proof
  fix r :: nal_reader and w :: u32 and m :: nat
  assume w: "nal_ok B e r"
  have lim: "mNumBitsLeft r \<le> 32" and len: "length (raw r) = mSize r"
    using w window_length [of B e r] by (simp_all add: nal_ok_def window_def)
  show "mNumBitsLeft r \<le> 32" by (rule lim)
  show "nal_ok B e (r\<lparr>mReservoir := w, mNumBitsLeft := mNumBitsLeft r - m\<rparr>)
      \<and> nal_rest (r\<lparr>mReservoir := w, mNumBitsLeft := mNumBitsLeft r - m\<rparr>) = nal_rest r"
    using nal_ok_left [of B e "r\<lparr>mReservoir := w\<rparr>" "mNumBitsLeft r - m"] w lim by simp
  have empty: "nal_rest r = [] \<longleftrightarrow> mSize r = 0"
    using unescape_empty [of "mNumZeros r" "raw r"] w len by (auto simp: nal_ok_def nal_rest_def)
  assume z: "mNumBitsLeft r = 0"
  show "nal_rest r = [] \<Longrightarrow> \<exists>r'. nalFillReservoir r = Some (False, r') \<and> nal_ok B e r' \<and> nal_rest r' = []
      \<and> mNumBitsLeft r' = 0 \<and> mOverRead r'"
    using w empty z by (simp add: nalFillReservoir_def)
  assume ne: "nal_rest r \<noteq> []"
  obtain r1 where r1: "nalFillLoop 0 (r\<lparr>mReservoir := 0\<rparr>) = Some (length (take 4 (nal_rest r)), r1)" "nal_ok B e r1"
    "nal_rest r1 = drop 4 (nal_rest r)" "mReservoir r1 = accumulate (take 4 (nal_rest r)) 0" "mOverRead r1 = mOverRead r"
    using nalFillLoop_spec [of B e "r\<lparr>mReservoir := 0\<rparr>" 0] w by auto
  obtain w where "alignReservoir (length (take 4 (nal_rest r))) r1 =
      Some (True, r1\<lparr>mNumBitsLeft := 8 * length (take 4 (nal_rest r)), mReservoir := w\<rparr>)"
    "res_bits w (8 * length (take 4 (nal_rest r))) = bytes_bits (take 4 (nal_rest r))"
    using alignReservoir_bits [of r1 "take 4 (nal_rest r)"] r1(4) ne by (auto simp: accumulate_bits)
  then show "\<exists>r'. nalFillReservoir r = Some (True, r') \<and> nal_ok B e r' \<and> mNumBitsLeft r' = 8 * min 4 (length (nal_rest r))
         \<and> nal_rest r' = drop 4 (nal_rest r) \<and> mOverRead r' = mOverRead r
         \<and> res_bits (mReservoir r') (mNumBitsLeft r') = bytes_bits (take 4 (nal_rest r))"
    using r1 ne empty by (auto simp: nalFillReservoir_def min.commute nal_ok_left)
qed

section \<open>Properties\<close>

text \<open>Counting the bits left in a NAL unit agrees with the bits that can be read.\<close>

lemma countBitsLoop_le: "n \<le> 0 \<Longrightarrow> countBitsLoop n z bs = n"
  by (cases bs) auto

lemma countBitsLoop_unescape: "countBitsLoop n z bs \<le> 0 \<longleftrightarrow> n \<le> 8 * int (length (unescape z bs))"
proof (induction bs arbitrary: n z)
  case (Cons b bs)
  have "countZeros 3 z = 0" by (simp add: countZeros_def)
  then show ?case using Cons by (auto simp: countBitsLoop_le)
qed simp

lemma length_unescape: "length (unescape z bs) \<le> length bs"
  by (induction z bs rule: unescape.induct) auto

text \<open>
  Putting back the bits just read: the reservoir takes them, and when it overflows its tail is
  dropped and read again from the buffer.
\<close>

lemma wrap_minus_8:
  assumes "(l + n) mod 2 ^ 64 = s" "8 \<le> s"
  shows "((l + 2 ^ 64 - 8) mod 2 ^ 64 + n) mod 2 ^ 64 = s - (8 :: nat)"
proof -
  have "((l + 2 ^ 64 - 8) mod 2 ^ 64 + n) mod 2 ^ 64 = (l + n + (2 ^ 64 - 8)) mod 2 ^ 64"
    unfolding mod_add_left_eq by (rule arg_cong [where f = "\<lambda>k. k mod 2 ^ 64"]) simp
  also have "\<dots> = (s + (2 ^ 64 - 8)) mod 2 ^ 64" unfolding assms(1) [symmetric] by (simp only: mod_add_left_eq)
  also have "\<dots> = (s - 8 + 2 ^ 64) mod 2 ^ 64"
    by (rule arg_cong [where f = "\<lambda>k. k mod 2 ^ 64"]) (use assms(2) in simp)
  also have "\<dots> = s - 8" using assms(1) by auto
  finally show ?thesis .
qed

lemma rewindLoop_spec:
  "(mNumBitsLeft r + n) mod 2 ^ 64 = s \<Longrightarrow> s \<le> 8 * mData r \<Longrightarrow>
   \<exists>k l. rewindLoop n r = Some (r\<lparr>mNumBitsLeft := l, mData := mData r - k, mSize := mSize r + k\<rparr>)
     \<and> (l + n) mod 2 ^ 64 = s - 8 * k \<and> s - 8 * k \<le> 32 \<and> 8 * k \<le> s"
proof (induction s arbitrary: r rule: less_induct)
  case (less s)
  show ?case
  proof (cases "s > 32")
    case True
    let ?r = "r\<lparr>mNumBitsLeft := (mNumBitsLeft r + 2 ^ 64 - 8) mod 2 ^ 64, mData := mData r - 1, mSize := Suc (mSize r)\<rparr>"
    have d: "0 < mData r" using True less.prems(2) by simp
    have s8: "(mNumBitsLeft ?r + n) mod 2 ^ 64 = s - 8"
      using wrap_minus_8 [OF less.prems(1)] True by simp
    have "s - 8 < s" "s - 8 \<le> 8 * mData ?r" using True less.prems(2) by auto
    then obtain k l where kl: "rewindLoop n ?r = Some (?r\<lparr>mNumBitsLeft := l, mData := mData ?r - k, mSize := mSize ?r + k\<rparr>)"
      "(l + n) mod 2 ^ 64 = s - 8 - 8 * k" "s - 8 - 8 * k \<le> 32" "8 * k \<le> s - 8"
      using less.IH [OF _ s8] by blast
    have "rewindLoop n r = rewindLoop n ?r" using less.prems(1) True d by (subst rewindLoop.simps) simp
    then show ?thesis using kl True d
      by (intro exI [of _ "Suc k"] exI [of _ l]) simp
  next
    case False
    then have "rewindLoop n r = Some r" using less.prems(1) by (subst rewindLoop.simps) simp
    then show ?thesis using False less.prems(1) by (intro exI [of _ 0] exI [of _ "mNumBitsLeft r"]) simp
  qed
qed

lemma res_bits_put:
  assumes "length xs = n" "0 < n" "n < 32" "t \<le> n + m" "t \<le> 32"
  shows "res_bits (drop_bit n w OR push_bit (32 - n) (bits_val xs)) t = take t (xs @ res_bits w m)"
proof (rule nth_equalityI)
  show "length (res_bits (drop_bit n w OR push_bit (32 - n) (bits_val xs)) t) = length (take t (xs @ res_bits w m))"
    using assms by simp
  fix i assume "i < length (res_bits (drop_bit n w OR push_bit (32 - n) (bits_val xs)) t)"
  then have i: "i < t" "i < 32" using assms(5) by simp_all
  show "res_bits (drop_bit n w OR push_bit (32 - n) (bits_val xs)) t ! i = take t (xs @ res_bits w m) ! i"
  proof (cases "i < n")
    case True
    have "\<not> bit w (n + (31 - i))" using bit_imp_le_length [of w "n + (31 - i)"] True i by auto
    moreover have "31 - i - (32 - n) = n - Suc i" "n - Suc (n - Suc i) = i" "32 - n \<le> 31 - i" "31 - i < 32" "n - Suc i < 32"
      using True assms(3) by auto
    ultimately show ?thesis
      using True i assms by (simp add: res_bits_def bit_or_iff bit_drop_bit_eq bit_push_bit_iff bit_bits_val nth_append)
  next
    case False
    moreover have "n + (31 - i) = 31 - (i - n)" "\<not> 32 - n \<le> 31 - i" "i - n < m" using False i assms by auto
    ultimately show ?thesis
      using i assms by (simp add: res_bits_def bit_or_iff bit_drop_bit_eq bit_push_bit_iff nth_append)
  qed
qed

text \<open>The reader holds the bits of its buffer from some position on: no bits of its own were put back.\<close>

definition in_sync :: "bit_reader \<Rightarrow> bool" where
  "in_sync r \<longleftrightarrow> mNumBitsLeft r \<le> 8 * mData r \<and>
     bits_left raw r = drop (8 * mData r - mNumBitsLeft r) (bytes_bits (take (mData r + mSize r) (mBuffer r)))"

lemma bytes_bits_drop: "bytes_bits (drop k bs) = drop (8 * k) (bytes_bits bs)"
proof (induction bs arbitrary: k)
  case (Cons b bs)
  then show ?case by (cases k) simp_all
qed simp

lemma bits_left_length: "window B e r \<Longrightarrow> length (bits_left raw r) = mNumBitsLeft r + 8 * mSize r"
  by (simp add: bits_left_def window_length)

lemma in_sync_iff:
  assumes "window B e r"
  shows "in_sync r \<longleftrightarrow> (\<exists>p. p \<le> 8 * e \<and> bits_left raw r = drop p (bytes_bits (take e B)))"
proof -
  have w: "mBuffer r = B" "mData r + mSize r = e" "e \<le> length B" using assms by (simp_all add: window_def)
  have pos: "mNumBitsLeft r \<le> 8 * mData r \<and> bits_left raw r = drop (8 * mData r - mNumBitsLeft r) (bytes_bits (take e B))"
    if "p \<le> 8 * e" "bits_left raw r = drop p (bytes_bits (take e B))" for p
  proof -
    have "mNumBitsLeft r + 8 * mSize r = 8 * e - p"
      using bits_left_length [OF assms] that(2) w(3) by simp
    then have "p = 8 * mData r - mNumBitsLeft r" "mNumBitsLeft r \<le> 8 * mData r" using w(2) that(1) by auto
    then show ?thesis using that(2) by simp
  qed
  have "8 * mData r - mNumBitsLeft r \<le> 8 * e" using w(2) by simp
  then show ?thesis unfolding in_sync_def w(1,2) using pos by blast
qed

lemma getBits_ab:
  assumes "window B e r" "n < 32" "getBits fillReservoir n r = Some (x, r1)"
  shows "n \<le> length (bits_left raw r) \<and> x = bits_val (take n (bits_left raw r)) \<and> window B e r1
    \<and> bits_left raw r1 = drop n (bits_left raw r) \<and> mOverRead r1 = mOverRead r"
  using ab.getBitsGraceful_spec [OF assms(1,2)] assms(3) by (auto simp: getBits_def split: if_splits)

lemma in_sync_getBits:
  assumes "window B e r" "in_sync r" "n < 32" "getBits fillReservoir n r = Some (x, r1)"
  shows "in_sync r1"
proof -
  note g = getBits_ab [OF assms(1,3,4)]
  obtain p where p: "p \<le> 8 * e" "bits_left raw r = drop p (bytes_bits (take e B))"
    using assms(2) in_sync_iff [OF assms(1)] by blast
  have "n \<le> 8 * e - p" using g p(2) assms(1) by (auto simp: window_def)
  then have "n + p \<le> 8 * e" "bits_left raw r1 = drop (n + p) (bytes_bits (take e B))" using g p by auto
  then show ?thesis using in_sync_iff [of B e r1] g by blast
qed

lemma putBits_rewinds:
  assumes w: "window B e r1" and sync: "in_sync r1" and n: "0 < n" "n < 32" and ovr: "\<not> mOverRead r1"
    and x: "take n (drop p (bytes_bits (take e B))) = xs" "length xs = n" "n + p = 8 * mData r1 - mNumBitsLeft r1"
  shows "\<exists>r2. putBits (bits_val xs) n r1 = Some r2 \<and> window B e r2 \<and> bits_left raw r2 = drop p (bytes_bits (take e B))"
proof -
  let ?T = "bytes_bits (take e B)"
  have ww: "mBuffer r1 = B" "mData r1 + mSize r1 = e" "e \<le> length B" "mNumBitsLeft r1 \<le> 32"
    using w by (simp_all add: window_def)
  have "mNumBitsLeft r1 \<le> 8 * mData r1" using sync by (simp add: in_sync_def)
  then have pos: "mNumBitsLeft r1 + n + p = 8 * mData r1" using x(3) n by simp
  have s: "(mNumBitsLeft r1 + n) mod 2 ^ 64 = mNumBitsLeft r1 + n" using ww(4) n by simp
  obtain k l where kl: "rewindLoop n r1 = Some (r1\<lparr>mNumBitsLeft := l, mData := mData r1 - k, mSize := mSize r1 + k\<rparr>)"
    "(l + n) mod 2 ^ 64 = mNumBitsLeft r1 + n - 8 * k" "mNumBitsLeft r1 + n - 8 * k \<le> 32" "8 * k \<le> mNumBitsLeft r1 + n"
    using rewindLoop_spec [OF s] pos by auto
  define t where "t = mNumBitsLeft r1 + n - 8 * k"
  let ?w = "drop_bit n (mReservoir r1) OR push_bit (32 - n) (bits_val xs)"
  let ?r2 = "r1\<lparr>mNumBitsLeft := t, mData := mData r1 - k, mSize := mSize r1 + k, mReservoir := ?w\<rparr>"
  have put: "putBits (bits_val xs) n r1 = Some ?r2"
    using kl n ovr unfolding putBits_def by (simp add: shr32_def shl32_def t_def)
  have kd: "k \<le> mData r1" using pos kl(4) by simp
  have w2: "window B e ?r2" using ww kd kl(3) by (simp add: window_def t_def)
  have raw2: "bytes_bits (raw ?r2) = drop (t + p) ?T"
    using raw_eq [OF w2] pos kl(4) by (simp add: bytes_bits_drop t_def diff_mult_distrib2)
  have "res_bits (mReservoir r1) (mNumBitsLeft r1) = take (mNumBitsLeft r1) (drop (n + p) ?T)"
  proof -
    have "bits_left raw r1 = drop (n + p) ?T" using sync x(3) ww by (simp add: in_sync_def)
    then show ?thesis by (metis append_eq_conv_conj bits_left_def length_res_bits)
  qed
  then have "xs @ res_bits (mReservoir r1) (mNumBitsLeft r1) = take (n + mNumBitsLeft r1) (drop p ?T)"
    unfolding x(1) [symmetric] by (simp add: take_add add.commute)
  then have "res_bits ?w t = take t (drop p ?T)"
    using res_bits_put [OF x(2) n, of t "mNumBitsLeft r1" "mReservoir r1"] kl(3) by (simp add: t_def)
  then have "bits_left raw ?r2 = take t (drop p ?T) @ drop (t + p) ?T"
    unfolding bits_left_def raw2 by simp
  also have "\<dots> = drop p ?T" by (metis append_take_drop_id drop_drop)
  finally show ?thesis using put w2 by blast
qed


lemma window_ABitReader: "window B (length B) (ABitReader B)" "raw (ABitReader B) = B"
  "bits_left raw (ABitReader B) = bytes_bits B" "\<not> mOverRead (ABitReader B)" "in_sync (ABitReader B)"
  by (simp_all add: window_def raw_def ABitReader_def bits_left_def res_bits_def in_sync_def)


text \<open>
  \<open>NALBitReader\<close> reads the payload of a NAL unit: the same as for
  \<open>ABitReader\<close>, with the bits those of the bytes left after every emulation prevention byte (a 3 after at least
  two zeros) is removed, provided the NAL unit does not end with such a byte.
\<close>
theorem nal_getBits_refines:
  assumes "nal_ok B e r" "n < 32"
  shows "if n \<le> length (bits_left nal_rest r)
    then \<exists>r'. getBitsGraceful nalFillReservoir n r = Some (Some (bits_val (take n (bits_left nal_rest r))), r')
            \<and> nal_ok B e r' \<and> bits_left nal_rest r' = drop n (bits_left nal_rest r) \<and> mOverRead r' = mOverRead r
    else \<exists>r'. getBitsGraceful nalFillReservoir n r = Some (None, r')
            \<and> nal_ok B e r' \<and> bits_left nal_rest r' = [] \<and> mOverRead r'"
  by (rule nr.getBitsGraceful_spec [OF assms])

lemma NALBitReader_simps:
  "window B (length B) (NALBitReader B)" "raw (NALBitReader B) = B" "mNumZeros (NALBitReader B) = 0"
  "mNumBitsLeft (NALBitReader B) = 0"
  by (simp_all add: window_def raw_def NALBitReader_def ABitReader_def bit_reader.defs)

theorem nal_getBits_refines_witness:
  "\<exists>r'. getBitsGraceful nalFillReservoir 24 (NALBitReader [0, 0, 3, 1]) = Some (Some 1, r')"
proof -
  have b: "bits_left nal_rest (NALBitReader [0, 0, 3, 1]) = bytes_bits [0, 0, 1]"
    by (simp add: bits_left_def nal_rest_def NALBitReader_simps countZeros_def res_bits_def)
  have ok: "nal_ok [0, 0, 3, 1] (length [0 :: u8, 0, 3, 1]) (NALBitReader [0, 0, 3, 1])"
    unfolding nal_ok_def NALBitReader_simps(2,3) by (rule conjI [OF NALBitReader_simps(1)]) (simp add: countZeros_def)
  have "bits_val (take 24 (bytes_bits [0, 0, 1])) = 1" by code_simp
  then show ?thesis using nal_getBits_refines [OF ok, of 24] unfolding b by auto
qed

text \<open>
  \<open>NALBitReader::atLeastNumBitsLeft(n)\<close> answers exactly whether \<open>n\<close> bits of payload can still be read, without
  moving the reader: its early exit on the raw size never contradicts the scan for emulation
  prevention bytes.
\<close>
theorem atLeastNumBitsLeft_exact:
  assumes "window B e r"
  shows "atLeastNumBitsLeft n r \<longleftrightarrow> n \<le> length (bits_left nal_rest r)"
proof -
  have "countBitsLoop (int n - int (mNumBitsLeft r)) (mNumZeros r) (raw r) \<le> 0
      \<longleftrightarrow> n \<le> mNumBitsLeft r + 8 * length (nal_rest r)"
    unfolding countBitsLoop_unescape nal_rest_def by auto
  moreover have "length (nal_rest r) \<le> mSize r"
    unfolding nal_rest_def window_length [OF assms, symmetric] by (rule length_unescape)
  ultimately show ?thesis
    by (auto simp: atLeastNumBitsLeft_def numBitsLeft_def bits_left_def raw_def [symmetric])
qed

theorem atLeastNumBitsLeft_exact_witness:
  "\<not> atLeastNumBitsLeft 32 (NALBitReader [0, 0, 3, 1])"
  unfolding atLeastNumBitsLeft_exact [OF NALBitReader_simps(1)]
  by (simp add: bits_left_def nal_rest_def NALBitReader_simps countZeros_def)

text \<open>
  Putting the bits just read back undoes the read. On a reader that only holds bits of its
  buffer, \<open>putBits(getBits(n), n)\<close> for \<open>0 < n < 32\<close> is defined, although its \<open>size_t\<close> arithmetic may wrap around, and
  leaves the same bits to be read as before.
\<close>
theorem putBits_undoes_getBits:
  assumes "window B e r" "in_sync r" "\<not> mOverRead r" "0 < n" "n < 32"
    and "getBits fillReservoir n r = Some (x, r1)"
  shows "\<exists>r2. putBits x n r1 = Some r2 \<and> window B e r2 \<and> bits_left raw r2 = bits_left raw r"
proof -
  note g = getBits_ab [OF assms(1,5,6)]
  have sync: "in_sync r1" by (rule in_sync_getBits [OF assms(1,2,5,6)])
  obtain p where p: "p \<le> 8 * e" "bits_left raw r = drop p (bytes_bits (take e B))"
    using assms(2) in_sync_iff [OF assms(1)] by blast
  have "length (bits_left raw r1) = 8 * e - (n + p)" "n + p \<le> 8 * e" using g p assms(1) by (auto simp: window_def)
  then have "mNumBitsLeft r1 + 8 * mSize r1 = 8 * e - (n + p)" "n + p \<le> 8 * e" "mData r1 + mSize r1 = e"
    using bits_left_length [of B e r1] g by (auto simp: window_def)
  then have "n + p = 8 * mData r1 - mNumBitsLeft r1" by auto
  then show ?thesis
    using putBits_rewinds [of B e r1 n p "take n (bits_left raw r)"] g p(2) sync assms(3-5) by auto
qed

theorem putBits_undoes_getBits_witness:
  "\<exists>x r1 r2. getBits fillReservoir 12 (ABitReader [0xAB, 0xCD]) = Some (x, r1) \<and> putBits x 12 r1 = Some r2
     \<and> bits_left raw r2 = bytes_bits [0xAB, 0xCD]"
proof -
  obtain x r1 where g: "getBits fillReservoir 12 (ABitReader [0xAB, 0xCD]) = Some (x, r1)"
    by (rule ab.getBits_spec [OF window_ABitReader(1), of 12 "[0xAB, 0xCD]"]) (simp_all add: window_ABitReader)
  show ?thesis
    using putBits_undoes_getBits [OF window_ABitReader(1,5,4) _ _ g] g window_ABitReader(3) by auto
qed

text \<open>
  A 32-bit read at a word boundary is undefined behaviour in C++. \<open>getBitsGraceful\<close> accepts \<open>n = 32\<close>, but with
  four bytes loaded it shifts its 32-bit result and its reservoir by 32, whatever the buffer
  holds.
\<close>
theorem getBits_32_at_boundary:
  assumes "window B e r" "mNumBitsLeft r = 0" "4 \<le> mSize r"
  shows "getBitsGraceful fillReservoir 32 r = None"
proof -
  have "raw r \<noteq> []" "min 4 (length (raw r)) = 4" using window_length [OF assms(1)] assms(3) by auto
  then obtain r1 where "fillReservoir r = Some (True, r1)" "mNumBitsLeft r1 = 32"
    using ab.fill_some [OF assms(1,2)] by auto
  then show ?thesis using assms(2) by (simp add: getBitsGraceful_def getBitsLoop.simps shl32_def)
qed

theorem getBits_32_at_boundary_witness:
  "getBitsGraceful fillReservoir 32 (ABitReader [1, 2, 3, 4, 5]) = None"
  by (rule getBits_32_at_boundary [OF window_ABitReader(1)]) (simp_all add: ABitReader_def)

end
