(* ===== verification/Base64.thy ===== *)
theory Base64
  imports Prelude
begin

unbundle bit_operations_syntax

text \<open>
  \<^verbatim>\<open>base64.cpp\<close> and \<^verbatim>\<open>ByteUtils.cpp\<close> of the foundation library: base64 in both alphabets, and reading
  and writing integers byte by byte.

  Characters are bytes, so a C string is a list of bytes that ends before its first zero. An
  output buffer is the list of the bytes written so far: the index \<open>j\<close> of the code is its
  length.
\<close>

section \<open>Decoding\<close>

text \<open>The value of a character other than the padding character.\<close>

definition decode6Bit :: "u8 \<Rightarrow> u32 option" where
  "decode6Bit c =
     (if c \<ge> ch CHR ''A'' \<and> c \<le> ch CHR ''Z'' then Some (ucast c - ucast (ch CHR ''A''))
      else if c \<ge> ch CHR ''a'' \<and> c \<le> ch CHR ''z'' then Some (26 + ucast c - ucast (ch CHR ''a''))
      else if c \<ge> ch CHR ''0'' \<and> c \<le> ch CHR ''9'' then Some (52 + ucast c - ucast (ch CHR ''0''))
      else if c = ch CHR ''+'' \<or> c = ch CHR ''-'' then Some 62
      else if c = ch CHR ''/'' \<or> c = ch CHR ''_'' then Some 63
      else None)"

definition emit :: "nat \<Rightarrow> u8 \<Rightarrow> u8 list \<Rightarrow> u8 list" where
  "emit outLen b out = (if length out < outLen then out @ [b] else out)"

text \<open>The loop over the characters from index \<open>i\<close> on.\<close>

fun decodeLoop :: "nat \<Rightarrow> nat \<Rightarrow> nat \<Rightarrow> nat \<Rightarrow> u32 \<Rightarrow> u8 list \<Rightarrow> u8 list \<Rightarrow> u8 list option" where
  "decodeLoop n padding outLen i accum out [] = Some out"
| "decodeLoop n padding outLen i accum out (c # cs) =
     (case (case decode6Bit c of
              Some v \<Rightarrow> Some v
            | None \<Rightarrow> if c \<noteq> ch CHR ''='' then None
                      else if i < n - padding then None
                      else Some 0) of
        None \<Rightarrow> None
      | Some v \<Rightarrow>
          let accum = push_bit 6 accum OR v in
          if (i + 1) mod 4 = 0
          then decodeLoop n padding outLen (Suc i) 0
                 (emit outLen (ucast (accum AND 0xff))
                   (emit outLen (ucast (drop_bit 8 accum AND 0xff))
                     (emit outLen (ucast (drop_bit 16 accum)) out))) cs
          else decodeLoop n padding outLen (Suc i) accum out cs)"

definition paddingLength :: "u8 list \<Rightarrow> nat" where
  "paddingLength s =
     (let n = length s in
      if n \<ge> 1 \<and> s ! (n - 1) = ch CHR ''=''
      then (if n \<ge> 2 \<and> s ! (n - 2) = ch CHR ''=''
            then (if n \<ge> 3 \<and> s ! (n - 3) = ch CHR ''='' then 3 else 2)
            else 1)
      else 0)"

text \<open>\<open>bufSize\<close> is \<open>*inOutBufSize\<close> on entry, or \<open>None\<close> when \<open>out\<close> is \<open>NULL\<close>.\<close>

definition decodeBase64_into :: "nat option \<Rightarrow> u8 list \<Rightarrow> u8 list option" where
  "decodeBase64_into bufSize str =
     (let s = takeWhile (\<lambda>c. c \<noteq> 0) str; n = length s in
      if n mod 4 \<noteq> 0 then None
      else
        let padding = paddingLength s; outLen = n div 4 * 3 - padding in
        case bufSize of
          None \<Rightarrow> None
        | Some avail \<Rightarrow> if avail < outLen then None else decodeLoop n padding outLen 0 0 [] s)"

definition decodeBase64 :: "u8 list \<Rightarrow> u8 list option" where
  "decodeBase64 s =
     (if length s mod 4 \<noteq> 0 then None
      else decodeBase64_into (Some (length s div 4 * 3)) s)"

section \<open>Encoding\<close>

definition encode6Bit :: "u32 \<Rightarrow> u8" where
  "encode6Bit x =
     (if x \<le> 25 then ch CHR ''A'' + ucast x
      else if x \<le> 51 then ch CHR ''a'' + ucast x - 26
      else if x \<le> 61 then ch CHR ''0'' + ucast x - 52
      else if x = 62 then ch CHR ''+''
      else ch CHR ''/'')"

text \<open>The four indices of a group of three bytes; operands are promoted before they are shifted.\<close>

definition sextets :: "u8 \<Rightarrow> u8 \<Rightarrow> u8 \<Rightarrow> u32 list" where
  "sextets x1 x2 x3 =
     [drop_bit 2 (ucast x1),
      (push_bit 4 (ucast x1) OR drop_bit 4 (ucast x2)) AND 0x3f,
      (push_bit 2 (ucast x2) OR drop_bit 6 (ucast x3)) AND 0x3f,
      ucast x3 AND 0x3f]"

fun encodeBase64 :: "u8 list \<Rightarrow> u8 list" where
  "encodeBase64 (x1 # x2 # x3 # data) = map encode6Bit (sextets x1 x2 x3) @ encodeBase64 data"
| "encodeBase64 [] = []"
| "encodeBase64 [x1, x2] =
     [encode6Bit (drop_bit 2 (ucast x1)),
      encode6Bit ((push_bit 4 (ucast x1) OR drop_bit 4 (ucast x2)) AND 0x3f),
      encode6Bit (push_bit 2 (ucast x2) AND 0x3f), ch CHR ''='']"
| "encodeBase64 [x1] =
     [encode6Bit (drop_bit 2 (ucast x1)), encode6Bit (push_bit 4 (ucast x1) AND 0x3f),
      ch CHR ''='', ch CHR ''='']"

definition encodeBase64Url :: "u8 list \<Rightarrow> u8 list" where
  "encodeBase64Url data =
     (let out = encodeBase64 data in
      if ch CHR ''+'' \<in> set out \<or> ch CHR ''/'' \<in> set out
      then map (\<lambda>c. if c = ch CHR ''+'' then ch CHR ''-''
                    else if c = ch CHR ''/'' then ch CHR ''_''
                    else c) out
      else out)"

section \<open>Properties\<close>

lemma ch_values:
  "ch CHR ''A'' = 65" "ch CHR ''Z'' = 90" "ch CHR ''a'' = 97" "ch CHR ''z'' = 122" "ch CHR ''0'' = 48"
  "ch CHR ''9'' = 57" "ch CHR ''+'' = 43" "ch CHR ''-'' = 45" "ch CHR ''/'' = 47" "ch CHR ''_'' = 95"
  "ch CHR ''='' = 61"
  by simp_all

lemma encode6Bit_all: "list_all (\<lambda>x. decode6Bit (encode6Bit x) = Some x \<and> encode6Bit x \<noteq> 0 \<and> encode6Bit x \<noteq> 61
    \<and> (let c = encode6Bit x in decode6Bit (if c = 43 then 45 else if c = 47 then 95 else c) = Some x)) (map of_nat [0..<64])"
  by code_simp

lemma less_64: "x < (64 :: u32) \<Longrightarrow> x \<in> set (map of_nat [0..<64])"
proof -
  assume "x < 64"
  then have "unat x < 64" "x = of_nat (unat x)" by (simp_all add: word_less_nat_alt)
  then show ?thesis by (metis atLeastLessThan_iff image_eqI le0 list.set_map set_upt)
qed

lemma masks: "(0x3f :: u32) = mask 6" "(0xff :: u32) = mask 8"
  by (simp_all add: mask_eq_exp_minus_1)

text \<open>The four indices put together again are the three bytes.\<close>

definition join :: "u32 list \<Rightarrow> u32" where
  "join vs = fold (\<lambda>v accum. push_bit 6 accum OR v) vs 0"

lemma join_sextets: "join (sextets x1 x2 x3) = push_bit 16 (ucast x1) OR push_bit 8 (ucast x2) OR ucast x3"
proof (rule bit_word_eqI)
  fix i assume "i < LENGTH(32)"
  have "bit x1 k \<Longrightarrow> k < 8" "bit x2 k \<Longrightarrow> k < 8" "bit x3 k \<Longrightarrow> k < 8" for k
    using bit_imp_le_length by force+
  then have "\<not> bit x1 k" "\<not> bit x2 k" "\<not> bit x3 k" if "8 \<le> k" for k using that by (meson not_le)+
  note hi = this
  have sh: "18 \<le> i \<Longrightarrow> Suc (Suc (i - 18)) = i - 16" by simp
  consider "i < 6" | "6 \<le> i" "i < 8" | "8 \<le> i" "i < 12" | "12 \<le> i" "i < 16" | "16 \<le> i" "i < 18" | "18 \<le> i" by linarith
  then show "bit (join (sextets x1 x2 x3)) i = bit (push_bit 16 (ucast x1) OR push_bit 8 (ucast x2) OR ucast x3 :: u32) i"
    using sh by cases (use \<open>i < LENGTH(32)\<close> in \<open>auto simp: join_def sextets_def masks bit_simps hi\<close>)
qed

lemma join_bytes:
  "ucast (drop_bit 16 (join (sextets x1 x2 x3))) = x1"
  "ucast (drop_bit 8 (join (sextets x1 x2 x3)) AND 0xff) = x2"
  "ucast (join (sextets x1 x2 x3) AND 0xff) = x3"
  unfolding join_sextets masks
  by (rule bit_word_eqI, auto simp: bit_simps dest: bit_imp_le_length)+

lemma sextets_less: "v \<in> set (sextets x1 x2 x3) \<Longrightarrow> v < 64"
proof -
  have "drop_bit 2 (ucast x1) = (drop_bit 2 (ucast x1) AND mask 6 :: u32)"
    by (rule bit_word_eqI) (auto simp: bit_simps dest: bit_imp_le_length)
  moreover have lt: "x AND mask 6 < 64" for x :: u32 using and_mask_less_size [of 6 x] by (simp add: word_size)
  ultimately have "drop_bit 2 (ucast x1) < (64 :: u32)" by metis
  then show "v \<in> set (sextets x1 x2 x3) \<Longrightarrow> v < 64" using lt by (auto simp: sextets_def masks)
qed

text \<open>A translation of the alphabet the decoder does not notice.\<close>

definition transparent :: "(u8 \<Rightarrow> u8) \<Rightarrow> bool" where
  "transparent f \<longleftrightarrow> f 61 = 61 \<and> (\<forall>x < 64. decode6Bit (f (encode6Bit x)) = Some x \<and> f (encode6Bit x) \<noteq> 61 \<and> f (encode6Bit x) \<noteq> 0)"

lemma encode6Bit_facts:
  assumes "x < 64"
  shows "decode6Bit (encode6Bit x) = Some x" "encode6Bit x \<noteq> 0" "encode6Bit x \<noteq> 61"
    "encode6Bit x = 43 \<Longrightarrow> decode6Bit 45 = Some x" "encode6Bit x = 47 \<Longrightarrow> decode6Bit 95 = Some x"
  using bspec [OF encode6Bit_all [unfolded list_all_iff] less_64 [OF assms]] by (auto simp: Let_def)

definition url_char :: "u8 \<Rightarrow> u8" where
  "url_char c = (if c = ch CHR ''+'' then ch CHR ''-'' else if c = ch CHR ''/'' then ch CHR ''_'' else c)"

lemma transparent_alphabets: "transparent id" "transparent url_char"
  unfolding transparent_def url_char_def ch_values using encode6Bit_facts by auto

definition char_value :: "nat \<Rightarrow> nat \<Rightarrow> nat \<Rightarrow> u8 \<Rightarrow> u32 option" where
  "char_value n padding i c =
     (case decode6Bit c of Some v \<Rightarrow> Some v
      | None \<Rightarrow> if c \<noteq> ch CHR ''='' then None else if i < n - padding then None else Some 0)"

lemma decodeLoop_step:
  assumes "char_value n p i c = Some v"
  shows "(i + 1) mod 4 \<noteq> 0 \<Longrightarrow> decodeLoop n p m i a out (c # cs) = decodeLoop n p m (Suc i) (push_bit 6 a OR v) out cs"
    and "(i + 1) mod 4 = 0 \<Longrightarrow> push_bit 6 a OR v = join (sextets x1 x2 x3) \<Longrightarrow>
      decodeLoop n p m i a out (c # cs) = decodeLoop n p m (Suc i) 0 (emit m x3 (emit m x2 (emit m x1 out))) cs"
  using assms join_bytes [of x1 x2 x3] by (simp_all only: decodeLoop.simps char_value_def [symmetric] option.case Let_def if_True if_False simp_thms)

lemma decodeLoop_group:
  assumes "i mod 4 = 0" "map (case_prod (char_value n p)) [(i, c1), (i + 1, c2), (i + 2, c3), (i + 3, c4)] = map Some (sextets x1 x2 x3)"
  shows "decodeLoop n p m i 0 out (c1 # c2 # c3 # c4 # cs) =
     decodeLoop n p m (Suc (Suc (Suc (Suc i)))) 0 (emit m x3 (emit m x2 (emit m x1 out))) cs"
proof -
  obtain v1 v2 v3 v4 where v: "sextets x1 x2 x3 = [v1, v2, v3, v4]" by (simp add: sextets_def)
  then have c: "char_value n p i c1 = Some v1" "char_value n p (Suc i) c2 = Some v2"
    "char_value n p (Suc (Suc i)) c3 = Some v3" "char_value n p (Suc (Suc (Suc i))) c4 = Some v4"
    using assms(2) by (simp_all add: eval_nat_numeral)
  have "(i + 1) mod 4 \<noteq> 0" "(Suc i + 1) mod 4 \<noteq> 0" "(Suc (Suc i) + 1) mod 4 \<noteq> 0" "(Suc (Suc (Suc i)) + 1) mod 4 = 0"
    using assms(1) by presburger+
  note m = this
  have j: "push_bit 6 (push_bit 6 (push_bit 6 (push_bit 6 0 OR v1) OR v2) OR v3) OR v4 = join (sextets x1 x2 x3)"
    by (simp add: v join_def)
  show ?thesis
    unfolding decodeLoop_step(1) [OF c(1) m(1)] decodeLoop_step(1) [OF c(2) m(2)] decodeLoop_step(1) [OF c(3) m(3)]
      decodeLoop_step(2) [OF c(4) m(4) j] by (rule refl)
qed

lemma sextets_tail:
  "sextets x1 x2 0 = [drop_bit 2 (ucast x1), (push_bit 4 (ucast x1) OR drop_bit 4 (ucast x2)) AND 0x3f, push_bit 2 (ucast x2) AND 0x3f, 0]"
  "sextets x1 0 0 = [drop_bit 2 (ucast x1), push_bit 4 (ucast x1) AND 0x3f, 0, 0]"
  by (simp_all add: sextets_def)

lemma char_value_encode: "transparent f \<Longrightarrow> v < 64 \<Longrightarrow> char_value n p i (f (encode6Bit v)) = Some v"
  by (simp add: char_value_def transparent_def)

lemma char_value_pad: "n - p \<le> i \<Longrightarrow> char_value n p i 61 = Some 0"
  by (simp add: char_value_def decode6Bit_def)

lemma emit_new: "length out < m \<Longrightarrow> emit m b out = out @ [b]"
  and emit_full: "m \<le> length out \<Longrightarrow> emit m b out = out"
  by (simp_all add: emit_def)

lemma decodeLoop_encode:
  assumes "transparent f"
  shows "i mod 4 = 0 \<Longrightarrow> n = i + length (encodeBase64 data) \<Longrightarrow> p = (3 - length data mod 3) mod 3 \<Longrightarrow>
    m = length out + length data \<Longrightarrow> decodeLoop n p m i 0 out (map f (encodeBase64 data)) = Some (out @ data)"
proof (induction data arbitrary: i out rule: encodeBase64.induct)
  case (1 x1 x2 x3 data)
  have less: "list_all (\<lambda>v. v < 64) (sextets x1 x2 x3)" by (simp add: list_all_iff sextets_less)
  obtain v1 v2 v3 v4 where v: "sextets x1 x2 x3 = [v1, v2, v3, v4]" by (simp add: sextets_def)
  have "map (case_prod (char_value n p)) [(i, f (encode6Bit v1)), (i + 1, f (encode6Bit v2)), (i + 2, f (encode6Bit v3)), (i + 3, f (encode6Bit v4))]
      = map Some (sextets x1 x2 x3)"
    using less by (simp add: v char_value_encode [OF assms])
  note g = decodeLoop_group [OF 1(2) this]
  have a: "Suc (Suc (Suc (Suc i))) mod 4 = 0" "p = (3 - length data mod 3) mod 3"
    using 1(2,4) by (simp_all add: mod_Suc)
  have b: "n = Suc (Suc (Suc (Suc i))) + length (encodeBase64 data)" "m = length (out @ [x1, x2, x3]) + length data"
    using 1(3,5) by (simp_all add: v)
  note ih = 1(1) [OF a(1) b(1) a(2) b(2)]
  have "emit m x3 (emit m x2 (emit m x1 out)) = out @ [x1, x2, x3]" using 1(5) by (simp add: emit_new)
  then show ?case unfolding encodeBase64.simps(1) v list.map append.simps g using ih by simp
next
  case 2
  then show ?case by simp
next
  case (3 x1 x2)
  have less: "list_all (\<lambda>v. v < 64) (sextets x1 x2 0)" by (simp add: list_all_iff sextets_less)
  obtain v1 v2 v3 where v: "sextets x1 x2 0 = [v1, v2, v3, 0]" by (simp add: sextets_tail)
  have "map (case_prod (char_value n p)) [(i, f (encode6Bit v1)), (i + 1, f (encode6Bit v2)), (i + 2, f (encode6Bit v3)), (i + 3, 61)]
      = map Some (sextets x1 x2 0)"
    using less 3(2,3) by (simp add: v char_value_encode [OF assms] char_value_pad)
  note g = decodeLoop_group [OF 3(1) this]
  have "map f (encodeBase64 [x1, x2]) = [f (encode6Bit v1), f (encode6Bit v2), f (encode6Bit v3), 61]"
    using v assms by (simp add: sextets_tail transparent_def)
  moreover have "emit m 0 (emit m x2 (emit m x1 out)) = out @ [x1, x2]" using 3(4) by (simp add: emit_new emit_full)
  ultimately show ?case by (simp only: g decodeLoop.simps(1))
next
  case (4 x1)
  have less: "list_all (\<lambda>v. v < 64) (sextets x1 0 0)" by (simp add: list_all_iff sextets_less)
  obtain v1 v2 where v: "sextets x1 0 0 = [v1, v2, 0, 0]" by (simp add: sextets_tail)
  have "map (case_prod (char_value n p)) [(i, f (encode6Bit v1)), (i + 1, f (encode6Bit v2)), (i + 2, 61), (i + 3, 61)]
      = map Some (sextets x1 0 0)"
    using less 4(2,3) by (simp add: v char_value_encode [OF assms] char_value_pad)
  note g = decodeLoop_group [OF 4(1) this]
  have "map f (encodeBase64 [x1]) = [f (encode6Bit v1), f (encode6Bit v2), 61, 61]"
    using v assms by (simp add: sextets_tail transparent_def)
  moreover have "emit m 0 (emit m 0 (emit m x1 out)) = out @ [x1]" using 4(4) by (simp add: emit_new emit_full)
  ultimately show ?case by (simp only: g decodeLoop.simps(1))
qed

lemma paddingLength_append: "3 \<le> length ys \<Longrightarrow> paddingLength (xs @ ys) = paddingLength ys"
  by (auto simp: paddingLength_def Let_def nth_append)

lemma length_encode: "length (encodeBase64 data) = 4 * ((length data + 2) div 3)"
proof (induction data rule: encodeBase64.induct)
  case (1 x1 x2 x3 data)
  have "(length (x1 # x2 # x3 # data) + 2) div 3 = Suc ((length data + 2) div 3)" by simp
  then show ?case using 1 by (simp add: sextets_def)
qed simp_all

lemma encode_chars: "c \<in> set (encodeBase64 data) \<Longrightarrow> c = 61 \<or> (\<exists>v < 64. c = encode6Bit v)"
proof (induction data rule: encodeBase64.induct)
  case (1 x1 x2 x3 data)
  then show ?case using sextets_less [of _ x1 x2 x3] by auto
next
  case (3 x1 x2)
  then show ?case using sextets_less [of _ x1 x2 0] unfolding sextets_tail by auto
next
  case (4 x1)
  then show ?case using sextets_less [of _ x1 0 0] unfolding sextets_tail by auto
qed simp

lemma encode_nonzero: "transparent f \<Longrightarrow> c \<in> set (encodeBase64 data) \<Longrightarrow> f c \<noteq> 0"
  using encode_chars [of c data] by (auto simp: transparent_def)

lemma paddingLength_encode:
  assumes "transparent f"
  shows "paddingLength (map f (encodeBase64 data)) = (3 - length data mod 3) mod 3"
proof (induction data rule: encodeBase64.induct)
  case (1 x1 x2 x3 data)
  obtain v1 v2 v3 v4 where v: "sextets x1 x2 x3 = [v1, v2, v3, v4]" by (simp add: sextets_def)
  have "v4 < 64" using sextets_less [of v4 x1 x2 x3] by (simp add: v)
  then have "paddingLength [f (encode6Bit v1), f (encode6Bit v2), f (encode6Bit v3), f (encode6Bit v4)] = 0"
    using assms by (simp add: paddingLength_def transparent_def)
  moreover have "data \<noteq> [] \<Longrightarrow> 3 \<le> length (map f (encodeBase64 data))"
    by (cases data rule: encodeBase64.cases) (auto simp: sextets_def)
  moreover have "length (x1 # x2 # x3 # data) mod 3 = length data mod 3" by simp
  ultimately show ?case
    using 1 paddingLength_append [of "map f (encodeBase64 data)" "map f (map encode6Bit (sextets x1 x2 x3))"]
    by (cases "data = []") (simp_all add: v)
next
  case 2
  show ?case by (simp add: paddingLength_def)
next
  case (3 x1 x2)
  have "push_bit 2 (ucast x2) AND 0x3f < (64 :: u32)" using sextets_less [of _ x1 x2 0] by (simp add: sextets_tail)
  then show ?case using assms by (simp add: paddingLength_def transparent_def)
next
  case (4 x1)
  have "push_bit 4 (ucast x1) AND 0x3f < (64 :: u32)" using sextets_less [of _ x1 0 0] by (simp add: sextets_tail)
  then show ?case using assms by (simp add: paddingLength_def transparent_def)
qed

lemma padded_length: "(n + 2) div 3 * 3 - (3 - n mod 3) mod 3 = (n :: nat)"
proof -
  define q r where "q = n div 3" and "r = n mod 3"
  then have "n = 3 * q + r" "r = 0 \<or> r = 1 \<or> r = 2" by auto
  then show ?thesis by auto
qed

lemma decode_encode:
  assumes "transparent f"
  shows "decodeBase64 (map f (encodeBase64 data)) = Some data"
proof -
  let ?s = "map f (encodeBase64 data)" and ?p = "(3 - length data mod 3) mod 3"
  have tw: "takeWhile (\<lambda>c. c \<noteq> 0) ?s = ?s" using encode_nonzero [OF assms] by (auto simp: takeWhile_eq_all_conv)
  have n: "length ?s mod 4 = 0" "length ?s div 4 * 3 - ?p = length data"
    unfolding length_map length_encode using padded_length [of "length data"] by simp_all
  have "decodeLoop (length ?s) ?p (length data) 0 0 [] ?s = Some data"
    using decodeLoop_encode [OF assms, of 0 "length ?s" data ?p "length data" "[]"] by simp
  then show ?thesis
    using n by (simp add: decodeBase64_def decodeBase64_into_def tw paddingLength_encode [OF assms] Let_def del: length_map)
qed

lemma encodeBase64Url_map: "encodeBase64Url data = map url_char (encodeBase64 data)"
proof -
  have "map url_char xs = xs" if "ch CHR ''+'' \<notin> set xs" "ch CHR ''/'' \<notin> set xs" for xs
    using that by (induction xs) (auto simp: url_char_def)
  then show ?thesis unfolding encodeBase64Url_def Let_def url_char_def [symmetric] by simp
qed

text \<open>
  C35: decoding undoes encoding. For every sequence of bytes, of any length and so with every
  amount of padding, \<open>decodeBase64\<close> accepts the output of both \<open>encodeBase64\<close> and \<open>encodeBase64Url\<close> and gives the bytes back.
\<close>
theorem base64_roundtrip:
  "decodeBase64 (encodeBase64 data) = Some data \<and> decodeBase64 (encodeBase64Url data) = Some data"
  using decode_encode [OF transparent_alphabets(1)] decode_encode [OF transparent_alphabets(2)]
  by (simp add: encodeBase64Url_map)

lemma length_emits: "length out \<le> m \<Longrightarrow> length (emit m b3 (emit m b2 (emit m b1 out))) = min m (length out + 3)"
  by (auto simp: emit_def)

lemma decodeLoop_length:
  "decodeLoop n p m i a out cs = Some out' \<Longrightarrow> length out \<le> m \<Longrightarrow>
   length out' = min m (length out + 3 * ((i mod 4 + length cs) div 4))"
proof (induction cs arbitrary: i a out)
  case (Cons c cs)
  then obtain v where v: "char_value n p i c = Some v"
    by (auto simp: char_value_def split: option.splits if_splits)
  show ?case
  proof (cases "(i + 1) mod 4 = 0")
    case True
    then have i: "i mod 4 = 3" "Suc i mod 4 = 0" by presburger+
    obtain b1 b2 b3 where "decodeLoop n p m i a out (c # cs) = decodeLoop n p m (Suc i) 0 (emit m b3 (emit m b2 (emit m b1 out))) cs"
      using v True by (simp add: char_value_def [symmetric] Let_def)
    then have "length out' = min m (min m (length out + 3) + 3 * (length cs div 4))"
      using Cons.IH [of "Suc i" 0 "emit m b3 (emit m b2 (emit m b1 out))"] Cons.prems i by (simp only: length_emits) simp
    moreover have "(i mod 4 + length (c # cs)) div 4 = Suc (length cs div 4)" using i by simp
    ultimately show ?thesis by (simp del: list.size) linarith
  next
    case False
    then have "Suc i mod 4 = Suc (i mod 4)" by (auto simp: mod_Suc split: if_splits)
    then show ?thesis using decodeLoop_step(1) [OF v False] Cons.IH [of "Suc i" _ out] Cons.prems by simp
  qed
qed simp

lemma paddingLength_le: "paddingLength s \<le> 3"
  by (simp add: paddingLength_def Let_def)

text \<open>
  The decoder writes only into the space it was given. When \<open>decodeBase64\<close> succeeds it has written exactly three
  bytes for every four characters, less the padding, and that is at most the size of the
  caller's buffer.
\<close>
theorem decodeBase64_within_buffer:
  assumes "decodeBase64_into bufSize str = Some out"
  shows "\<exists>size. bufSize = Some size \<and> length out \<le> size
    \<and> length out = 3 * (length (takeWhile (\<lambda>c. c \<noteq> 0) str) div 4) - paddingLength (takeWhile (\<lambda>c. c \<noteq> 0) str)"
proof -
  let ?s = "takeWhile (\<lambda>c. c \<noteq> 0) str"
  obtain size where "bufSize = Some size" "length ?s div 4 * 3 - paddingLength ?s \<le> size"
    "decodeLoop (length ?s) (paddingLength ?s) (length ?s div 4 * 3 - paddingLength ?s) 0 0 [] ?s = Some out"
    using assms by (auto simp: decodeBase64_into_def Let_def split: if_splits option.splits)
  moreover from decodeLoop_length [OF this(3)]
  have "length out = length ?s div 4 * 3 - paddingLength ?s" by simp
  ultimately show ?thesis by (simp add: mult.commute)
qed

theorem decodeBase64_within_buffer_witness:
  "decodeBase64_into (Some 2) [81, 85, 73, 61] = Some [65, 66] \<and> length [65 :: u8, 66] \<le> 2"
proof -
  have d: "decodeBase64_into (Some 2) [81, 85, 73, 61] = Some [65, 66]" by code_simp
  show ?thesis using decodeBase64_within_buffer [OF d] d by simp
qed

section \<open>\<^verbatim>\<open>ByteUtils.cpp\<close>\<close>

text \<open>A pointer to bytes is the list of the bytes it points to; too short a list is undefined.\<close>

fun U16_AT :: "u8 list \<Rightarrow> u16 ub" where
  "U16_AT (a # b # _) = Some (push_bit 8 (ucast a) OR ucast b)"
| "U16_AT _ = None"

fun U32_AT :: "u8 list \<Rightarrow> u32 ub" where
  "U32_AT (a # b # c # d # _) =
     Some (push_bit 24 (ucast a) OR push_bit 16 (ucast b) OR push_bit 8 (ucast c) OR ucast d)"
| "U32_AT _ = None"

definition U64_AT :: "u8 list \<Rightarrow> u64 ub" where
  "U64_AT p = (case (U32_AT p, U32_AT (drop 4 p)) of
     (Some h, Some l) \<Rightarrow> Some (push_bit 32 (ucast h) OR ucast l) | _ \<Rightarrow> None)"

fun U16LE_AT :: "u8 list \<Rightarrow> u16 ub" where
  "U16LE_AT (a # b # _) = Some (ucast a OR push_bit 8 (ucast b))"
| "U16LE_AT _ = None"

fun U32LE_AT :: "u8 list \<Rightarrow> u32 ub" where
  "U32LE_AT (a # b # c # d # _) =
     Some (push_bit 24 (ucast d) OR push_bit 16 (ucast c) OR push_bit 8 (ucast b) OR ucast a)"
| "U32LE_AT _ = None"

definition U64LE_AT :: "u8 list \<Rightarrow> u64 ub" where
  "U64LE_AT p = (case (U32LE_AT (drop 4 p), U32LE_AT p) of
     (Some h, Some l) \<Rightarrow> Some (push_bit 32 (ucast h) OR ucast l) | _ \<Rightarrow> None)"

text \<open>\<open>ntohl\<close> and \<open>htonl\<close> on a little-endian host.\<close>

definition swap32 :: "u32 \<Rightarrow> u32" where
  "swap32 x = push_bit 24 x OR push_bit 8 (x AND 0xff00) OR drop_bit 8 (x AND 0xff0000) OR drop_bit 24 x"

definition ntoh64 :: "u64 \<Rightarrow> u64" where
  "ntoh64 x = push_bit 32 (ucast (swap32 (ucast (x AND 0xffffffff)))) OR ucast (swap32 (ucast (drop_bit 32 x)))"

definition hton64 :: "u64 \<Rightarrow> u64" where
  "hton64 x = push_bit 32 (ucast (swap32 (ucast (x AND 0xffffffff)))) OR ucast (swap32 (ucast (drop_bit 32 x)))"

text \<open>The five bytes written.\<close>

definition MakeFourCCString :: "u32 \<Rightarrow> u8 list" where
  "MakeFourCCString x =
     [ucast (drop_bit 24 x), ucast (drop_bit 16 x AND 0xff), ucast (drop_bit 8 x AND 0xff), ucast (x AND 0xff), 0]"

text \<open>A 32-bit value put together from its bytes, and a 64-bit value from its halves.\<close>

definition word4 :: "u8 \<Rightarrow> u8 \<Rightarrow> u8 \<Rightarrow> u8 \<Rightarrow> u32" where
  "word4 a b c d = push_bit 24 (ucast a) OR push_bit 16 (ucast b) OR push_bit 8 (ucast c) OR ucast d"

definition word2 :: "u32 \<Rightarrow> u32 \<Rightarrow> u64" where
  "word2 h l = push_bit 32 (ucast h) OR ucast l"

lemma bit_word4: "bit (word4 a b c d) i \<longleftrightarrow>
    (if i < 8 then bit d i else if i < 16 then bit c (i - 8) else if i < 24 then bit b (i - 16) else i < 32 \<and> bit a (i - 24))"
  using bit_imp_le_length [of d i] bit_imp_le_length [of c "i - 8"] bit_imp_le_length [of b "i - 16"]
    bit_imp_le_length [of a "i - 24"]
  by (auto simp: word4_def bit_simps)

lemma byte_masks: "(0xff00 :: u32) = push_bit 8 (mask 8)" "(0xff0000 :: u32) = push_bit 16 (mask 8)"
  "(0xffffffff :: u64) = mask 32"
  by (simp_all add: mask_eq_exp_minus_1 push_bit_eq_mult)

lemma swap32_word4: "swap32 (word4 a b c d) = word4 d c b a"
proof (rule bit_word_eqI)
  fix i assume "i < LENGTH(32)"
  then consider "i < 8" | "8 \<le> i" "i < 16" | "16 \<le> i" "i < 24" | "24 \<le> i" "i < 32" by fastforce
  then show "bit (swap32 (word4 a b c d)) i = bit (word4 d c b a) i"
    by cases (auto simp: swap32_def byte_masks bit_simps bit_word4)
qed

lemma word4_cases: obtains a b c d where "x = word4 a b c d" "MakeFourCCString x = [a, b, c, d, 0]"
proof -
  let ?a = "ucast (drop_bit 24 x) :: u8" and ?b = "ucast (drop_bit 16 x AND 0xff) :: u8"
    and ?c = "ucast (drop_bit 8 x AND 0xff) :: u8" and ?d = "ucast (x AND 0xff) :: u8"
  have "x = word4 ?a ?b ?c ?d"
    by (rule bit_word_eqI) (auto simp: bit_word4 masks bit_simps)
  then show thesis using that by (simp add: MakeFourCCString_def)
qed

lemma word2_halves: "ucast (word2 h l AND 0xffffffff) = l" "ucast (drop_bit 32 (word2 h l)) = h"
  unfolding byte_masks(3) by (rule bit_word_eqI, auto simp: word2_def bit_simps dest: bit_imp_le_length)+

lemma hton64_word2: "hton64 (word2 h l) = word2 (swap32 l) (swap32 h)"
  by (simp add: hton64_def word2_halves) (simp add: word2_def)

lemma U_AT_words:
  "U32_AT (a # b # c # d # p) = Some (word4 a b c d)" "U32LE_AT (a # b # c # d # p) = Some (word4 d c b a)"
  by (simp_all add: word4_def)

lemma U64LE_swapped: "map_option hton64 (U64LE_AT p) = U64_AT p"
proof (cases "length p < 8")
  case True
  then have "U32_AT (drop 4 p) = None" "U32LE_AT (drop 4 p) = None"
    by (cases "drop 4 p" rule: U32_AT.cases; force dest: arg_cong [where f = length])+
  then show ?thesis by (simp add: U64LE_AT_def U64_AT_def split: option.splits)
next
  case False
  then obtain a b c d e f g h q where "p = a # b # c # d # e # f # g # h # q"
    by (auto simp: not_less Suc_le_length_iff eval_nat_numeral)
  then show ?thesis
    by (simp add: U64LE_AT_def U64_AT_def U_AT_words word2_def [symmetric] hton64_word2 swap32_word4 del: U32_AT.simps U32LE_AT.simps)
qed

lemma hton64_involutive: "hton64 (hton64 x) = x"
proof -
  have "x = word2 (ucast (drop_bit 32 x)) (ucast (x AND 0xffffffff))"
    unfolding byte_masks(3) word2_def by (rule bit_word_eqI) (auto simp: bit_simps)
  moreover have "swap32 (swap32 y) = y" for y by (cases y rule: word4_cases) (simp add: swap32_word4)
  ultimately show ?thesis by (metis hton64_word2)
qed

text \<open>
  The byte readers agree with each other and with the writers, for every value: reading
  the big-endian bytes \<open>MakeFourCCString\<close> writes gives the value back, \<open>ntoh64\<close> undoes \<open>hton64\<close>, and reading eight bytes
  in little-endian order and swapping them is reading them in big-endian order (in particular both are
  defined on the same inputs).
\<close>
theorem bytes_roundtrip:
  "U32_AT (MakeFourCCString x) = Some x \<and> ntoh64 (hton64 y) = y \<and> map_option hton64 (U64LE_AT p) = U64_AT p"
proof -
  have "U32_AT (MakeFourCCString x) = Some x" by (cases x rule: word4_cases) (simp add: U_AT_words del: U32_AT.simps)
  moreover have "ntoh64 (hton64 y) = y" using hton64_involutive by (simp add: ntoh64_def hton64_def)
  ultimately show ?thesis using U64LE_swapped by blast
qed

end
