(* ===== verification/C_String.thy ===== *)
theory C_String
  imports Prelude
begin

text \<open>
  The C string functions the foundation library calls, and \<^verbatim>\<open>AStringUtils.cpp\<close>, its glob matcher.

  A pointer is the list of the bytes from it to the end of the object it points into, so running
  off the end is undefined behaviour (\<open>None\<close>). A comparison ignores case or not through the
  function \<open>f\<close> applied to both characters.
\<close>

section \<open>C strings\<close>

definition tolower :: "u8 \<Rightarrow> u8" where
  "tolower c = (if ch CHR ''A'' \<le> c \<and> c \<le> ch CHR ''Z'' then c + 32 else c)"

definition isspace :: "u8 \<Rightarrow> bool" where
  "isspace c \<longleftrightarrow> c = 32 \<or> 9 \<le> c \<and> c \<le> 13"

fun strlen :: "u8 list \<Rightarrow> nat ub" where
  "strlen [] = None"
| "strlen (c # cs) = (if c = 0 then Some 0 else map_option Suc (strlen cs))"

text \<open>\<open>strncmp\<close> with \<open>f = id\<close>, \<open>strncasecmp\<close> with \<open>f = tolower\<close>.\<close>

fun strncmp :: "(u8 \<Rightarrow> u8) \<Rightarrow> nat \<Rightarrow> u8 list \<Rightarrow> u8 list \<Rightarrow> int ub" where
  "strncmp f 0 a b = Some 0"
| "strncmp f (Suc n) (x # a) (y # b) =
     (if f x \<noteq> f y then Some (int (unat (f x)) - int (unat (f y)))
      else if x = 0 then Some 0
      else strncmp f n a b)"
| "strncmp f (Suc n) _ _ = None"

fun strcmp :: "(u8 \<Rightarrow> u8) \<Rightarrow> u8 list \<Rightarrow> u8 list \<Rightarrow> int ub" where
  "strcmp f (x # a) (y # b) =
     (if f x \<noteq> f y then Some (int (unat (f x)) - int (unat (f y)))
      else if x = 0 then Some 0
      else strcmp f a b)"
| "strcmp f _ _ = None"

definition keeps_nul :: "(u8 \<Rightarrow> u8) \<Rightarrow> bool" where
  "keeps_nul f \<longleftrightarrow> (\<forall>c. f c = 0 \<longleftrightarrow> c = 0)"

lemma keeps_nul_cases: "keeps_nul id" "keeps_nul tolower"
proof -
  have "c + 32 \<noteq> 0" if "ch CHR ''A'' \<le> c" "c \<le> ch CHR ''Z''" for c :: u8
  proof
    assume "c + 32 = 0"
    then have "c = - 32" by (simp add: eq_neg_iff_add_eq_0)
    then show False using that(2) by simp
  qed
  then show "keeps_nul tolower" by (auto simp: keeps_nul_def tolower_def)
qed (simp add: keeps_nul_def)

text \<open>A comparison of \<open>n\<close> characters, none of them a zero in the second string, is a comparison of lists.\<close>

lemma strncmp_eq:
  assumes "keeps_nul f" "n \<le> length a" "n \<le> length b" "0 \<notin> set (take n b)"
  shows "\<exists>r. strncmp f n a b = Some r \<and> (r = 0 \<longleftrightarrow> map f (take n a) = map f (take n b))"
  using assms(2-4)
proof (induction n arbitrary: a b)
  case (Suc n)
  then obtain x a' y b' where ab: "a = x # a'" "b = y # b'" by (cases a; cases b) simp_all
  have "y \<noteq> 0" using Suc.prems(3) by (auto simp: ab)
  then have "f x = f y \<Longrightarrow> x \<noteq> 0" using assms(1) unfolding keeps_nul_def by metis
  then show ?case using Suc.IH [of a' b'] Suc.prems by (cases "f x = f y") (simp_all add: ab word_uint_eq_iff)
qed simp

section \<open>\<^verbatim>\<open>AStringUtils\<close>\<close>

definition Compare :: "u8 list \<Rightarrow> u8 list \<Rightarrow> nat \<Rightarrow> bool \<Rightarrow> int ub" where
  "Compare a b len ignoreCase = (if ignoreCase then strncmp tolower len a b else strncmp id len a b)"

text \<open>The end of the section of the pattern that starts at \<open>globIx\<close>.\<close>

function sectionEnd :: "u8 list \<Rightarrow> nat \<Rightarrow> nat" where
  "sectionEnd glob globIx =
     (if globIx < length glob \<and> glob ! globIx \<noteq> ch CHR ''*''
      then sectionEnd glob (Suc globIx) else globIx)"
  by pat_completeness auto
termination by (relation "measure (\<lambda>(glob, globIx). length glob - globIx)") auto

declare sectionEnd.simps [simp del]

text \<open>The first occurrence of a section at or after \<open>ix\<close>.\<close>

function seekSection :: "u8 list \<Rightarrow> u8 list \<Rightarrow> nat \<Rightarrow> bool \<Rightarrow> nat \<Rightarrow> nat ub" where
  "seekSection str pattern len ignoreCase ix =
     (if ix + len \<le> length str
      then (case Compare (drop ix str) pattern len ignoreCase of
              None \<Rightarrow> None
            | Some r \<Rightarrow> if r \<noteq> 0 then seekSection str pattern len ignoreCase (Suc ix) else Some ix)
      else Some ix)"
  by pat_completeness auto
termination by (relation "measure (\<lambda>(str, pattern, len, ignoreCase, ix). Suc (length str) - ix)") auto

declare seekSection.simps [simp del]

lemma sectionEnd_ge: "globIx \<le> sectionEnd glob globIx"
proof (induction glob globIx rule: sectionEnd.induct)
  case (1 glob globIx)
  then show ?case by (subst sectionEnd.simps) auto
qed

text \<open>The loop over the sections that follow a star; \<open>globIx\<close> is the index of the star.\<close>

function matchSections :: "u8 list \<Rightarrow> u8 list \<Rightarrow> bool \<Rightarrow> nat \<Rightarrow> nat \<Rightarrow> bool ub" where
  "matchSections glob str ignoreCase globIx ix =
     (if globIx < length glob then
        let start = Suc globIx;
            globIx = sectionEnd glob start;
            len = globIx - start;
            pattern = drop start glob
        in
        if globIx = length glob then
          if ix + len > length str then Some False
          else map_option (\<lambda>r. r = 0) (Compare (drop (length str - len) str) pattern len ignoreCase)
        else
          (case seekSection str pattern len ignoreCase ix of
             None \<Rightarrow> None
           | Some ix \<Rightarrow>
               if ix + len > length str then Some False
               else matchSections glob str ignoreCase globIx (ix + len))
      else Some (ix = length str))"
  by pat_completeness auto
termination
proof (relation "measure (\<lambda>(glob, str, ignoreCase, globIx, ix). length glob - globIx)", goal_cases)
  case (2 glob str ignoreCase globIx ix start globIx' len pattern ix')
  then show ?case using sectionEnd_ge [of "Suc globIx" glob] by auto
qed simp

declare matchSections.simps [simp del]

definition MatchesGlob :: "u8 list \<Rightarrow> u8 list \<Rightarrow> bool \<Rightarrow> bool ub" where
  "MatchesGlob glob str ignoreCase =
     (let globIx = sectionEnd glob 0 in
      if length str < globIx then Some False
      else case Compare str glob globIx ignoreCase of
        None \<Rightarrow> None
      | Some r \<Rightarrow> if r \<noteq> 0 then Some False else matchSections glob str ignoreCase globIx globIx)"

section \<open>What a glob means\<close>

definition same_char :: "bool \<Rightarrow> u8 \<Rightarrow> u8 \<Rightarrow> bool" where
  "same_char ignoreCase a b \<longleftrightarrow> (if ignoreCase then tolower a = tolower b else a = b)"

text \<open>A star stands for any sequence of characters, every other character for itself.\<close>

fun glob_matches :: "bool \<Rightarrow> u8 list \<Rightarrow> u8 list \<Rightarrow> bool" where
  "glob_matches ic [] s \<longleftrightarrow> s = []"
| "glob_matches ic (g # gs) s \<longleftrightarrow>
     (if g = ch CHR ''*'' then list_ex (\<lambda>k. glob_matches ic gs (drop k s)) [0..<Suc (length s)]
      else s \<noteq> [] \<and> same_char ic (hd s) g \<and> glob_matches ic gs (tl s))"

section \<open>Correctness of the matcher\<close>

definition norm_char :: "bool \<Rightarrow> u8 \<Rightarrow> u8" where
  "norm_char ic = (if ic then tolower else id)"

lemma same_char_norm: "same_char ic a b \<longleftrightarrow> norm_char ic a = norm_char ic b"
  by (simp add: same_char_def norm_char_def)

text \<open>\<open>p\<close> occurs in \<open>s\<close> at index \<open>k\<close>.\<close>

definition occurs :: "bool \<Rightarrow> u8 list \<Rightarrow> u8 list \<Rightarrow> nat \<Rightarrow> bool" where
  "occurs ic p s k \<longleftrightarrow> k + length p \<le> length s \<and> map (norm_char ic) (take (length p) (drop k s)) = map (norm_char ic) p"

lemma Compare_occurs:
  assumes "k + length p \<le> length s" "0 \<notin> set p" "take (length p) b = p"
  shows "\<exists>r. Compare (drop k s) b (length p) ic = Some r \<and> (r = 0 \<longleftrightarrow> occurs ic p s k)"
proof -
  have "length p \<le> length b" using assms(3) by (metis length_take min.cobounded1)
  then show ?thesis
    using strncmp_eq [OF keeps_nul_cases(1), of "length p" "drop k s" b]
      strncmp_eq [OF keeps_nul_cases(2), of "length p" "drop k s" b] assms
    by (cases ic) (simp_all add: Compare_def occurs_def norm_char_def)
qed

lemma glob_star: "glob_matches ic (ch CHR ''*'' # g) s \<longleftrightarrow> (\<exists>k \<le> length s. glob_matches ic g (drop k s))"
  unfolding glob_matches.simps(2) list_ex_iff by (simp add: atLeast0LessThan lessThan_Suc_atMost Bex_def del: upt_Suc)

lemma glob_literal:
  "ch CHR ''*'' \<notin> set p \<Longrightarrow> glob_matches ic (p @ g) s \<longleftrightarrow> occurs ic p s 0 \<and> glob_matches ic g (drop (length p) s)"
proof (induction p arbitrary: s)
  case (Cons c p)
  then show ?case by (cases s) (auto simp: occurs_def same_char_norm)
qed (simp add: occurs_def)

lemma glob_star_mono:
  assumes "glob_matches ic (ch CHR ''*'' # g) (drop k s)" "j \<le> k"
  shows "glob_matches ic (ch CHR ''*'' # g) (drop j s)"
proof -
  obtain m where m: "m \<le> length (drop k s)" "glob_matches ic g (drop (k + m) s)"
    using assms(1) unfolding glob_star by (auto simp: add.commute)
  show ?thesis
  proof (cases "k \<le> length s")
    case True
    then show ?thesis using m assms(2) unfolding glob_star by (intro exI [of _ "k + m - j"]) simp
  next
    case False
    then have "drop (k + m) s = drop (length s - j) (drop j s)" by simp
    then show ?thesis using m(2) unfolding glob_star by (metis diff_le_self length_drop order_refl)
  qed
qed

lemma sectionEnd_spec:
  "i \<le> length g \<Longrightarrow>
   sectionEnd g i \<le> length g \<and> ch CHR ''*'' \<notin> set (take (sectionEnd g i - i) (drop i g))
   \<and> (sectionEnd g i < length g \<longrightarrow> g ! sectionEnd g i = ch CHR ''*'')"
proof (induction g i rule: sectionEnd.induct)
  case (1 g i)
  show ?case
  proof (cases "i < length g \<and> g ! i \<noteq> ch CHR ''*''")
    case True
    then have e: "sectionEnd g i = sectionEnd g (Suc i)" by (subst sectionEnd.simps) simp
    have "sectionEnd g (Suc i) - i = Suc (sectionEnd g (Suc i) - Suc i)" using sectionEnd_ge [of "Suc i" g] by simp
    then have "take (sectionEnd g i - i) (drop i g) = g ! i # take (sectionEnd g (Suc i) - Suc i) (drop (Suc i) g)"
      using True by (simp add: e Cons_nth_drop_Suc [symmetric])
    then show ?thesis using 1(1) [OF True] True by (simp add: e)
  next
    case False
    then have "sectionEnd g i = i" by (subst sectionEnd.simps) auto
    then show ?thesis using False 1(2) by auto
  qed
qed

lemma seekSection_spec:
  assumes "0 \<notin> set p" "take (length p) b = p"
  shows "\<exists>ix'. seekSection s b (length p) ic ix = Some ix' \<and> ix \<le> ix' \<and> (\<forall>k. ix \<le> k \<longrightarrow> k < ix' \<longrightarrow> \<not> occurs ic p s k)
    \<and> (ix' + length p \<le> length s \<longrightarrow> occurs ic p s ix')"
proof (induction "Suc (length s) - ix" arbitrary: ix rule: less_induct)
  case less
  show ?case
  proof (cases "ix + length p \<le> length s")
    case True
    obtain r where r: "Compare (drop ix s) b (length p) ic = Some r" "r = 0 \<longleftrightarrow> occurs ic p s ix"
      using Compare_occurs [OF True assms] by blast
    show ?thesis
    proof (cases "r = 0")
      case r0: True
      then have "seekSection s b (length p) ic ix = Some ix" using r(1) True by (subst seekSection.simps) simp
      then show ?thesis using r(2) r0 by auto
    next
      case False
      then have "seekSection s b (length p) ic ix = seekSection s b (length p) ic (Suc ix)"
        using r(1) True by (subst seekSection.simps) simp
      moreover have "Suc (length s) - Suc ix < Suc (length s) - ix" using True by simp
      then obtain ix' where "seekSection s b (length p) ic (Suc ix) = Some ix'" "Suc ix \<le> ix'"
        "\<forall>k. Suc ix \<le> k \<longrightarrow> k < ix' \<longrightarrow> \<not> occurs ic p s k" "ix' + length p \<le> length s \<longrightarrow> occurs ic p s ix'"
        using less.hyps [of "Suc ix"] by blast
      moreover have "\<not> occurs ic p s k" if "ix \<le> k" "k < ix'" for k
        using calculation(4) r(2) False that by (cases "k = ix") (simp_all add: Suc_le_eq)
      ultimately show ?thesis by simp
    qed
  next
    case False
    then have "seekSection s b (length p) ic ix = Some ix" by (subst seekSection.simps) simp
    then show ?thesis using False by auto
  qed
qed

lemma matchSections_spec:
  assumes nul: "0 \<notin> set glob"
  shows "globIx < length glob \<Longrightarrow> glob ! globIx = ch CHR ''*'' \<Longrightarrow> ix \<le> length str \<Longrightarrow>
    matchSections glob str ic globIx ix = Some (glob_matches ic (drop globIx glob) (drop ix str))"
proof (induction "length glob - globIx" arbitrary: globIx ix rule: less_induct)
  case less
  define e where "e = sectionEnd glob (Suc globIx)"
  define p where "p = take (e - Suc globIx) (drop (Suc globIx) glob)"
  let ?s = "drop ix str"
  have e: "Suc globIx \<le> e" "e \<le> length glob" "ch CHR ''*'' \<notin> set p" "e < length glob \<longrightarrow> glob ! e = ch CHR ''*''"
    using sectionEnd_ge [of "Suc globIx" glob] sectionEnd_spec [of "Suc globIx" glob] less.prems(1)
    by (auto simp: e_def p_def)
  have len: "length p = e - Suc globIx" using e(2) by (simp add: p_def)
  have p: "0 \<notin> set p" "take (length p) (drop (Suc globIx) glob) = p"
    using nul unfolding len by (auto simp: p_def dest: in_set_takeD in_set_dropD)
  have "drop (Suc globIx) glob = p @ drop e glob"
    using append_take_drop_id [of "e - Suc globIx" "drop (Suc globIx) glob"] e(1) by (simp add: p_def)
  then have dr: "drop globIx glob = ch CHR ''*'' # p @ drop e glob"
    using less.prems(1,2) by (metis Cons_nth_drop_Suc)
  have spec: "glob_matches ic (drop globIx glob) ?s \<longleftrightarrow>
      (\<exists>k. occurs ic p str (ix + k) \<and> glob_matches ic (drop e glob) (drop (ix + k + length p) str))"
  proof -
    have "k \<le> length ?s \<and> occurs ic p (drop k ?s) 0 \<longleftrightarrow> occurs ic p str (ix + k)" for k
      using less.prems(3) by (auto simp: occurs_def add.commute)
    moreover have "drop (length p) (drop k ?s) = drop (ix + k + length p) str" for k by (simp add: add.commute add.left_commute)
    ultimately show ?thesis unfolding dr glob_star glob_literal [OF e(3)] by metis
  qed
  show ?case
  proof (cases "e = length glob")
    case True
    have "glob_matches ic (drop globIx glob) ?s \<longleftrightarrow> ix + length p \<le> length str \<and> occurs ic p str (length str - length p)"
    proof
      assume "glob_matches ic (drop globIx glob) ?s"
      then obtain k where "occurs ic p str (ix + k)" "drop (ix + k + length p) str = []"
        unfolding spec using True by auto
      moreover from this have "length str - length p = ix + k" by (auto simp: occurs_def)
      ultimately show "ix + length p \<le> length str \<and> occurs ic p str (length str - length p)" by (simp add: occurs_def)
    next
      assume "ix + length p \<le> length str \<and> occurs ic p str (length str - length p)"
      then show "glob_matches ic (drop globIx glob) ?s"
        unfolding spec using True by (intro exI [of _ "length str - length p - ix"]) simp
    qed
    moreover have "\<exists>r. Compare (drop (length str - length p) str) (drop (Suc globIx) glob) (length p) ic = Some r
        \<and> (r = 0 \<longleftrightarrow> occurs ic p str (length str - length p))" if "ix + length p \<le> length str"
      using Compare_occurs [OF _ p] that by simp
    moreover have "matchSections glob str ic globIx ix =
        (if ix + length p > length str then Some False
         else map_option (\<lambda>r. r = 0) (Compare (drop (length str - length p) str) (drop (Suc globIx) glob) (length p) ic))"
      unfolding len using True less.prems(1) by (subst matchSections.simps) (simp only: Let_def e_def [symmetric] if_True refl)
    ultimately show ?thesis by (auto simp: not_less)
  next
    case False
    then have star: "drop e glob = ch CHR ''*'' # drop (Suc e) glob" "e < length glob"
      using e(2,4) by (metis Cons_nth_drop_Suc le_neq_implies_less, simp)
    obtain ix' where seek: "seekSection str (drop (Suc globIx) glob) (length p) ic ix = Some ix'" "ix \<le> ix'"
      "\<forall>k. ix \<le> k \<longrightarrow> k < ix' \<longrightarrow> \<not> occurs ic p str k" "ix' + length p \<le> length str \<longrightarrow> occurs ic p str ix'"
      using seekSection_spec [OF p] by blast
    have step: "matchSections glob str ic globIx ix =
        (if ix' + length p > length str then Some False else matchSections glob str ic e (ix' + length p))"
      using False less.prems(1) seek(1)
      by (subst matchSections.simps) (simp add: Let_def e_def [symmetric] len [symmetric])
    have first: "ix' \<le> ix + k" if "occurs ic p str (ix + k)" for k using seek(3) that by (meson le_add1 not_le)
    show ?thesis
    proof (cases "ix' + length p \<le> length str")
      case True
      have "glob_matches ic (drop globIx glob) ?s \<longleftrightarrow> glob_matches ic (drop e glob) (drop (ix' + length p) str)"
        unfolding spec
      proof
        assume "\<exists>k. occurs ic p str (ix + k) \<and> glob_matches ic (drop e glob) (drop (ix + k + length p) str)"
        then show "glob_matches ic (drop e glob) (drop (ix' + length p) str)"
          using first glob_star_mono unfolding star(1) by (meson add_le_cancel_right)
      next
        assume "glob_matches ic (drop e glob) (drop (ix' + length p) str)"
        then show "\<exists>k. occurs ic p str (ix + k) \<and> glob_matches ic (drop e glob) (drop (ix + k + length p) str)"
          using seek(2,4) True by (intro exI [of _ "ix' - ix"]) simp
      qed
      moreover have "matchSections glob str ic e (ix' + length p) = Some (glob_matches ic (drop e glob) (drop (ix' + length p) str))"
        by (rule less.hyps) (use e(1,4) star(2) True less.prems(1) in auto)
      ultimately show ?thesis using step True by simp
    next
      case no: False
      then have "\<not> glob_matches ic (drop globIx glob) ?s"
        unfolding spec using first by (auto simp: occurs_def)
      then show ?thesis using step no by simp
    qed
  qed
qed

text \<open>
  C36: the glob matcher finds a match exactly when there is one. For a pattern without zero bytes and
  any string, \<open>MatchesGlob\<close> reads inside both, terminates, and its single greedy pass (each
  section between stars is taken at its first occurrence, the last one at the end of the string) answers
  whether the string can be split so that every star stands for some sequence of characters, with or
  without regard to case.
\<close>
theorem MatchesGlob_exact:
  assumes "0 \<notin> set glob"
  shows "MatchesGlob glob str ignoreCase = Some (glob_matches ignoreCase glob str)"
proof -
  define e where "e = sectionEnd glob 0"
  define p where "p = take e glob"
  have e: "e \<le> length glob" "ch CHR ''*'' \<notin> set p" "e < length glob \<longrightarrow> glob ! e = ch CHR ''*''"
    using sectionEnd_spec [of 0 glob] by (auto simp: e_def p_def)
  have p: "length p = e" "0 \<notin> set p" "take (length p) glob = p" "glob = p @ drop e glob"
    using e(1) assms by (auto simp: p_def dest: in_set_takeD)
  have spec: "glob_matches ignoreCase glob str \<longleftrightarrow> occurs ignoreCase p str 0 \<and> glob_matches ignoreCase (drop e glob) (drop e str)"
    using glob_literal [OF e(2), of ignoreCase "drop e glob" str] p(1,4) by simp
  show ?thesis
  proof (cases "occurs ignoreCase p str 0")
    case True
    then have le: "e \<le> length str" by (simp add: occurs_def p(1))
    then obtain r where "Compare str glob e ignoreCase = Some r" "r = 0"
      using Compare_occurs [of 0 p str glob ignoreCase] True p by auto
    then have "MatchesGlob glob str ignoreCase = matchSections glob str ignoreCase e e"
      using le by (simp add: MatchesGlob_def e_def [symmetric])
    also have "\<dots> = Some (glob_matches ignoreCase (drop e glob) (drop e str))"
    proof (cases "e < length glob")
      case True
      then show ?thesis using matchSections_spec [OF assms] e(3) le by simp
    next
      case False
      then show ?thesis using e(1) le by (subst matchSections.simps) auto
    qed
    finally show ?thesis using spec True by simp
  next
    case False
    then show ?thesis
      using Compare_occurs [of 0 p str glob ignoreCase] p spec
      by (auto simp: MatchesGlob_def e_def [symmetric])
  qed
qed

text \<open>The pattern is \<open>a*B*c\<close> and the string \<open>axbbc\<close>.\<close>

theorem MatchesGlob_exact_witness:
  "MatchesGlob [97, 42, 66, 42, 99] [97, 120, 98, 98, 99] True = Some True"
proof -
  have "glob_matches True [97, 42, 66, 42, 99] [97, 120, 98, 98, 99]" by code_simp
  then show ?thesis using MatchesGlob_exact [of "[97, 42, 66, 42, 99]" "[97, 120, 98, 98, 99]" True] by simp
qed

end
