(* ===== verification/A_Message.thy ===== *)
theory A_Message
  imports Prelude
begin

text \<open>
  \<^verbatim>\<open>AMessage.cpp\<close> of the foundation library: the typed items of a message, and the operations that
  copy, compare and merge messages.

  A message is the list of its items in the order of the vector \<open>mItems\<close>. A name is the list of
  the characters of the C string, without its zero. A nested message is a value and not a
  reference, because no operation of this file changes a message it finds as an item. Floating
  point values are their bit patterns. A failed \<open>CHECK\<close> and a null dereference are undefined
  (\<open>None\<close>).
\<close>

section \<open>Data\<close>

type_synonym name = "u8 list"

text \<open>
  What a message keeps of its target: the identifier, and weak pointers to the handler and its
  looper. A handler is seen through its identifier, its address and its looper.
\<close>

record target_ref =
  mTarget :: int
  mHandler :: "nat option"
  mLooper :: "nat option"

record handler_ref =
  mID :: int
  self :: nat
  getLooper :: "nat option"

datatype item_value =
    Int32 int
  | Int64 int
  | Size u64
  | Float u32
  | Double u64
  | Pointer u64
  | String "u8 list"
  | Object "nat option"
  | Message "message option"
  | Rect int int int int
  | Buffer "u8 list option"
and message =
  AMessage (what: u32) (target: target_ref) (mItems: "(name \<times> item_value) list")

datatype item_type =
    kTypeInt32 | kTypeInt64 | kTypeSize | kTypeFloat | kTypeDouble | kTypePointer | kTypeString
  | kTypeObject | kTypeMessage | kTypeRect | kTypeBuffer

fun mType :: "item_value \<Rightarrow> item_type" where
  "mType (Int32 _) = kTypeInt32"
| "mType (Int64 _) = kTypeInt64"
| "mType (Size _) = kTypeSize"
| "mType (Float _) = kTypeFloat"
| "mType (Double _) = kTypeDouble"
| "mType (Pointer _) = kTypePointer"
| "mType (String _) = kTypeString"
| "mType (Object _) = kTypeObject"
| "mType (Message _) = kTypeMessage"
| "mType (Rect _ _ _ _) = kTypeRect"
| "mType (Buffer _) = kTypeBuffer"

datatype status = OK | BAD_INDEX | BAD_VALUE | ALREADY_EXISTS

definition kMaxNumItems :: nat where
  "kMaxNumItems = 256"

definition setItems :: "(name \<times> item_value) list \<Rightarrow> message \<Rightarrow> message" where
  "setItems items m = AMessage (what m) (target m) items"

lemma setItems_simps [simp]:
  "what (setItems is m) = what m" "target (setItems is m) = target m" "mItems (setItems is m) = is"
  "setItems is (setItems js m) = setItems is m" "setItems (mItems m) m = m"
  by (simp_all add: setItems_def)

section \<open>Items\<close>

definition noTarget :: target_ref where
  "noTarget = \<lparr>mTarget = 0, mHandler = None, mLooper = None\<rparr>"

definition targetOf :: "handler_ref option \<Rightarrow> target_ref" where
  "targetOf handler =
     (case handler of
        None \<Rightarrow> noTarget
      | Some h \<Rightarrow> \<lparr>mTarget = mID h, mHandler = Some (self h), mLooper = getLooper h\<rparr>)"

definition newMessage :: message where
  "newMessage = AMessage 0 noTarget []"

definition newMessageFor :: "u32 \<Rightarrow> handler_ref option \<Rightarrow> message" where
  "newMessageFor w handler = AMessage w (targetOf handler) []"

definition setWhat :: "u32 \<Rightarrow> message \<Rightarrow> message" where
  "setWhat w m = AMessage w (target m) (mItems m)"

definition setTarget :: "handler_ref option \<Rightarrow> message \<Rightarrow> message" where
  "setTarget handler m = AMessage (what m) (targetOf handler) (mItems m)"

definition clear :: "message \<Rightarrow> message" where
  "clear m = setItems [] m"

fun findIndex :: "name \<Rightarrow> (name \<times> item_value) list \<Rightarrow> nat" where
  "findIndex name [] = 0"
| "findIndex name ((n, v) # items) =
     (if length name \<noteq> length n then Suc (findIndex name items)
      else if n = name then 0
      else Suc (findIndex name items))"

definition findItemIndex :: "name \<Rightarrow> message \<Rightarrow> nat" where
  "findItemIndex name m = findIndex name (mItems m)"

text \<open>
  \<open>allocateItem\<close> with the assignment of type and value that every caller makes to the blank item it
  returns.
\<close>

definition allocateItem :: "name \<Rightarrow> item_value \<Rightarrow> message \<Rightarrow> message ub" where
  "allocateItem name v m =
     (let i = findItemIndex name m in
      if i < length (mItems m) then Some (setItems ((mItems m)[i := (name, v)]) m)
      else if length (mItems m) < kMaxNumItems then Some (setItems (mItems m @ [(name, v)]) m)
      else None)"

definition findItem :: "name \<Rightarrow> item_type \<Rightarrow> message \<Rightarrow> item_value option" where
  "findItem name type m =
     (let i = findItemIndex name m in
      if i < length (mItems m)
      then (let item = snd (mItems m ! i) in if mType item = type then Some item else None)
      else None)"

definition contains :: "name \<Rightarrow> message \<Rightarrow> bool" where
  "contains name m \<longleftrightarrow> findItemIndex name m < length (mItems m)"

definition findAsInt64 :: "name \<Rightarrow> message \<Rightarrow> int option" where
  "findAsInt64 name m =
     (let i = findItemIndex name m in
      if i < length (mItems m)
      then (case snd (mItems m ! i) of Int64 x \<Rightarrow> Some x | Int32 x \<Rightarrow> Some x | _ \<Rightarrow> None)
      else None)"

text \<open>The setters, and the finders of the same types.\<close>

definition setInt32 :: "name \<Rightarrow> int \<Rightarrow> message \<Rightarrow> message ub" where
  "setInt32 name x = allocateItem name (Int32 x)"

definition setInt64 :: "name \<Rightarrow> int \<Rightarrow> message \<Rightarrow> message ub" where
  "setInt64 name x = allocateItem name (Int64 x)"

definition setSize :: "name \<Rightarrow> u64 \<Rightarrow> message \<Rightarrow> message ub" where
  "setSize name x = allocateItem name (Size x)"

definition setFloat :: "name \<Rightarrow> u32 \<Rightarrow> message \<Rightarrow> message ub" where
  "setFloat name x = allocateItem name (Float x)"

definition setDouble :: "name \<Rightarrow> u64 \<Rightarrow> message \<Rightarrow> message ub" where
  "setDouble name x = allocateItem name (Double x)"

definition setPointer :: "name \<Rightarrow> u64 \<Rightarrow> message \<Rightarrow> message ub" where
  "setPointer name x = allocateItem name (Pointer x)"

text \<open>\<open>s\<close> is the string with its terminating zero; a negative length means the whole string.\<close>

definition setString :: "name \<Rightarrow> u8 list \<Rightarrow> int \<Rightarrow> message \<Rightarrow> message ub" where
  "setString name s len =
     allocateItem name
       (String (if len < 0 then takeWhile (\<lambda>c. c \<noteq> 0) s else take (nat len) s))"

definition setObject :: "name \<Rightarrow> nat option \<Rightarrow> message \<Rightarrow> message ub" where
  "setObject name obj = allocateItem name (Object obj)"

definition setBuffer :: "name \<Rightarrow> u8 list option \<Rightarrow> message \<Rightarrow> message ub" where
  "setBuffer name buffer = allocateItem name (Buffer buffer)"

definition setMessage :: "name \<Rightarrow> message option \<Rightarrow> message \<Rightarrow> message ub" where
  "setMessage name msg = allocateItem name (Message msg)"

definition setRect :: "name \<Rightarrow> int \<Rightarrow> int \<Rightarrow> int \<Rightarrow> int \<Rightarrow> message \<Rightarrow> message ub" where
  "setRect name l t r b = allocateItem name (Rect l t r b)"

definition findInt32 :: "name \<Rightarrow> message \<Rightarrow> int option" where
  "findInt32 name m = (case findItem name kTypeInt32 m of Some (Int32 x) \<Rightarrow> Some x | _ \<Rightarrow> None)"

definition findInt64 :: "name \<Rightarrow> message \<Rightarrow> int option" where
  "findInt64 name m = (case findItem name kTypeInt64 m of Some (Int64 x) \<Rightarrow> Some x | _ \<Rightarrow> None)"

definition findSize :: "name \<Rightarrow> message \<Rightarrow> u64 option" where
  "findSize name m = (case findItem name kTypeSize m of Some (Size x) \<Rightarrow> Some x | _ \<Rightarrow> None)"

definition findFloat :: "name \<Rightarrow> message \<Rightarrow> u32 option" where
  "findFloat name m = (case findItem name kTypeFloat m of Some (Float x) \<Rightarrow> Some x | _ \<Rightarrow> None)"

definition findDouble :: "name \<Rightarrow> message \<Rightarrow> u64 option" where
  "findDouble name m = (case findItem name kTypeDouble m of Some (Double x) \<Rightarrow> Some x | _ \<Rightarrow> None)"

definition findPointer :: "name \<Rightarrow> message \<Rightarrow> u64 option" where
  "findPointer name m = (case findItem name kTypePointer m of Some (Pointer x) \<Rightarrow> Some x | _ \<Rightarrow> None)"

definition findString :: "name \<Rightarrow> message \<Rightarrow> u8 list option" where
  "findString name m = (case findItem name kTypeString m of Some (String x) \<Rightarrow> Some x | _ \<Rightarrow> None)"

definition findObject :: "name \<Rightarrow> message \<Rightarrow> nat option option" where
  "findObject name m = (case findItem name kTypeObject m of Some (Object x) \<Rightarrow> Some x | _ \<Rightarrow> None)"

definition findBuffer :: "name \<Rightarrow> message \<Rightarrow> u8 list option option" where
  "findBuffer name m = (case findItem name kTypeBuffer m of Some (Buffer x) \<Rightarrow> Some x | _ \<Rightarrow> None)"

definition findMessage :: "name \<Rightarrow> message \<Rightarrow> message option option" where
  "findMessage name m = (case findItem name kTypeMessage m of Some (Message x) \<Rightarrow> Some x | _ \<Rightarrow> None)"

definition findRect :: "name \<Rightarrow> message \<Rightarrow> (int \<times> int \<times> int \<times> int) option" where
  "findRect name m =
     (case findItem name kTypeRect m of Some (Rect l t r b) \<Rightarrow> Some (l, t, r, b) | _ \<Rightarrow> None)"

section \<open>Entries by index\<close>

definition countEntries :: "message \<Rightarrow> nat" where
  "countEntries m = length (mItems m)"

definition getEntryNameAt :: "nat \<Rightarrow> message \<Rightarrow> name option \<times> item_type" where
  "getEntryNameAt index m =
     (if index \<ge> length (mItems m) then (None, kTypeInt32)
      else (Some (fst (mItems m ! index)), mType (snd (mItems m ! index))))"

text \<open>An unused \<open>ItemData\<close> is \<open>None\<close>.\<close>

definition getEntryAt :: "nat \<Rightarrow> message \<Rightarrow> item_value option" where
  "getEntryAt index m = (if index < length (mItems m) then Some (snd (mItems m ! index)) else None)"

text \<open>A null name is \<open>None\<close>.\<close>

definition findEntryByName :: "name option \<Rightarrow> message \<Rightarrow> nat" where
  "findEntryByName name m = (case name of None \<Rightarrow> countEntries m | Some n \<Rightarrow> findItemIndex n m)"

definition setEntryNameAt :: "nat \<Rightarrow> name option \<Rightarrow> message \<Rightarrow> status \<times> message" where
  "setEntryNameAt index name m =
     (if index \<ge> length (mItems m) then (BAD_INDEX, m)
      else case name of
        None \<Rightarrow> (BAD_VALUE, m)
      | Some n \<Rightarrow>
          if n = fst (mItems m ! index) then (OK, m)
          else if findItemIndex n m < length (mItems m) then (ALREADY_EXISTS, m)
          else (OK, setItems ((mItems m)[index := (n, snd (mItems m ! index))]) m))"

definition setEntryAt :: "nat \<Rightarrow> item_value option \<Rightarrow> message \<Rightarrow> status \<times> message" where
  "setEntryAt index item m =
     (if index \<ge> length (mItems m) then (BAD_INDEX, m)
      else case item of
        None \<Rightarrow> (BAD_VALUE, m)
      | Some v \<Rightarrow> (OK, setItems ((mItems m)[index := (fst (mItems m ! index), v)]) m))"

definition removeEntryAt :: "nat \<Rightarrow> message \<Rightarrow> status \<times> message" where
  "removeEntryAt index m =
     (if index \<ge> length (mItems m) then (BAD_INDEX, m)
      else
        let lastIndex = length (mItems m) - 1;
            items = (if index < lastIndex then (mItems m)[index := mItems m ! lastIndex] else mItems m)
        in (OK, setItems (butlast items) m))"

definition removeEntryByName :: "name option \<Rightarrow> message \<Rightarrow> status \<times> message" where
  "removeEntryByName name m =
     (case name of
        None \<Rightarrow> (BAD_VALUE, m)
      | Some n \<Rightarrow>
          let index = findEntryByName name m in
          if index \<ge> length (mItems m) then (BAD_INDEX, m) else removeEntryAt index m)"

definition setItem :: "name \<Rightarrow> item_value option \<Rightarrow> message \<Rightarrow> message ub" where
  "setItem name item m = (case item of None \<Rightarrow> Some m | Some v \<Rightarrow> allocateItem name v m)"

definition findItemData :: "name option \<Rightarrow> message \<Rightarrow> item_value option" where
  "findItemData name m = getEntryAt (findEntryByName name m) m"

text \<open>\<open>other\<close> is another message than the one extended, or null.\<close>

definition extend :: "message option \<Rightarrow> message \<Rightarrow> message ub" where
  "extend other m =
     (case other of
        None \<Rightarrow> Some m
      | Some src \<Rightarrow> foldM (\<lambda>(n, v) m. allocateItem n v m) (mItems src) m)"

section \<open>Copying\<close>

text \<open>
  \<open>handlers\<close> gives the handlers that still exist, by address: \<open>promote\<close> is what a weak pointer to a
  handler gives, null when the handler is gone. Taking a reference to a null object, buffer or message, as the
  copy does without a test, is undefined.
\<close>

definition promote :: "(nat \<Rightarrow> handler_ref option) \<Rightarrow> nat option \<Rightarrow> handler_ref option" where
  "promote handlers h = (case h of None \<Rightarrow> None | Some i \<Rightarrow> handlers i)"

fun dup :: "(nat \<Rightarrow> handler_ref option) \<Rightarrow> message \<Rightarrow> message ub"
  and dupItems :: "(nat \<Rightarrow> handler_ref option) \<Rightarrow> (name \<times> item_value) list \<Rightarrow> (name \<times> item_value) list ub"
  and dupValue :: "(nat \<Rightarrow> handler_ref option) \<Rightarrow> item_value \<Rightarrow> item_value ub" where
  "dup handlers (AMessage w t items) =
     map_option (AMessage w (targetOf (promote handlers (mHandler t)))) (dupItems handlers items)"
| "dupItems handlers [] = Some []"
| "dupItems handlers ((n, v) # items) =
     (case dupValue handlers v of
        None \<Rightarrow> None
      | Some v' \<Rightarrow> map_option (\<lambda>items'. (n, v') # items') (dupItems handlers items))"
| "dupValue handlers (Object obj) = map_option (\<lambda>x. Object (Some x)) obj"
| "dupValue handlers (Buffer buf) = map_option (\<lambda>x. Buffer (Some x)) buf"
| "dupValue handlers (Message None) = None"
| "dupValue handlers (Message (Some m)) = map_option (\<lambda>x. Message (Some x)) (dup handlers m)"
| "dupValue handlers v = Some v"

text \<open>The item that carries the token of a sender that waits for a reply.\<close>

definition replyID :: name where
  "replyID = map of_char ''replyID''"

text \<open>The token found and the message without it; the token is null when there is none to answer.\<close>

definition senderAwaitsResponse :: "message \<Rightarrow> (nat option \<times> message) ub" where
  "senderAwaitsResponse m =
     (case findObject replyID m of
        None \<Rightarrow> Some (None, m)
      | Some token \<Rightarrow> map_option (Pair token) (setObject replyID None m))"

section \<open>Differences\<close>

text \<open>IEEE comparison of bit patterns: no NaN equals anything, and both zeros are equal.\<close>

definition is_nan32 :: "u32 \<Rightarrow> bool" where
  "is_nan32 x \<longleftrightarrow> unat x mod 2 ^ 31 > 0x7f800000"

definition is_nan64 :: "u64 \<Rightarrow> bool" where
  "is_nan64 x \<longleftrightarrow> unat x mod 2 ^ 63 > 0x7ff0000000000000"

definition float_eq :: "u32 \<Rightarrow> u32 \<Rightarrow> bool" where
  "float_eq x y \<longleftrightarrow> \<not> is_nan32 x \<and> \<not> is_nan32 y \<and> (x = y \<or> unat x mod 2 ^ 31 = 0 \<and> unat y mod 2 ^ 31 = 0)"

definition double_eq :: "u64 \<Rightarrow> u64 \<Rightarrow> bool" where
  "double_eq x y \<longleftrightarrow> \<not> is_nan64 x \<and> \<not> is_nan64 y \<and> (x = y \<or> unat x mod 2 ^ 63 = 0 \<and> unat y mod 2 ^ 63 = 0)"

text \<open>
  The conversion of an unsigned integer to the nearest floating point number with a mantissa of
  \<open>p\<close> bits (ties to even), as a bit pattern. A mantissa rounded up to the next power of two carries
  into the exponent.
\<close>

fun highest_bit :: "nat \<Rightarrow> nat" where
  "highest_bit n = (if n \<le> 1 then 0 else Suc (highest_bit (n div 2)))"

declare highest_bit.simps [simp del]

definition int_to_float :: "nat \<Rightarrow> nat \<Rightarrow> nat \<Rightarrow> nat" where
  "int_to_float p bias x =
     (if x = 0 then 0
      else
        let e = highest_bit x;
            mantissa = (if e \<le> p then x * 2 ^ (p - e)
                        else
                          let q = x div 2 ^ (e - p); r = x mod 2 ^ (e - p); half = 2 ^ (e - p - 1)
                          in if r > half \<or> r = half \<and> odd q then q + 1 else q)
        in (e + bias) * 2 ^ p + (mantissa - 2 ^ p))"

definition size_to_float :: "u64 \<Rightarrow> u32" where
  "size_to_float x = of_nat (int_to_float 23 127 (unat x))"

definition size_to_double :: "u64 \<Rightarrow> u64" where
  "size_to_double x = of_nat (int_to_float 52 1023 (unat x))"

text \<open>
  Reading the member \<open>sizeValue\<close> of the union when it holds a float: the low half is the float, the
  high half (\<open>stale\<close>, by name) whatever was there. When it holds a double it is the double.
\<close>

definition sizeOfFloat :: "u32 \<Rightarrow> u32 \<Rightarrow> u64" where
  "sizeOfFloat stale x = of_nat (unat stale * 2 ^ 32 + unat x)"

fun changesFrom :: "(nat \<Rightarrow> handler_ref option) \<Rightarrow> (name \<Rightarrow> u32) \<Rightarrow> bool \<Rightarrow> message \<Rightarrow> message option \<Rightarrow> message ub"
  and changedItems :: "(nat \<Rightarrow> handler_ref option) \<Rightarrow> (name \<Rightarrow> u32) \<Rightarrow> bool \<Rightarrow> (name \<times> item_value) list \<Rightarrow> message
      \<Rightarrow> message \<Rightarrow> message ub"
  and changedItem :: "(nat \<Rightarrow> handler_ref option) \<Rightarrow> (name \<Rightarrow> u32) \<Rightarrow> bool \<Rightarrow> name \<Rightarrow> item_value \<Rightarrow> item_value option
      \<Rightarrow> message \<Rightarrow> message ub" where
  "changesFrom handlers stale deep this None = Some this"
| "changesFrom handlers stale deep (AMessage w t items) (Some other) =
     (let diff = newMessage;
          diff = (if w \<noteq> what other then setWhat w diff else diff);
          diff = (if mHandler t \<noteq> mHandler (target other)
                  then setTarget (promote handlers (mHandler t)) diff else diff)
      in changedItems handlers stale deep items other diff)"
| "changedItems handlers stale deep [] other diff = Some diff"
| "changedItems handlers stale deep ((n, v) # items) other diff =
     (case changedItem handlers stale deep n v (findItem n (mType v) other) diff of
        None \<Rightarrow> None
      | Some diff \<Rightarrow> changedItems handlers stale deep items other diff)"
| "changedItem handlers stale deep n (Float x) oitem diff =
     (if (case oitem of Some (Float y) \<Rightarrow> \<not> float_eq x y | _ \<Rightarrow> True)
      then setFloat n (size_to_float (sizeOfFloat (stale n) x)) diff else Some diff)"
| "changedItem handlers stale deep n (Double x) oitem diff =
     (if (case oitem of Some (Double y) \<Rightarrow> \<not> double_eq x y | _ \<Rightarrow> True)
      then setDouble n (size_to_double x) diff else Some diff)"
| "changedItem handlers stale deep n (Buffer None) oitem diff =
     (if oitem = Some (Buffer None) then Some diff else setBuffer n None diff)"
| "changedItem handlers stale deep n (Buffer (Some b)) oitem diff =
     (if (case oitem of Some (Buffer (Some c)) \<Rightarrow> length b \<noteq> length c \<or> b \<noteq> c | _ \<Rightarrow> True)
      then setBuffer n (Some b) diff else Some diff)"
| "changedItem handlers stale deep n (Message None) oitem diff =
     (if oitem = Some (Message None) then Some diff else setMessage n None diff)"
| "changedItem handlers stale deep n (Message (Some m)) oitem diff =
     (case changesFrom handlers stale deep m (case oitem of Some (Message oMsg) \<Rightarrow> oMsg | _ \<Rightarrow> None) of
        None \<Rightarrow> None
      | Some changes \<Rightarrow>
          if countEntries changes \<noteq> 0 then setMessage n (Some (if deep then changes else m)) diff
          else Some diff)"
| "changedItem handlers stale deep n v oitem diff =
     (if oitem = Some v then Some diff else allocateItem n v diff)"

end
