(* ===== verification/Message_Properties.thy ===== *)
theory Message_Properties
  imports A_Message
begin

text \<open>
  The items of a message as a finite map. The locale \<open>keyed_store\<close> is the interface of a store
  of values by key whose insertion may fail; \<open>ms\<close> interprets it on messages. Lookup,
  removal, merging, copying and comparing messages are characterised by the map.
\<close>

section \<open>The interface\<close>

locale keyed_store =
  fixes valid :: "'s \<Rightarrow> bool"
    and lookup :: "'s \<Rightarrow> 'k \<Rightarrow> 'v option"
    and store :: "'k \<Rightarrow> 'v \<Rightarrow> 's \<Rightarrow> 's option"
  assumes store_valid: "valid s \<Longrightarrow> store k v s = Some s' \<Longrightarrow> valid s'"
    and lookup_store: "valid s \<Longrightarrow> store k v s = Some s' \<Longrightarrow> lookup s' = (lookup s)(k \<mapsto> v)"
begin

text \<open>Storing a list of entries: the last entry of a key wins.\<close>

lemma lookup_foldM:
  "valid s \<Longrightarrow> foldM (\<lambda>(k, v) s. store k v s) kvs s = Some s' \<Longrightarrow>
   valid s' \<and> lookup s' = lookup s ++ map_of (rev kvs)"
proof (induction kvs arbitrary: s)
  case (Cons kv kvs)
  obtain k v where kv: "kv = (k, v)" by (cases kv)
  with Cons.prems obtain s1 where s1: "store k v s = Some s1" "foldM (\<lambda>(k, v) s. store k v s) kvs s1 = Some s'"
    by (auto split: option.splits)
  have "valid s1" "lookup s1 = (lookup s)(k \<mapsto> v)"
    using store_valid [OF Cons.prems(1) s1(1)] lookup_store [OF Cons.prems(1) s1(1)] by simp_all
  then have "valid s'" "lookup s' = (lookup s)(k \<mapsto> v) ++ map_of (rev kvs)" using Cons.IH [OF _ s1(2)] by metis+
  then show ?case by (auto simp: kv map_add_def fun_eq_iff split: option.splits)
qed simp

end

section \<open>The map of a message\<close>

definition msg_ok :: "message \<Rightarrow> bool" where
  "msg_ok m \<longleftrightarrow> distinct (map fst (mItems m)) \<and> length (mItems m) \<le> kMaxNumItems"

definition items_of :: "message \<Rightarrow> name \<rightharpoonup> item_value" where
  "items_of m = map_of (mItems m)"

lemma findIndex_le: "findIndex n items \<le> length items"
  by (induction items) auto

lemma findIndex_found: "findIndex n items < length items \<longleftrightarrow> n \<in> fst ` set items"
  by (induction items) (auto split: if_splits)

lemma findIndex_value: "findIndex n items < length items \<Longrightarrow>
    fst (items ! findIndex n items) = n \<and> map_of items n = Some (snd (items ! findIndex n items))"
  by (induction items) (auto split: if_splits)

lemma findIndex_update: "findIndex n items < length items \<Longrightarrow>
    map_of (items[findIndex n items := (n, v)]) = (map_of items)(n \<mapsto> v)
    \<and> map fst (items[findIndex n items := (n, v)]) = map fst items"
  by (induction items) (auto split: if_splits simp: fun_upd_twist)

lemma map_of_none: "\<not> findIndex n items < length items \<Longrightarrow> map_of items n = None"
  by (simp add: findIndex_found map_of_eq_None_iff)

lemma findItem_map: "findItem n t m = (case items_of m n of Some v \<Rightarrow> if mType v = t then Some v else None | None \<Rightarrow> None)"
  using findIndex_value [of n "mItems m"] map_of_none [of n "mItems m"]
  by (auto simp: findItem_def findItemIndex_def Let_def items_of_def)

lemma findItemData_map: "findItemData (Some n) m = items_of m n"
  using findIndex_value [of n "mItems m"] map_of_none [of n "mItems m"]
  by (auto simp: findItemData_def getEntryAt_def findEntryByName_def findItemIndex_def items_of_def)

lemma allocateItem_map:
  assumes "allocateItem n v m = Some m'"
  shows "items_of m' = (items_of m)(n \<mapsto> v)" "msg_ok m \<Longrightarrow> msg_ok m'" "what m' = what m" "target m' = target m"
proof -
  have "items_of m' = (items_of m)(n \<mapsto> v) \<and> (msg_ok m \<longrightarrow> msg_ok m') \<and> what m' = what m \<and> target m' = target m"
  proof (cases "findItemIndex n m < length (mItems m)")
    case True
    then show ?thesis
      using assms findIndex_update [of n "mItems m" v]
      by (auto simp: allocateItem_def findItemIndex_def items_of_def msg_ok_def)
  next
    case False
    then have "n \<notin> fst ` set (mItems m)" by (simp add: findItemIndex_def findIndex_found)
    then have "map_of (mItems m) n = None" by (simp add: map_of_eq_None_iff)
    then have "map_of (mItems m @ [(n, v)]) = (map_of (mItems m))(n \<mapsto> v)"
      by (auto simp: map_add_def fun_eq_iff split: option.splits)
    then show ?thesis
      using assms False \<open>n \<notin> fst ` set (mItems m)\<close>
      by (auto simp: allocateItem_def Let_def items_of_def msg_ok_def split: if_splits)
  qed
  then show "items_of m' = (items_of m)(n \<mapsto> v)" "msg_ok m \<Longrightarrow> msg_ok m'" "what m' = what m" "target m' = target m"
    by blast+
qed

lemma allocateItem_fails: "allocateItem n v m = None \<longleftrightarrow> items_of m n = None \<and> kMaxNumItems \<le> length (mItems m)"
  using findIndex_value [of n "mItems m"] map_of_none [of n "mItems m"]
  by (auto simp: allocateItem_def Let_def items_of_def findItemIndex_def)

interpretation ms: keyed_store msg_ok items_of allocateItem
  by unfold_locales (simp_all add: allocateItem_map)

text \<open>Messages with distinct names and the same items have the same map.\<close>

lemma map_of_same_set: "distinct (map fst xs) \<Longrightarrow> distinct (map fst ys) \<Longrightarrow> set xs = set ys \<Longrightarrow> map_of xs = map_of ys"
  by (rule ext) (metis map_of_eq_None_iff map_of_eq_Some_iff not_Some_eq)

lemma map_of_filter_key: "map_of (filter (\<lambda>kv. fst kv \<noteq> k) xs) = (map_of xs)(k := None)"
  by (induction xs) auto

lemma removeEntryAt_items:
  assumes "msg_ok m" "i < length (mItems m)"
  shows "fst (removeEntryAt i m) = OK" "msg_ok (snd (removeEntryAt i m))"
    "items_of (snd (removeEntryAt i m)) = (items_of m)(fst (mItems m ! i) := None)"
proof -
  obtain xs l where xs: "mItems m = xs @ [l]" using assms(2) by (cases "mItems m" rule: rev_cases) auto
  let ?ys = "if i < length xs then xs[i := l] else xs"
  have snd: "removeEntryAt i m = (OK, setItems ?ys m)"
    using assms(2) by (auto simp: removeEntryAt_def xs Let_def list_update_append nth_append)
  have d: "distinct (map fst xs)" "fst l \<notin> fst ` set xs" "length xs < kMaxNumItems"
    using assms(1) by (auto simp: msg_ok_def xs)
  have ys: "set ?ys = set (mItems m) - {mItems m ! i}" "distinct (map fst ?ys)" "length ?ys = length xs"
  proof -
    have "l \<notin> set xs" "distinct xs" using d(1,2) by (auto simp: distinct_map)
    then show "set ?ys = set (mItems m) - {mItems m ! i}"
      using assms(2) by (auto simp: xs set_update_distinct nth_append less_Suc_eq)
    have "distinct ((map fst xs)[i := fst l])" using d(1,2) by (intro distinct_list_update) auto
    then show "distinct (map fst ?ys)" using d(1) by (simp add: map_update)
  qed simp
  show "fst (removeEntryAt i m) = OK" "msg_ok (snd (removeEntryAt i m))"
    using snd ys(2,3) d(3) by (simp_all add: msg_ok_def)
  have "map_of ?ys = map_of (filter (\<lambda>kv. fst kv \<noteq> fst (mItems m ! i)) (mItems m))"
  proof (rule map_of_same_set [OF ys(2)])
    have "distinct (map fst (mItems m))" using assms(1) by (simp add: msg_ok_def)
    then show "distinct (map fst (filter (\<lambda>kv. fst kv \<noteq> fst (mItems m ! i)) (mItems m)))" by (rule distinct_map_filter)
    have "kv = mItems m ! i" if "kv \<in> set (mItems m)" "fst kv = fst (mItems m ! i)" for kv
      using \<open>distinct (map fst (mItems m))\<close> that assms(2) by (metis eq_key_imp_eq_value nth_mem prod.collapse)
    then show "set ?ys = set (filter (\<lambda>kv. fst kv \<noteq> fst (mItems m ! i)) (mItems m))" unfolding ys(1) by auto
  qed
  then show "items_of (snd (removeEntryAt i m)) = (items_of m)(fst (mItems m ! i) := None)"
    by (simp add: snd items_of_def map_of_filter_key)
qed

section \<open>Copies\<close>

text \<open>No object, buffer or message item is null, at any depth; and the message with its handlers looked up again.\<close>

fun no_null :: "message \<Rightarrow> bool"
  and no_null_items :: "(name \<times> item_value) list \<Rightarrow> bool"
  and no_null_value :: "item_value \<Rightarrow> bool" where
  "no_null (AMessage w h items) \<longleftrightarrow> no_null_items items"
| "no_null_items [] \<longleftrightarrow> True"
| "no_null_items ((n, v) # items) \<longleftrightarrow> no_null_value v \<and> no_null_items items"
| "no_null_value (Object obj) \<longleftrightarrow> obj \<noteq> None"
| "no_null_value (Buffer buf) \<longleftrightarrow> buf \<noteq> None"
| "no_null_value (Message None) \<longleftrightarrow> False"
| "no_null_value (Message (Some m)) \<longleftrightarrow> no_null m"
| "no_null_value v \<longleftrightarrow> True"

fun retarget :: "(nat \<Rightarrow> handler_ref option) \<Rightarrow> message \<Rightarrow> message"
  and retarget_items :: "(nat \<Rightarrow> handler_ref option) \<Rightarrow> (name \<times> item_value) list \<Rightarrow> (name \<times> item_value) list"
  and retarget_value :: "(nat \<Rightarrow> handler_ref option) \<Rightarrow> item_value \<Rightarrow> item_value" where
  "retarget handlers (AMessage w t items) =
     AMessage w (targetOf (promote handlers (mHandler t))) (retarget_items handlers items)"
| "retarget_items handlers [] = []"
| "retarget_items handlers ((n, v) # items) = (n, retarget_value handlers v) # retarget_items handlers items"
| "retarget_value handlers (Message (Some m)) = Message (Some (retarget handlers m))"
| "retarget_value handlers v = v"

lemma dup_cases:
  "dup handlers m = (if no_null m then Some (retarget handlers m) else None)"
  "dupItems handlers items = (if no_null_items items then Some (retarget_items handlers items) else None)"
  "dupValue handlers v = (if no_null_value v then Some (retarget_value handlers v) else None)"
  by (induction handlers m and handlers items and handlers v rule: dup_dupItems_dupValue.induct) auto

lemma retarget_names: "map fst (retarget_items handlers items) = map fst items"
  by (induction items) auto

lemma retarget_length: "length (retarget_items handlers items) = length items"
  by (induction items) auto

lemma no_null_items_iff: "no_null_items items \<longleftrightarrow> list_all (\<lambda>(n, v). no_null_value v) items"
  by (induction items) auto

section \<open>Differences\<close>

text \<open>Values that are compared and copied as they are.\<close>

fun plain :: "item_value \<Rightarrow> bool" where
  "plain (Float _) = False"
| "plain (Double _) = False"
| "plain (Message _) = False"
| "plain _ = True"

lemma changedItem_plain:
  "plain v \<Longrightarrow> changedItem handlers stale deep n v oitem diff = (if oitem = Some v then Some diff else allocateItem n v diff)"
proof (cases v)
  case (Buffer b)
  then show ?thesis by (cases b) (auto simp: setBuffer_def split: option.splits item_value.splits)
qed auto

lemma findItem_same: "findItem n (mType v) m = Some v \<longleftrightarrow> items_of m n = Some v"
  by (auto simp: findItem_map split: option.splits)

lemma changedItems_plain:
  "list_all (\<lambda>(n, v). plain v) items \<Longrightarrow>
   changedItems handlers stale deep items other diff =
     foldM (\<lambda>(n, v) m. allocateItem n v m) (filter (\<lambda>(n, v). items_of other n \<noteq> Some v) items) diff"
proof (induction items arbitrary: diff)
  case (Cons nv items)
  then show ?case by (cases nv) (auto simp: changedItem_plain findItem_same split: option.splits)
qed simp

lemma allocate_new_items:
  "distinct (map fst (mItems m @ kvs)) \<Longrightarrow> length (mItems m @ kvs) \<le> kMaxNumItems \<Longrightarrow>
   foldM (\<lambda>(n, v) m. allocateItem n v m) kvs m = Some (setItems (mItems m @ kvs) m)"
proof (induction kvs arbitrary: m)
  case (Cons kv kvs)
  obtain n v where kv: "kv = (n, v)" by (cases kv)
  have "n \<notin> fst ` set (mItems m)" using Cons.prems(1) by (auto simp: kv)
  then have "allocateItem n v m = Some (setItems (mItems m @ [(n, v)]) m)"
    using Cons.prems(2) by (simp add: allocateItem_def findItemIndex_def findIndex_found Let_def)
  then show ?case using Cons.IH [of "setItems (mItems m @ [(n, v)]) m"] Cons.prems by (simp add: kv)
qed simp

lemma changesFrom_plain:
  assumes "msg_ok m" "list_all (\<lambda>(n, v). plain v) (mItems m)"
  shows "\<exists>diff. changesFrom handlers stale deep m (Some other) = Some diff
    \<and> mItems diff = filter (\<lambda>(n, v). items_of other n \<noteq> Some v) (mItems m)"
proof -
  obtain w h items where m: "m = AMessage w h items" by (cases m)
  let ?new = "filter (\<lambda>(n, v). items_of other n \<noteq> Some v) items"
  have new: "distinct (map fst ?new)" "length ?new \<le> kMaxNumItems"
    using assms(1) le_trans [OF length_filter_le] by (auto simp: msg_ok_def m distinct_map_filter)
  have "foldM (\<lambda>(n, v) m. allocateItem n v m) ?new d = Some (setItems ?new d)" if "mItems d = []" for d
    using allocate_new_items [of d ?new] new that by simp
  then show ?thesis
    using assms(2) by (simp add: m changedItems_plain newMessage_def setWhat_def setTarget_def Let_def)
qed

section \<open>Properties\<close>

lemma setEntryAt_ok: "msg_ok m \<Longrightarrow> msg_ok (snd (setEntryAt i v m))"
proof -
  have "map fst ((mItems m)[i := (fst (mItems m ! i), x)]) = map fst (mItems m)" for x
    by (simp add: map_update list_update_id)
      (metis list_update_beyond list_update_id length_map not_le nth_map)
  then show "msg_ok m \<Longrightarrow> msg_ok (snd (setEntryAt i v m))"
    by (auto simp: msg_ok_def setEntryAt_def split: option.splits)
qed

lemma setEntryNameAt_ok:
  assumes "msg_ok m"
  shows "msg_ok (snd (setEntryNameAt i name m))"
proof (cases "i < length (mItems m) \<and> (\<exists>n. name = Some n \<and> \<not> findItemIndex n m < length (mItems m))")
  case True
  then obtain n where n: "name = Some n" "i < length (mItems m)" "n \<notin> fst ` set (mItems m)"
    by (auto simp: findItemIndex_def findIndex_found)
  have "distinct ((map fst (mItems m))[i := n])"
    using assms n(3) by (intro distinct_list_update) (auto simp: msg_ok_def)
  then show ?thesis using assms n by (auto simp: setEntryNameAt_def msg_ok_def map_update)
next
  case False
  then show ?thesis using assms by (auto simp: setEntryNameAt_def split: option.splits)
qed

lemma removeEntryAt_ok: "msg_ok m \<Longrightarrow> msg_ok (snd (removeEntryAt i m))"
  using removeEntryAt_items(2) [of m i] by (cases "i < length (mItems m)") (auto simp: removeEntryAt_def)

lemma extend_ok: "msg_ok m \<Longrightarrow> extend other m = Some m' \<Longrightarrow> msg_ok m'"
  using ms.lookup_foldM by (auto simp: extend_def split: option.splits)

lemma dup_ok: "msg_ok m \<Longrightarrow> dup handlers m = Some m' \<Longrightarrow> msg_ok m'"
  by (cases m) (auto simp: dup_cases msg_ok_def retarget_names retarget_length split: if_splits)

text \<open>
  C37: a message never holds two items of the same name, nor more than \<open>kMaxNumItems\<close> items. Every operation
  that changes a message keeps this: setting an item by name or by index, renaming and removing
  entries, merging another message and copying. (The operations that abort give no message.)
\<close>
theorem message_items_distinct:
  assumes "msg_ok m"
  shows "pred_option msg_ok (allocateItem n v m) \<and> pred_option msg_ok (setItem n d m)
    \<and> msg_ok (snd (setEntryAt i d m)) \<and> msg_ok (snd (setEntryNameAt i name m))
    \<and> msg_ok (snd (removeEntryAt i m)) \<and> msg_ok (snd (removeEntryByName name m))
    \<and> pred_option msg_ok (extend other m) \<and> pred_option msg_ok (dup handlers m) \<and> msg_ok (clear m)"
proof -
  have a: "pred_option msg_ok (allocateItem n v m)" for n v
    using allocateItem_map(2) assms by (auto simp: pred_option_def split: option.splits)
  then have "pred_option msg_ok (setItem n d m)" using assms by (auto simp: setItem_def split: option.splits)
  moreover have "msg_ok (snd (removeEntryByName name m))"
    using removeEntryAt_ok [OF assms] assms by (auto simp: removeEntryByName_def Let_def split: option.splits)
  moreover have "pred_option msg_ok (extend other m)" "pred_option msg_ok (dup handlers m)"
    using extend_ok [OF assms] dup_ok [OF assms] by (auto simp: pred_option_def elem_set)
  moreover have "msg_ok (clear m)" by (simp add: clear_def msg_ok_def)
  ultimately show ?thesis
    using a setEntryAt_ok [OF assms] setEntryNameAt_ok [OF assms] removeEntryAt_ok [OF assms] by blast
qed

definition demo_message :: message where
  "demo_message = AMessage 1 noTarget [([97], Int32 5), ([98], String [120]), ([99], Object (Some 7))]"

lemma demo_message_ok: "msg_ok demo_message"
  by (simp add: demo_message_def msg_ok_def kMaxNumItems_def)

theorem message_items_distinct_witness:
  "msg_ok demo_message \<and> msg_ok (snd (setEntryNameAt 0 (Some [99]) demo_message))"
  using message_items_distinct [OF demo_message_ok] demo_message_ok by blast

text \<open>
  reading a message gives what was last written. After an item is set, finding its name
  gives it (when its type is asked for, and nothing for another type) and every other name gives what it
  gave before; setting aborts exactly when the name is new and the message is full. After an entry is
  removed by name, its name is not found and every other name gives what it gave before, although the
  last entry has moved; removing an unknown name changes nothing and is reported.
\<close>
theorem message_reads_last_write:
  assumes "msg_ok m"
  shows "(case allocateItem k v m of
       Some m' \<Rightarrow> findItem n t m' = (if n = k then if mType v = t then Some v else None else findItem n t m)
     | None \<Rightarrow> \<not> contains k m \<and> countEntries m = kMaxNumItems)
   \<and> (case removeEntryByName (Some k) m of (s, m') \<Rightarrow>
        if contains k m
        then s = OK \<and> \<not> contains k m' \<and> (n \<noteq> k \<longrightarrow> findItem n t m' = findItem n t m)
        else s = BAD_INDEX \<and> m' = m)"
proof -
  have c: "contains j x \<longleftrightarrow> items_of x j \<noteq> None" for j x
    by (simp add: contains_def findItemIndex_def findIndex_found items_of_def map_of_eq_None_iff)
  have "case removeEntryByName (Some k) m of (s, m') \<Rightarrow>
        if contains k m then s = OK \<and> items_of m' = (items_of m)(k := None) else s = BAD_INDEX \<and> m' = m"
  proof (cases "contains k m")
    case True
    let ?i = "findItemIndex k m"
    have i: "?i < length (mItems m)" "fst (mItems m ! ?i) = k"
      using True findIndex_value [of k "mItems m"] by (simp_all add: contains_def findItemIndex_def)
    then show ?thesis
      using True removeEntryAt_items [OF assms i(1)]
      by (cases "removeEntryAt ?i m") (auto simp: removeEntryByName_def findEntryByName_def)
  next
    case False
    then show ?thesis by (simp add: removeEntryByName_def findEntryByName_def contains_def)
  qed
  moreover have "length (mItems m) \<le> kMaxNumItems" using assms by (simp add: msg_ok_def)
  ultimately show ?thesis
    using allocateItem_map(1) [of k v m] allocateItem_fails [of k v m]
    by (auto simp: c findItem_map countEntries_def split: option.splits prod.splits if_splits)
qed

theorem message_reads_last_write_witness:
  "contains [97] demo_message \<and> fst (removeEntryByName (Some [97]) demo_message) = OK
   \<and> findItem [99] kTypeObject (snd (removeEntryByName (Some [97]) demo_message)) = Some (Object (Some 7))"
proof -
  have c: "contains [97] demo_message" "findItem [99] kTypeObject demo_message = Some (Object (Some 7))" by code_simp+
  show ?thesis
    using conjunct2 [OF message_reads_last_write [OF demo_message_ok, where k = "[97]" and n = "[99]" and t = kTypeObject]] c
    by (cases "removeEntryByName (Some [97]) demo_message") simp
qed

text \<open>
  \<open>dup\<close> makes a deep copy exactly when no object, buffer or message item, at any
  depth, is null; otherwise it takes a reference to a null pointer. The copy has the same items, nested messages
  copied in turn, and the target handler if it still exists.
\<close>
theorem dup_exact: "dup handlers m = (if no_null m then Some (retarget handlers m) else None)"
  by (rule dup_cases(1))

text \<open>
  A message whose reply token has been taken cannot be copied: \<open>senderAwaitsResponse\<close> leaves a null object
  behind under the same name.
\<close>

theorem dup_after_senderAwaitsResponse:
  assumes "findObject replyID m = Some token"
  shows "\<exists>m'. senderAwaitsResponse m = Some (token, m') \<and> dup handlers m' = None"
proof -
  obtain v where v: "items_of m replyID = Some v"
    using assms by (auto simp: findObject_def findItem_map split: option.splits)
  then obtain m' where m': "setObject replyID None m = Some m'"
    using allocateItem_fails [of replyID "Object None" m] by (auto simp: setObject_def)
  then have "items_of m' replyID = Some (Object None)" using allocateItem_map(1) by (simp add: setObject_def)
  then have "(replyID, Object None) \<in> set (mItems m')" by (auto simp: items_of_def dest: map_of_SomeD)
  then have "\<not> no_null m'" by (cases m') (auto simp: no_null_items_iff list_all_iff intro: bexI [rotated])
  then show ?thesis using assms m' by (simp add: senderAwaitsResponse_def dup_cases)
qed

text \<open>
  applying the changes restores the message. For messages whose items are neither floating point
  numbers nor messages, \<open>changesFrom\<close> never aborts, and extending the other message with the difference it returns
  gives, for every name, the item of the first message, or that of the other where the first has none.
\<close>
theorem changes_apply:
  assumes "msg_ok m" "msg_ok other" "list_all (\<lambda>(n, v). plain v) (mItems m)"
  shows "\<exists>diff. changesFrom handlers stale deep m (Some other) = Some diff
    \<and> (\<forall>r n. extend (Some diff) other = Some r \<longrightarrow>
         findItemData (Some n) r = (case findItemData (Some n) m of Some v \<Rightarrow> Some v | None \<Rightarrow> findItemData (Some n) other))"
proof -
  obtain diff where diff: "changesFrom handlers stale deep m (Some other) = Some diff"
    "mItems diff = filter (\<lambda>(n, v). items_of other n \<noteq> Some v) (mItems m)"
    using changesFrom_plain [OF assms(1,3)] by blast
  have "items_of r n = (case items_of m n of Some v \<Rightarrow> Some v | None \<Rightarrow> items_of other n)"
    if "extend (Some diff) other = Some r" for r n
  proof -
    have d: "distinct (map fst (mItems m))" using assms(1) by (simp add: msg_ok_def)
    have "map_of (rev (mItems diff)) = map_of (mItems diff)"
      using d by (intro map_of_same_set) (simp_all add: diff(2) rev_map [symmetric] distinct_map_filter)
    then have "items_of r = items_of other ++ map_of (mItems diff)"
      using ms.lookup_foldM [OF assms(2), of "mItems diff" r] that by (simp add: extend_def)
    moreover have "map_of (mItems diff) n = Some v \<longleftrightarrow> items_of m n = Some v \<and> items_of other n \<noteq> Some v" for v
      using d by (simp add: diff(2) items_of_def map_of_eq_Some_iff distinct_map_filter)
    ultimately show ?thesis
      by (cases "items_of m n"; cases "map_of (mItems diff) n") (simp_all add: map_add_def, metis+)
  qed
  then show ?thesis using diff(1) unfolding findItemData_map by blast
qed

theorem changes_apply_witness:
  "msg_ok demo_message \<and> (\<exists>diff. changesFrom (\<lambda>_. None) (\<lambda>_. 0) False demo_message (Some newMessage) = Some diff)"
proof -
  have "msg_ok newMessage" "list_all (\<lambda>(n, v). plain v) (mItems demo_message)"
    by (simp_all add: newMessage_def msg_ok_def demo_message_def)
  then show ?thesis using changes_apply [OF demo_message_ok] demo_message_ok by blast
qed

text \<open>
  The difference reports a changed double with a wrong value: the number it stores is the
  bit pattern of the item read as an integer and converted. (The comment of \<open>changesFrom\<close> promises the
  differences; a float item is treated in the same way.)
\<close>
theorem changesFrom_double_value:
  assumes "items_of other n = None"
  shows "\<exists>diff. changesFrom handlers stale deep (AMessage w h [(n, Double x)]) (Some other) = Some diff
    \<and> findItem n kTypeDouble diff = Some (Double (size_to_double x))"
  using assms allocateItem_map(1) [of n "Double (size_to_double x)"]
  by (auto simp: findItem_map setDouble_def allocateItem_def findItemIndex_def newMessage_def setWhat_def setTarget_def
      Let_def kMaxNumItems_def items_of_def)

text \<open>The double 1.0 is reported as 4607182418800017408.0.\<close>

theorem changesFrom_double_value_witness:
  "\<exists>diff. changesFrom (\<lambda>_. None) (\<lambda>_. 0) False (AMessage 0 noTarget [([97], Double 0x3FF0000000000000)]) (Some newMessage) = Some diff
    \<and> findItem [97] kTypeDouble diff = Some (Double 0x43CFF80000000000)"
proof -
  have "size_to_double 0x3FF0000000000000 = 0x43CFF80000000000"
    by (simp add: size_to_double_def int_to_float_def highest_bit.simps Let_def)
  moreover have "items_of newMessage [97] = None" by (simp add: items_of_def newMessage_def)
  note changesFrom_double_value [OF this, of "\<lambda>_. None" "\<lambda>_. 0" False 0 noTarget "0x3FF0000000000000"]
  ultimately show ?thesis by simp
qed

end
