(* ===== verification/A_Looper.thy ===== *)
theory A_Looper
  imports A_Message
begin

text \<open>
  \<^verbatim>\<open>ALooper.cpp\<close>, \<^verbatim>\<open>ALooperRoster.cpp\<close>, \<^verbatim>\<open>AHandler.cpp\<close> and the posting half of \<^verbatim>\<open>AMessage.cpp\<close>:
  the queue of timed events of a looper, the register of handlers, the delivery of messages
  and the tokens of synchronous replies.

  Each function is one critical section of the code, and the clock is read through the argument \<open>nowUs\<close>.
  Waiting on a condition variable is the value \<open>Wait\<close>: the thread calls the function again when it
  is woken up. Times are 64-bit integers.
\<close>

section \<open>The event queue\<close>

definition INT64_MAX :: int where
  "INT64_MAX = 2 ^ 63 - 1"

record event =
  mWhenUs :: int
  mMessage :: message
  mToken :: "nat option"

text \<open>\<open>mThread\<close> says whether there is a looper thread.\<close>

record looper =
  mEventQueue :: "event list"
  mThread :: bool
  mRunningLocally :: bool

datatype looper_status = LooperOK | INVALID_OPERATION | EINVAL | ENOENT | EBUSY | RunError int

definition newLooper :: looper where
  "newLooper = \<lparr>mEventQueue = [], mThread = False, mRunningLocally = False\<rparr>"

definition whenUs :: "int \<Rightarrow> int \<Rightarrow> int" where
  "whenUs nowUs delayUs =
     (if delayUs > 0 then (if delayUs > INT64_MAX - nowUs then INT64_MAX else nowUs + delayUs)
      else nowUs)"

text \<open>Insertion behind the events that are not later.\<close>

definition insertEvent :: "event \<Rightarrow> event list \<Rightarrow> event list" where
  "insertEvent e q =
     takeWhile (\<lambda>x. mWhenUs x \<le> mWhenUs e) q @ e # dropWhile (\<lambda>x. mWhenUs x \<le> mWhenUs e) q"

text \<open>The result says whether the looper thread is woken up.\<close>

definition post :: "message \<Rightarrow> int \<Rightarrow> int \<Rightarrow> looper \<Rightarrow> bool \<times> looper" where
  "post msg delayUs nowUs l =
     (let w = whenUs nowUs delayUs;
          e = \<lparr>mWhenUs = w, mMessage = msg, mToken = None\<rparr>;
          signal = (takeWhile (\<lambda>x. mWhenUs x \<le> w) (mEventQueue l) = [])
      in (signal, l\<lparr>mEventQueue := insertEvent e (mEventQueue l)\<rparr>))"

definition postUnique ::
    "message \<Rightarrow> nat option \<Rightarrow> int \<Rightarrow> int \<Rightarrow> looper \<Rightarrow> looper_status \<times> bool \<times> looper" where
  "postUnique msg token delayUs nowUs l =
     (case token of
        None \<Rightarrow> (EINVAL, False, l)
      | Some t \<Rightarrow>
          let w = whenUs nowUs delayUs;
              shouldAwakeLoop = (mEventQueue l = [] \<or> w < mWhenUs (hd (mEventQueue l)));
              q = filter (\<lambda>x. mToken x \<noteq> Some t) (mEventQueue l);
              e = \<lparr>mWhenUs = w, mMessage = msg, mToken = Some t\<rparr>
          in (LooperOK, shouldAwakeLoop, l\<lparr>mEventQueue := insertEvent e q\<rparr>))"

text \<open>
  One call of \<open>loop\<close> up to the delivery: leave the loop, wait (for ever, or for a number of
  nanoseconds), or deliver an event.
\<close>

datatype turn = Leave | WaitForever | WaitFor int | Deliver event

definition loop :: "int \<Rightarrow> looper \<Rightarrow> turn \<times> looper" where
  "loop nowUs l =
     (if \<not> mThread l \<and> \<not> mRunningLocally l then (Leave, l)
      else case mEventQueue l of
        [] \<Rightarrow> (WaitForever, l)
      | e # q \<Rightarrow>
          if mWhenUs e > nowUs then
            let delayUs = mWhenUs e - nowUs;
                delayUs = (if delayUs > INT64_MAX div 1000 then INT64_MAX div 1000 else delayUs)
            in (WaitFor (delayUs * 1000), l)
          else (Deliver e, l\<lparr>mEventQueue := q\<rparr>))"

text \<open>
  Starting a looper; \<open>err\<close> is what starting the thread returns (0 is success). A looper that runs on
  the calling thread goes on to call \<open>loop\<close> until it returns \<open>Leave\<close>.
\<close>

definition start :: "bool \<Rightarrow> int \<Rightarrow> looper \<Rightarrow> looper_status \<times> looper" where
  "start runOnCallingThread err l =
     (if mThread l \<or> mRunningLocally l then (INVALID_OPERATION, l)
      else if runOnCallingThread then (LooperOK, l\<lparr>mRunningLocally := True\<rparr>)
      else if err \<noteq> 0 then (RunError err, l\<lparr>mThread := False\<rparr>)
      else (LooperOK, l\<lparr>mThread := True\<rparr>))"

definition stop :: "looper \<Rightarrow> looper_status \<times> looper" where
  "stop l =
     (let l' = l\<lparr>mThread := False, mRunningLocally := False\<rparr> in
      if \<not> mThread l \<and> \<not> mRunningLocally l then (INVALID_OPERATION, l') else (LooperOK, l'))"

section \<open>Replies\<close>

record reply_token =
  mReply :: "message option"
  mReplied :: bool

definition createReplyToken :: reply_token where
  "createReplyToken = \<lparr>mReply = None, mReplied = False\<rparr>"

definition setReply :: "message option \<Rightarrow> reply_token \<Rightarrow> (looper_status \<times> reply_token) ub" where
  "setReply reply t =
     (if mReplied t then Some (EBUSY, t)
      else if mReply t \<noteq> None then None
      else Some (LooperOK, t\<lparr>mReply := reply, mReplied := True\<rparr>))"

text \<open>The reply stored into \<open>*reply\<close>, if any was.\<close>

definition retrieveReply :: "reply_token \<Rightarrow> message option option \<times> reply_token" where
  "retrieveReply t = (if mReplied t then (Some (mReply t), t\<lparr>mReply := None\<rparr>) else (None, t))"

datatype await = Answered "message option" | Failed looper_status | WaitForReply

text \<open>One turn of the loop of \<open>awaitResponse\<close>.\<close>

definition awaitResponse :: "looper \<Rightarrow> reply_token \<Rightarrow> await \<times> reply_token" where
  "awaitResponse l t =
     (case retrieveReply t of
        (Some reply, t') \<Rightarrow> (Answered reply, t')
      | (None, t') \<Rightarrow> if \<not> mThread l then (Failed ENOENT, t') else (WaitForReply, t'))"

text \<open>A reply posted through the looper of its token; the result says whether waiters are woken up.\<close>

definition postReply :: "message \<Rightarrow> reply_token \<Rightarrow> (looper_status \<times> bool \<times> reply_token) ub" where
  "postReply msg t =
     (case setReply (Some msg) t of
        None \<Rightarrow> None
      | Some (err, t') \<Rightarrow> Some (err, err = LooperOK, t'))"

section \<open>Handlers\<close>

record handler =
  hID :: int
  hLooper :: "nat option"
  mVerboseStats :: bool
  mMessageCounter :: u64
  mMessages :: "(u32, u32) smap"
  mDeliveringMessage :: bool
  mCurrentMessageWhat :: u32
  mCurrentMessageStartTimeUs :: int

definition AHandler :: handler where
  "AHandler = \<lparr>hID = 0, hLooper = None, mVerboseStats = False, mMessageCounter = 0, mMessages = [],
     mDeliveringMessage = False, mCurrentMessageWhat = 0, mCurrentMessageStartTimeUs = 0\<rparr>"

definition setID :: "int \<Rightarrow> nat option \<Rightarrow> handler \<Rightarrow> handler" where
  "setID i l h = h\<lparr>hID := i, hLooper := l\<rparr>"

definition setDeliveryStatus :: "bool \<Rightarrow> u32 \<Rightarrow> int \<Rightarrow> handler \<Rightarrow> handler" where
  "setDeliveryStatus delivering w startUs h =
     h\<lparr>mDeliveringMessage := delivering, mCurrentMessageWhat := w, mCurrentMessageStartTimeUs := startUs\<rparr>"

definition getDeliveryStatus :: "int \<Rightarrow> handler \<Rightarrow> bool \<times> u32 \<times> int" where
  "getDeliveryStatus nowUs h =
     (mDeliveringMessage h, mCurrentMessageWhat h,
      if mCurrentMessageStartTimeUs h = 0 then 0 else nowUs - mCurrentMessageStartTimeUs h)"

text \<open>\<open>received\<close> is what \<open>onMessageReceived\<close>, the code of the derived class, does to the handler.\<close>

definition deliverMessage :: "(message \<Rightarrow> handler \<Rightarrow> handler) \<Rightarrow> int \<Rightarrow> message \<Rightarrow> handler \<Rightarrow> handler" where
  "deliverMessage received nowUs msg h =
     (let h = setDeliveryStatus True (what msg) nowUs h;
          h = received msg h;
          h = h\<lparr>mMessageCounter := mMessageCounter h + 1\<rparr>;
          h = setDeliveryStatus False 0 0 h
      in if mVerboseStats h then
           h\<lparr>mMessages := (case smap_find (mMessages h) (what msg) of
                None \<Rightarrow> smap_set (what msg) 1 (mMessages h)
              | Some n \<Rightarrow> smap_set (what msg) (n + 1) (mMessages h))\<rparr>
         else h)"

section \<open>The register of handlers and the objects\<close>

text \<open>
  The objects that exist, by address; an object that is not listed is gone, and a weak pointer to it
  gives null. A reply token is kept with the address of its looper.
\<close>

record world =
  loopers :: "(nat, looper) smap"
  handlers :: "(nat, handler) smap"
  tokens :: "(nat, nat \<times> reply_token) smap"
  mNextHandlerID :: int
  mHandlers :: "(int, nat \<times> nat) smap"

definition ALooperRoster :: world where
  "ALooperRoster = \<lparr>loopers = [], handlers = [], tokens = [], mNextHandlerID = 1, mHandlers = []\<rparr>"

text \<open>\<open>CHECK\<close> aborts when the handler is registered already.\<close>

definition registerHandler :: "nat \<Rightarrow> nat \<Rightarrow> world \<Rightarrow> (int \<times> world) ub" where
  "registerHandler l ha w =
     (case smap_find (handlers w) ha of
        None \<Rightarrow> None
      | Some h \<Rightarrow>
          if hID h \<noteq> 0 then None
          else
            let handlerID = mNextHandlerID w in
            Some (handlerID, w\<lparr>mNextHandlerID := handlerID + 1,
                               mHandlers := smap_set handlerID (l, ha) (mHandlers w),
                               handlers := smap_set ha (setID handlerID (Some l) h) (handlers w)\<rparr>))"

definition unregisterHandler :: "int \<Rightarrow> world \<Rightarrow> world" where
  "unregisterHandler handlerID w =
     (case smap_find (mHandlers w) handlerID of
        None \<Rightarrow> w
      | Some (l, ha) \<Rightarrow>
          let w = (case smap_find (handlers w) ha of
                     None \<Rightarrow> w
                   | Some h \<Rightarrow> w\<lparr>handlers := smap_set ha (setID 0 None h) (handlers w)\<rparr>)
          in w\<lparr>mHandlers := smap_erase handlerID (mHandlers w)\<rparr>)"

definition unregisterStaleHandlers :: "world \<Rightarrow> world" where
  "unregisterStaleHandlers w =
     w\<lparr>mHandlers := filter (\<lambda>(i, (l, ha)). smap_find (loopers w) l \<noteq> None) (mHandlers w)\<rparr>"

text \<open>A new looper at address \<open>l\<close>; the register is cleaned first.\<close>

definition createLooper :: "nat \<Rightarrow> world \<Rightarrow> world" where
  "createLooper l w =
     (let w = unregisterStaleHandlers w in w\<lparr>loopers := smap_set l newLooper (loopers w)\<rparr>)"

text \<open>The last reference to a looper goes away: its destructor stops it, and the object is gone.\<close>

definition destroyLooper :: "nat \<Rightarrow> world \<Rightarrow> world" where
  "destroyLooper l w = w\<lparr>loopers := smap_erase l (loopers w)\<rparr>"

section \<open>Posting and delivering messages\<close>

definition targetLooper :: "message \<Rightarrow> world \<Rightarrow> (nat \<times> looper) option" where
  "targetLooper msg w =
     (case mLooper (target msg) of
        None \<Rightarrow> None
      | Some l \<Rightarrow> map_option (Pair l) (smap_find (loopers w) l))"

definition msgPost :: "message \<Rightarrow> int \<Rightarrow> int \<Rightarrow> world \<Rightarrow> looper_status \<times> world" where
  "msgPost msg delayUs nowUs w =
     (case targetLooper msg w of
        None \<Rightarrow> (ENOENT, w)
      | Some (l, lo) \<Rightarrow> (LooperOK, w\<lparr>loopers := smap_set l (snd (post msg delayUs nowUs lo)) (loopers w)\<rparr>))"

definition msgPostUnique :: "message \<Rightarrow> nat option \<Rightarrow> int \<Rightarrow> int \<Rightarrow> world \<Rightarrow> looper_status \<times> world" where
  "msgPostUnique msg token delayUs nowUs w =
     (case targetLooper msg w of
        None \<Rightarrow> (ENOENT, w)
      | Some (l, lo) \<Rightarrow>
          (case postUnique msg token delayUs nowUs lo of
             (err, _, lo') \<Rightarrow> (err, w\<lparr>loopers := smap_set l lo' (loopers w)\<rparr>)))"

text \<open>
  The first half of \<open>postAndAwaitResponse\<close>, up to the wait: a token at the new address \<open>t\<close> is put into the
  message, which is posted. The wait is \<open>awaitResponse\<close>.
\<close>

definition msgPostForResponse :: "message \<Rightarrow> nat \<Rightarrow> int \<Rightarrow> world \<Rightarrow> (looper_status \<times> world) ub" where
  "msgPostForResponse msg t nowUs w =
     (case targetLooper msg w of
        None \<Rightarrow> Some (ENOENT, w)
      | Some (l, lo) \<Rightarrow>
          (case setObject replyID (Some t) msg of
             None \<Rightarrow> None
           | Some msg' \<Rightarrow>
               Some (LooperOK, w\<lparr>tokens := smap_set t (l, createReplyToken) (tokens w),
                                 loopers := smap_set l (snd (post msg' 0 nowUs lo)) (loopers w)\<rparr>)))"

definition msgAwaitResponse :: "nat \<Rightarrow> world \<Rightarrow> (await \<times> world) ub" where
  "msgAwaitResponse t w =
     (case smap_find (tokens w) t of
        None \<Rightarrow> None
      | Some (l, tok) \<Rightarrow>
          (case smap_find (loopers w) l of
             None \<Rightarrow> None
           | Some lo \<Rightarrow>
               (case awaitResponse lo tok of
                  (r, tok') \<Rightarrow> Some (r, w\<lparr>tokens := smap_set t (l, tok') (tokens w)\<rparr>))))"

text \<open>A null token is \<open>None\<close>.\<close>

definition msgPostReply :: "message \<Rightarrow> nat option \<Rightarrow> world \<Rightarrow> (looper_status \<times> world) ub" where
  "msgPostReply msg token w =
     (case token of
        None \<Rightarrow> Some (ENOENT, w)
      | Some t \<Rightarrow>
          (case smap_find (tokens w) t of
             None \<Rightarrow> None
           | Some (l, tok) \<Rightarrow>
               if smap_find (loopers w) l = None then Some (ENOENT, w)
               else
                 (case postReply msg tok of
                    None \<Rightarrow> None
                  | Some (err, _, tok') \<Rightarrow> Some (err, w\<lparr>tokens := smap_set t (l, tok') (tokens w)\<rparr>))))"

definition deliver :: "(message \<Rightarrow> handler \<Rightarrow> handler) \<Rightarrow> int \<Rightarrow> message \<Rightarrow> world \<Rightarrow> world" where
  "deliver received nowUs msg w =
     (case mHandler (target msg) of
        None \<Rightarrow> w
      | Some ha \<Rightarrow>
          (case smap_find (handlers w) ha of
             None \<Rightarrow> w
           | Some h \<Rightarrow> w\<lparr>handlers := smap_set ha (deliverMessage received nowUs msg h) (handlers w)\<rparr>))"

end
