(* ===== verification/Looper_Properties.thy ===== *)
theory Looper_Properties
  imports A_Looper
begin

text \<open>
  The event queue of a looper against its specification: the events still to be delivered, in the order
  they were posted, of which the looper delivers one of the earliest time, the first posted
  among those. The locale \<open>event_source\<close> is what the delivery loop relies on, and \<open>eq\<close> interprets it
  on the code's queue.
\<close>

section \<open>Specification\<close>

text \<open>The next event among those pending: of the least time, the first posted one.\<close>

fun next_event :: "event list \<Rightarrow> event option" where
  "next_event [] = None"
| "next_event (e # p) =
     (case next_event p of
        None \<Rightarrow> Some e
      | Some f \<Rightarrow> if mWhenUs e \<le> mWhenUs f then Some e else Some f)"

text \<open>The calls that can be made to a looper, each at a time.\<close>

datatype looper_op =
    Post message int
  | PostUnique message "nat option" int
  | Loop
  | Start bool int
  | Stop

fun run_op :: "int \<Rightarrow> looper_op \<Rightarrow> looper \<Rightarrow> event list \<times> looper" where
  "run_op now (Post m d) l = ([], snd (post m d now l))"
| "run_op now (PostUnique m t d) l = ([], snd (snd (postUnique m t d now l)))"
| "run_op now Loop l = (case loop now l of (Deliver e, l') \<Rightarrow> ([e], l') | (_, l') \<Rightarrow> ([], l'))"
| "run_op now (Start b err) l = ([], snd (start b err l))"
| "run_op now Stop l = ([], snd (stop l))"

text \<open>The events delivered by a sequence of calls, each with the time of its delivery.\<close>

fun run :: "(int \<times> looper_op) list \<Rightarrow> looper \<Rightarrow> (int \<times> event) list" where
  "run [] l = []"
| "run ((now, oper) # ops) l =
     (case run_op now oper l of (es, l') \<Rightarrow> map (Pair now) es @ run ops l')"

text \<open>The specification: the pending events and whether the looper runs.\<close>

fun spec_op :: "int \<Rightarrow> looper_op \<Rightarrow> event list \<times> bool \<times> bool \<Rightarrow> event list \<times> (event list \<times> bool \<times> bool)" where
  "spec_op now (Post m d) (p, t, r) = ([], p @ [\<lparr>mWhenUs = whenUs now d, mMessage = m, mToken = None\<rparr>], t, r)"
| "spec_op now (PostUnique m (Some k) d) (p, t, r) =
     ([], filter (\<lambda>e. mToken e \<noteq> Some k) p @ [\<lparr>mWhenUs = whenUs now d, mMessage = m, mToken = Some k\<rparr>], t, r)"
| "spec_op now (PostUnique m None d) s = ([], s)"
| "spec_op now Loop (p, t, r) =
     (case next_event p of
        Some e \<Rightarrow> if (t \<or> r) \<and> mWhenUs e \<le> now then ([e], remove1 e p, t, r) else ([], p, t, r)
      | None \<Rightarrow> ([], p, t, r))"
| "spec_op now (Start b err) (p, t, r) = ([], p, if t \<or> r then (t, r) else (\<not> b \<and> err = 0, b))"
| "spec_op now Stop (p, t, r) = ([], p, False, False)"

fun spec_run :: "(int \<times> looper_op) list \<Rightarrow> event list \<times> bool \<times> bool \<Rightarrow> (int \<times> event) list" where
  "spec_run [] s = []"
| "spec_run ((now, oper) # ops) s =
     (case spec_op now oper s of (es, s') \<Rightarrow> map (Pair now) es @ spec_run ops s')"

section \<open>The queue is the pending events in order of time\<close>

lemma insertEvent_Nil [simp]: "insertEvent e [] = [e]"
  and insertEvent_Cons [simp]:
    "insertEvent e (x # q) = (if mWhenUs x \<le> mWhenUs e then x # insertEvent e q else e # x # q)"
  by (simp_all add: insertEvent_def)

lemma insort_insertEvent: "insort_key mWhenUs x (insertEvent e q) = insertEvent e (insort_key mWhenUs x q)"
  by (induction q) auto

lemma sort_append: "sort_key mWhenUs (p @ [e]) = insertEvent e (sort_key mWhenUs p)"
  by (induction p) (simp_all add: insort_insertEvent)

lemma next_event_sort: "next_event p = (case sort_key mWhenUs p of [] \<Rightarrow> None | e # _ \<Rightarrow> Some e)"
proof (induction p)
  case (Cons x p)
  then show ?case by (cases "sort_key mWhenUs p") auto
qed simp

lemma sort_remove_next: "next_event p = Some e \<Longrightarrow> sort_key mWhenUs p = e # sort_key mWhenUs (remove1 e p)"
proof (induction p)
  case (Cons x p)
  show ?case
  proof (cases "next_event p")
    case None
    then have "p = []" by (cases p) (auto split: option.splits if_splits)
    then show ?thesis using Cons.prems by simp
  next
    case (Some f)
    then obtain q where "sort_key mWhenUs p = f # q" by (auto simp: next_event_sort split: list.splits)
    then show ?thesis using Cons Some by (auto split: if_splits)
  qed
qed simp

locale event_source =
  fixes queue_of :: "'p \<Rightarrow> event list"
    and add :: "event \<Rightarrow> 'p \<Rightarrow> 'p"
    and drop_token :: "nat \<Rightarrow> 'p \<Rightarrow> 'p"
    and front :: "'p \<Rightarrow> event option"
    and del :: "event \<Rightarrow> 'p \<Rightarrow> 'p"
  assumes queue_add: "queue_of (add e p) = insertEvent e (queue_of p)"
    and queue_drop: "queue_of (drop_token k p) = filter (\<lambda>e. mToken e \<noteq> Some k) (queue_of p)"
    and queue_front: "front p = (case queue_of p of [] \<Rightarrow> None | e # _ \<Rightarrow> Some e)"
    and queue_del: "front p = Some e \<Longrightarrow> queue_of p = e # queue_of (del e p)"
begin

text \<open>One call of \<open>loop\<close> in terms of the pending events.\<close>

lemma loop_front:
  assumes "mEventQueue l = queue_of p"
  shows "loop now l =
    (if \<not> mThread l \<and> \<not> mRunningLocally l then (Leave, l)
     else case front p of
       None \<Rightarrow> (WaitForever, l)
     | Some e \<Rightarrow>
         if mWhenUs e > now then (WaitFor ((if mWhenUs e - now > INT64_MAX div 1000 then INT64_MAX div 1000 else mWhenUs e - now) * 1000), l)
         else (Deliver e, l\<lparr>mEventQueue := queue_of (del e p)\<rparr>))"
proof (cases "front p")
  case None
  then show ?thesis using assms queue_front [of p] by (auto simp: loop_def split: list.splits)
next
  case (Some e)
  then have "queue_of p = e # queue_of (del e p)" by (rule queue_del)
  then show ?thesis using assms Some by (simp add: loop_def Let_def)
qed

end

interpretation eq: event_source "sort_key mWhenUs" "\<lambda>e p. p @ [e]" "\<lambda>k. filter (\<lambda>e. mToken e \<noteq> Some k)" next_event remove1
  by unfold_locales (simp_all add: sort_append filter_sort next_event_sort [symmetric] sort_remove_next)

definition implements :: "event list \<times> bool \<times> bool \<Rightarrow> looper \<Rightarrow> bool" where
  "implements s l \<longleftrightarrow> (case s of (p, t, r) \<Rightarrow> mEventQueue l = sort_key mWhenUs p \<and> mThread l = t \<and> mRunningLocally l = r)"

lemma step_implements:
  assumes "implements s l"
  shows "fst (spec_op now oper s) = fst (run_op now oper l) \<and> implements (snd (spec_op now oper s)) (snd (run_op now oper l))"
proof -
  obtain p t r where s: "s = (p, t, r)" by (cases s)
  have l: "mEventQueue l = sort_key mWhenUs p" "mThread l = t" "mRunningLocally l = r"
    using assms by (simp_all add: s implements_def)
  show ?thesis
  proof (cases oper)
    case (PostUnique m k d)
    then show ?thesis
      by (cases k) (simp_all add: s l implements_def postUnique_def Let_def eq.queue_drop [symmetric] eq.queue_add [symmetric])
  next
    case Loop
    then show ?thesis
      by (simp add: s l implements_def eq.loop_front [OF l(1)] split: option.splits) 
  qed (auto simp: s l implements_def post_def Let_def eq.queue_add start_def stop_def)
qed

lemma run_implements: "implements s l \<Longrightarrow> run ops l = spec_run ops s"
proof (induction ops arbitrary: s l)
  case (Cons tp ops)
  obtain now oper where tp: "tp = (now, oper)" by (cases tp)
  show ?case
    using step_implements [OF Cons.prems, of now oper] Cons.IH
    by (auto simp: tp split: prod.splits)
qed simp

text \<open>
  C38: a looper delivers events by time and, at equal times, in the order they were posted. For every
  sequence of calls (posting, posting uniquely, looping, starting and stopping, with any clock readings), the
  events that the code's insertion into its queue lets it deliver, and when, are those of the specification that
  keeps the pending events in posting order, removes those of a token that is posted again, and
  delivers the first posted event of the least time once that time has come.
\<close>
theorem looper_refines: "run ops newLooper = spec_run ops ([], False, False)"
  by (rule run_implements) (simp add: implements_def newLooper_def)

lemma insertEvent_set [simp]: "set (insertEvent e q) = insert e (set q)"
  by (induction q) auto

lemma sorted_insertEvent: "sorted (map mWhenUs q) \<Longrightarrow> sorted (map mWhenUs (insertEvent e q))"
  by (induction q) auto

lemma whenUs_ge: "now \<le> INT64_MAX \<Longrightarrow> now \<le> whenUs now d"
  by (simp add: whenUs_def)

text \<open>No event of the queue is before \<open>b\<close>.\<close>

definition after :: "int \<Rightarrow> looper \<Rightarrow> bool" where
  "after b l \<longleftrightarrow> sorted (map mWhenUs (mEventQueue l)) \<and> (\<forall>e \<in> set (mEventQueue l). b \<le> mWhenUs e)"

lemma after_insert: "after b l \<Longrightarrow> b \<le> mWhenUs e \<Longrightarrow> after b (l\<lparr>mEventQueue := insertEvent e (mEventQueue l)\<rparr>)"
  by (simp add: after_def sorted_insertEvent)

lemma after_filter: "after b l \<Longrightarrow> after b (l\<lparr>mEventQueue := filter P (mEventQueue l)\<rparr>)"
  by (auto simp: after_def sorted_filter)

lemma run_op_after:
  assumes "after b l" "b \<le> now" "now \<le> INT64_MAX" "run_op now oper l = (es, l')"
  shows "es = [] \<and> after b l' \<or> (\<exists>e. es = [e] \<and> b \<le> mWhenUs e \<and> mWhenUs e \<le> now \<and> after (mWhenUs e) l')"
proof (cases oper)
  case (Post m d)
  then show ?thesis
    using assms after_insert [OF assms(1)] whenUs_ge [OF assms(3), of d] by (auto simp: post_def Let_def)
next
  case (PostUnique m k d)
  then show ?thesis
    using assms after_insert [OF after_filter [OF assms(1)]] whenUs_ge [OF assms(3), of d]
    by (cases k) (auto simp: postUnique_def Let_def)
next
  case Loop
  then show ?thesis
    using assms by (cases "mEventQueue l") (auto simp: loop_def Let_def after_def split: if_splits)
qed (use assms in \<open>auto simp: start_def stop_def after_def Let_def split: if_splits\<close>)

lemma run_in_order:
  assumes "sorted (map fst ops)" "\<forall>t \<in> fst ` set ops. b \<le> t \<and> t \<le> INT64_MAX" "after b l"
  shows "sorted (map (\<lambda>(t, e). mWhenUs e) (run ops l)) \<and> (\<forall>(t, e) \<in> set (run ops l). b \<le> mWhenUs e \<and> mWhenUs e \<le> t)"
  using assms
proof (induction ops arbitrary: b l)
  case (Cons tp ops)
  obtain now oper where tp: "tp = (now, oper)" by (cases tp)
  obtain es l' where st: "run_op now oper l = (es, l')" by fastforce
  have now: "b \<le> now" "now \<le> INT64_MAX" using Cons.prems(2) by (auto simp: tp)
  have later: "sorted (map fst ops)" "\<forall>t \<in> fst ` set ops. now \<le> t \<and> t \<le> INT64_MAX"
    using Cons.prems(1,2) by (auto simp: tp)
  from run_op_after [OF Cons.prems(3) now st] show ?case
  proof (elim disjE exE conjE)
    assume "es = []" "after b l'"
    moreover have "\<forall>t \<in> fst ` set ops. b \<le> t \<and> t \<le> INT64_MAX" using later(2) now(1) by force
    ultimately show ?thesis using Cons.IH [OF later(1), of b l'] by (simp add: tp st)
  next
    fix e assume e: "es = [e]" "b \<le> mWhenUs e" "mWhenUs e \<le> now" "after (mWhenUs e) l'"
    then have "sorted (map (\<lambda>(t, e). mWhenUs e) (run ops l'))
        \<and> (\<forall>(t, x) \<in> set (run ops l'). mWhenUs e \<le> mWhenUs x \<and> mWhenUs x \<le> t)"
      using Cons.IH [OF later(1) _ e(4)] later(2) by force
    then show ?thesis using e(1-3) by (fastforce simp: tp st)
  qed
qed simp

text \<open>
  Nothing is delivered early, and nothing overtakes. With a clock that does not go back, every
  event is delivered at or after its time, and the times of the events delivered one after
  the other never decrease, whatever is posted in between.
\<close>
theorem looper_delivers_in_time_order:
  assumes "sorted (map fst ops)" "\<forall>t \<in> fst ` set ops. 0 \<le> t \<and> t \<le> INT64_MAX"
  shows "sorted (map (\<lambda>(t, e). mWhenUs e) (run ops newLooper)) \<and> (\<forall>(t, e) \<in> set (run ops newLooper). mWhenUs e \<le> t)"
  using run_in_order [OF assms, of newLooper] by (auto simp: after_def newLooper_def)

theorem looper_delivers_in_time_order_witness:
  "let ops = [(0, Start True 0), (1, Post newMessage 100), (2, Post newMessage 0), (3, Loop), (4, Loop), (200, Loop)]
   in map (\<lambda>(t, e). (t, mWhenUs e)) (run ops newLooper) = [(3, 2), (200, 101)]
      \<and> sorted (map (\<lambda>(t, e). mWhenUs e) (run ops newLooper))"
proof -
  let ?ops = "[(0, Start True 0), (1, Post newMessage 100), (2, Post newMessage 0), (3, Loop), (4, Loop), (200, Loop)] :: (int \<times> looper_op) list"
  have r: "map (\<lambda>(t, e). (t, mWhenUs e)) (run ?ops newLooper) = [(3, 2), (200, 101)]"
    by (simp add: newLooper_def start_def post_def whenUs_def loop_def INT64_MAX_def Let_def)
  have "sorted (map fst ?ops)" "\<forall>t \<in> fst ` set ?ops. 0 \<le> t \<and> t \<le> INT64_MAX" by (simp_all add: INT64_MAX_def)
  then show ?thesis using looper_delivers_in_time_order [of ?ops] r unfolding Let_def by blast
qed

text \<open>
  \<open>postUnique\<close> leaves exactly one event of its token in the queue, the one just posted, and the
  events of other tokens as they were; and no wake-up is lost: whenever the queue was empty, or its first event
  becomes due earlier than before, the looper is signalled. A null token is refused and changes nothing.
\<close>
theorem postUnique_single:
  assumes "sorted (map mWhenUs (mEventQueue l))"
  shows "postUnique m None d now l = (EINVAL, False, l)
   \<and> (case postUnique m (Some k) d now l of (s, signal, l') \<Rightarrow>
        s = LooperOK \<and> filter (\<lambda>e. mToken e = Some k) (mEventQueue l') = [\<lparr>mWhenUs = whenUs now d, mMessage = m, mToken = Some k\<rparr>]
        \<and> filter (\<lambda>e. mToken e \<noteq> Some k) (mEventQueue l') = filter (\<lambda>e. mToken e \<noteq> Some k) (mEventQueue l)
        \<and> (mEventQueue l = [] \<or> mWhenUs (hd (mEventQueue l')) < mWhenUs (hd (mEventQueue l)) \<longrightarrow> signal))"
proof -
  let ?e = "\<lparr>mWhenUs = whenUs now d, mMessage = m, mToken = Some k\<rparr>"
  let ?q = "filter (\<lambda>e. mToken e \<noteq> Some k) (mEventQueue l)"
  have "filter (\<lambda>e. mToken e = Some k) (insertEvent ?e ?q) = [?e] \<and> filter (\<lambda>e. mToken e \<noteq> Some k) (insertEvent ?e ?q) = ?q"
    if "\<forall>e \<in> set q. mToken e \<noteq> Some k" "q = ?q" for q
    unfolding that(2) [symmetric] using that(1) by (induction q) auto
  moreover have "hd (insertEvent ?e ?q) = ?e \<or> mEventQueue l \<noteq> [] \<and> mWhenUs (hd (mEventQueue l)) \<le> mWhenUs (hd (insertEvent ?e ?q))"
  proof (cases ?q)
    case (Cons x q)
    then have "x \<in> set (mEventQueue l)" using filter_is_subset [of "\<lambda>e. mToken e \<noteq> Some k" "mEventQueue l"] by auto
    then have "mWhenUs (hd (mEventQueue l)) \<le> mWhenUs x" using assms by (cases "mEventQueue l") auto
    then show ?thesis using Cons \<open>x \<in> set (mEventQueue l)\<close> by auto
  qed simp
  ultimately show ?thesis by (auto simp: postUnique_def Let_def)
qed

theorem postUnique_single_witness:
  "\<exists>s signal l'. postUnique newMessage (Some 1) 0 5 (newLooper\<lparr>mEventQueue := [\<lparr>mWhenUs = 3, mMessage = newMessage, mToken = Some 1\<rparr>]\<rparr>)
      = (s, signal, l')
    \<and> filter (\<lambda>e. mToken e = Some 1) (mEventQueue l') = [\<lparr>mWhenUs = 5, mMessage = newMessage, mToken = Some 1\<rparr>]"
proof -
  let ?l = "newLooper\<lparr>mEventQueue := [\<lparr>mWhenUs = 3, mMessage = newMessage, mToken = Some 1\<rparr>]\<rparr>"
  have "sorted (map mWhenUs (mEventQueue ?l))" "whenUs 5 0 = 5" by (simp_all add: whenUs_def)
  then show ?thesis
    using postUnique_single [of ?l newMessage 0 5 1] by (cases "postUnique newMessage (Some 1) 0 5 ?l") auto
qed

text \<open>
  A handler that outlives its looper may be lost for ever. When its looper is destroyed before
  the handler is unregistered and another looper is created in between, the register has dropped the entry without
  resetting the handler's identifier: \<open>unregisterHandler\<close> has no effect any more and registering the handler again aborts,
  although without the looper created in between it succeeds.
\<close>
theorem stale_handler_cannot_register:
  assumes "smap_ok (mHandlers w)" "smap_find (mHandlers w) i = Some (l, ha)"
    and "smap_find (handlers w) ha = Some h" "hID h = i" "i \<noteq> 0"
  shows "registerHandler l2 ha (unregisterHandler i (createLooper l2 (destroyLooper l w))) = None
    \<and> registerHandler l2 ha (unregisterHandler i (destroyLooper l w)) \<noteq> None"
proof -
  let ?w = "createLooper l2 (destroyLooper l w)"
  have "(i, x) \<notin> set (mHandlers ?w)" for x
    using smap_in_set [OF assms(1)] assms(2)
    by (auto simp: createLooper_def destroyLooper_def unregisterStaleHandlers_def smap_find_erase Let_def)
  then have "smap_find (mHandlers ?w) i = None"
    using smap_keys_find [of i "mHandlers ?w"] by (force simp: smap_keys_def)
  then have "unregisterHandler i ?w = ?w" by (simp add: unregisterHandler_def)
  moreover have "smap_find (handlers ?w) ha = Some h"
    using assms(3) by (simp add: createLooper_def destroyLooper_def unregisterStaleHandlers_def Let_def)
  ultimately have "registerHandler l2 ha (unregisterHandler i ?w) = None"
    using assms(4,5) by (simp add: registerHandler_def)
  moreover have "registerHandler l2 ha (unregisterHandler i (destroyLooper l w)) \<noteq> None"
    using assms(2,3) by (simp add: registerHandler_def unregisterHandler_def destroyLooper_def smap_find_set setID_def Let_def)
  ultimately show ?thesis by blast
qed

theorem stale_handler_cannot_register_witness:
  "\<exists>i w. registerHandler 1 7 (createLooper 1 (ALooperRoster\<lparr>handlers := [(7, AHandler)]\<rparr>)) = Some (i, w)
     \<and> registerHandler 2 7 (unregisterHandler i (createLooper 2 (destroyLooper 1 w))) = None"
proof -
  let ?h = "setID 1 (Some 1) AHandler"
  let ?w = "\<lparr>loopers = [(1, newLooper)], handlers = [(7, ?h)], tokens = [], mNextHandlerID = 2, mHandlers = [(1, (1, 7))]\<rparr>"
  have r: "registerHandler 1 7 (createLooper 1 (ALooperRoster\<lparr>handlers := [(7, AHandler)]\<rparr>)) = Some (1, ?w)"
    by (simp add: registerHandler_def createLooper_def ALooperRoster_def unregisterStaleHandlers_def AHandler_def setID_def Let_def)
  have "registerHandler 2 7 (unregisterHandler 1 (createLooper 2 (destroyLooper 1 ?w))) = None"
    using stale_handler_cannot_register [of ?w 1 1 7 ?h 2] by (simp add: smap_ok_def setID_def)
  then show ?thesis using r by blast
qed

end
