(* ===== verification/A_String.thy ===== *)
theory A_String
  imports C_String
begin

text \<open>
  \<^verbatim>\<open>AString.cpp\<close> of the foundation library: a string with an allocated block that grows.

  \<open>mData\<close> is the block, \<open>isStatic\<close> says that it is the shared empty string, which must be neither written nor
  reallocated. The bytes that \<open>realloc\<close> adds to a block are unspecified: the argument \<open>junk\<close>; \<open>realloc\<close> itself succeeds.
  Sizes and positions are values of \<^verbatim>\<open>size_t\<close>: arithmetic on them wraps at the argument \<open>M\<close>, \<open>2 ^ 32\<close> or \<open>2 ^ 64\<close>. Writing
  outside the block or to the shared string, reading outside the source and a failed \<open>CHECK\<close> are undefined (\<open>None\<close>). A source is another object
  than the string it is appended to or inserted into, and \<^verbatim>\<open>char\<close> is unsigned, as on ARM.
\<close>

section \<open>Memory\<close>

definition memcpy :: "bool \<Rightarrow> nat \<Rightarrow> u8 list \<Rightarrow> u8 list \<Rightarrow> u8 list ub" where
  "memcpy shared i bytes block =
     (if i + length bytes \<le> length block \<and> (shared \<longrightarrow> bytes = [])
      then Some (take i block @ bytes @ drop (i + length bytes) block) else None)"

definition memmove :: "bool \<Rightarrow> nat \<Rightarrow> nat \<Rightarrow> nat \<Rightarrow> u8 list \<Rightarrow> u8 list ub" where
  "memmove shared dst src n block =
     (if src + n \<le> length block then memcpy shared dst (take n (drop src block)) block else None)"

definition realloc :: "bool \<Rightarrow> (nat \<Rightarrow> u8) \<Rightarrow> nat \<Rightarrow> u8 list \<Rightarrow> u8 list ub" where
  "realloc shared junk n block = (if shared then None else Some (take n block @ map junk [length block..<n]))"

section \<open>\<^verbatim>\<open>AString\<close>\<close>

record astring =
  mData :: "u8 list"
  mSize :: nat
  mAllocSize :: nat
  isStatic :: bool

definition emptyAString :: astring where
  "emptyAString = \<lparr>mData = [0], mSize = 0, mAllocSize = 1, isStatic = True\<rparr>"

definition clear :: "astring \<Rightarrow> astring" where
  "clear s = s\<lparr>mData := [0], isStatic := True, mSize := 0, mAllocSize := 1\<rparr>"

text \<open>A copy of the empty string in a block of its own.\<close>

definition makeMutable :: "astring \<Rightarrow> astring" where
  "makeMutable s = (if isStatic s then s\<lparr>mData := [0], isStatic := False\<rparr> else s)"

definition grow :: "nat \<Rightarrow> (nat \<Rightarrow> u8) \<Rightarrow> nat \<Rightarrow> astring \<Rightarrow> astring ub" where
  "grow M junk n s =
     (if (mSize s + n + 1) mod M > mAllocSize s
      then let a = (mAllocSize s + n + 31) mod M div 32 * 32
           in map_option (\<lambda>d. s\<lparr>mAllocSize := a, mData := d\<rparr>) (realloc (isStatic s) junk a (mData s))
      else Some s)"

definition setSize :: "nat \<Rightarrow> astring \<Rightarrow> astring ub" where
  "setSize n s = map_option (\<lambda>d. s\<lparr>mSize := n, mData := d\<rparr>) (memcpy (isStatic s) n [0] (mData s))"

definition append :: "nat \<Rightarrow> (nat \<Rightarrow> u8) \<Rightarrow> u8 list \<Rightarrow> nat \<Rightarrow> astring \<Rightarrow> astring ub" where
  "append M junk src n s =
     (if length src < n then None
      else
        case grow M junk n (makeMutable s) of
          None \<Rightarrow> None
        | Some s \<Rightarrow>
            (case memcpy (isStatic s) (mSize s) (take n src) (mData s) of
               None \<Rightarrow> None
             | Some d \<Rightarrow> setSize ((mSize s + n) mod M) (s\<lparr>mData := d\<rparr>)))"

definition appendCString :: "nat \<Rightarrow> (nat \<Rightarrow> u8) \<Rightarrow> u8 list \<Rightarrow> astring \<Rightarrow> astring ub" where
  "appendCString M junk src s = (case strlen src of None \<Rightarrow> None | Some n \<Rightarrow> append M junk src n s)"

definition appendAString :: "nat \<Rightarrow> (nat \<Rightarrow> u8) \<Rightarrow> astring \<Rightarrow> astring \<Rightarrow> astring ub" where
  "appendAString M junk from s = append M junk (mData from) (mSize from) s"

definition appendSub :: "nat \<Rightarrow> (nat \<Rightarrow> u8) \<Rightarrow> astring \<Rightarrow> nat \<Rightarrow> nat \<Rightarrow> astring \<Rightarrow> astring ub" where
  "appendSub M junk from offset n s =
     (if offset > length (mData from) then None else append M junk (drop offset (mData from)) n s)"

definition setTo :: "nat \<Rightarrow> (nat \<Rightarrow> u8) \<Rightarrow> u8 list \<Rightarrow> nat \<Rightarrow> astring \<Rightarrow> astring ub" where
  "setTo M junk src n s = append M junk src n (clear s)"

definition setToCString :: "nat \<Rightarrow> (nat \<Rightarrow> u8) \<Rightarrow> u8 list \<Rightarrow> astring \<Rightarrow> astring ub" where
  "setToCString M junk src s = (case strlen src of None \<Rightarrow> None | Some n \<Rightarrow> setTo M junk src n s)"

definition setToSub :: "nat \<Rightarrow> (nat \<Rightarrow> u8) \<Rightarrow> astring \<Rightarrow> nat \<Rightarrow> nat \<Rightarrow> astring \<Rightarrow> astring ub" where
  "setToSub M junk from offset n s =
     (if offset > length (mData from) then None
      else setTo M junk (drop offset (mData from)) n (clear s))"

text \<open>Constructors: from a C string, from a number of characters (a null pointer is \<open>None\<close>), copies.\<close>

definition AString_cstr :: "nat \<Rightarrow> (nat \<Rightarrow> u8) \<Rightarrow> u8 list option \<Rightarrow> astring ub" where
  "AString_cstr M junk src =
     (case src of None \<Rightarrow> Some (clear emptyAString) | Some p \<Rightarrow> setToCString M junk p emptyAString)"

definition AString_chars :: "nat \<Rightarrow> (nat \<Rightarrow> u8) \<Rightarrow> u8 list option \<Rightarrow> nat \<Rightarrow> astring ub" where
  "AString_chars M junk src n =
     (case src of None \<Rightarrow> Some (clear emptyAString) | Some p \<Rightarrow> setTo M junk p n emptyAString)"

definition AString_copy :: "nat \<Rightarrow> (nat \<Rightarrow> u8) \<Rightarrow> astring \<Rightarrow> astring ub" where
  "AString_copy M junk from = setToSub M junk from 0 (mSize from) emptyAString"

definition AString_sub :: "nat \<Rightarrow> (nat \<Rightarrow> u8) \<Rightarrow> astring \<Rightarrow> nat \<Rightarrow> nat \<Rightarrow> astring ub" where
  "AString_sub M junk from offset n = setToSub M junk from offset n emptyAString"

definition erase :: "nat \<Rightarrow> nat \<Rightarrow> nat \<Rightarrow> astring \<Rightarrow> astring ub" where
  "erase M start n s =
     (if \<not> start < mSize s \<or> \<not> (start + n) mod M \<le> mSize s then None
      else
        let s = makeMutable s in
        case memmove (isStatic s) start ((start + n) mod M) (nat ((int (mSize s) - int start - int n) mod int M)) (mData s) of
          None \<Rightarrow> None
        | Some d \<Rightarrow> setSize (nat ((int (mSize s) - int n) mod int M)) (s\<lparr>mData := d\<rparr>))"

definition insert :: "nat \<Rightarrow> (nat \<Rightarrow> u8) \<Rightarrow> u8 list \<Rightarrow> nat \<Rightarrow> nat \<Rightarrow> astring \<Rightarrow> astring ub" where
  "insert M junk src n pos s =
     (if \<not> pos \<le> mSize s \<or> length src < n then None
      else
        case grow M junk n (makeMutable s) of
          None \<Rightarrow> None
        | Some s \<Rightarrow>
            (case memmove (isStatic s) ((pos + n) mod M) pos (mSize s - pos + 1) (mData s) of
               None \<Rightarrow> None
             | Some d \<Rightarrow>
                 map_option (\<lambda>d. s\<lparr>mData := d, mSize := (mSize s + n) mod M\<rparr>) (memcpy (isStatic s) pos (take n src) d)))"

text \<open>The loops of \<open>trim\<close>: the first character that is not a space, and the end of the last one.\<close>

fun skipSpaces :: "u8 list \<Rightarrow> nat \<Rightarrow> nat" where
  "skipSpaces [] i = i"
| "skipSpaces (c # cs) i = (if isspace c then skipSpaces cs (Suc i) else i)"

fun trimEnd :: "u8 list \<Rightarrow> nat \<Rightarrow> nat \<Rightarrow> nat" where
  "trimEnd cs i 0 = 0"
| "trimEnd cs i (Suc j) = (if Suc j > i \<and> isspace (cs ! j) then trimEnd cs i j else Suc j)"

definition trim :: "astring \<Rightarrow> astring ub" where
  "trim s =
     (let s = makeMutable s;
          i = skipSpaces (take (mSize s) (mData s)) 0;
          j = trimEnd (mData s) i (mSize s)
      in if \<not> mSize s \<le> length (mData s) then None
         else case memmove (isStatic s) 0 i (j - i) (mData s) of
           None \<Rightarrow> None
         | Some d \<Rightarrow> setSize (j - i) (s\<lparr>mData := d\<rparr>))"

definition toLower :: "astring \<Rightarrow> astring ub" where
  "toLower s =
     (let s = makeMutable s in
      if mSize s \<le> length (mData s)
      then map_option (\<lambda>d. s\<lparr>mData := d\<rparr>) (memcpy (isStatic s) 0 (map C_String.tolower (take (mSize s) (mData s))) (mData s))
      else None)"

section \<open>Queries\<close>

definition hash :: "nat \<Rightarrow> astring \<Rightarrow> nat" where
  "hash M s = fold (\<lambda>c x. (x * 31 + unat c) mod M) (take (mSize s) (mData s)) 0"

definition eq :: "astring \<Rightarrow> astring \<Rightarrow> bool" where
  "eq s t \<longleftrightarrow> mSize s = mSize t \<and> take (mSize s) (mData s) = take (mSize t) (mData t)"

definition empty :: "astring \<Rightarrow> bool" where
  "empty s \<longleftrightarrow> mSize s = 0"

definition compare :: "astring \<Rightarrow> astring \<Rightarrow> int ub" where
  "compare s t = strcmp id (mData s) (mData t)"

definition compareIgnoreCase :: "astring \<Rightarrow> astring \<Rightarrow> int ub" where
  "compareIgnoreCase s t = strcmp C_String.tolower (mData s) (mData t)"

definition equalsIgnoreCase :: "astring \<Rightarrow> astring \<Rightarrow> bool ub" where
  "equalsIgnoreCase s t = map_option (\<lambda>r. r = 0) (compareIgnoreCase s t)"

definition startsWith :: "(u8 \<Rightarrow> u8) \<Rightarrow> u8 list \<Rightarrow> astring \<Rightarrow> bool ub" where
  "startsWith f prefix s =
     (case strlen prefix of
        None \<Rightarrow> None
      | Some n \<Rightarrow> map_option (\<lambda>r. r = 0) (strncmp f n (mData s) prefix))"

definition endsWith :: "(u8 \<Rightarrow> u8) \<Rightarrow> u8 list \<Rightarrow> astring \<Rightarrow> bool ub" where
  "endsWith f suffix s =
     (case strlen suffix of
        None \<Rightarrow> None
      | Some n \<Rightarrow>
          if mSize s < n then Some False
          else map_option (\<lambda>r. r = 0) (strcmp f (drop (mSize s - n) (mData s)) suffix))"

text \<open>\<open>strstr\<close>: the offset of the first place where the second string is a prefix.\<close>

fun strstr :: "u8 list \<Rightarrow> u8 list \<Rightarrow> nat \<Rightarrow> nat option ub" where
  "strstr [] sub n = None"
| "strstr (c # cs) sub n =
     (case strlen sub of
        None \<Rightarrow> None
      | Some len \<Rightarrow>
          (case strncmp id len (c # cs) sub of
             None \<Rightarrow> None
           | Some r \<Rightarrow>
               if r = 0 then Some (Some n)
               else if c = 0 then Some None
               else strstr cs sub (Suc n)))"

definition find :: "u8 list \<Rightarrow> nat \<Rightarrow> astring \<Rightarrow> int ub" where
  "find sub start s =
     (if \<not> start \<le> mSize s then None
      else map_option (\<lambda>r. case r of None \<Rightarrow> - 1 | Some n \<Rightarrow> int n) (strstr (drop start (mData s)) sub start))"

section \<open>Numbers\<close>

fun digits :: "nat \<Rightarrow> u8 list" where
  "digits n = (if n < 10 then [of_nat (48 + n)] else digits (n div 10) @ [of_nat (48 + n mod 10)])"

declare digits.simps [simp del]

definition decimal :: "int \<Rightarrow> u8 list" where
  "decimal x = (if x < 0 then ch CHR ''-'' # digits (nat (- x)) else digits (nat x))"

text \<open>
  \<open>append\<close> of an integer: printed into a buffer of \<open>room\<close> bytes (16 for the 32-bit types, 32 for
  the others), with a \<open>CHECK\<close> that it fits with its terminating zero.
\<close>

definition appendNumber :: "nat \<Rightarrow> (nat \<Rightarrow> u8) \<Rightarrow> nat \<Rightarrow> int \<Rightarrow> astring \<Rightarrow> astring ub" where
  "appendNumber M junk room x s =
     (if \<not> (length (decimal x) > 0 \<and> length (decimal x) < room) then None
      else appendCString M junk (decimal x @ [0]) s)"

section \<open>A string object represents a list of characters\<close>

text \<open>
  The characters, a zero and the rest of the block, whose size is recorded; the shared empty string
  has nothing else.
\<close>

definition block :: "astring \<Rightarrow> u8 list \<Rightarrow> u8 list \<Rightarrow> bool" where
  "block s t r \<longleftrightarrow> mData s = t @ 0 # r \<and> mSize s = length t \<and> mAllocSize s = length (mData s)
     \<and> (isStatic s \<longrightarrow> t = [] \<and> r = [])"

definition represents :: "astring \<Rightarrow> u8 list \<Rightarrow> bool" where
  "represents s t \<longleftrightarrow> (\<exists>r. block s t r)"

lemma blockI: "mData s = t @ 0 # r \<Longrightarrow> mSize s = length t \<Longrightarrow> mAllocSize s = length (mData s) \<Longrightarrow> \<not> isStatic s \<Longrightarrow> represents s t"
  by (auto simp: represents_def block_def)

lemma memcpy_append: "length bs \<le> length ys \<Longrightarrow> memcpy False (length t) bs (t @ ys) = Some (t @ bs @ drop (length bs) ys)"
  by (simp add: memcpy_def)

lemma memcpy_replace: "length y = length x \<Longrightarrow> memcpy False (length p) x (p @ y @ z) = Some (p @ x @ z)"
  by (simp add: memcpy_def)

lemma makeMutable_block: "block s t r \<Longrightarrow> block (makeMutable s) t r \<and> \<not> isStatic (makeMutable s)"
  by (auto simp: block_def makeMutable_def)

lemma grow_block:
  assumes "block s t r" "\<not> isStatic s" "mAllocSize s + n + 31 < M"
  obtains g r' where "grow M junk n s = Some g" "block g t r'" "n \<le> length r'" "\<not> isStatic g"
proof (cases "mSize s + n + 1 > mAllocSize s")
  case True
  define a where "a = (mAllocSize s + n + 31) div 32 * 32"
  define d where "d = t @ 0 # (r @ map junk [length (mData s)..<a])"
  have size: "mAllocSize s = length t + 1 + length r" "mSize s = length t" "mData s = t @ 0 # r" using assms(1) by (simp_all add: block_def)
  have "mAllocSize s + n \<le> a" by (simp add: a_def)
  then have "realloc False junk a (mData s) = Some d" "n \<le> length (r @ map junk [length (mData s)..<a])"
    using size by (simp_all add: realloc_def d_def)
  moreover have "(mSize s + n + 1) mod M = mSize s + n + 1" "(mAllocSize s + n + 31) mod M = mAllocSize s + n + 31" using size assms(3) by simp_all
  ultimately have gr: "grow M junk n s = Some (s\<lparr>mAllocSize := a, mData := d\<rparr>)"
    using True assms(2) by (simp add: grow_def a_def Let_def)
  have "length d = a" using size \<open>mAllocSize s + n \<le> a\<close> by (simp add: d_def)
  then have "block (s\<lparr>mAllocSize := a, mData := d\<rparr>) t (r @ map junk [length (mData s)..<a])"
    using size assms(2) by (simp add: block_def d_def)
  then show thesis using that [OF gr] assms(2) \<open>n \<le> length (r @ _)\<close> by simp
next
  case False
  moreover have "(mSize s + n + 1) mod M = mSize s + n + 1" using False assms(3) by simp
  ultimately show thesis using that [of s r] assms by (simp add: grow_def block_def)
qed

lemma setSize_block:
  assumes "mData s = t @ b # r" "mAllocSize s = length (mData s)" "\<not> isStatic s" "n = length t"
  shows "\<exists>s'. setSize n s = Some s' \<and> represents s' t"
  using assms memcpy_append [of "[0]" "b # r" t] by (auto simp: setSize_def intro!: blockI)

lemma makeMutable_alloc: "mAllocSize (makeMutable s) = mAllocSize s"
  by (simp add: makeMutable_def)

lemma grown:
  assumes "represents s t" "mAllocSize s + n + 31 < M"
  obtains g r where "grow M junk n (makeMutable s) = Some g" "mData g = t @ 0 # r" "mSize g = length t" "n \<le> length r"
    "mAllocSize g = length (mData g)" "\<not> isStatic g" "length t + n < M"
proof -
  obtain r0 where b: "block s t r0" using assms(1) by (auto simp: represents_def)
  have m: "block (makeMutable s) t r0" "\<not> isStatic (makeMutable s)" using makeMutable_block [OF b] by simp_all
  obtain g r where g: "grow M junk n (makeMutable s) = Some g" "block g t r" "n \<le> length r" "\<not> isStatic g"
    by (rule grow_block [OF m, of n M junk]) (use assms(2) in \<open>simp_all add: makeMutable_alloc\<close>)
  moreover have "length t + n < M" using b assms(2) by (simp add: block_def)
  ultimately show thesis using that [OF g(1)] by (simp add: block_def)
qed

lemma append_represents:
  assumes "represents s t" "n \<le> length src" "mAllocSize s + n + 31 < M"
  shows "\<exists>s'. append M junk src n s = Some s' \<and> represents s' (t @ take n src)"
proof -
  obtain g r where g: "grow M junk n (makeMutable s) = Some g" "mData g = t @ 0 # r" "mSize g = length t" "n \<le> length r"
    "mAllocSize g = length (mData g)" "\<not> isStatic g" "length t + n < M" using grown [OF assms(1,3)] by blast
  obtain b r' where br: "drop n (0 # r) = b # r'" using g(4) by (cases "drop n (0 # r)") auto
  have "memcpy (isStatic g) (mSize g) (take n src) (mData g) = Some ((t @ take n src) @ b # r')"
    using memcpy_append [of "take n src" "0 # r" t] g(2-4,6) assms(2) br by (simp add: min_def)
  moreover have "length (b # r') = Suc (length r) - n" unfolding br [symmetric] by simp
  ultimately show ?thesis
    using setSize_block [of "g\<lparr>mData := (t @ take n src) @ b # r'\<rparr>" "t @ take n src" b r' "length t + n"] g assms(2)
    by (simp add: append_def)
qed

lemma insert_represents:
  assumes "represents s t" "pos \<le> length t" "n \<le> length src" "mAllocSize s + n + 31 < M"
  shows "\<exists>s'. insert M junk src n pos s = Some s' \<and> represents s' (take pos t @ take n src @ drop pos t)"
proof -
  obtain g r where g: "grow M junk n (makeMutable s) = Some g" "mData g = t @ 0 # r" "mSize g = length t" "n \<le> length r"
    "mAllocSize g = length (mData g)" "\<not> isStatic g" "length t + n < M" using grown [OF assms(1,4)] by blast
  have len: "mSize s = length t" using assms(1) by (auto simp: represents_def block_def)
  let ?tail = "drop pos t @ [0]"
  have "take (mSize g - pos + 1) (drop pos (mData g)) = ?tail" using assms(2) by (simp add: g Suc_diff_le)
  moreover have "pos + n + length ?tail = Suc (n + length t)" "drop (Suc (n + length t)) (mData g) = drop n r"
    using assms(2) by (simp_all add: g(2))
  ultimately have "memmove False (pos + n) pos (mSize g - pos + 1) (mData g) = Some (take (pos + n) (mData g) @ ?tail @ drop n r)"
    using assms(2) g(4) unfolding memmove_def memcpy_def by (simp add: g(2,3) del: drop_append take_append)
  moreover have "memcpy False pos (take n src) (take (pos + n) (mData g) @ ?tail @ drop n r) = Some ((take pos t @ take n src @ drop pos t) @ 0 # drop n r)"
  proof -
    have "take pos (mData g) = take pos t" using assms(2) by (simp add: g(2))
    then have "take (pos + n) (mData g) = take pos t @ take n (drop pos (mData g))" by (simp only: take_add)
    moreover have "length (take n (drop pos (mData g))) = n" using assms(2) g(4) by (simp add: g(2))
    ultimately show ?thesis
      using memcpy_replace [of "take n (drop pos (mData g))" "take n src" "take pos t" "?tail @ drop n r"] assms(2,3) by simp
  qed
  ultimately show ?thesis
    using assms(2,3) g len by (auto simp: insert_def intro!: blockI)
qed

lemma erase_represents:
  assumes "represents s t" "start < length t" "start + n \<le> length t" "length t < M"
  shows "\<exists>s'. erase M start n s = Some s' \<and> represents s' (take start t @ drop (start + n) t)"
proof -
  obtain r where b: "block s t r" using assms(1) by (auto simp: represents_def)
  let ?m = "makeMutable s"
  have m: "mData ?m = t @ 0 # r" "mSize ?m = length t" "mAllocSize ?m = length (mData ?m)" "\<not> isStatic ?m" "mSize s = length t"
    using makeMutable_block [OF b] b by (simp_all add: block_def)
  let ?tail = "drop (start + n) t"
  have "memmove False start (start + n) (mSize ?m - start - n) (mData ?m) =
      memcpy False start ?tail (take start t @ drop start t @ 0 # r)"
    using assms(3) by (simp add: memmove_def m) (metis append.assoc append_take_drop_id)
  also have "\<dots> = Some (take start t @ ?tail @ drop (length ?tail) (drop start t @ 0 # r))"
    using memcpy_append [of ?tail "drop start t @ 0 # r" "take start t"] assms(2) by simp
  finally have mv: "memmove False start (start + n) (mSize ?m - start - n) (mData ?m) = \<dots>" .
  obtain c q where cq: "drop (length ?tail) (drop start t @ 0 # r) = c # q"
    by (cases "drop (length ?tail) (drop start t @ 0 # r)") auto
  then have "length (c # q) = length (drop start t @ 0 # r) - length ?tail" by (metis length_drop)
  moreover have "(start + n) mod M = start + n" "nat ((int (length t) - int start - int n) mod int M) = length t - start - n"
    "nat ((int (length t) - int n) mod int M) = length t - n" using assms(2-4) by simp_all
  ultimately show ?thesis
    using setSize_block [of "?m\<lparr>mData := (take start t @ ?tail) @ c # q\<rparr>" "take start t @ ?tail" c q "mSize ?m - n"]
      mv cq m assms(2,3) by (simp add: erase_def)
qed

definition rstrip :: "u8 list \<Rightarrow> u8 list" where
  "rstrip cs = rev (dropWhile isspace (rev cs))"

lemma rstrip_snoc: "rstrip (cs @ [c]) = (if isspace c then rstrip cs else cs @ [c])"
  by (simp add: rstrip_def)

lemma skipSpaces_eq: "skipSpaces cs i = i + length (takeWhile isspace cs)"
  by (induction cs arbitrary: i) auto

lemma trimEnd_spec:
  "i \<le> j \<Longrightarrow> j \<le> length cs \<Longrightarrow>
   i \<le> trimEnd cs i j \<and> trimEnd cs i j \<le> j \<and> take (trimEnd cs i j - i) (drop i cs) = rstrip (take (j - i) (drop i cs))"
proof (induction j)
  case 0
  then show ?case by (simp add: rstrip_def)
next
  case (Suc j)
  show ?case
  proof (cases "i \<le> j")
    case True
    then have "take (Suc j - i) (drop i cs) = take (j - i) (drop i cs) @ [cs ! j]"
      using Suc.prems(2) by (simp add: Suc_diff_le take_Suc_conv_app_nth)
    then show ?thesis using Suc True by (simp add: rstrip_snoc)
  next
    case False
    then show ?thesis using Suc.prems by (simp add: rstrip_def)
  qed
qed

lemma trim_represents:
  assumes "represents s t"
  shows "\<exists>s'. trim s = Some s' \<and> represents s' (rstrip (dropWhile isspace t))"
proof -
  obtain r where b: "block s t r" using assms by (auto simp: represents_def)
  let ?m = "makeMutable s"
  have m: "mData ?m = t @ 0 # r" "mSize ?m = length t" "mAllocSize ?m = length (mData ?m)" "\<not> isStatic ?m"
    using makeMutable_block [OF b] by (simp_all add: block_def)
  have inside: "length t \<le> length (mData ?m)" by (simp add: m(1))
  define i where "i = length (takeWhile isspace t)"
  define j where "j = trimEnd (mData ?m) i (length t)"
  have i: "skipSpaces (take (mSize ?m) (mData ?m)) 0 = i" by (simp add: skipSpaces_eq m i_def)
  have "i \<le> length t" by (simp add: i_def length_takeWhile_le)
  then have j: "i \<le> j" "j \<le> length t" "take (j - i) (drop i (mData ?m)) = rstrip (take (length t - i) (drop i (mData ?m)))"
    using trimEnd_spec [of i "length t" "mData ?m"] m(1) unfolding j_def by (metis le_add1 length_append)+
  have "take (length t - i) (drop i (mData ?m)) = dropWhile isspace t"
    using \<open>i \<le> length t\<close> by (simp add: m dropWhile_eq_drop i_def)
  with j(3) have tk: "take (j - i) (drop i (mData ?m)) = rstrip (dropWhile isspace t)" by simp
  have ln: "length (take (j - i) (drop i (mData ?m))) = j - i" using j(1,2) by (simp add: m)
  have ln2: "length (rstrip (dropWhile isspace t)) = j - i" using ln tk by simp
  have "memmove False 0 i (j - i) (mData ?m) = Some (rstrip (dropWhile isspace t) @ drop (j - i) (mData ?m))"
    using j(1,2) ln2 tk by (simp add: memmove_def memcpy_def m(1) del: drop_append take_append)
  moreover obtain c q where "drop (j - i) (mData ?m) = c # q" "length (c # q) = length (mData ?m) - (j - i)"
    using j(2) by (cases "drop (j - i) (mData ?m)") (auto simp: m dest: arg_cong [where f = length])
  moreover have "length (rstrip (dropWhile isspace t) @ drop (j - i) (mData ?m)) = mAllocSize ?m"
    using ln2 j(1,2) by (simp add: m(1,3))
  ultimately have tr: "trim s = setSize (j - i) (?m\<lparr>mData := rstrip (dropWhile isspace t) @ c # q\<rparr>)"
    and al: "mAllocSize ?m = length (rstrip (dropWhile isspace t) @ c # q)"
    using inside by (simp_all add: trim_def i i [unfolded m(2)] m(2,4) j_def [symmetric] Let_def)
  show ?thesis unfolding tr
    by (rule setSize_block) (simp, simp add: al, use m(4) in simp, rule ln2 [symmetric])
qed

lemma toLower_represents:
  assumes "represents s t"
  shows "\<exists>s'. toLower s = Some s' \<and> represents s' (map C_String.tolower t)"
proof -
  obtain r where b: "block s t r" using assms by (auto simp: represents_def)
  from makeMutable_block [OF this] show ?thesis
    by (auto simp: toLower_def block_def Let_def memcpy_def intro!: blockI)
qed

lemma clear_represents: "represents (clear s) []" "represents emptyAString []"
  by (simp_all add: represents_def block_def clear_def emptyAString_def)

text \<open>
  C39: an \<open>AString\<close> is a list of characters. Starting from an object that represents \<open>t\<close> (its block starts with
  \<open>t\<close> and a zero and has the recorded size; the shared empty string represents the empty list), every modification stays inside a block of its own
  and leaves the shared empty string alone, for any contents of reallocated memory, and gives an object that represents the modified list:
  appending, replacing, inserting at any position, erasing inside the string, trimming spaces at both ends, and lower case. The one condition is that
  the size of the grown block is a \<^verbatim>\<open>size_t\<close>.
\<close>
theorem astring_refines:
  assumes "represents s t" "n \<le> length src" "mAllocSize s + n + 31 < M"
  shows "(\<exists>s'. append M junk src n s = Some s' \<and> represents s' (t @ take n src))
    \<and> (\<exists>s'. setTo M junk src n s = Some s' \<and> represents s' (take n src))
    \<and> (\<forall>pos \<le> length t. \<exists>s'. insert M junk src n pos s = Some s' \<and> represents s' (take pos t @ take n src @ drop pos t))
    \<and> (\<forall>start m. start < length t \<and> start + m \<le> length t \<longrightarrow>
          (\<exists>s'. erase M start m s = Some s' \<and> represents s' (take start t @ drop (start + m) t)))
    \<and> (\<exists>s'. trim s = Some s' \<and> represents s' (rstrip (dropWhile isspace t)))
    \<and> (\<exists>s'. toLower s = Some s' \<and> represents s' (map C_String.tolower t))"
proof -
  have size: "length t < mAllocSize s" using assms(1) by (auto simp: represents_def block_def)
  have "mAllocSize (clear s) + n + 31 < M" using size assms(3) by (simp add: clear_def)
  then have "\<exists>s'. setTo M junk src n s = Some s' \<and> represents s' (take n src)"
    using append_represents [OF clear_represents(1) assms(2)] by (simp add: setTo_def)
  moreover have "length t < M" using size assms(3) by simp
  ultimately show ?thesis
    using append_represents [OF assms] insert_represents [OF assms(1) _ assms(2,3)] erase_represents [OF assms(1)]
      trim_represents [OF assms(1)] toLower_represents [OF assms(1)] by blast
qed

theorem astring_refines_witness:
  "\<exists>s s'. insert (2 ^ 32) (\<lambda>_. 7) [32, 65, 66, 0] 3 0 emptyAString = Some s \<and> represents s [32, 65, 66]
    \<and> trim emptyAString = Some s' \<and> represents s' []"
proof -
  have e: "mAllocSize emptyAString = 1" by (simp add: emptyAString_def)
  have "rstrip [] = []" by code_simp
  then show ?thesis
    using astring_refines [OF clear_represents(2), of 3 "[32, 65, 66, 0]" "2 ^ 32" "\<lambda>_. 7"] by (auto simp: e)
qed

text \<open>
  The sum that \<open>erase\<close> checks wraps. Erasing \<open>2 ^ 32 - 1\<close> characters after the first one of "ab" passes both checks, and the string
  is longer afterwards; in a block without room for the longer string the terminating zero is written outside the block.
\<close>

theorem erase_wraps:
  "erase (2 ^ 32) 1 (2 ^ 32 - 1) \<lparr>mData = [97, 98, 0, 0], mSize = 2, mAllocSize = 4, isStatic = False\<rparr>
     = Some \<lparr>mData = [97, 97, 98, 0], mSize = 3, mAllocSize = 4, isStatic = False\<rparr>"
  "erase (2 ^ 32) 1 (2 ^ 32 - 1) \<lparr>mData = [97, 98, 0], mSize = 2, mAllocSize = 3, isStatic = False\<rparr> = None"
  by (simp_all add: erase_def makeMutable_def memmove_def memcpy_def setSize_def)

text \<open>Every 32-bit number fits into the 16 bytes it is printed into, and every 64-bit number into 32.\<close>

lemma length_digits: "n < 10 ^ Suc k \<Longrightarrow> length (digits n) \<le> Suc k"
proof (induction k arbitrary: n)
  case 0
  then show ?case by (simp add: digits.simps)
next
  case (Suc k)
  then have "n div 10 < 10 ^ Suc k" by (simp add: less_mult_imp_div_less)
  then show ?case using Suc.IH [of "n div 10"] by (subst digits.simps) auto
qed

lemma decimal_length: "\<bar>x\<bar> < 10 ^ Suc k \<Longrightarrow> length (decimal x) \<le> Suc (Suc k)"
  using length_digits [of "nat \<bar>x\<bar>" k] by (cases "x < 0") (auto simp: decimal_def nat_less_iff)

lemma decimal_fits:
  "- (2 ^ 31) \<le> x \<Longrightarrow> x < 2 ^ 32 \<Longrightarrow> length (decimal x) < 16"
  "- (2 ^ 63) \<le> x \<Longrightarrow> x < 2 ^ 64 \<Longrightarrow> length (decimal x) < 32"
proof -
  assume "- (2 ^ 31) \<le> x" "x < 2 ^ 32"
  then have "\<bar>x\<bar> < 10 ^ Suc 9" by simp
  from decimal_length [OF this] show "length (decimal x) < 16" by simp
next
  assume "- (2 ^ 63) \<le> x" "x < 2 ^ 64"
  then have "\<bar>x\<bar> < 10 ^ Suc 19" by simp
  from decimal_length [OF this] show "length (decimal x) < 32" by simp
qed

end
