(* ===== verification/Nal_Units.thy ===== *)
theory Nal_Units
  imports Prelude
begin

unbundle bit_operations_syntax

text \<open>
  The part of \<^verbatim>\<open>avc_utils.cpp\<close> of the foundation library that scans a byte stream for NAL units, and its
  decoder of MPEG audio frame headers.

  A pointer and a size are the list of the bytes between them; reading outside it is undefined
  (\<open>None\<close>). A scanning loop gives the index it stops at.
\<close>

section \<open>Scanning\<close>

definition byte_at :: "u8 list \<Rightarrow> nat \<Rightarrow> u8 ub" where
  "byte_at d i = (if i < length d then Some (d ! i) else None)"

text \<open>The first start code.\<close>

function findStart :: "u8 list \<Rightarrow> nat \<Rightarrow> nat ub" where
  "findStart d offset =
     (if offset + 2 < length d then
        (case (byte_at d (offset + 2), byte_at d offset, byte_at d (offset + 1)) of
           (Some c, Some a, Some b) \<Rightarrow>
             if c = 1 \<and> a = 0 \<and> b = 0 then Some offset else findStart d (Suc offset)
         | _ \<Rightarrow> None)
      else Some offset)"
  by pat_completeness auto
termination by (relation "measure (\<lambda>(d, offset). length d - offset)") auto

function findOne :: "u8 list \<Rightarrow> nat \<Rightarrow> nat" where
  "findOne d offset =
     (if offset < length d \<and> d ! offset \<noteq> 1 then findOne d (Suc offset) else offset)"
  by pat_completeness auto
termination by (relation "measure (\<lambda>(d, offset). length d - offset)") auto

declare findStart.simps [simp del] findOne.simps [simp del]

lemma findOne_ge: "offset \<le> findOne d offset"
proof (induction d offset rule: findOne.induct)
  case (1 d offset)
  then show ?case by (subst findOne.simps) auto
qed

text \<open>
  The position of the 1 of the next start code, \<open>size + 2\<close> when the buffer ends and a start code is known
  to follow it, and \<open>None\<close> inside the result when there is no telling.
\<close>

function findEnd :: "u8 list \<Rightarrow> bool \<Rightarrow> nat \<Rightarrow> nat option ub" where
  "findEnd d startCodeFollows offset =
     (let offset = findOne d offset in
      if offset \<ge> length d then
        Some (if startCodeFollows then Some (length d + 2) else None)
      else if offset < 2 then None
      else
        (case (byte_at d (offset - 1), byte_at d (offset - 2)) of
           (Some a, Some b) \<Rightarrow>
             if a = 0 \<and> b = 0 then Some (Some offset) else findEnd d startCodeFollows (Suc offset)
         | _ \<Rightarrow> None))"
  by pat_completeness auto
termination
proof (relation "measure (\<lambda>(d, f, offset). length d - offset)", goal_cases)
  case (2 d f offset offset')
  then show ?case using findOne_ge [of offset d] by auto
qed simp

declare findEnd.simps [simp del]

function stripZeros :: "u8 list \<Rightarrow> nat \<Rightarrow> nat \<Rightarrow> nat ub" where
  "stripZeros d startOffset endOffset =
     (if endOffset > startOffset + 1 then
        (case byte_at d (endOffset - 1) of
           None \<Rightarrow> None
         | Some b \<Rightarrow> if b = 0 then stripZeros d startOffset (endOffset - 1) else Some endOffset)
      else Some endOffset)"
  by pat_completeness auto
termination by (relation "measure (\<lambda>(d, s, e). e)") auto

declare stripZeros.simps [simp del]

text \<open>
  The result: an error and what is left of the data, or the start and the size of a NAL unit and what follows it.
\<close>

datatype nal_result = Again "u8 list" | Nal nat nat "u8 list"

definition getNextNALUnit :: "u8 list \<Rightarrow> bool \<Rightarrow> nal_result ub" where
  "getNextNALUnit d startCodeFollows =
     (if length d < 3 then Some (Again d)
      else case findStart d 0 of
        None \<Rightarrow> None
      | Some offset \<Rightarrow>
          if offset + 2 \<ge> length d then Some (Again (take 2 (drop offset d)))
          else
            let startOffset = offset + 3 in
            (case findEnd d startCodeFollows startOffset of
               None \<Rightarrow> None
             | Some None \<Rightarrow> Some (Again d)
             | Some (Some offset) \<Rightarrow>
                 (case stripZeros d startOffset (offset - 2) of
                    None \<Rightarrow> None
                  | Some endOffset \<Rightarrow>
                      Some (Nal startOffset (endOffset - startOffset)
                             (if offset + 2 < length d then drop (offset - 2) d else [])))))"

section \<open>Progress and correctness of one call\<close>

definition start_code_at :: "u8 list \<Rightarrow> nat \<Rightarrow> bool" where
  "start_code_at d k \<longleftrightarrow> k + 2 < length d \<and> d ! k = 0 \<and> d ! (k + 1) = 0 \<and> d ! (k + 2) = 1"

lemma findStart_spec:
  "\<exists>s. findStart d i = Some s \<and> i \<le> s \<and> (s + 2 < length d \<longrightarrow> start_code_at d s)
     \<and> (\<forall>k. i \<le> k \<longrightarrow> k < s \<longrightarrow> \<not> start_code_at d k)"
proof (induction "length d - i" arbitrary: i rule: less_induct)
  case less
  show ?case
  proof (cases "i + 2 < length d \<and> \<not> start_code_at d i")
    case True
    then have "findStart d i = findStart d (Suc i)"
      by (subst findStart.simps) (auto simp: byte_at_def start_code_at_def)
    moreover have "length d - Suc i < length d - i" using True by (auto intro: diff_less_mono2)
    then obtain s where s: "findStart d (Suc i) = Some s" "Suc i \<le> s" "s + 2 < length d \<longrightarrow> start_code_at d s"
      "\<forall>k. Suc i \<le> k \<longrightarrow> k < s \<longrightarrow> \<not> start_code_at d k"
      using less.hyps by blast
    moreover have "\<not> start_code_at d k" if "i \<le> k" "k < s" for k
      using s(4) True that by (cases "k = i") auto
    ultimately show ?thesis by auto
  next
    case False
    then have "findStart d i = Some i" by (subst findStart.simps) (auto simp: byte_at_def start_code_at_def)
    then show ?thesis using False by auto
  qed
qed

lemma findOne_spec:
  "i \<le> length d \<Longrightarrow> findOne d i \<le> length d \<and> (findOne d i < length d \<longrightarrow> d ! findOne d i = 1)
   \<and> (\<forall>k. i \<le> k \<longrightarrow> k < findOne d i \<longrightarrow> d ! k \<noteq> 1)"
proof (induction d i rule: findOne.induct)
  case (1 d i)
  show ?case
  proof (cases "i < length d \<and> d ! i \<noteq> 1")
    case True
    then have e: "findOne d i = findOne d (Suc i)" by (subst findOne.simps) simp
    have "d ! k \<noteq> 1" if "i \<le> k" "k < findOne d (Suc i)" for k
      using 1(1) [OF True] True that by (cases "k = i") auto
    then show ?thesis unfolding e using 1(1) [OF True] True by auto
  next
    case False
    then have "findOne d i = i" by (subst findOne.simps) auto
    then show ?thesis using False 1(2) by auto
  qed
qed

lemma findEnd_spec:
  "2 \<le> i \<Longrightarrow> i \<le> length d \<Longrightarrow>
   \<exists>r. findEnd d f i = Some r \<and>
     (case r of
        None \<Rightarrow> \<not> f
      | Some e \<Rightarrow> (e = length d + 2 \<and> f \<or> e < length d \<and> start_code_at d (e - 2)) \<and> i \<le> e
          \<and> (\<forall>k. i \<le> k \<longrightarrow> k < e \<longrightarrow> \<not> start_code_at d (k - 2)))"
proof (induction "length d - i" arbitrary: i rule: less_induct)
  case less
  let ?o = "findOne d i"
  have o: "i \<le> ?o" "?o \<le> length d" "?o < length d \<longrightarrow> d ! ?o = 1" "\<forall>k. i \<le> k \<longrightarrow> k < ?o \<longrightarrow> d ! k \<noteq> 1"
    using findOne_ge [of i d] findOne_spec [OF less.prems(2)] by auto
  have none: "\<not> start_code_at d (k - 2)" if "i \<le> k" "k < ?o" for k
    using o(4) that less.prems(1) by (auto simp: start_code_at_def)
  show ?case
  proof (cases "?o < length d")
    case False
    have "\<not> start_code_at d (k - 2)" if "i \<le> k" for k
      using none [OF that] False o(2) less.prems(1) that by (cases "k < ?o") (auto simp: start_code_at_def)
    moreover have "findEnd d f i = Some (if f then Some (length d + 2) else None)"
      using False by (subst findEnd.simps) (simp add: Let_def)
    ultimately show ?thesis using less.prems by auto
  next
    case True
    have two: "2 \<le> ?o" using o(1) less.prems(1) by simp
    have sc: "start_code_at d (?o - 2) \<longleftrightarrow> d ! (?o - 1) = 0 \<and> d ! (?o - 2) = 0"
    proof -
      have "?o - 2 + 1 = ?o - 1" "?o - 2 + 2 = ?o" using two by simp_all
      then show ?thesis using True o(3) by (auto simp: start_code_at_def)
    qed
    show ?thesis
    proof (cases "start_code_at d (?o - 2)")
      case yes: True
      then have "findEnd d f i = Some (Some ?o)"
        using True two sc by (subst findEnd.simps) (simp add: Let_def byte_at_def less_imp_diff_less)
      then show ?thesis using none True yes o(1) by auto
    next
      case no: False
      then have "findEnd d f i = findEnd d f (Suc ?o)"
        using True two sc by (subst findEnd.simps) (auto simp: Let_def byte_at_def)
      moreover have "length d - Suc ?o < length d - i" "2 \<le> Suc ?o" "Suc ?o \<le> length d" using True o(1) two by auto
      moreover have "\<not> start_code_at d (k - 2)" if "i \<le> k" "k < Suc ?o" for k
        using none no that by (cases "k = ?o") auto
      ultimately show ?thesis
        using less.hyps [of "Suc ?o"] o(1) by (fastforce split: option.splits simp: not_less_eq)
    qed
  qed
qed

lemma stripZeros_spec:
  "e \<le> length d \<Longrightarrow> s \<le> e \<Longrightarrow> \<exists>e'. stripZeros d s e = Some e' \<and> s \<le> e' \<and> e' \<le> e"
proof (induction d s e rule: stripZeros.induct)
  case (1 d s e)
  show ?case
  proof (cases "e > s + 1 \<and> d ! (e - 1) = 0")
    case True
    then have b: "byte_at d (e - 1) = Some 0" using 1(2) by (auto simp: byte_at_def)
    obtain e' where "stripZeros d s (e - 1) = Some e'" "s \<le> e'" "e' \<le> e - 1"
    proof -
      have "e - 1 \<le> length d" "s \<le> e - 1" using True 1(2) by auto
      then show thesis using 1(1) [OF _ b refl] True that by blast
    qed
    then show ?thesis using True b by (subst stripZeros.simps) auto
  next
    case False
    then have "stripZeros d s e = Some e" using 1(2) by (subst stripZeros.simps) (auto simp: byte_at_def)
    then show ?thesis using 1(3) by auto
  qed
qed

lemma getNextNALUnit_cases:
  "\<exists>r. getNextNALUnit d f = Some r \<and>
    (case r of
       Again rest \<Rightarrow> True
     | Nal s n rest \<Rightarrow>
         3 \<le> s \<and> s + n \<le> length d \<and> start_code_at d (s - 3) \<and> (\<forall>k < s - 3. \<not> start_code_at d k)
         \<and> (\<forall>k. s \<le> k \<longrightarrow> k < s + n \<longrightarrow> \<not> start_code_at d k) \<and> length rest < length d
         \<and> (rest = [] \<or> start_code_at rest 0))"
proof (cases "length d < 3")
  case False
  obtain s where s: "findStart d 0 = Some s" "s + 2 < length d \<longrightarrow> start_code_at d s" "\<forall>k < s. \<not> start_code_at d k"
    using findStart_spec [of d 0] by auto
  show ?thesis
  proof (cases "s + 2 < length d")
    case True
    obtain r where r: "findEnd d f (s + 3) = Some r"
      "case r of None \<Rightarrow> \<not> f | Some e \<Rightarrow> (e = length d + 2 \<and> f \<or> e < length d \<and> start_code_at d (e - 2)) \<and> s + 3 \<le> e
          \<and> (\<forall>k. s + 3 \<le> k \<longrightarrow> k < e \<longrightarrow> \<not> start_code_at d (k - 2))"
      using findEnd_spec [of "s + 3" d f] True by auto
    show ?thesis
    proof (cases r)
      case None
      then show ?thesis using False True s(1) r(1) by (simp add: getNextNALUnit_def)
    next
      case (Some e)
      have e: "e = length d + 2 \<or> e < length d \<and> start_code_at d (e - 2)" "s + 3 \<le> e"
        "\<forall>k. s + 3 \<le> k \<longrightarrow> k < e \<longrightarrow> \<not> start_code_at d (k - 2)"
        using r(2) Some by auto
      have five: "s + 5 \<le> e"
      proof (rule ccontr)
        assume "\<not> s + 5 \<le> e"
        then have "e - 2 = s + 1 \<or> e - 2 = s + 2" "e \<noteq> length d + 2" using e(2) True by auto
        then have "start_code_at d (s + 1) \<or> start_code_at d (s + 2)" using e(1) by auto
        then show False using s(2) True by (auto simp: start_code_at_def)
      qed
      have "e - 2 \<le> length d" "s + 3 \<le> e - 2" using e(1) five by auto
      then obtain e' where e': "stripZeros d (s + 3) (e - 2) = Some e'" "s + 3 \<le> e'" "e' \<le> e - 2"
        using stripZeros_spec by blast
      have inner: "\<not> start_code_at d k" if "s + 3 \<le> k" "k < e'" for k
      proof -
        have "s + 3 \<le> k + 2" "k + 2 < e" using that e'(3) five by auto
        then show ?thesis using e(3) by fastforce
      qed
      define rest where "rest = (if e + 2 < length d then drop (e - 2) d else [])"
      have "getNextNALUnit d f = Some (Nal (s + 3) (e' - (s + 3)) rest)"
        using False True s(1) r(1) Some e'(1) by (simp add: getNextNALUnit_def Let_def rest_def)
      moreover have "rest = [] \<or> start_code_at rest 0"
        using e(1) by (auto simp: rest_def start_code_at_def)
      moreover have "length rest < length d" using five False by (auto simp: rest_def)
      moreover have "e' \<le> length d" using e'(3) e(1) by auto
      ultimately show ?thesis using s(2,3) True e'(2) inner by auto
    qed
  next
    case no: False
    then show ?thesis using False s(1) by (simp add: getNextNALUnit_def)
  qed
qed (simp add: getNextNALUnit_def)

lemma getNextNALUnit_shrinks: "getNextNALUnit d f = Some (Nal s n rest) \<Longrightarrow> length rest < length d"
  using getNextNALUnit_cases [of d f] by auto

section \<open>Searching the units of a stream\<close>

function FindNAL :: "u8 list \<Rightarrow> u8 \<Rightarrow> u8 list option ub" where
  "FindNAL d nalType =
     (case getNextNALUnit d True of
        None \<Rightarrow> None
      | Some (Again _) \<Rightarrow> Some None
      | Some (Nal nalStart nalSize rest) \<Rightarrow>
          if nalSize > 0 then
            (case byte_at d nalStart of
               None \<Rightarrow> None
             | Some b \<Rightarrow>
                 if b AND 0x1f = nalType then Some (Some (take nalSize (drop nalStart d)))
                 else FindNAL rest nalType)
          else FindNAL rest nalType)"
  by pat_completeness auto
termination by (relation "measure (\<lambda>(d, t). length d)") (auto dest: getNextNALUnit_shrinks)

function IsIDR :: "u8 list \<Rightarrow> bool ub" where
  "IsIDR d =
     (case getNextNALUnit d True of
        None \<Rightarrow> None
      | Some (Again _) \<Rightarrow> Some False
      | Some (Nal nalStart nalSize rest) \<Rightarrow>
          if nalSize = 0 then IsIDR rest
          else (case byte_at d nalStart of
                  None \<Rightarrow> None
                | Some b \<Rightarrow> if b AND 0x1f = 5 then Some True else IsIDR rest))"
  by pat_completeness auto
termination by (relation "measure length") (auto dest: getNextNALUnit_shrinks)

function IsAVCReferenceFrame :: "u8 list \<Rightarrow> bool ub" where
  "IsAVCReferenceFrame d =
     (case getNextNALUnit d True of
        None \<Rightarrow> None
      | Some (Again _) \<Rightarrow> Some True
      | Some (Nal nalStart nalSize rest) \<Rightarrow>
          if nalSize = 0 then Some False
          else
            (case byte_at d nalStart of
               None \<Rightarrow> None
             | Some b \<Rightarrow>
                 let nalType = b AND 0x1f in
                 if nalType = 5 then Some True
                 else if nalType = 1 then Some (drop_bit 5 b AND 3 \<noteq> 0)
                 else IsAVCReferenceFrame rest))"
  by pat_completeness auto
termination by (relation "measure length") (auto dest: getNextNALUnit_shrinks)

declare FindNAL.simps [simp del] IsIDR.simps [simp del] IsAVCReferenceFrame.simps [simp del]

text \<open>Null data is \<open>None\<close>.\<close>

definition isAVCReferenceFrame :: "u8 list option \<Rightarrow> bool ub" where
  "isAVCReferenceFrame accessUnit = (case accessUnit of None \<Rightarrow> Some False | Some d \<Rightarrow> IsAVCReferenceFrame d)"

definition FindAVCLayerId :: "u8 list \<Rightarrow> u8 ub" where
  "FindAVCLayerId d =
     (case FindNAL (take 32 d) 0xE of
        None \<Rightarrow> None
      | Some svcNAL \<Rightarrow>
          Some (case svcNAL of
                  None \<Rightarrow> 0
                | Some nal \<Rightarrow> if length nal \<ge> 4 then drop_bit 5 (nal ! 3) AND 7 else 0))"

section \<open>MPEG audio frame headers\<close>

record mpeg_frame =
  frame_size :: int
  sampling_rate :: int
  channels :: int
  bitrate :: int
  num_samples :: int

text \<open>What the output parameters hold when the header is refused.\<close>

definition noFrame :: mpeg_frame where
  "noFrame = \<lparr>frame_size = 0, sampling_rate = 0, channels = 0, bitrate = 0, num_samples = 1152\<rparr>"

definition kSamplingRateV1 :: "int list" where
  "kSamplingRateV1 = [44100, 48000, 32000]"

definition kBitrateV1L1 :: "int list" where
  "kBitrateV1L1 = [32, 64, 96, 128, 160, 192, 224, 256, 288, 320, 352, 384, 416, 448]"

definition kBitrateV2L1 :: "int list" where
  "kBitrateV2L1 = [32, 48, 56, 64, 80, 96, 112, 128, 144, 160, 176, 192, 224, 256]"

definition kBitrateV1L2 :: "int list" where
  "kBitrateV1L2 = [32, 48, 56, 64, 80, 96, 112, 128, 160, 192, 224, 256, 320, 384]"

definition kBitrateV1L3 :: "int list" where
  "kBitrateV1L3 = [32, 40, 48, 56, 64, 80, 96, 112, 128, 160, 192, 224, 256, 320]"

definition kBitrateV2 :: "int list" where
  "kBitrateV2 = [8, 16, 24, 32, 40, 48, 56, 64, 80, 96, 112, 128, 144, 160]"

text \<open>The fields of a header that passed the tests: version, layer, indices, padding and channel mode.\<close>

definition mpegFrame :: "nat \<Rightarrow> nat \<Rightarrow> nat \<Rightarrow> nat \<Rightarrow> int \<Rightarrow> nat \<Rightarrow> mpeg_frame" where
  "mpegFrame version layer bitrate_index sampling_rate_index padding channel_mode =
     (let rate = kSamplingRateV1 ! sampling_rate_index;
          rate = (if version = 2 then rate div 2 else if version = 0 then rate div 4 else rate);
          ch = (if channel_mode = 3 then 1 else 2)
      in if layer = 3 then
           let br = (if version = 3 then kBitrateV1L1 ! (bitrate_index - 1) else kBitrateV2L1 ! (bitrate_index - 1))
           in \<lparr>frame_size = (12000 * br div rate + padding) * 4, sampling_rate = rate, channels = ch,
               bitrate = br, num_samples = 384\<rparr>
         else if version = 3 then
           let br = (if layer = 2 then kBitrateV1L2 ! (bitrate_index - 1) else kBitrateV1L3 ! (bitrate_index - 1))
           in \<lparr>frame_size = 144000 * br div rate + padding, sampling_rate = rate, channels = ch,
               bitrate = br, num_samples = 1152\<rparr>
         else
           let br = kBitrateV2 ! (bitrate_index - 1);
               tmp = (if layer = 1 then 72000 else 144000)
           in \<lparr>frame_size = tmp * br div rate + padding, sampling_rate = rate, channels = ch,
               bitrate = br, num_samples = (if layer = 1 then 576 else 1152)\<rparr>)"

definition GetMPEGAudioFrameSize :: "u32 \<Rightarrow> bool \<times> mpeg_frame" where
  "GetMPEGAudioFrameSize header =
     (let version = unat (drop_bit 19 header AND 3);
          layer = unat (drop_bit 17 header AND 3);
          bitrate_index = unat (drop_bit 12 header AND 0xf);
          sampling_rate_index = unat (drop_bit 10 header AND 3);
          padding = uint (drop_bit 9 header AND 1);
          channel_mode = unat (drop_bit 6 header AND 3)
      in if header AND 0xffe00000 \<noteq> 0xffe00000 then (False, noFrame)
         else if version = 1 then (False, noFrame)
         else if layer = 0 then (False, noFrame)
         else if bitrate_index = 0 \<or> bitrate_index = 15 then (False, noFrame)
         else if sampling_rate_index = 3 then (False, noFrame)
         else (True, mpegFrame version layer bitrate_index sampling_rate_index padding channel_mode))"

definition frame_in_range :: "mpeg_frame \<Rightarrow> bool" where
  "frame_in_range f \<longleftrightarrow> 24 \<le> frame_size f \<and> frame_size f \<le> 2881 \<and> 8000 \<le> sampling_rate f \<and> sampling_rate f \<le> 48000
     \<and> num_samples f \<in> set [384, 576, 1152]"

lemma mpegFrame_table:
  "\<forall>v \<in> set [0, 2, 3]. \<forall>l \<in> set [1, 2, 3]. \<forall>b \<in> set [1..<15]. \<forall>s \<in> set [0, 1, 2]. \<forall>p \<in> set [0, 1].
     frame_in_range (mpegFrame v l b s p 0)"
  by code_simp

lemma frame_channels: "frame_in_range (mpegFrame v l b s p c) = frame_in_range (mpegFrame v l b s p 0)"
  by (simp add: frame_in_range_def mpegFrame_def Let_def)

lemma guarded:
  "fst (if a then (False, n) else if b then (False, n) else if c then (False, n) else if d \<or> d' then (False, n)
        else if e then (False, n) else (True, f))
   \<Longrightarrow> \<not> b \<and> \<not> c \<and> \<not> d \<and> \<not> d' \<and> \<not> e \<and> snd (if a then (False, n) else if b then (False, n) else if c then (False, n)
        else if d \<or> d' then (False, n) else if e then (False, n) else (True, f)) = f"
  "\<not> fst (if a then (False, n) else if b then (False, n) else if c then (False, n) else if d \<or> d' then (False, n)
        else if e then (False, n) else (True, f))
   \<Longrightarrow> snd (if a then (False, n) else if b then (False, n) else if c then (False, n)
        else if d \<or> d' then (False, n) else if e then (False, n) else (True, f)) = n"
  by (auto split: if_splits)

lemma and_small: "unat (x AND 3 :: u32) < 4" "unat (x AND 0xf :: u32) < 16" "uint (x AND 1 :: u32) = 0 \<or> uint (x AND 1 :: u32) = 1"
proof -
  have "x AND 3 = x AND mask 2" "x AND 0xf = x AND mask 4" "x AND 1 = x AND mask 1"
    by (simp_all add: mask_eq_exp_minus_1)
  then have "x AND 3 < 2 ^ 2" "x AND 0xf < 2 ^ 4" "x AND 1 < 2 ^ 1"
    using and_mask_less_size [of 2 x] and_mask_less_size [of 4 x] and_mask_less_size [of 1 x] by (simp_all add: word_size)
  note lt = this
  show "unat (x AND 3) < 4" "unat (x AND 0xf) < 16" using lt(1,2) by (simp_all add: word_less_nat_alt)
  have "uint (x AND 1) < 2" using lt(3) by (simp add: word_less_def)
  then show "uint (x AND 1) = 0 \<or> uint (x AND 1) = 1" using uint_ge_0 [of "x AND 1"] by linarith
qed

section \<open>Properties\<close>

text \<open>
  C40: scanning a byte stream for NAL units is safe and makes progress. For any bytes, \<open>getNextNALUnit\<close> reads inside
  the buffer and returns. When it finds a unit, the unit lies inside the buffer, directly after the first start
  code, and contains no start code; what is left is strictly shorter, and is empty or begins with the next start code. So the
  loops over all units (\<open>FindNAL\<close>, \<open>IsIDR\<close>, \<open>IsAVCReferenceFrame\<close>) end, without undefined behaviour.
\<close>
theorem nal_scan_terminates:
  "(\<exists>r. getNextNALUnit d follows = Some r \<and>
      (case r of
         Again rest \<Rightarrow> True
       | Nal s n rest \<Rightarrow>
           3 \<le> s \<and> s + n \<le> length d \<and> start_code_at d (s - 3) \<and> (\<forall>k < s - 3. \<not> start_code_at d k)
           \<and> (\<forall>k. s \<le> k \<longrightarrow> k < s + n \<longrightarrow> \<not> start_code_at d k) \<and> length rest < length d
           \<and> (rest = [] \<or> start_code_at rest 0)))
   \<and> FindNAL d t \<noteq> None \<and> IsIDR d \<noteq> None \<and> IsAVCReferenceFrame d \<noteq> None"
proof -
  have nx: "getNextNALUnit x True \<noteq> None" for x using getNextNALUnit_cases [of x True] by auto
  have byte: "byte_at x s \<noteq> None" if "getNextNALUnit x True = Some (Nal s n rest)" "0 < n" for x s n rest
    using getNextNALUnit_cases [of x True] that by (auto simp: byte_at_def)
  have shrink: "length rest < length x" if "getNextNALUnit x True = Some (Nal s n rest)" for x s n rest
    using getNextNALUnit_shrinks that .
  have "FindNAL d t \<noteq> None"
  proof (induction "length d" arbitrary: d rule: less_induct)
    case less
    then show ?case using nx [of d] shrink [of d] byte [of d] by (subst FindNAL.simps) (fastforce split: option.splits nal_result.splits)
  qed
  moreover have "IsIDR d \<noteq> None"
  proof (induction "length d" arbitrary: d rule: less_induct)
    case less
    then show ?case using nx [of d] shrink [of d] byte [of d] by (subst IsIDR.simps) (fastforce split: option.splits nal_result.splits)
  qed
  moreover have "IsAVCReferenceFrame d \<noteq> None"
  proof (induction "length d" arbitrary: d rule: less_induct)
    case less
    then show ?case using nx [of d] shrink [of d] byte [of d]
      by (subst IsAVCReferenceFrame.simps) (fastforce simp: Let_def split: option.splits nal_result.splits)
  qed
  ultimately show ?thesis using getNextNALUnit_cases [of d follows] by blast
qed

theorem nal_scan_terminates_witness:
  "getNextNALUnit [9, 0, 0, 1, 0x65, 7, 0, 0, 1, 8, 2] True = Some (Nal 4 2 [0, 0, 1, 8, 2])
   \<and> IsIDR [9, 0, 0, 1, 0x65, 7, 0, 0, 1, 8, 2] \<noteq> None"
proof -
  have "getNextNALUnit [9, 0, 0, 1, 0x65, 7, 0, 0, 1, 8, 2] True = Some (Nal 4 2 [0, 0, 1, 8, 2])" by code_simp
  then show ?thesis using nal_scan_terminates [of "[9, 0, 0, 1, 0x65, 7, 0, 0, 1, 8, 2]" True 0] by blast
qed

text \<open>
  an MPEG audio frame has a plausible size. Whatever the 32 bits of the header, an accepted one
  gives a frame of 24 to 2881 bytes (so a parser that skips by the frame size always advances past the
  header), a sampling rate of 8 to 48 kHz and a number of samples that exists; a refused one gives size 0.
\<close>
theorem mpeg_frame_size_bounds:
  "case GetMPEGAudioFrameSize header of (accepted, f) \<Rightarrow>
     (accepted \<longrightarrow> 24 \<le> frame_size f \<and> frame_size f \<le> 2881 \<and> 8000 \<le> sampling_rate f \<and> sampling_rate f \<le> 48000
        \<and> num_samples f \<in> {384, 576, 1152}) \<and> (\<not> accepted \<longrightarrow> frame_size f = 0)"
proof -
  have "frame_in_range (mpegFrame v l b s p c)"
    if "v < 4" "v \<noteq> 1" "l < 4" "l \<noteq> 0" "b < 16" "b \<noteq> 0" "b \<noteq> 15" "s < 4" "s \<noteq> 3" "p = 0 \<or> p = 1" for v l b s p c
  proof -
    have "v \<in> set [0, 2, 3]" "l \<in> set [1, 2, 3]" "b \<in> set [1..<15]" "s \<in> set [0, 1, 2]" "p \<in> set [0, 1]"
      using that by auto
    note m = this
    note t1 = bspec [OF mpegFrame_table m(1)]
    note t2 = bspec [OF t1 m(2)]
    note t3 = bspec [OF t2 m(3)]
    note t4 = bspec [OF t3 m(4)]
    have "frame_in_range (mpegFrame v l b s p 0)" by (rule bspec [OF t4 m(5)])
    then show ?thesis by (rule frame_channels [THEN iffD2])
  qed
  note range = this [OF and_small(1) _ and_small(1) _ and_small(2) _ _ and_small(1) _ and_small(3)]
  let ?v = "drop_bit 19 header AND 3" and ?l = "drop_bit 17 header AND 3" and ?b = "drop_bit 12 header AND 0xf"
    and ?s = "drop_bit 10 header AND 3" and ?p = "drop_bit 9 header AND 1" and ?c = "drop_bit 6 header AND 3"
  have "frame_in_range (snd (GetMPEGAudioFrameSize header))" if acc: "fst (GetMPEGAudioFrameSize header)"
  proof -
    note g = guarded(1) [OF acc [unfolded GetMPEGAudioFrameSize_def Let_def]]
    note g2 = g [THEN conjunct2]
    note g3 = g2 [THEN conjunct2]
    note g4 = g3 [THEN conjunct2]
    note c = g [THEN conjunct1] g2 [THEN conjunct1] g3 [THEN conjunct1] g4 [THEN conjunct1] g4 [THEN conjunct2, THEN conjunct1]
    have f: "snd (GetMPEGAudioFrameSize header) = mpegFrame (unat ?v) (unat ?l) (unat ?b) (unat ?s) (uint ?p) (unat ?c)"
      unfolding GetMPEGAudioFrameSize_def Let_def by (rule g4 [THEN conjunct2, THEN conjunct2])
    show ?thesis unfolding f by (rule range [OF c])
  qed
  moreover have "\<not> fst (GetMPEGAudioFrameSize header) \<Longrightarrow> snd (GetMPEGAudioFrameSize header) = noFrame"
    unfolding GetMPEGAudioFrameSize_def Let_def by (rule guarded(2))
  ultimately show ?thesis
    by (cases "GetMPEGAudioFrameSize header") (auto simp: frame_in_range_def noFrame_def)
qed

theorem mpeg_frame_size_bounds_witness:
  "GetMPEGAudioFrameSize 0xFFFB9064 = (True, \<lparr>frame_size = 417, sampling_rate = 44100, channels = 2, bitrate = 128, num_samples = 1152\<rparr>)"
proof -
  have g: "GetMPEGAudioFrameSize 0xFFFB9064 = (True, \<lparr>frame_size = 417, sampling_rate = 44100, channels = 2, bitrate = 128, num_samples = 1152\<rparr>)"
    by code_simp
  then show ?thesis using mpeg_frame_size_bounds [of "0xFFFB9064"] by simp
qed

end
