(* ===== verification/Param_Sets.thy ===== *)
theory Param_Sets
  imports Bit_Reader Nal_Units "HOL-Library.Monad_Syntax"
begin

text \<open>
  \<^verbatim>\<open>avc_utils.cpp\<close>, continued: the Exp-Golomb codes, the dimensions in a sequence parameter set, the codec specific data
  made from an access unit, and the dimensions in a VOL header.

  The parsers read through an \<^verbatim>\<open>ABitReader\<close>. A failed \<^verbatim>\<open>CHECK\<close> and undefined behaviour are \<open>None\<close>, as in the reader. Unsigned
  values are words of 32 bits; the arithmetic that the code checks for overflow is on integers.
\<close>

section \<open>Exp-Golomb codes\<close>

text \<open>Reading a bit makes progress.\<close>

lemma fillLoop_numBits: "fillLoop i r = Some (j, r') \<Longrightarrow> i \<le> j \<and> 8 * mSize r' + 8 * j = 8 * mSize r + 8 * i"
proof (induction i r rule: fillLoop.induct)
  case (1 i r)
  from 1(2) show ?case
    by (subst (asm) fillLoop.simps) (auto split: if_splits option.splits dest!: 1(1) [rotated 2])
qed

lemma getBits_1_progress:
  assumes "getBitsGraceful fillReservoir 1 r = Some (Some x, r')"
  shows "numBitsLeft r' < numBitsLeft r"
proof -
  obtain r1 where r1: "(if mNumBitsLeft r = 0 then fillReservoir r else Some (True, r)) = Some (True, r1)" "0 < mNumBitsLeft r1"
    "numBitsLeft r' < numBitsLeft r1"
    using assms unfolding getBitsGraceful_def
    by (subst (asm) getBitsLoop.simps)
      (auto simp: Let_def shr32_def getBitsLoop.simps [of _ 0] numBitsLeft_def split: if_splits option.splits)
  have "numBitsLeft r1 = numBitsLeft r"
  proof (cases "mNumBitsLeft r = 0")
    case True
    then show ?thesis using r1(1) fillLoop_numBits [of 0 "r\<lparr>mReservoir := 0\<rparr>"]
      by (fastforce simp: fillReservoir_def alignReservoir_def Let_def numBitsLeft_def split: if_splits option.splits)
  qed (use r1 in simp)
  with r1(3) show ?thesis by simp
qed

text \<open>The loops that count zero bits; the counter is a \<^verbatim>\<open>unsigned\<close>.\<close>

function zerosLoop :: "u32 \<Rightarrow> bit_reader \<Rightarrow> (u32 \<times> bit_reader) ub" where
  "zerosLoop numZeroes br =
     (case getBits fillReservoir 1 br of
        None \<Rightarrow> None
      | Some (b, br) \<Rightarrow> if b = 0 then zerosLoop (numZeroes + 1) br else Some (numZeroes, br))"
  by pat_completeness auto
termination
  by (relation "measure (\<lambda>(n, r). numBitsLeft r)")
    (auto simp: getBits_def simp del: One_nat_def split: option.splits dest: getBits_1_progress)

function zerosFallbackLoop :: "u32 \<Rightarrow> bit_reader \<Rightarrow> (u32 \<times> bit_reader) ub" where
  "zerosFallbackLoop numZeroes br =
     (case getBitsWithFallback fillReservoir 1 1 br of
        None \<Rightarrow> None
      | Some (b, br) \<Rightarrow> if b = 0 then zerosFallbackLoop (numZeroes + 1) br else Some (numZeroes, br))"
  by pat_completeness auto
termination
  by (relation "measure (\<lambda>(n, r). numBitsLeft r)")
    (auto simp: getBitsWithFallback_def simp del: One_nat_def split: option.splits dest: getBits_1_progress)

declare zerosLoop.simps [simp del] zerosFallbackLoop.simps [simp del]

definition parseUE :: "bit_reader \<Rightarrow> (u32 \<times> bit_reader) ub" where
  "parseUE br = do {
     (numZeroes, br) \<leftarrow> zerosLoop 0 br;
     (x, br) \<leftarrow> getBits fillReservoir (unat numZeroes) br;
     base \<leftarrow> shl32 1 (unat numZeroes);
     Some (x + base - 1, br)
   }"

definition parseUEWithFallback :: "u32 \<Rightarrow> bit_reader \<Rightarrow> (u32 \<times> bit_reader) ub" where
  "parseUEWithFallback fallback br = do {
     (numZeroes, br) \<leftarrow> zerosFallbackLoop 0 br;
     if numZeroes < 32 then do {
       (x, br) \<leftarrow> getBitsGraceful fillReservoir (unat numZeroes) br;
       (case x of
          Some x \<Rightarrow> do {
            base \<leftarrow> shl32 1 (unat numZeroes);
            Some (x + base - 1, br)
          }
        | None \<Rightarrow> Some (fallback, br))
     } else do {
       (_, br) \<leftarrow> skipBits fillReservoir (unat numZeroes) br;
       Some (fallback, br)
     }
   }"

definition signedCode :: "u32 \<Rightarrow> int" where
  "signedCode codeNum = (if codeNum AND 1 = 1 then sint ((codeNum + 1) div 2) else - sint (codeNum div 2))"

definition parseSE :: "bit_reader \<Rightarrow> (int \<times> bit_reader) ub" where
  "parseSE br = do {
     (codeNum, br) \<leftarrow> parseUE br;
     Some (signedCode codeNum, br)
   }"

definition parseSEWithFallback :: "int \<Rightarrow> bit_reader \<Rightarrow> (int \<times> bit_reader) ub" where
  "parseSEWithFallback fallback br = do {
     (codeNum, br) \<leftarrow> parseUEWithFallback (NOT 0) br;
     Some (if codeNum = NOT 0 then fallback else signedCode codeNum, br)
   }"

section \<open>Sequence parameter sets\<close>

fun scalingLoop :: "nat \<Rightarrow> int \<Rightarrow> int \<Rightarrow> bit_reader \<Rightarrow> bit_reader ub" where
  "scalingLoop 0 lastScale nextScale br = Some br"
| "scalingLoop (Suc j) lastScale nextScale br = do {
     (nextScale, br) \<leftarrow>
       (if nextScale \<noteq> 0 then do {
          (delta_scale, br) \<leftarrow> parseSE br;
          Some ((lastScale + (max (- 128) (min 127 delta_scale) + 256)) mod 256, br)
        } else Some (nextScale, br));
     scalingLoop j (if nextScale = 0 then lastScale else nextScale) nextScale br
   }"

definition skipScalingList :: "nat \<Rightarrow> bit_reader \<Rightarrow> bit_reader ub" where
  "skipScalingList sizeOfScalingList br = scalingLoop sizeOfScalingList 8 8 br"

text \<open>The flags and lists of the scaling matrix, from the \<open>i\<close>th on.\<close>

fun scalingMatrix :: "nat list \<Rightarrow> bit_reader \<Rightarrow> bit_reader ub" where
  "scalingMatrix [] br = Some br"
| "scalingMatrix (i # rest) br = do {
     (present, br) \<leftarrow> getBits fillReservoir 1 br;
     br \<leftarrow> (if present \<noteq> 0 then skipScalingList (if i < 6 then 16 else 64) br else Some br);
     scalingMatrix rest br
   }"

fun skipUEs :: "nat \<Rightarrow> bit_reader \<Rightarrow> bit_reader ub" where
  "skipUEs 0 br = Some br"
| "skipUEs (Suc n) br = do {
     (_, br) \<leftarrow> parseUE br;
     skipUEs n br
   }"

definition highProfile :: "u32 \<Rightarrow> bool" where
  "highProfile profile_idc \<longleftrightarrow> profile_idc = 100 \<or> profile_idc = 110 \<or> profile_idc = 122 \<or> profile_idc = 244
     \<or> profile_idc = 44 \<or> profile_idc = 83 \<or> profile_idc = 86"

text \<open>The part that only the high profiles have: the chroma format.\<close>

definition chromaFormat :: "u32 \<Rightarrow> bit_reader \<Rightarrow> (u32 \<times> bit_reader) ub" where
  "chromaFormat profile_idc br =
     (if highProfile profile_idc then do {
        (chroma_format_idc, br) \<leftarrow> parseUE br;
        (_, br) \<leftarrow> (if chroma_format_idc = 3 then skipBits fillReservoir 1 br else Some (True, br));
        (_, br) \<leftarrow> parseUE br;
        (_, br) \<leftarrow> parseUE br;
        (_, br) \<leftarrow> skipBits fillReservoir 1 br;
        (present, br) \<leftarrow> getBits fillReservoir 1 br;
        br \<leftarrow> (if present \<noteq> 0 then scalingMatrix [0..<8] br else Some br);
        Some (chroma_format_idc, br)
      } else Some (1, br))"

definition picOrderCount :: "u32 \<Rightarrow> bit_reader \<Rightarrow> bit_reader ub" where
  "picOrderCount pic_order_cnt_type br =
     (if pic_order_cnt_type = 0 then do {
        (_, br) \<leftarrow> parseUE br;
        Some br
      } else if pic_order_cnt_type = 1 then do {
        (_, br) \<leftarrow> getBits fillReservoir 1 br;
        (_, br) \<leftarrow> parseUE br;
        (_, br) \<leftarrow> parseUE br;
        (num_ref_frames_in_pic_order_cnt_cycle, br) \<leftarrow> parseUE br;
        skipUEs (unat num_ref_frames_in_pic_order_cnt_cycle) br
      } else Some br)"

text \<open>The arithmetic with overflow checks: an operation whose result does not fit gives \<open>None\<close>, the code then uses 0.\<close>

definition as_unsigned :: "int \<Rightarrow> int option" where
  "as_unsigned x = (if 0 \<le> x \<and> x < 2 ^ 32 then Some x else None)"

definition as_signed :: "int \<Rightarrow> int option" where
  "as_signed x = (if - (2 ^ 31) \<le> x \<and> x < 2 ^ 31 then Some x else None)"

definition pictureWidth :: "u32 \<Rightarrow> int" where
  "pictureWidth pic_width_in_mbs_minus1 =
     (case as_unsigned (uint pic_width_in_mbs_minus1 * 16) of
        None \<Rightarrow> 0
      | Some w \<Rightarrow> (case as_signed (w + 16) of None \<Rightarrow> 0 | Some w \<Rightarrow> w))"

definition pictureHeight :: "u32 \<Rightarrow> u32 \<Rightarrow> int" where
  "pictureHeight pic_height_in_map_units_minus1 frame_mbs_only_flag =
     (case as_unsigned (uint pic_height_in_map_units_minus1 * 16) of
        None \<Rightarrow> 0
      | Some h \<Rightarrow>
          (case as_unsigned (h + 16) of
             None \<Rightarrow> 0
           | Some h \<Rightarrow> (case as_signed (h * uint (2 - frame_mbs_only_flag)) of None \<Rightarrow> 0 | Some h \<Rightarrow> h)))"

definition cropBy :: "u32 \<Rightarrow> u32 \<Rightarrow> u32 \<Rightarrow> int \<Rightarrow> int" where
  "cropBy first_offset last_offset cropUnit extent =
     (case as_unsigned (uint first_offset + uint last_offset) of
        None \<Rightarrow> 0
      | Some c \<Rightarrow>
          (case as_unsigned (c * uint cropUnit) of
             None \<Rightarrow> 0
           | Some c \<Rightarrow>
               (case as_signed (extent - c) of
                  None \<Rightarrow> 0
                | Some l \<Rightarrow> if l < 0 then 0 else l)))"

definition cropUnits :: "u32 \<Rightarrow> u32 \<Rightarrow> u32 \<times> u32" where
  "cropUnits chroma_format_idc frame_mbs_only_flag =
     (if chroma_format_idc = 0 then (1, 2 - frame_mbs_only_flag)
      else
        let subWidthC = (if chroma_format_idc = 3 then 1 else 2);
            subHeightC = (if chroma_format_idc = 1 then 2 else 1)
        in (subWidthC, subHeightC * (2 - frame_mbs_only_flag)))"

definition frameCropping :: "u32 \<Rightarrow> u32 \<Rightarrow> int \<Rightarrow> int \<Rightarrow> bit_reader \<Rightarrow> (int \<times> int \<times> bit_reader) ub" where
  "frameCropping chroma_format_idc frame_mbs_only_flag width height br = do {
     (frame_cropping_flag, br) \<leftarrow> getBits fillReservoir 1 br;
     if frame_cropping_flag = 0 then Some (width, height, br)
     else do {
       (frame_crop_left_offset, br) \<leftarrow> parseUE br;
       (frame_crop_right_offset, br) \<leftarrow> parseUE br;
       (frame_crop_top_offset, br) \<leftarrow> parseUE br;
       (frame_crop_bottom_offset, br) \<leftarrow> parseUE br;
       let (cropUnitX, cropUnitY) = cropUnits chroma_format_idc frame_mbs_only_flag in
       Some (cropBy frame_crop_left_offset frame_crop_right_offset cropUnitX width,
             cropBy frame_crop_top_offset frame_crop_bottom_offset cropUnitY height, br)
     }
   }"

definition kFixedSARs :: "(int \<times> int) list" where
  "kFixedSARs =
     [(0, 0), (1, 1), (12, 11), (10, 11), (16, 11), (40, 33), (24, 11), (20, 11), (32, 11), (80, 33), (18, 11), (15, 11),
      (64, 33), (160, 99), (4, 3), (3, 2), (2, 1)]"

definition aspectRatio :: "bit_reader \<Rightarrow> ((int \<times> int) \<times> bit_reader) ub" where
  "aspectRatio br = do {
     (vui_parameters_present_flag, br) \<leftarrow> getBits fillReservoir 1 br;
     if vui_parameters_present_flag = 0 then Some ((0, 0), br)
     else do {
       (aspect_ratio_info_present_flag, br) \<leftarrow> getBits fillReservoir 1 br;
       if aspect_ratio_info_present_flag = 0 then Some ((0, 0), br)
       else do {
         (aspect_ratio_idc, br) \<leftarrow> getBits fillReservoir 8 br;
         if aspect_ratio_idc = 255 then do {
           (sar_width, br) \<leftarrow> getBits fillReservoir 16 br;
           (sar_height, br) \<leftarrow> getBits fillReservoir 16 br;
           Some ((sint sar_width, sint sar_height), br)
         } else if unat aspect_ratio_idc > 0 \<and> unat aspect_ratio_idc < length kFixedSARs
         then Some (kFixedSARs ! unat aspect_ratio_idc, br)
         else Some ((0, 0), br)
       }
     }
   }"

record avc_dimensions =
  avc_width :: int
  avc_height :: int
  avc_sarWidth :: int
  avc_sarHeight :: int

text \<open>The whole set, read from after its first byte.\<close>

definition readParamSet :: "bit_reader \<Rightarrow> avc_dimensions ub" where
  "readParamSet br = do {
     (profile_idc, br) \<leftarrow> getBits fillReservoir 8 br;
     (_, br) \<leftarrow> skipBits fillReservoir 16 br;
     (_, br) \<leftarrow> parseUE br;
     (chroma_format_idc, br) \<leftarrow> chromaFormat profile_idc br;
     (_, br) \<leftarrow> parseUE br;
     (pic_order_cnt_type, br) \<leftarrow> parseUE br;
     br \<leftarrow> picOrderCount pic_order_cnt_type br;
     (_, br) \<leftarrow> parseUE br;
     (_, br) \<leftarrow> getBits fillReservoir 1 br;
     (pic_width_in_mbs_minus1, br) \<leftarrow> parseUE br;
     (pic_height_in_map_units_minus1, br) \<leftarrow> parseUE br;
     (frame_mbs_only_flag, br) \<leftarrow> getBits fillReservoir 1 br;
     (_, br) \<leftarrow> (if frame_mbs_only_flag = 0 then getBits fillReservoir 1 br else Some (0, br));
     (_, br) \<leftarrow> getBits fillReservoir 1 br;
     (width, height, br) \<leftarrow> frameCropping chroma_format_idc frame_mbs_only_flag (pictureWidth pic_width_in_mbs_minus1)
       (pictureHeight pic_height_in_map_units_minus1 frame_mbs_only_flag) br;
     ((sarWidth, sarHeight), br) \<leftarrow> aspectRatio br;
     Some \<lparr>avc_width = width, avc_height = height, avc_sarWidth = sarWidth, avc_sarHeight = sarHeight\<rparr>
   }"

text \<open>A parameter set without its first byte is undefined behaviour; the pointers for the aspect ratio are taken to be non-null.\<close>

definition FindAVCDimensions :: "u8 list \<Rightarrow> avc_dimensions ub" where
  "FindAVCDimensions seqParamSet = (if seqParamSet = [] then None else readParamSet (ABitReader (tl seqParamSet)))"

section \<open>Codec specific data\<close>

definition AVCProfileToString :: "u8 \<Rightarrow> string" where
  "AVCProfileToString profile =
     (if profile = 0x42 then ''Baseline'' else if profile = 0x4d then ''Main'' else if profile = 0x58 then ''Extended''
      else if profile = 0x64 then ''High'' else if profile = 0x6e then ''High 10'' else if profile = 0x7a then ''High 422''
      else if profile = 0xf4 then ''High 444'' else if profile = 0x2c then ''CAVLC 444 Intra'' else ''Unknown'')"

definition sizeBytes :: "nat \<Rightarrow> u8 list" where
  "sizeBytes n = [word_of_nat (n div 256), word_of_nat (n mod 256)]"

text \<open>\<open>None\<close> inside the result: a null buffer, and the output parameters are not written.\<close>

definition MakeAVCCodecSpecificData :: "u8 list \<Rightarrow> (u8 list \<times> avc_dimensions) option ub" where
  "MakeAVCCodecSpecificData accessUnit = do {
     found \<leftarrow> FindNAL accessUnit 7;
     (case found of
        None \<Rightarrow> Some None
      | Some seqParamSet \<Rightarrow> do {
          dims \<leftarrow> FindAVCDimensions seqParamSet;
          found \<leftarrow> FindNAL accessUnit 8;
          (case found of
             None \<Rightarrow> None
           | Some picParamSet \<Rightarrow>
               if length seqParamSet < 4 then None
               else
                 let csd = [0x01] @ take 3 (drop 1 seqParamSet) @ [0xfd, 0xe1]
                       @ sizeBytes (length seqParamSet) @ seqParamSet @ [1] @ sizeBytes (length picParamSet) @ picParamSet;
                     dims = (if avc_sarWidth dims > 0 \<and> avc_sarHeight dims > 0 \<and> (avc_sarWidth dims \<noteq> 1 \<or> avc_sarHeight dims \<noteq> 1)
                             then dims else dims\<lparr>avc_sarWidth := 0, avc_sarHeight := 0\<rparr>)
                 in Some (Some (csd, dims)))
        })
   }"

section \<open>VOL headers\<close>

definition check :: "bool \<Rightarrow> unit ub" where
  "check b = (if b then Some () else None)"

text \<open>\<open>CHECK(br.getBits(1))\<close>.\<close>

definition marker_bit :: "bit_reader \<Rightarrow> bit_reader ub" where
  "marker_bit br = do {
     (b, br) \<leftarrow> getBits fillReservoir 1 br;
     check (b \<noteq> 0);
     Some br
   }"

function countBits :: "nat \<Rightarrow> nat" where
  "countBits resolution = (if resolution > 0 then Suc (countBits (resolution div 2)) else 0)"
  by pat_completeness auto
termination by (relation "measure id") auto

declare countBits.simps [simp del]

definition vbvParameters :: "bit_reader \<Rightarrow> bit_reader ub" where
  "vbvParameters br = do {
     (_, br) \<leftarrow> skipBits fillReservoir 15 br;
     br \<leftarrow> marker_bit br;
     (_, br) \<leftarrow> skipBits fillReservoir 15 br;
     br \<leftarrow> marker_bit br;
     (_, br) \<leftarrow> skipBits fillReservoir 15 br;
     br \<leftarrow> marker_bit br;
     (_, br) \<leftarrow> skipBits fillReservoir 3 br;
     (_, br) \<leftarrow> skipBits fillReservoir 11 br;
     br \<leftarrow> marker_bit br;
     (_, br) \<leftarrow> skipBits fillReservoir 15 br;
     marker_bit br
   }"

definition volControl :: "bit_reader \<Rightarrow> bit_reader ub" where
  "volControl br = do {
     (vol_control_parameters, br) \<leftarrow> getBits fillReservoir 1 br;
     if vol_control_parameters = 0 then Some br
     else do {
       (_, br) \<leftarrow> skipBits fillReservoir 2 br;
       (_, br) \<leftarrow> skipBits fillReservoir 1 br;
       (vbv_parameters, br) \<leftarrow> getBits fillReservoir 1 br;
       if vbv_parameters = 0 then Some br else vbvParameters br
     }
   }"

text \<open>The header, read from after the start code.\<close>

definition readVOLHeader :: "bit_reader \<Rightarrow> (int \<times> int) ub" where
  "readVOLHeader br = do {
     (_, br) \<leftarrow> skipBits fillReservoir 1 br;
     (video_object_type_indication, br) \<leftarrow> getBits fillReservoir 8 br;
     check (video_object_type_indication \<noteq> 0x21);
     (is_object_layer_identifier, br) \<leftarrow> getBits fillReservoir 1 br;
     br \<leftarrow> (if is_object_layer_identifier \<noteq> 0 then do {
              (_, br) \<leftarrow> skipBits fillReservoir 4 br;
              (_, br) \<leftarrow> skipBits fillReservoir 3 br;
              Some br
            } else Some br);
     (aspect_ratio_info, br) \<leftarrow> getBits fillReservoir 4 br;
     br \<leftarrow> (if aspect_ratio_info = 0x0f then do {
              (_, br) \<leftarrow> skipBits fillReservoir 8 br;
              (_, br) \<leftarrow> skipBits fillReservoir 8 br;
              Some br
            } else Some br);
     br \<leftarrow> volControl br;
     (video_object_layer_shape, br) \<leftarrow> getBits fillReservoir 2 br;
     check (video_object_layer_shape = 0);
     br \<leftarrow> marker_bit br;
     (vop_time_increment_resolution, br) \<leftarrow> getBits fillReservoir 16 br;
     br \<leftarrow> marker_bit br;
     (fixed_vop_rate, br) \<leftarrow> getBits fillReservoir 1 br;
     br \<leftarrow> (if fixed_vop_rate \<noteq> 0 then do {
              check (vop_time_increment_resolution > 0);
              (_, br) \<leftarrow> skipBits fillReservoir (countBits (unat (vop_time_increment_resolution - 1))) br;
              Some br
            } else Some br);
     br \<leftarrow> marker_bit br;
     (video_object_layer_width, br) \<leftarrow> getBits fillReservoir 13 br;
     br \<leftarrow> marker_bit br;
     (video_object_layer_height, br) \<leftarrow> getBits fillReservoir 13 br;
     br \<leftarrow> marker_bit br;
     (_, br) \<leftarrow> skipBits fillReservoir 1 br;
     Some (sint video_object_layer_width, sint video_object_layer_height)
   }"

definition ExtractDimensionsFromVOLHeader :: "u8 list \<Rightarrow> (int \<times> int) ub" where
  "ExtractDimensionsFromVOLHeader d = (if length d < 4 then None else readVOLHeader (ABitReader (drop 4 d)))"

end
