(* ===== verification/Param_Properties.thy ===== *)
theory Param_Properties
  imports Param_Sets
begin

text \<open>
  The parsers of \<^verbatim>\<open>avc_utils.cpp\<close> read what an encoder writes: Exp-Golomb codes, sequence parameter sets and VOL headers decode to the
  values they were made from, and the codec specific data holds both parameter sets.

  A parser is described by the bits it takes from the front of the stream and the value it returns; parsers compose.
\<close>

section \<open>Parsers on streams of bits\<close>

definition reads :: "bit_reader \<Rightarrow> bool list \<Rightarrow> bool" where
  "reads r bs \<longleftrightarrow> (\<exists>B e. window B e r \<and> bits_left raw r = bs)"

lemma reads_start: "reads (ABitReader B) (bytes_bits B)"
  using window_ABitReader unfolding reads_def by blast

lemma reads_bytes: "bytes_bits B = bs \<Longrightarrow> reads (ABitReader B) bs"
  using reads_start by blast

definition parses :: "(bit_reader \<Rightarrow> ('x \<times> bit_reader) ub) \<Rightarrow> bool list \<Rightarrow> 'x \<Rightarrow> bool" where
  "parses p xs v \<longleftrightarrow> (\<forall>r bs. reads r (xs @ bs) \<longrightarrow> (\<exists>r'. p r = Some (v, r') \<and> reads r' bs))"

definition skips :: "(bit_reader \<Rightarrow> bit_reader ub) \<Rightarrow> bool list \<Rightarrow> bool" where
  "skips p xs \<longleftrightarrow> (\<forall>r bs. reads r (xs @ bs) \<longrightarrow> (\<exists>r'. p r = Some r' \<and> reads r' bs))"

lemma parsesD: "parses p xs v \<Longrightarrow> reads r (xs @ bs) \<Longrightarrow> \<exists>r'. p r = Some (v, r') \<and> reads r' bs"
  by (simp add: parses_def)

lemma skipsD: "skips p xs \<Longrightarrow> reads r (xs @ bs) \<Longrightarrow> \<exists>r'. p r = Some r' \<and> reads r' bs"
  by (simp add: skips_def)

lemma parses_getBits: "length xs < 32 \<Longrightarrow> parses (getBits fillReservoir (length xs)) xs (bits_val xs)"
  unfolding parses_def
proof (intro allI impI)
  fix r bs assume n: "length xs < 32" and "reads r (xs @ bs)"
  then obtain B e where w: "window B e r" "bits_left raw r = xs @ bs" by (auto simp: reads_def)
  have "length xs \<le> length (bits_left raw r)" using w(2) by simp
  from ab.getBits_spec [OF w(1) n this] obtain r' where
    "getBits fillReservoir (length xs) r = Some (bits_val (take (length xs) (bits_left raw r)), r')" "window B e r'"
    "bits_left raw r' = drop (length xs) (bits_left raw r)" .
  with w(2) show "\<exists>r'. getBits fillReservoir (length xs) r = Some (bits_val xs, r') \<and> reads r' bs" by (auto simp: reads_def)
qed

lemma parses_bits: "length xs = n \<Longrightarrow> n < 32 \<Longrightarrow> parses (getBits fillReservoir n) xs (bits_val xs)"
  using parses_getBits by blast

lemma bits_val_1 [simp]: "bits_val [b] = of_bool b"
  by (simp add: bits_val_def)

lemma parses_flag: "parses (getBits fillReservoir 1) [b] (of_bool b)"
  using parses_getBits [of "[b]"] by simp

lemma parses_skip:
  assumes "length xs = n" "n < 32"
  shows "parses (skipBits fillReservoir n) xs True"
  unfolding parses_def
proof (intro allI impI)
  fix r bs assume r: "reads r (xs @ bs)"
  show "\<exists>r'. skipBits fillReservoir n r = Some (True, r') \<and> reads r' bs"
  proof (cases "n = 0")
    case True
    with r assms show ?thesis by (simp add: skipBits.simps)
  next
    case False
    obtain r' where "getBits fillReservoir n r = Some (bits_val xs, r')" "reads r' bs"
      using parsesD [OF parses_bits [OF assms] r] by blast
    with False assms show ?thesis
      by (subst skipBits.simps) (auto simp: getBits_def split: option.splits)
  qed
qed

section \<open>Exp-Golomb codes\<close>

lemma zerosLoop_reads:
  "reads r (replicate z False @ True # bs) \<Longrightarrow> \<exists>r'. zerosLoop n r = Some (n + word_of_nat z, r') \<and> reads r' bs"
proof (induction z arbitrary: n r)
  case 0
  then obtain r' where "getBits fillReservoir 1 r = Some (1, r')" "reads r' bs"
    using parsesD [OF parses_flag [of True], of r bs] by auto
  then show ?case by (subst zerosLoop.simps) simp
next
  case (Suc z)
  then obtain r1 where r1: "getBits fillReservoir 1 r = Some (0, r1)" "reads r1 (replicate z False @ True # bs)"
    using parsesD [OF parses_flag [of False], of r "replicate z False @ True # bs"] by auto
  obtain r' where "zerosLoop (n + 1) r1 = Some (n + 1 + word_of_nat z, r')" "reads r' bs" using Suc.IH [OF r1(2)] by blast
  with r1(1) show ?case by (subst zerosLoop.simps) (simp add: ac_simps)
qed

lemma parseUE_code:
  assumes "length xs = z" "z < 32"
  shows "parses parseUE (replicate z False @ True # xs) (bits_val xs + 2 ^ z - 1)"
  unfolding parses_def
proof (intro allI impI)
  fix r bs assume "reads r ((replicate z False @ True # xs) @ bs)"
  then obtain r1 where r1: "zerosLoop 0 r = Some (word_of_nat z, r1)" "reads r1 (xs @ bs)"
    using zerosLoop_reads [of r z "xs @ bs" 0] by auto
  obtain r2 where r2: "getBits fillReservoir z r1 = Some (bits_val xs, r2)" "reads r2 bs"
    using parsesD [OF parses_bits [OF assms] r1(2)] by blast
  have "unat (word_of_nat z :: u32) = z" using assms(2) by (simp add: unat_of_nat)
  with r1 r2 assms(2) show "\<exists>r'. parseUE r = Some (bits_val xs + 2 ^ z - 1, r') \<and> reads r' bs"
    by (simp add: parseUE_def shl32_def push_bit_eq_mult)
qed

text \<open>The bits of a number, the most significant one first.\<close>

definition nat_bits :: "nat \<Rightarrow> nat \<Rightarrow> bool list" where
  "nat_bits w n = map (bit n) (rev [0..<w])"

lemma length_nat_bits [simp]: "length (nat_bits w n) = w"
  by (simp add: nat_bits_def)

text \<open>The same bits by repeated division, for evaluation.\<close>

fun bits_onto :: "nat \<Rightarrow> nat \<Rightarrow> bool list \<Rightarrow> bool list" where
  "bits_onto 0 n bs = bs"
| "bits_onto (Suc w) n bs = bits_onto w (n div 2) (odd n # bs)"

lemma bits_onto_eq: "bits_onto w n bs = nat_bits w n @ bs"
proof (induction w arbitrary: n bs)
  case (Suc w)
  have "nat_bits (Suc w) n = nat_bits w (n div 2) @ [odd n]"
    by (rule nth_equalityI) (auto simp: nat_bits_def rev_nth nth_append bit_0 bit_Suc [symmetric] Suc_diff_Suc simp del: upt_Suc)
  then show ?case using Suc by simp
qed (simp add: nat_bits_def)

lemma nat_bits_code [code]: "nat_bits w n = bits_onto w n []"
  by (simp add: bits_onto_eq)

lemma bits_val_nat_bits:
  assumes "n < 2 ^ w" "w \<le> 32"
  shows "bits_val (nat_bits w n) = word_of_nat n"
proof (rule bit_word_eqI)
  fix i assume i: "i < LENGTH(32)"
  have "bit n i \<Longrightarrow> i < w" using assms(1) by (metis bit_take_bit_iff take_bit_nat_eq_self)
  moreover have "nat_bits w n ! (w - Suc i) = bit n i" if "i < w"
    using that by (simp add: nat_bits_def rev_nth)
  ultimately show "bit (bits_val (nat_bits w n)) i = bit (word_of_nat n :: u32) i"
    using i by (auto simp: bit_bits_val bit_simps)
qed

definition ue_bits :: "nat \<Rightarrow> bool list" where
  "ue_bits k = (let z = countBits (Suc k) - 1 in replicate z False @ True # nat_bits z (Suc k))"

lemma countBits_bounds: "0 < n \<Longrightarrow> 0 < countBits n \<and> 2 ^ (countBits n - 1) \<le> n \<and> n < 2 ^ countBits n"
proof (induction n rule: countBits.induct)
  case (1 n)
  show ?case
  proof (cases "n div 2 = 0")
    case True
    then have "n = 1" using 1(2) by auto
    then show ?thesis by (simp add: countBits.simps)
  next
    case False
    have c: "countBits n = Suc (countBits (n div 2))" using 1(2) by (subst countBits.simps) simp
    have ih: "0 < countBits (n div 2)" "2 ^ (countBits (n div 2) - 1) \<le> n div 2" "n div 2 < 2 ^ countBits (n div 2)"
      using 1(1) [OF 1(2)] False by auto
    obtain j where j: "countBits (n div 2) = Suc j" using ih(1) by (cases "countBits (n div 2)") auto
    have "n = 2 * (n div 2) + n mod 2" "n mod 2 < 2" by simp_all
    with ih(2,3) show ?thesis unfolding c j by (simp del: mult_div_mod_eq) linarith
  qed
qed

lemma parseUE_bits:
  assumes "k < 2 ^ 32 - 1"
  shows "parses parseUE (ue_bits k) (word_of_nat k)"
proof -
  define z where "z = countBits (Suc k) - 1"
  have b: "2 ^ z \<le> Suc k" "Suc k < 2 ^ Suc z" using countBits_bounds [of "Suc k"] by (simp_all add: z_def)
  have "(2 :: nat) ^ z < 2 ^ 32" using b(1) assms by simp
  then have z: "z < 32" by (rule power_less_imp_less_exp [rotated]) simp
  have "nat_bits z (Suc k) = nat_bits z (Suc k - 2 ^ z)"
  proof -
    have "take_bit z (Suc k) = Suc k - 2 ^ z" using b by (simp add: take_bit_eq_mod le_mod_geq)
    then have "bit (Suc k) i = bit (Suc k - 2 ^ z) i" if "i < z" for i by (metis bit_take_bit_iff that)
    then show ?thesis by (auto simp: nat_bits_def)
  qed
  moreover have "Suc k - 2 ^ z < 2 ^ z" using b by simp
  ultimately have "bits_val (nat_bits z (Suc k)) = word_of_nat (Suc k - 2 ^ z)" using bits_val_nat_bits z by simp
  then have "bits_val (nat_bits z (Suc k)) + 2 ^ z - 1 = word_of_nat k" using b(1) by (simp add: of_nat_diff)
  with parseUE_code [OF length_nat_bits z, of "Suc k"] show ?thesis by (simp add: ue_bits_def z_def Let_def)
qed


lemma parses_fallback:
  assumes "parses (getBits fillReservoir n) xs v"
  shows "parses (getBitsWithFallback fillReservoir n fb) xs v"
  using assms by (fastforce simp: parses_def getBits_def getBitsWithFallback_def split: option.splits)

lemma zerosFallbackLoop_eq: "zerosLoop n r = Some x \<Longrightarrow> zerosFallbackLoop n r = Some x"
proof (induction n r rule: zerosLoop.induct)
  case (1 n r)
  from 1(2) obtain b r1 where b: "getBits fillReservoir 1 r = Some (b, r1)"
    by (subst (asm) zerosLoop.simps) (auto split: option.splits)
  then have "getBitsWithFallback fillReservoir 1 1 r = Some (b, r1)"
    by (auto simp: getBits_def getBitsWithFallback_def split: option.splits)
  with b 1 show ?case
    by (subst (asm) (2) zerosLoop.simps, subst zerosFallbackLoop.simps) (auto split: if_splits)
qed

text \<open>Where the strict parser succeeds the one with a fallback agrees.\<close>

lemma parseUEWithFallback_eq:
  assumes "parseUE r = Some x"
  shows "parseUEWithFallback fb r = Some x"
proof -
  obtain z r1 y r2 b where s: "zerosLoop 0 r = Some (z, r1)" "getBits fillReservoir (unat z) r1 = Some (y, r2)"
    "shl32 1 (unat z) = Some b" "x = (y + b - 1, r2)"
    using assms by (auto simp: parseUE_def Option.bind_eq_Some_conv)
  have "getBitsGraceful fillReservoir (unat z) r1 = Some (Some y, r2)"
    using s(2) by (auto simp: getBits_def split: option.splits)
  moreover have "z < 32" using s(3) by (simp add: shl32_def word_less_nat_alt split: if_splits)
  ultimately show ?thesis using s zerosFallbackLoop_eq [OF s(1)] by (simp add: parseUEWithFallback_def)
qed

lemma parseUEWithFallback_bits:
  "k < 2 ^ 32 - 1 \<Longrightarrow> parses (parseUEWithFallback fb) (ue_bits k) (word_of_nat k)"
  using parseUE_bits [of k] parseUEWithFallback_eq unfolding parses_def by blast

text \<open>The code number of a signed value.\<close>

definition se_code :: "int \<Rightarrow> nat" where
  "se_code v = (if v > 0 then nat (2 * v - 1) else nat (- 2 * v))"

lemma sint_word_of_nat: "m < 2 ^ 31 \<Longrightarrow> sint (word_of_nat m :: u32) = int m"
  by (simp add: sint_uint uint_nat unat_of_nat signed_take_bit_int_eq_self)

lemma word_of_nat_div_2: "m < 2 ^ 32 \<Longrightarrow> (word_of_nat m :: u32) div 2 = word_of_nat (m div 2)"
  by (simp add: word_arith_nat_div unat_of_nat)

lemma signedCode_nat:
  assumes "m < 2 ^ 31"
  shows "signedCode (word_of_nat (2 * m)) = - int m" "0 < m \<Longrightarrow> signedCode (word_of_nat (2 * m - 1)) = int m"
proof -
  have "word_of_nat (2 * m) AND 1 = (0 :: u32)" by (simp add: and_one_eq mod_2_eq_odd)
  moreover have "(word_of_nat (2 * m) :: u32) div 2 = word_of_nat m" using word_of_nat_div_2 [of "2 * m"] assms by simp
  ultimately show "signedCode (word_of_nat (2 * m)) = - int m"
    using sint_word_of_nat [OF assms] by (simp add: signedCode_def)
next
  assume m: "0 < m"
  have w: "word_of_nat (2 * m - 1) + 1 = (word_of_nat (2 * m) :: u32)" using m by (simp add: of_nat_diff)
  have "word_of_nat (2 * m - 1) AND 1 = (1 :: u32)" using m by (simp add: and_one_eq of_nat_diff mod_2_eq_odd)
  moreover have "(word_of_nat (2 * m) :: u32) div 2 = word_of_nat m" using word_of_nat_div_2 [of "2 * m"] assms by simp
  ultimately show "signedCode (word_of_nat (2 * m - 1)) = int m"
    using sint_word_of_nat [OF assms] w by (simp add: signedCode_def)
qed

lemma signedCode_se_code:
  assumes "- (2 ^ 31) < v" "v < 2 ^ 31"
  shows "signedCode (word_of_nat (se_code v)) = v" "se_code v < 2 ^ 32 - 1"
proof -
  have m: "nat \<bar>v\<bar> < 2 ^ 31" using assms by auto
  show "signedCode (word_of_nat (se_code v)) = v"
  proof (cases "v > 0")
    case True
    then have "se_code v = 2 * nat \<bar>v\<bar> - 1" "0 < nat \<bar>v\<bar>" by (auto simp: se_code_def nat_diff_distrib nat_mult_distrib)
    then show ?thesis using signedCode_nat(2) [OF m] True by simp
  next
    case False
    then have "se_code v = 2 * nat \<bar>v\<bar>" by (auto simp: se_code_def nat_mult_distrib)
    then show ?thesis using signedCode_nat(1) [OF m] False by simp
  qed
  show "se_code v < 2 ^ 32 - 1" using assms by (auto simp: se_code_def)
qed

lemma parseSE_bits:
  assumes "- (2 ^ 31) < v" "v < 2 ^ 31"
  shows "parses parseSE (ue_bits (se_code v)) v"
proof -
  have "parses parseUE (ue_bits (se_code v)) (word_of_nat (se_code v))" by (rule parseUE_bits [OF signedCode_se_code(2) [OF assms]])
  then show ?thesis using signedCode_se_code(1) [OF assms] by (fastforce simp: parses_def parseSE_def)
qed

section \<open>Composition\<close>

text \<open>\<open>gives p bs Q\<close>: on a reader that holds the bits \<open>bs\<close> the computation ends, with a result that satisfies \<open>Q\<close>.\<close>

definition gives :: "(bit_reader \<Rightarrow> 'y ub) \<Rightarrow> bool list \<Rightarrow> ('y \<Rightarrow> bool) \<Rightarrow> bool" where
  "gives p bs Q \<longleftrightarrow> (\<forall>r. reads r bs \<longrightarrow> (\<exists>y. p r = Some y \<and> Q y))"

lemma gives_bind: "parses p xs v \<Longrightarrow> gives (k v) bs Q \<Longrightarrow> gives (\<lambda>r. Option.bind (p r) (case_prod k)) (xs @ bs) Q"
  unfolding gives_def by (fastforce dest: parsesD)

lemma gives_skip: "skips p xs \<Longrightarrow> gives k bs Q \<Longrightarrow> gives (\<lambda>r. Option.bind (p r) k) (xs @ bs) Q"
  unfolding gives_def by (fastforce dest: skipsD)

lemma gives_return: "(\<And>r. reads r bs \<Longrightarrow> Q (f r)) \<Longrightarrow> gives (\<lambda>r. Some (f r)) bs Q"
  by (simp add: gives_def)

lemma parsesI: "(\<And>bs. gives p (xs @ bs) (\<lambda>y. fst y = v \<and> reads (snd y) bs)) \<Longrightarrow> parses p xs v"
  by (fastforce simp: gives_def parses_def)

lemma skipsI: "(\<And>bs. gives p (xs @ bs) (\<lambda>r. reads r bs)) \<Longrightarrow> skips p xs"
  by (fastforce simp: gives_def skips_def)

lemma parses_return: "parses (\<lambda>r. Some (v, r)) [] v"
  by (simp add: parses_def)

lemma skips_return: "skips Some []"
  by (simp add: skips_def)

lemma parses_if: "(c \<Longrightarrow> parses p xs v) \<Longrightarrow> (\<not> c \<Longrightarrow> parses q xs v) \<Longrightarrow> parses (\<lambda>r. if c then p r else q r) xs v"
  by (cases c) auto

section \<open>Sequence parameter sets\<close>

text \<open>
  The syntax elements of a parameter set (ISO/IEC 14496-10, 7.3.2.1.1), up to the aspect ratio, and the bits an encoder writes for them; all of it
  is taken from the standard, not from the code: which profiles have the chroma elements, 8 scaling lists or, in the 4:4:4 format, 12 of them,
  the crop units (7.4.2.1.1, table 6-1), the aspect ratios (table E-1) and the emulation prevention bytes of a NAL unit (7.3.1). A scaling
  list is given by its deltas: they stop when the list is full or the next scale is 0.
\<close>

datatype pic_order = Poc_lsb nat | Poc_cycle bool int int "int list" | Poc_none nat

datatype sample_aspect = Sar_none | Sar_fixed nat | Sar_extended nat nat

record chroma_info =
  ci_format :: nat
  ci_separate :: bool
  ci_depth_luma :: nat
  ci_depth_chroma :: nat
  ci_bypass :: bool
  ci_matrix :: "int list option list option"

record sps =
  sps_profile :: nat
  sps_levels :: nat
  sps_id :: nat
  sps_chroma :: chroma_info
  sps_frame_num :: nat
  sps_order :: pic_order
  sps_ref_frames :: nat
  sps_gaps :: bool
  sps_width_mbs :: nat
  sps_height_units :: nat
  sps_frames_only :: bool
  sps_adaptive :: bool
  sps_direct :: bool
  sps_crop :: "(nat \<times> nat \<times> nat \<times> nat) option"
  sps_vui :: "sample_aspect option"

definition has_chroma_info :: "nat \<Rightarrow> bool" where
  "has_chroma_info profile \<longleftrightarrow> profile \<in> {100, 110, 122, 244, 44, 83, 86, 118, 128, 138, 139, 134, 135}"

definition scaling_lists :: "nat \<Rightarrow> nat" where
  "scaling_lists chroma_format = (if chroma_format \<noteq> 3 then 8 else 12)"

definition table_E_1 :: "nat \<Rightarrow> (int \<times> int) option" where
  "table_E_1 = map_of
     [(1, 1, 1), (2, 12, 11), (3, 10, 11), (4, 16, 11), (5, 40, 33), (6, 24, 11), (7, 20, 11), (8, 32, 11), (9, 80, 33), (10, 18, 11),
      (11, 15, 11), (12, 64, 33), (13, 160, 99), (14, 4, 3), (15, 3, 2), (16, 2, 1)]"

text \<open>A NAL unit carries its payload with a 3 before every byte up to 3 that follows two zeros.\<close>

fun escape_from :: "nat \<Rightarrow> u8 list \<Rightarrow> u8 list" where
  "escape_from zeros [] = []"
| "escape_from zeros (b # bs) =
     (if 2 \<le> zeros \<and> b \<le> 3 then 3 # b # escape_from (if b = 0 then 1 else 0) bs
      else b # escape_from (if b = 0 then Suc zeros else 0) bs)"

definition escape :: "u8 list \<Rightarrow> u8 list" where
  "escape rbsp = escape_from 0 rbsp"

fun order_bits :: "pic_order \<Rightarrow> bool list" where
  "order_bits (Poc_lsb n) = ue_bits 0 @ ue_bits n"
| "order_bits (Poc_cycle z a b ds) =
     ue_bits 1 @ [z] @ ue_bits (se_code a) @ ue_bits (se_code b) @ ue_bits (length ds) @ concat (map (\<lambda>d. ue_bits (se_code d)) ds)"
| "order_bits (Poc_none n) = ue_bits n"

fun aspect_bits :: "sample_aspect option \<Rightarrow> bool list" where
  "aspect_bits None = [False]"
| "aspect_bits (Some Sar_none) = [True] @ [False]"
| "aspect_bits (Some (Sar_fixed n)) = [True] @ [True] @ nat_bits 8 n"
| "aspect_bits (Some (Sar_extended w h)) = [True] @ [True] @ nat_bits 8 255 @ nat_bits 16 w @ nat_bits 16 h"

fun crop_bits :: "(nat \<times> nat \<times> nat \<times> nat) option \<Rightarrow> bool list" where
  "crop_bits None = [False]"
| "crop_bits (Some (l, r, t, b)) = [True] @ ue_bits l @ ue_bits r @ ue_bits t @ ue_bits b"

definition list_bits :: "int list option \<Rightarrow> bool list" where
  "list_bits l = (case l of None \<Rightarrow> [False] | Some ds \<Rightarrow> [True] @ concat (map (\<lambda>d. ue_bits (se_code d)) ds))"

definition matrix_bits :: "int list option list option \<Rightarrow> bool list" where
  "matrix_bits m = (case m of None \<Rightarrow> [False] | Some ls \<Rightarrow> [True] @ concat (map list_bits ls))"

definition chroma_bits :: "chroma_info \<Rightarrow> bool list" where
  "chroma_bits c =
     ue_bits (ci_format c) @ (if ci_format c = 3 then [ci_separate c] else []) @ ue_bits (ci_depth_luma c) @ ue_bits (ci_depth_chroma c)
     @ [ci_bypass c] @ matrix_bits (ci_matrix c)"

definition sps_bits :: "sps \<Rightarrow> bool list" where
  "sps_bits s =
     nat_bits 8 (sps_profile s) @ nat_bits 16 (sps_levels s) @ ue_bits (sps_id s)
     @ (if has_chroma_info (sps_profile s) then chroma_bits (sps_chroma s) else [])
     @ ue_bits (sps_frame_num s) @ order_bits (sps_order s) @ ue_bits (sps_ref_frames s) @ [sps_gaps s]
     @ ue_bits (sps_width_mbs s) @ ue_bits (sps_height_units s) @ [sps_frames_only s]
     @ (if sps_frames_only s then [] else [sps_adaptive s]) @ [sps_direct s] @ crop_bits (sps_crop s) @ aspect_bits (sps_vui s)"

text \<open>The range of a code, of a signed code, and the shape of a scaling list.\<close>

abbreviation ue_ok :: "nat \<Rightarrow> bool" where
  "ue_ok n \<equiv> n < 4294967295"

abbreviation se_ok :: "int \<Rightarrow> bool" where
  "se_ok v \<equiv> - 2147483648 < v \<and> v < 2147483648"

fun deltas_ok :: "nat \<Rightarrow> int \<Rightarrow> int list \<Rightarrow> bool" where
  "deltas_ok 0 scale ds \<longleftrightarrow> ds = []"
| "deltas_ok (Suc n) scale [] \<longleftrightarrow> False"
| "deltas_ok (Suc n) scale (d # ds) \<longleftrightarrow> - 128 \<le> d \<and> d \<le> 127 \<and>
     (if (scale + d) mod 256 = 0 then ds = [] else deltas_ok n ((scale + d) mod 256) ds)"

fun order_ok :: "pic_order \<Rightarrow> bool" where
  "order_ok (Poc_lsb n) \<longleftrightarrow> ue_ok n"
| "order_ok (Poc_cycle z a b ds) \<longleftrightarrow> se_ok a \<and> se_ok b \<and> ue_ok (length ds) \<and> list_all se_ok ds"
| "order_ok (Poc_none n) \<longleftrightarrow> 1 < n \<and> ue_ok n"

fun aspect_ok :: "sample_aspect option \<Rightarrow> bool" where
  "aspect_ok (Some (Sar_fixed n)) \<longleftrightarrow> n < 255"
| "aspect_ok (Some (Sar_extended w h)) \<longleftrightarrow> w < 65536 \<and> h < 65536"
| "aspect_ok _ \<longleftrightarrow> True"

fun aspect_of :: "sample_aspect option \<Rightarrow> int \<times> int" where
  "aspect_of (Some (Sar_fixed n)) = (case table_E_1 n of None \<Rightarrow> (0, 0) | Some ratio \<Rightarrow> ratio)"
| "aspect_of (Some (Sar_extended w h)) = (int w, int h)"
| "aspect_of _ = (0, 0)"

fun crop_ok :: "(nat \<times> nat \<times> nat \<times> nat) option \<Rightarrow> bool" where
  "crop_ok None \<longleftrightarrow> True"
| "crop_ok (Some (l, r, t, b)) \<longleftrightarrow> ue_ok l \<and> ue_ok r \<and> ue_ok t \<and> ue_ok b"

definition list_ok :: "nat \<Rightarrow> int list option \<Rightarrow> bool" where
  "list_ok i l \<longleftrightarrow> (case l of None \<Rightarrow> True | Some ds \<Rightarrow> deltas_ok (if i < 6 then 16 else 64) 8 ds)"

definition matrix_ok :: "nat \<Rightarrow> int list option list option \<Rightarrow> bool" where
  "matrix_ok chroma_format m \<longleftrightarrow> (case m of None \<Rightarrow> True
     | Some ls \<Rightarrow> list_all2 list_ok [0..<scaling_lists chroma_format] ls)"

definition chroma_ok :: "chroma_info \<Rightarrow> bool" where
  "chroma_ok c \<longleftrightarrow> ci_format c \<le> 3 \<and> ue_ok (ci_depth_luma c) \<and> ue_ok (ci_depth_chroma c) \<and> matrix_ok (ci_format c) (ci_matrix c)"

lemma parses_ue: "ue_ok k \<Longrightarrow> parses parseUE (ue_bits k) (word_of_nat k)"
  using parseUE_bits by simp

lemma parses_se: "se_ok v \<Longrightarrow> parses parseSE (ue_bits (se_code v)) v"
  using parseSE_bits by simp

lemma parses_se_skipped: "se_ok v \<Longrightarrow> parses parseUE (ue_bits (se_code v)) (word_of_nat (se_code v))"
  using signedCode_se_code(2) [of v] by (intro parses_ue) simp

lemma parses_nat: "n < 2 ^ w \<Longrightarrow> w < 32 \<Longrightarrow> parses (getBits fillReservoir w) (nat_bits w n) (word_of_nat n)"
  using parses_bits [of "nat_bits w n" w] bits_val_nat_bits [of n w] by simp

lemma skips_bind: "parses p xs v \<Longrightarrow> skips (k v) ys \<Longrightarrow> skips (\<lambda>r. Option.bind (p r) (case_prod k)) (xs @ ys)"
  unfolding parses_def skips_def append_assoc by fastforce

lemma parses_bind: "parses p xs v \<Longrightarrow> parses (k v) ys u \<Longrightarrow> parses (\<lambda>r. Option.bind (p r) (case_prod k)) (xs @ ys) u"
  unfolding parses_def skips_def append_assoc by fastforce

lemma parses_after: "skips p xs \<Longrightarrow> parses k ys u \<Longrightarrow> parses (\<lambda>r. Option.bind (p r) k) (xs @ ys) u"
  unfolding parses_def skips_def append_assoc by fastforce

lemma skips_after: "skips p xs \<Longrightarrow> skips k ys \<Longrightarrow> skips (\<lambda>r. Option.bind (p r) k) (xs @ ys)"
  unfolding parses_def skips_def append_assoc by fastforce

lemma skipUEs_bits: "list_all se_ok ds \<Longrightarrow> skips (skipUEs (length ds)) (concat (map (\<lambda>d. ue_bits (se_code d)) ds))"
proof (induction ds)
  case Nil
  then show ?case using skips_return by (simp add: skips_def)
next
  case (Cons d ds)
  then have "skips (skipUEs (length ds)) (concat (map (\<lambda>d. ue_bits (se_code d)) ds))" "se_ok d" by auto
  from skips_bind [OF parses_se_skipped [OF this(2)], where k = "\<lambda>_. skipUEs (length ds)", OF this(1)]
  show ?case by (simp add: skips_def case_prod_beta')
qed

lemma scalingLoop_zero: "scalingLoop n scale 0 r = Some r"
  by (induction n) auto

lemma scalingLoop_bits:
  "scale \<noteq> 0 \<Longrightarrow> deltas_ok n scale ds \<Longrightarrow> skips (scalingLoop n scale scale) (concat (map (\<lambda>d. ue_bits (se_code d)) ds))"
proof (induction n scale ds rule: deltas_ok.induct)
  case (1 scale ds)
  then show ?case by (simp add: skips_def)
next
  case (3 n scale d ds)
  let ?next = "(scale + d) mod 256"
  have d: "- 128 \<le> d" "d \<le> 127" using 3(3) by auto
  have next_eq: "(scale + (max (- 128) (min 127 d) + 256)) mod 256 = ?next"
  proof -
    have "scale + (max (- 128) (min 127 d) + 256) = (scale + d) + 256" using d by (simp add: max_def min_def)
    then show ?thesis by (simp only: mod_add_self2)
  qed
  have "skips (scalingLoop n (if ?next = 0 then scale else ?next) ?next) (concat (map (\<lambda>d. ue_bits (se_code d)) ds))"
  proof (cases "?next = 0")
    case True
    then show ?thesis using 3(3) by (simp add: skips_def scalingLoop_zero)
  qed (use 3 in simp)
  from skips_bind [OF parses_se, where k = "\<lambda>d. scalingLoop n (if ?next = 0 then scale else ?next) ?next", OF _ this, of d]
  have s: "skips (\<lambda>r. parseSE r \<bind> (\<lambda>(_, r). scalingLoop n (if ?next = 0 then scale else ?next) ?next r))
      (ue_bits (se_code d) @ concat (map (\<lambda>d. ue_bits (se_code d)) ds))" using d by simp
  show ?case unfolding skips_def
  proof (intro allI impI)
    fix r bs assume "reads r (concat (map (\<lambda>d. ue_bits (se_code d)) (d # ds)) @ bs)"
    then have r: "reads r ((ue_bits (se_code d) @ concat (map (\<lambda>d. ue_bits (se_code d)) ds)) @ bs)" by simp
    obtain r1 where r1: "parseSE r = Some (d, r1)" using parsesD [OF parses_se, of d r] r d by auto
    show "\<exists>r'. scalingLoop (Suc n) scale scale r = Some r' \<and> reads r' bs"
      using skipsD [OF s r] r1 3(2) by (simp add: next_eq)
  qed
qed simp

lemma skips_if: "(c \<Longrightarrow> skips p xs) \<Longrightarrow> (\<not> c \<Longrightarrow> skips q xs) \<Longrightarrow> skips (\<lambda>r. if c then p r else q r) xs"
  by (cases c) auto

lemma skipScalingList_bits: "deltas_ok n 8 ds \<Longrightarrow> skips (skipScalingList n) (concat (map (\<lambda>d. ue_bits (se_code d)) ds))"
  using scalingLoop_bits [of 8 n ds] by (simp add: skipScalingList_def [abs_def])

lemma list_bits_simps: "list_bits None = [False]" "list_bits (Some ds) = [True] @ concat (map (\<lambda>d. ue_bits (se_code d)) ds)"
  by (simp_all add: list_bits_def)

lemma scalingMatrix_bits: "list_all2 list_ok is ls \<Longrightarrow> skips (scalingMatrix is) (concat (map list_bits ls))"
proof (induction "is" ls rule: list_all2_induct)
  case Nil
  then show ?case by (simp add: skips_def)
next
  case (Cons i "is" l ls)
  show ?case
  proof (cases l)
    case None
    have "skips (scalingMatrix (i # is)) ([False] @ [] @ concat (map list_bits ls))"
      unfolding scalingMatrix.simps
      by (rule skips_bind [OF parses_flag], rule skips_after [OF _ Cons(3)]) (simp add: skips_def)
    then show ?thesis using None by (simp add: list_bits_simps del: scalingMatrix.simps)
  next
    case (Some ds)
    then have "deltas_ok (if i < 6 then 16 else 64) 8 ds" using Cons(1) by (simp add: list_ok_def)
    from skipScalingList_bits [OF this]
    have "skips (scalingMatrix (i # is)) ([True] @ concat (map (\<lambda>d. ue_bits (se_code d)) ds) @ concat (map list_bits ls))"
      unfolding scalingMatrix.simps
      by (intro skips_bind [OF parses_flag] skips_after [OF _ Cons(3)]) simp
    then show ?thesis using Some by (simp add: list_bits_simps del: scalingMatrix.simps)
  qed
qed

lemma matrix_parse:
  assumes "matrix_ok 1 m"
  shows "parses (\<lambda>r. getBits fillReservoir 1 r \<bind> (\<lambda>(present, r).
            (if present \<noteq> 0 then scalingMatrix [0..<8] r else Some r) \<bind> (\<lambda>r. Some (v, r)))) (matrix_bits m) v"
proof (cases m)
  case None
  have "parses (\<lambda>r. getBits fillReservoir 1 r \<bind> (\<lambda>(present, r).
            (if present \<noteq> 0 then scalingMatrix [0..<8] r else Some r) \<bind> (\<lambda>r. Some (v, r)))) ([False] @ [] @ []) v"
    by (rule parses_bind [OF parses_flag], rule parses_after [OF _ parses_return]) (simp add: skips_def)
  then show ?thesis using None by (simp add: matrix_bits_def)
next
  case (Some ls)
  have "parses (\<lambda>r. getBits fillReservoir 1 r \<bind> (\<lambda>(present, r).
            (if present \<noteq> 0 then scalingMatrix [0..<8] r else Some r) \<bind> (\<lambda>r. Some (v, r))))
          ([True] @ concat (map list_bits ls) @ []) v"
    using assms Some scalingMatrix_bits [of "[0..<8]" ls]
    by (intro parses_bind [OF parses_flag] parses_after [OF _ parses_return]) (simp add: matrix_ok_def scaling_lists_def)
  then show ?thesis using Some by (simp add: matrix_bits_def)
qed

lemma unat_word_of_nat: "m < 4294967296 \<Longrightarrow> unat (word_of_nat m :: u32) = m"
  by (simp add: unat_of_nat)

lemma u32_of_nat_eq_iff: "m < 4294967296 \<Longrightarrow> n < 4294967296 \<Longrightarrow> (word_of_nat m :: u32) = word_of_nat n \<longleftrightarrow> m = n"
  by (metis unat_word_of_nat)

lemma chromaFormat_bits:
  assumes "chroma_ok c" "highProfile p" "ci_format c = 3 \<longrightarrow> ci_matrix c = None"
  shows "parses (chromaFormat p) (chroma_bits c) (word_of_nat (ci_format c))"
proof -
  have f: "word_of_nat (ci_format c) = (3 :: u32) \<longleftrightarrow> ci_format c = 3"
    using u32_of_nat_eq_iff [of "ci_format c" 3] assms(1) by (simp add: chroma_ok_def)
  have ok: "ue_ok (ci_format c)" "ue_ok (ci_depth_luma c)" "ue_ok (ci_depth_chroma c)" "matrix_ok 1 (ci_matrix c)"
    using assms(1,3) by (auto simp: chroma_ok_def matrix_ok_def scaling_lists_def split: option.splits if_splits)
  have "parses (\<lambda>r. if word_of_nat (ci_format c) = (3 :: u32) then skipBits fillReservoir 1 r else Some (True, r))
          (if ci_format c = 3 then [ci_separate c] else []) True"
    by (rule parses_if) (simp_all add: f parses_skip parses_return)
  then show ?thesis
    unfolding chromaFormat_def chroma_bits_def using assms(2)
    by (simp only: if_True)
      (intro parses_bind [OF parses_ue [OF ok(1)]] parses_bind [OF parses_ue [OF ok(2)]] parses_bind [OF parses_ue [OF ok(3)]]
        parses_bind [OF parses_skip] matrix_parse [OF ok(4)] parses_bind; simp)
qed

lemmas run_simps = of_bool_eq zero_neq_one one_neq_zero simp_thms if_True if_False

lemma picOrderCount_bits:
  assumes "order_ok q"
  shows "skips (\<lambda>r. parseUE r \<bind> (\<lambda>(t, r). picOrderCount t r)) (order_bits q)"
proof (cases q)
  case (Poc_lsb n)
  have "skips (picOrderCount 0) (ue_bits n @ [])"
    unfolding picOrderCount_def
    by (simp only: run_simps, rule skips_bind [OF parses_ue]) (use assms Poc_lsb in \<open>simp_all add: skips_def\<close>)
  then show ?thesis using skips_bind [OF parses_ue [of 0], where k = picOrderCount] Poc_lsb by simp
next
  case (Poc_cycle z a b ds)
  then have ok: "se_ok a" "se_ok b" "ue_ok (length ds)" "list_all se_ok ds" using assms by auto
  have "skips (picOrderCount 1) ([z] @ ue_bits (se_code a) @ ue_bits (se_code b) @ ue_bits (length ds)
      @ concat (map (\<lambda>d. ue_bits (se_code d)) ds))"
    unfolding picOrderCount_def using skipUEs_bits [OF ok(4)] ok(3)
    by (simp only: run_simps)
      (intro skips_bind [OF parses_flag] skips_bind [OF parses_se_skipped [OF ok(1)]] skips_bind [OF parses_se_skipped [OF ok(2)]]
        skips_bind [OF parses_ue [OF ok(3)]]; simp add: unat_word_of_nat)
  then show ?thesis using skips_bind [OF parses_ue [of 1], where k = picOrderCount] Poc_cycle by simp
next
  case (Poc_none n)
  then have n: "1 < n" "ue_ok n" using assms by auto
  have "word_of_nat n \<noteq> (0 :: u32)" "word_of_nat n \<noteq> (1 :: u32)"
    using u32_of_nat_eq_iff [of n 0] u32_of_nat_eq_iff [of n 1] n by auto
  then have "skips (picOrderCount (word_of_nat n)) []" by (simp add: picOrderCount_def skips_def)
  then show ?thesis using skips_bind [OF parses_ue [OF n(2)], where k = picOrderCount and ys = "[]"] Poc_none by simp
qed

lemma fixed_ratios: "(if n < length kFixedSARs then kFixedSARs ! n else (0, 0)) = (case table_E_1 n of None \<Rightarrow> (0, 0) | Some ratio \<Rightarrow> ratio)"
proof (cases "n < 17")
  case True
  then have "n \<in> set [0..<17]" by simp
  moreover have "list_all (\<lambda>n. kFixedSARs ! n = (case table_E_1 n of None \<Rightarrow> (0, 0) | Some ratio \<Rightarrow> ratio)) [0..<17]" by code_simp
  moreover have "length kFixedSARs = 17" by (simp add: kFixedSARs_def)
  ultimately show ?thesis using True by (simp only: list_all_iff if_True)
next
  case False
  then show ?thesis by (simp add: kFixedSARs_def table_E_1_def)
qed

lemma aspectRatio_bits:
  assumes "aspect_ok a"
  shows "parses aspectRatio (aspect_bits a) (aspect_of a)"
proof -
  have kfixed: "length kFixedSARs = 17" "kFixedSARs ! 0 = (0, 0)" by (simp_all add: kFixedSARs_def)
  have fixed: "(if 0 < n \<and> n < length kFixedSARs then kFixedSARs ! n else (0, 0)) = aspect_of (Some (Sar_fixed n))" for n
    using fixed_ratios [of n] kfixed by (cases "n = 0") simp_all
  show ?thesis
  proof (cases a)
    case None
    have "parses aspectRatio ([False] @ []) (0, 0)"
      unfolding aspectRatio_def by (rule parses_bind [OF parses_flag]) (simp add: parses_return)
    then show ?thesis using None by simp
  next
    case (Some v)
    show ?thesis
    proof (cases v)
      case Sar_none
      have "parses aspectRatio ([True] @ [False] @ []) (0, 0)"
        unfolding aspectRatio_def
        by (rule parses_bind [OF parses_flag], simp only: run_simps, rule parses_bind [OF parses_flag]) (simp add: parses_return)
      then show ?thesis using Some Sar_none by simp
    next
      case (Sar_fixed n)
      then have n: "n < 255" using assms Some by simp
      have w: "word_of_nat n \<noteq> (255 :: u32)" "unat (word_of_nat n :: u32) = n"
        using u32_of_nat_eq_iff [of n 255] n by (auto simp: unat_word_of_nat)
      have "parses aspectRatio ([True] @ [True] @ nat_bits 8 n @ []) (aspect_of a)"
        unfolding aspectRatio_def
        by (rule parses_bind [OF parses_flag], simp only: run_simps, rule parses_bind [OF parses_flag], simp only: run_simps,
            rule parses_bind [OF parses_nat [of n 8]])
          (use n w fixed [of n] Some Sar_fixed in \<open>auto simp: parses_def simp del: aspect_of.simps split: if_splits\<close>)
      then show ?thesis using Some Sar_fixed by simp
    next
      case (Sar_extended x y)
      then have n: "x < 65536" "y < 65536" using assms Some by simp_all
      have "parses aspectRatio ([True] @ [True] @ nat_bits 8 255 @ nat_bits 16 x @ nat_bits 16 y @ []) (aspect_of a)"
        unfolding aspectRatio_def
        by (rule parses_bind [OF parses_flag], simp only: run_simps, rule parses_bind [OF parses_flag], simp only: run_simps,
            rule parses_bind [OF parses_nat [of 255 8]], simp, simp, simp only: of_nat_numeral run_simps,
            rule parses_bind [OF parses_nat [of x 16]], simp add: n, simp,
            rule parses_bind [OF parses_nat [of y 16]], simp add: n, simp)
          (use n Some Sar_extended in \<open>simp add: parses_return sint_word_of_nat\<close>)
      then show ?thesis using Some Sar_extended by simp
    qed
  qed
qed

text \<open>The dimensions that the syntax elements mean.\<close>

definition sps_chroma_format :: "sps \<Rightarrow> nat" where
  "sps_chroma_format s = (if has_chroma_info (sps_profile s) then ci_format (sps_chroma s) else 1)"

definition chroma_array_type :: "sps \<Rightarrow> nat" where
  "chroma_array_type s = (if sps_chroma_format s = 3 \<and> ci_separate (sps_chroma s) then 0 else sps_chroma_format s)"

text \<open>Table 6-1.\<close>

definition sub_width_c :: "nat \<Rightarrow> int" where
  "sub_width_c chroma_format = (if chroma_format = 1 \<or> chroma_format = 2 then 2 else 1)"

definition sub_height_c :: "nat \<Rightarrow> int" where
  "sub_height_c chroma_format = (if chroma_format = 1 then 2 else 1)"

definition field_factor :: "sps \<Rightarrow> int" where
  "field_factor s = (if sps_frames_only s then 1 else 2)"

definition crop_unit_x :: "sps \<Rightarrow> int" where
  "crop_unit_x s = (if chroma_array_type s = 0 then 1 else sub_width_c (sps_chroma_format s))"

definition crop_unit_y :: "sps \<Rightarrow> int" where
  "crop_unit_y s = (if chroma_array_type s = 0 then 1 else sub_height_c (sps_chroma_format s)) * field_factor s"

definition sps_coded_width :: "sps \<Rightarrow> int" where
  "sps_coded_width s = 16 * (int (sps_width_mbs s) + 1)"

definition sps_coded_height :: "sps \<Rightarrow> int" where
  "sps_coded_height s = field_factor s * (16 * (int (sps_height_units s) + 1))"

definition sps_width :: "sps \<Rightarrow> int" where
  "sps_width s = sps_coded_width s - (case sps_crop s of None \<Rightarrow> 0 | Some (l, r, t, b) \<Rightarrow> crop_unit_x s * (int l + int r))"

definition sps_height :: "sps \<Rightarrow> int" where
  "sps_height s = sps_coded_height s - (case sps_crop s of None \<Rightarrow> 0 | Some (l, r, t, b) \<Rightarrow> crop_unit_y s * (int t + int b))"

definition sps_ok :: "sps \<Rightarrow> bool" where
  "sps_ok s \<longleftrightarrow> sps_profile s < 256 \<and> sps_levels s < 65536 \<and> ue_ok (sps_id s) \<and> chroma_ok (sps_chroma s) \<and> ue_ok (sps_frame_num s)
     \<and> order_ok (sps_order s) \<and> ue_ok (sps_ref_frames s) \<and> crop_ok (sps_crop s) \<and> aspect_ok (sps_vui s)
     \<and> sps_coded_width s < 2 ^ 31 \<and> sps_coded_height s < 2 ^ 31 \<and> 0 \<le> sps_width s \<and> 0 \<le> sps_height s"

lemma uint_word_of_nat: "m < 4294967296 \<Longrightarrow> uint (word_of_nat m :: u32) = int m"
  by (simp add: uint_nat unat_word_of_nat)

lemma pictureWidth_exact:
  assumes "16 * (int w + 1) < 2 ^ 31"
  shows "pictureWidth (word_of_nat w) = 16 * (int w + 1)"
proof -
  have "uint (word_of_nat w :: u32) = int w" using assms by (intro uint_word_of_nat) simp
  then show ?thesis using assms by (simp add: pictureWidth_def as_unsigned_def as_signed_def)
qed

lemma pictureHeight_exact:
  assumes "f * (16 * (int h + 1)) < 2 ^ 31" "f = (if b then 1 else 2)"
  shows "pictureHeight (word_of_nat h) (of_bool b) = f * (16 * (int h + 1))"
proof -
  have "uint (word_of_nat h :: u32) = int h" using assms by (intro uint_word_of_nat) (simp split: if_splits)
  moreover have "uint (2 - of_bool b :: u32) = f" using assms(2) by simp
  ultimately show ?thesis using assms by (simp add: pictureHeight_def as_unsigned_def as_signed_def split: if_splits)
qed

lemma cropBy_exact:
  assumes "0 \<le> extent - uint u * (int m + int n)" "extent < 2 ^ 31" "0 < uint u"
  shows "cropBy (word_of_nat m) (word_of_nat n) u extent = extent - uint u * (int m + int n)"
proof -
  have "1 * (int m + int n) \<le> uint u * (int m + int n)" using assms(3) by (intro mult_right_mono) auto
  then have "int m + int n < 2 ^ 31" using assms by simp
  then have "uint (word_of_nat m :: u32) = int m" "uint (word_of_nat n :: u32) = int n" by (simp_all add: uint_word_of_nat)
  moreover have e: "extent < 2147483648" using assms(2) by simp
  moreover have c: "0 \<le> uint u * (int m + int n)" by simp
  moreover have "extent - uint u * (int m + int n) < 2147483648" using e c by linarith
  ultimately show ?thesis using assms \<open>int m + int n < 2 ^ 31\<close>
    by (simp add: cropBy_def as_unsigned_def as_signed_def mult.commute)
qed

lemma cropUnits_exact:
  assumes "sps_chroma_format s \<le> 3"
  shows "cropUnits (word_of_nat (sps_chroma_format s)) (of_bool (sps_frames_only s)) = (word_of_int (crop_unit_x s), word_of_int (crop_unit_y s))"
proof -
  have "sps_chroma_format s \<in> {0, 1, 2, 3}" using assms by auto
  then show ?thesis by (auto simp: cropUnits_def crop_unit_x_def crop_unit_y_def field_factor_def chroma_array_type_def sub_width_c_def sub_height_c_def Let_def)
qed

lemma uint_crop_units: "uint (word_of_int (crop_unit_x s) :: u32) = crop_unit_x s" "uint (word_of_int (crop_unit_y s) :: u32) = crop_unit_y s"
  "0 < crop_unit_x s" "0 < crop_unit_y s"
  by (simp_all add: crop_unit_x_def crop_unit_y_def field_factor_def sub_width_c_def sub_height_c_def)

lemma gives_then:
  "gives p bs R \<Longrightarrow> (\<And>y. R y \<Longrightarrow> \<exists>z. k y = Some z \<and> Q z) \<Longrightarrow> gives (\<lambda>r. Option.bind (p r) k) bs Q"
  unfolding gives_def by fastforce

lemma frameCropping_bits:
  assumes "sps_ok s"
  shows "gives (frameCropping (word_of_nat (sps_chroma_format s)) (of_bool (sps_frames_only s)) (sps_coded_width s) (sps_coded_height s))
           (crop_bits (sps_crop s) @ bs) (\<lambda>(w, h, r). w = sps_width s \<and> h = sps_height s \<and> reads r bs)"
proof (cases "sps_crop s")
  case None
  have "gives (frameCropping (word_of_nat (sps_chroma_format s)) (of_bool (sps_frames_only s)) (sps_coded_width s) (sps_coded_height s))
      ([False] @ bs) (\<lambda>(w, h, r). w = sps_width s \<and> h = sps_height s \<and> reads r bs)"
    unfolding frameCropping_def
    by (rule gives_bind [OF parses_flag]) (simp add: gives_def sps_width_def sps_height_def None)
  then show ?thesis using None by simp
next
  case (Some c)
  obtain l r t b where c: "c = (l, r, t, b)" by (cases c)
  have ok: "ue_ok l" "ue_ok r" "ue_ok t" "ue_ok b" using assms Some c by (auto simp: sps_ok_def)
  have fmt: "sps_chroma_format s \<le> 3" using assms by (simp add: sps_ok_def chroma_ok_def sps_chroma_format_def)
  have w: "cropBy (word_of_nat l) (word_of_nat r) (word_of_int (crop_unit_x s)) (sps_coded_width s) = sps_width s"
    using cropBy_exact [of "sps_coded_width s" "word_of_int (crop_unit_x s)" l r] assms uint_crop_units [of s] Some c
    by (simp add: sps_ok_def sps_width_def)
  have h: "cropBy (word_of_nat t) (word_of_nat b) (word_of_int (crop_unit_y s)) (sps_coded_height s) = sps_height s"
    using cropBy_exact [of "sps_coded_height s" "word_of_int (crop_unit_y s)" t b] assms uint_crop_units [of s] Some c
    by (simp add: sps_ok_def sps_height_def)
  have "gives (frameCropping (word_of_nat (sps_chroma_format s)) (of_bool (sps_frames_only s)) (sps_coded_width s) (sps_coded_height s))
      ([True] @ ue_bits l @ ue_bits r @ ue_bits t @ ue_bits b @ bs) (\<lambda>(w, h, r). w = sps_width s \<and> h = sps_height s \<and> reads r bs)"
    unfolding frameCropping_def cropUnits_exact [OF fmt]
    by (rule gives_bind [OF parses_flag], simp only: run_simps, intro gives_bind [OF parses_ue] ok) (simp add: gives_def w h)
  then show ?thesis using Some c by simp
qed

lemma gives_order:
  assumes "order_ok q" "gives k bs Q"
  shows "gives (\<lambda>r. parseUE r \<bind> (\<lambda>(t, r). picOrderCount t r \<bind> k)) (order_bits q @ bs) Q"
proof -
  have "(\<lambda>r. parseUE r \<bind> (\<lambda>(t, r). picOrderCount t r \<bind> k)) = (\<lambda>r. (parseUE r \<bind> (\<lambda>(t, r). picOrderCount t r)) \<bind> k)"
    by (rule ext, rename_tac r, case_tac "parseUE r") auto
  then show ?thesis using gives_skip [OF picOrderCount_bits [OF assms(1)] assms(2)] by simp
qed

text \<open>
  Where the code agrees with the standard: its list of profiles ends before the multiview and depth profiles, and it reads 8 scaling lists also in
  the 4:4:4 format.
\<close>

definition sps_supported :: "sps \<Rightarrow> bool" where
  "sps_supported s \<longleftrightarrow> sps_profile s \<notin> {118, 128, 134, 135, 138, 139}
     \<and> (has_chroma_info (sps_profile s) \<and> ci_format (sps_chroma s) = 3 \<longrightarrow> ci_matrix (sps_chroma s) = None)"

lemma highProfile_iff:
  assumes "n < 256" "n \<notin> {118, 128, 134, 135, 138, 139}"
  shows "highProfile (word_of_nat n) \<longleftrightarrow> has_chroma_info n"
proof -
  have "(word_of_nat n :: u32) = numeral k \<longleftrightarrow> n = numeral k" if "(numeral k :: nat) < 256" for k
  proof -
    have "(numeral k :: nat) < 4294967296" using that by (rule less_trans) simp
    moreover have "n < 4294967296" using assms(1) by simp
    ultimately show ?thesis using u32_of_nat_eq_iff [of n "numeral k"] by (simp only: of_nat_numeral)
  qed
  then show ?thesis using assms(2) by (simp add: highProfile_def has_chroma_info_def)
qed

lemma FindAVCDimensions_bits:
  assumes ok: "sps_ok s" "sps_supported s" and seq: "seqParamSet \<noteq> []" "bytes_bits (tl seqParamSet) = sps_bits s @ rest"
  shows "FindAVCDimensions seqParamSet = Some \<lparr>avc_width = sps_width s, avc_height = sps_height s,
           avc_sarWidth = fst (aspect_of (sps_vui s)), avc_sarHeight = snd (aspect_of (sps_vui s))\<rparr>"
proof -
  note parts = ok(1) [unfolded sps_ok_def]
  have high: "highProfile (word_of_nat (sps_profile s)) \<longleftrightarrow> has_chroma_info (sps_profile s)"
    using highProfile_iff parts ok(2) by (simp add: sps_supported_def)
  have chroma: "parses (chromaFormat (word_of_nat (sps_profile s)))
      (if has_chroma_info (sps_profile s) then chroma_bits (sps_chroma s) else []) (word_of_nat (sps_chroma_format s))"
  proof (cases "has_chroma_info (sps_profile s)")
    case True
    then show ?thesis using chromaFormat_bits [of "sps_chroma s"] parts ok(2) high by (simp add: sps_chroma_format_def sps_supported_def)
  next
    case False
    then show ?thesis using high by (simp add: chromaFormat_def sps_chroma_format_def parses_def)
  qed
  have mbaff: "parses (\<lambda>r. if of_bool (sps_frames_only s) = (0 :: u32) then getBits fillReservoir 1 r else Some (0, r))
      (if sps_frames_only s then [] else [sps_adaptive s]) (if sps_frames_only s then 0 else of_bool (sps_adaptive s))"
    using parses_flag by (auto simp: parses_def)
  have dims: "pictureWidth (word_of_nat (sps_width_mbs s)) = sps_coded_width s"
      "pictureHeight (word_of_nat (sps_height_units s)) (of_bool (sps_frames_only s)) = sps_coded_height s"
    using parts pictureWidth_exact [of "sps_width_mbs s"]
      pictureHeight_exact [of "field_factor s" "sps_height_units s" "sps_frames_only s"]
    by (simp_all add: sps_coded_width_def sps_coded_height_def field_factor_def)
  have sizes: "ue_ok (sps_width_mbs s)" "ue_ok (sps_height_units s)"
    using parts by (auto simp: sps_coded_width_def sps_coded_height_def field_factor_def split: if_splits)
  have "gives readParamSet (sps_bits s @ rest) (\<lambda>d. d = \<lparr>avc_width = sps_width s, avc_height = sps_height s,
           avc_sarWidth = fst (aspect_of (sps_vui s)), avc_sarHeight = snd (aspect_of (sps_vui s))\<rparr>)"
    unfolding readParamSet_def sps_bits_def append_assoc
  proof (intro gives_bind [OF parses_nat] gives_bind [OF parses_skip] gives_bind [OF parses_ue] gives_bind [OF chroma]
      gives_order gives_bind [OF parses_flag] gives_bind [OF mbaff], goal_cases)
    case 11
    then show ?case unfolding dims
    proof (rule gives_then [OF frameCropping_bits [OF ok(1)]], clarify)
      fix r assume "reads r (aspect_bits (sps_vui s) @ rest)"
      then obtain r' where "aspectRatio r = Some (aspect_of (sps_vui s), r')" using parsesD [OF aspectRatio_bits] parts by blast
      then show "\<exists>d. aspectRatio r \<bind> (\<lambda>((sarWidth, sarHeight), br).
          Some \<lparr>avc_width = sps_width s, avc_height = sps_height s, avc_sarWidth = sarWidth, avc_sarHeight = sarHeight\<rparr>) = Some d
        \<and> d = \<lparr>avc_width = sps_width s, avc_height = sps_height s,
             avc_sarWidth = fst (aspect_of (sps_vui s)), avc_sarHeight = snd (aspect_of (sps_vui s))\<rparr>"
        by (cases "aspect_of (sps_vui s)") simp
    qed
  qed (use parts sizes in simp_all)
  then show ?thesis using reads_start [of "tl seqParamSet"] seq by (auto simp: FindAVCDimensions_def gives_def)
qed

section \<open>VOL headers\<close>

text \<open>The fields of a VOL header (ISO/IEC 14496-2, 6.2.3) that the code reads; the video object layer is rectangular.\<close>

type_synonym vbv_fields = "nat \<times> nat \<times> nat \<times> nat \<times> nat \<times> nat"

record vol_header =
  vol_random :: bool
  vol_type :: nat
  vol_layer_id :: "(nat \<times> nat) option"
  vol_aspect :: nat
  vol_par :: "nat \<times> nat"
  vol_control :: "(nat \<times> bool \<times> vbv_fields option) option"
  vol_resolution :: nat
  vol_fixed_rate :: "nat option"
  vol_width :: nat
  vol_height :: nat
  vol_interlaced :: bool

fun vbv_bits :: "vbv_fields option \<Rightarrow> bool list" where
  "vbv_bits None = [False]"
| "vbv_bits (Some (a, b, c, d, e, f)) =
     [True] @ nat_bits 15 a @ [True] @ nat_bits 15 b @ [True] @ nat_bits 15 c @ [True] @ nat_bits 3 d @ nat_bits 11 e @ [True]
     @ nat_bits 15 f @ [True]"

fun control_bits :: "(nat \<times> bool \<times> vbv_fields option) option \<Rightarrow> bool list" where
  "control_bits None = [False]"
| "control_bits (Some (n, delay, vbv)) = [True] @ nat_bits 2 n @ [delay] @ vbv_bits vbv"

definition vol_bits :: "vol_header \<Rightarrow> bool list" where
  "vol_bits v =
     [vol_random v] @ nat_bits 8 (vol_type v)
     @ (case vol_layer_id v of None \<Rightarrow> [False] | Some n \<Rightarrow> [True] @ nat_bits 4 (fst n) @ nat_bits 3 (snd n))
     @ nat_bits 4 (vol_aspect v) @ (if vol_aspect v = 15 then nat_bits 8 (fst (vol_par v)) @ nat_bits 8 (snd (vol_par v)) else [])
     @ control_bits (vol_control v) @ nat_bits 2 0 @ [True] @ nat_bits 16 (vol_resolution v) @ [True]
     @ (case vol_fixed_rate v of None \<Rightarrow> [False] | Some t \<Rightarrow> [True] @ nat_bits (countBits (vol_resolution v - 1)) t)
     @ [True] @ nat_bits 13 (vol_width v) @ [True] @ nat_bits 13 (vol_height v) @ [True] @ [vol_interlaced v]"

definition vol_ok :: "vol_header \<Rightarrow> bool" where
  "vol_ok v \<longleftrightarrow> vol_type v < 256 \<and> vol_type v \<noteq> 0x21 \<and> vol_aspect v < 16 \<and> 0 < vol_resolution v \<and> vol_resolution v < 65536
     \<and> vol_width v < 8192 \<and> vol_height v < 8192"

lemma skips_marker: "skips marker_bit [True]"
proof -
  have "skips marker_bit ([True] @ [])"
    unfolding marker_bit_def by (rule skips_bind [OF parses_flag]) (simp add: skips_def check_def)
  then show ?thesis by simp
qed

lemma skips_bits: "length xs = n \<Longrightarrow> n < 32 \<Longrightarrow> skips (\<lambda>r. skipBits fillReservoir n r \<bind> (\<lambda>(_, r). Some r)) xs"
  using skips_bind [OF parses_skip, where k = "\<lambda>_. Some" and ys = "[]"] skips_return by auto

lemma skips_then: "length xs = n \<Longrightarrow> n < 32 \<Longrightarrow> skips k ys \<Longrightarrow> skips (\<lambda>r. skipBits fillReservoir n r \<bind> (\<lambda>(_, r). k r)) (xs @ ys)"
  using skips_bind [OF parses_skip] .

lemma vbvParameters_bits:
  "skips (\<lambda>r. getBits fillReservoir 1 r \<bind> (\<lambda>(b, r). if b = 0 then Some r else vbvParameters r)) (vbv_bits p)"
proof (cases p)
  case None
  have "skips (\<lambda>r. getBits fillReservoir 1 r \<bind> (\<lambda>(b, r). if b = 0 then Some r else vbvParameters r)) ([False] @ [])"
    by (rule skips_bind [OF parses_flag]) (simp add: skips_def)
  then show ?thesis using None by simp
next
  case (Some q)
  obtain a b c d e f where q: "q = (a, b, c, d, e, f)" by (cases q)
  have "skips vbvParameters (nat_bits 15 a @ [True] @ nat_bits 15 b @ [True] @ nat_bits 15 c @ [True] @ nat_bits 3 d
      @ nat_bits 11 e @ [True] @ nat_bits 15 f @ [True])"
    unfolding vbvParameters_def by (intro skips_then skips_after [OF skips_marker] skips_marker; simp)
  then have "skips (\<lambda>r. getBits fillReservoir 1 r \<bind> (\<lambda>(b, r). if b = 0 then Some r else vbvParameters r)) (vbv_bits (Some q))"
    unfolding vbv_bits.simps q by (intro skips_bind [OF parses_flag]) simp
  then show ?thesis using Some by simp
qed

lemma volControl_bits: "skips volControl (control_bits c)"
proof (cases c)
  case None
  have "skips volControl ([False] @ [])"
    unfolding volControl_def by (rule skips_bind [OF parses_flag]) (simp add: skips_def)
  then show ?thesis using None by simp
next
  case (Some d)
  obtain n delay vbv where d: "d = (n, delay, vbv)" by (cases d)
  have "skips volControl ([True] @ nat_bits 2 n @ [delay] @ vbv_bits vbv)"
    unfolding volControl_def
    by (rule skips_bind [OF parses_flag], simp only: run_simps, intro skips_then vbvParameters_bits; simp)
  then show ?thesis using Some d by simp
qed

lemma countBits_less: "n < 2 ^ w \<Longrightarrow> countBits n \<le> w"
proof (cases "n = 0")
  case True
  then show ?thesis by (simp add: countBits.simps)
next
  case False
  assume "n < 2 ^ w"
  moreover have "2 ^ (countBits n - 1) \<le> n" "0 < countBits n" using countBits_bounds [of n] False by auto
  ultimately have "(2 :: nat) ^ (countBits n - 1) < 2 ^ w" by linarith
  then have "countBits n - 1 < w" by (rule power_less_imp_less_exp [rotated]) simp
  then show ?thesis by simp
qed

lemma gives_check: "c \<Longrightarrow> gives k bs Q \<Longrightarrow> gives (\<lambda>r. check c \<bind> (\<lambda>_. k r)) bs Q"
  by (simp add: check_def)

lemma gives_optional:
  assumes "\<And>x. q = Some x \<Longrightarrow> skips p (f x)" "gives k bs Q"
  shows "gives (\<lambda>r. getBits fillReservoir 1 r \<bind> (\<lambda>(b, r). (if b \<noteq> 0 then p r else Some r) \<bind> k))
           ((case q of None \<Rightarrow> [False] | Some x \<Rightarrow> [True] @ f x) @ bs) Q"
proof (cases q)
  case None
  then show ?thesis using gives_bind [OF parses_flag [of False], where k = "\<lambda>b r. (if b \<noteq> 0 then p r else Some r) \<bind> k"] assms(2) by simp
next
  case (Some x)
  have "gives (\<lambda>r. p r \<bind> k) (f x @ bs) Q" by (rule gives_skip [OF assms]) (rule Some)
  then show ?thesis
    using gives_bind [OF parses_flag [of True], where k = "\<lambda>b r. (if b \<noteq> 0 then p r else Some r) \<bind> k"] Some by simp
qed

lemma readVOLHeader_bits:
  assumes "vol_ok v"
  shows "gives readVOLHeader (vol_bits v @ rest) (\<lambda>d. d = (int (vol_width v), int (vol_height v)))"
proof -
  note ok = assms [unfolded vol_ok_def]
  have type: "word_of_nat (vol_type v) \<noteq> (0x21 :: u32)" using ok u32_of_nat_eq_iff [of "vol_type v" 33] by simp
  have aspect: "word_of_nat (vol_aspect v) = (0x0f :: u32) \<longleftrightarrow> vol_aspect v = 15" using ok u32_of_nat_eq_iff [of "vol_aspect v" 15] by simp
  have par: "skips (\<lambda>r. if word_of_nat (vol_aspect v) = (0x0f :: u32)
        then skipBits fillReservoir 8 r \<bind> (\<lambda>(_, r). skipBits fillReservoir 8 r \<bind> (\<lambda>(_, r). Some r)) else Some r)
      (if vol_aspect v = 15 then nat_bits 8 (fst (vol_par v)) @ nat_bits 8 (snd (vol_par v)) else [])"
    unfolding aspect by (rule skips_if, cases "vol_aspect v = 15") (simp_all add: skips_then skips_bits skips_return)
  have "(word_of_nat (vol_resolution v) - 1 :: u32) = word_of_nat (vol_resolution v - 1)" using ok by (simp add: of_nat_diff)
  moreover have "unat (word_of_nat (vol_resolution v - 1) :: u32) = vol_resolution v - 1" using ok by (intro unat_word_of_nat) linarith
  ultimately have res: "unat (word_of_nat (vol_resolution v) - 1 :: u32) = vol_resolution v - 1" by (simp only:)
  have pos: "(0 :: u32) < word_of_nat (vol_resolution v)" using ok by (simp add: unat_word_of_nat word_less_nat_alt)
  have "vol_resolution v - 1 < 2 ^ 16" using ok by simp linarith
  then have bits: "countBits (vol_resolution v - 1) < 32" using countBits_less [of "vol_resolution v - 1" 16] by linarith
  have rate: "skips (\<lambda>r. check (word_of_nat (vol_resolution v) > (0 :: u32)) \<bind>
        (\<lambda>_. skipBits fillReservoir (countBits (unat (word_of_nat (vol_resolution v) - 1 :: u32))) r \<bind> (\<lambda>(_, r). Some r)))
      (nat_bits (countBits (vol_resolution v - 1)) t)" for t
    using skips_bits [OF length_nat_bits bits] by (simp add: check_def res [simplified] pos)
  show ?thesis
    unfolding readVOLHeader_def vol_bits_def append_assoc
    by (intro gives_bind [OF parses_skip] gives_bind [OF parses_nat] gives_check gives_optional [OF rate] gives_optional
       gives_skip [OF par] gives_skip [OF volControl_bits] gives_skip [OF skips_marker])
      (use ok type in \<open>simp_all add: skips_then skips_bits gives_def sint_word_of_nat\<close>)
qed

section \<open>Codec specific data\<close>

text \<open>The two parameter sets of an AVC decoder configuration record (ISO/IEC 14496-15, 5.2.4.1) with one set of each kind.\<close>

definition unit_size :: "u8 list \<Rightarrow> nat" where
  "unit_size d = 256 * unat (d ! 0) + unat (d ! 1)"

definition csd_parts :: "u8 list \<Rightarrow> u8 list \<times> u8 list" where
  "csd_parts d =
     (let n = unit_size (drop 6 d); p = drop (8 + n) d in (take n (drop 8 d), take (unit_size (drop 1 p)) (drop 3 p)))"

lemma unit_size_bytes: "n < 65536 \<Longrightarrow> unit_size (sizeBytes n @ d) = n"
  by (simp add: unit_size_def sizeBytes_def unat_of_nat)

lemma length_sizeBytes [simp]: "length (sizeBytes n) = 2"
  by (simp add: sizeBytes_def)

lemma csd_parts_made:
  assumes "length hdr = 6" "length sps < 65536" "length pps < 65536"
  shows "csd_parts (hdr @ sizeBytes (length sps) @ sps @ [1] @ sizeBytes (length pps) @ pps) = (sps, pps)"
  using assms unit_size_bytes [of "length sps"] unit_size_bytes [of "length pps" pps]
  by (simp add: csd_parts_def Let_def)

lemma FindNAL_length: "FindNAL d t = Some (Some nal) \<Longrightarrow> length nal \<le> length d"
proof (induction d t rule: FindNAL.induct)
  case (1 d t)
  from 1(3) obtain s n rest where u: "getNextNALUnit d True = Some (Nal s n rest)"
    by (subst (asm) FindNAL.simps) (auto split: option.splits nal_result.splits)
  note shrinks = getNextNALUnit_shrinks [OF u]
  show ?case
  proof (cases "n > 0")
    case False
    then have "FindNAL rest t = Some (Some nal)" using 1(3) u by (subst (asm) FindNAL.simps) simp
    from 1(2) [OF u refl False this] show ?thesis using shrinks by simp
  next
    case True
    then obtain b where b: "byte_at d s = Some b" using 1(3) u by (subst (asm) FindNAL.simps) (auto split: option.splits)
    show ?thesis
    proof (cases "b AND 0x1f = t")
      case eq: True
      then show ?thesis using 1(3) u b True by (subst (asm) FindNAL.simps) auto
    next
      case ne: False
      then have "FindNAL rest t = Some (Some nal)" using 1(3) u b True by (subst (asm) FindNAL.simps) simp
      from 1(1) [OF u refl True b ne this] show ?thesis using shrinks by simp
    qed
  qed
qed

lemma length_bytes_bits: "length (bytes_bits B) = 8 * length B"
  by (induction B) simp_all

section \<open>Bounds\<close>

definition dimension_ok :: "int \<Rightarrow> bool" where
  "dimension_ok x \<longleftrightarrow> 0 \<le> x \<and> x < 2 ^ 31"

lemma pictureWidth_ok: "dimension_ok (pictureWidth w)"
  by (auto simp: pictureWidth_def dimension_ok_def as_unsigned_def as_signed_def split: option.splits if_splits)

lemma pictureHeight_ok: "dimension_ok (pictureHeight h f)"
  by (auto simp: pictureHeight_def dimension_ok_def as_unsigned_def as_signed_def split: option.splits if_splits)

lemma cropBy_ok: "dimension_ok (cropBy m n u e)"
  by (auto simp: cropBy_def dimension_ok_def as_unsigned_def as_signed_def split: option.splits if_splits)

lemma frameCropping_ok:
  "frameCropping c f w h r = Some (w', h', r') \<Longrightarrow> dimension_ok w \<Longrightarrow> dimension_ok h \<Longrightarrow> dimension_ok w' \<and> dimension_ok h'"
  by (cases "cropUnits c f") (auto simp: frameCropping_def Option.bind_eq_Some_conv cropBy_ok split: if_splits)

lemma pred_bind: "(\<And>a. pred_option Q (f a)) \<Longrightarrow> pred_option Q (Option.bind x f)"
  by (cases x) auto

lemma pred_pair: "(\<And>a b. pred_option Q (f a b)) \<Longrightarrow> pred_option Q (case_prod f p)"
  by (cases p) auto

lemma pred_bind_if: "(\<And>a. x = Some a \<Longrightarrow> pred_option Q (f a)) \<Longrightarrow> pred_option Q (Option.bind x f)"
  by (cases x) auto

lemma readParamSet_ok: "pred_option (\<lambda>d. dimension_ok (avc_width d) \<and> dimension_ok (avc_height d)) (readParamSet r)"
proof -
  have crop: "pred_option (\<lambda>d. dimension_ok (avc_width d) \<and> dimension_ok (avc_height d))
      (frameCropping c f (pictureWidth w) (pictureHeight h f) r \<bind> (\<lambda>(width, height, br). aspectRatio br \<bind> (\<lambda>((sarWidth, sarHeight), br).
        Some \<lparr>avc_width = width, avc_height = height, avc_sarWidth = sarWidth, avc_sarHeight = sarHeight\<rparr>)))" for c f w h r
    by (rule pred_bind_if)
      (auto dest!: frameCropping_ok [OF _ pictureWidth_ok pictureHeight_ok] intro!: pred_bind)
  show ?thesis unfolding readParamSet_def by (intro crop pred_bind pred_pair)
qed

section \<open>Properties\<close>

text \<open>
  Exp-Golomb codes round-trip. On the bits of an unsigned value up to 2^32 - 2, followed by anything, \<open>parseUE\<close> returns the value
  and leaves what follows, and \<open>parseUEWithFallback\<close> does the same whatever its fallback is; on the bits of a signed value of 32 bits
  (but -2^31) \<open>parseSE\<close> does.
\<close>
theorem exp_golomb_roundtrip:
  assumes "k < 2 ^ 32 - 1" "- (2 ^ 31) < v" "v < 2 ^ 31" "reads r (ue_bits k @ bs)" "reads q (ue_bits (se_code v) @ bs)"
  shows "(\<exists>r'. parseUE r = Some (word_of_nat k, r') \<and> parseUEWithFallback fb r = Some (word_of_nat k, r') \<and> reads r' bs)
    \<and> (\<exists>q'. parseSE q = Some (v, q') \<and> reads q' bs)"
  using parsesD [OF parseUE_bits [OF assms(1)] assms(4)] parsesD [OF parseSE_bits [OF assms(2,3)] assms(5)] parseUEWithFallback_eq
  by blast

theorem exp_golomb_roundtrip_witness:
  "(\<exists>r'. parseUE (ABitReader [0x2F]) = Some (4, r')) \<and> (\<exists>q'. parseSE (ABitReader [0x2F]) = Some (- 2, q'))"
proof -
  have "bytes_bits [0x2F] = ue_bits 4 @ [True, True, True]" "bytes_bits [0x2F] = ue_bits (se_code (- 2)) @ [True, True, True]"
    by code_simp+
  note this [THEN reads_bytes]
  from exp_golomb_roundtrip [OF _ _ _ this] show ?thesis by fastforce
qed


definition example_sps :: sps where
  "example_sps = \<lparr>sps_profile = 66, sps_levels = 30, sps_id = 0,
     sps_chroma = \<lparr>ci_format = 1, ci_separate = False, ci_depth_luma = 0, ci_depth_chroma = 0, ci_bypass = False, ci_matrix = None\<rparr>,
     sps_frame_num = 0, sps_order = Poc_none 2, sps_ref_frames = 1, sps_gaps = False, sps_width_mbs = 4, sps_height_units = 3,
     sps_frames_only = True, sps_adaptive = False, sps_direct = True, sps_crop = Some (0, 1, 0, 2), sps_vui = Some (Sar_fixed 2)\<rparr>"


lemma example_sps_ok: "sps_ok example_sps"
  by (simp add: example_sps_def sps_ok_def chroma_ok_def matrix_ok_def sps_coded_width_def sps_coded_height_def field_factor_def
      sps_width_def sps_height_def crop_unit_x_def crop_unit_y_def sps_chroma_format_def has_chroma_info_def chroma_array_type_def
      sub_width_c_def sub_height_c_def)

lemma example_sps_supported: "sps_supported example_sps"
  by (simp add: example_sps_def sps_supported_def has_chroma_info_def)


text \<open>
  C34: Whatever the bytes of the parameter set, the dimensions \<open>FindAVCDimensions\<close> returns are non-negative integers of 31 bits: the overflow
  checks of the size and of the cropping leave nothing out.
\<close>
theorem avc_dimensions_bounds:
  assumes "FindAVCDimensions seqParamSet = Some d"
  shows "0 \<le> avc_width d \<and> avc_width d < 2 ^ 31 \<and> 0 \<le> avc_height d \<and> avc_height d < 2 ^ 31"
  using assms readParamSet_ok [of "ABitReader (tl seqParamSet)"]
  by (simp add: FindAVCDimensions_def dimension_ok_def split: if_splits)

theorem avc_dimensions_bounds_witness:
  "\<exists>d. FindAVCDimensions [0x67, 0x42, 0x00, 0x1E, 0xDA, 0x14, 0x9E, 0xAF, 0x02] = Some d \<and> 0 \<le> avc_width d \<and> avc_height d < 2 ^ 31"
proof -
  have "FindAVCDimensions [0x67, 0x42, 0x00, 0x1E, 0xDA, 0x14, 0x9E, 0xAF, 0x02]
      = Some \<lparr>avc_width = 78, avc_height = 60, avc_sarWidth = 12, avc_sarHeight = 11\<rparr>" by code_simp
  with avc_dimensions_bounds [OF this] show ?thesis by blast
qed


definition example_unit :: "u8 list" where
  "example_unit = [0, 0, 0, 1, 0x67, 0x42, 0x00, 0x1E, 0xDA, 0x14, 0x9E, 0xAF, 0x02, 0, 0, 0, 1, 0x68, 0xCE, 0x3C, 0x80]"


text \<open>
  Where the code leaves the standard. A 4:4:4 set with 12 absent scaling lists (80 by 64 luma samples): the code reads 8 of the 12 flags. And
  a Baseline set with the aspect ratio 256:1, whose two zero bytes are followed by a 1 and so by an inserted 3 in the NAL unit: the code reads the 3.
\<close>

definition sps_444 :: sps where
  "sps_444 = example_sps\<lparr>sps_profile := 44, sps_crop := None, sps_vui := None,
     sps_chroma := \<lparr>ci_format = 3, ci_separate = False, ci_depth_luma = 0, ci_depth_chroma = 0, ci_bypass = False,
       ci_matrix = Some (replicate 12 None)\<rparr>\<rparr>"

definition sps_wide :: sps where
  "sps_wide = example_sps\<lparr>sps_crop := None, sps_vui := Some (Sar_extended 256 1)\<rparr>"

lemma sps_444_ok: "sps_ok sps_444"
proof -
  have "matrix_ok 3 (Some (replicate 12 None))"
    by (simp add: matrix_ok_def scaling_lists_def list_ok_def list_all2_conv_all_nth)
  then show ?thesis
    by (simp add: sps_444_def example_sps_def sps_ok_def chroma_ok_def sps_coded_width_def sps_coded_height_def field_factor_def sps_width_def
      sps_height_def)
qed

theorem scaling_lists_444_misread:
  "sps_ok sps_444 \<and> bytes_bits [0x2C, 0x00, 0x1E, 0x91, 0xA0, 0x01, 0x68, 0x52, 0x64] = sps_bits sps_444 @ [True, False, False]
   \<and> sps_width sps_444 = 80
   \<and> map_option avc_width (FindAVCDimensions (0x67 # escape [0x2C, 0x00, 0x1E, 0x91, 0xA0, 0x01, 0x68, 0x52, 0x64])) \<noteq> Some 80"
proof (intro conjI)
  show "bytes_bits [0x2C, 0x00, 0x1E, 0x91, 0xA0, 0x01, 0x68, 0x52, 0x64] = sps_bits sps_444 @ [True, False, False]" by code_simp
  show "sps_width sps_444 = 80" by code_simp
  show "map_option avc_width (FindAVCDimensions (0x67 # escape [0x2C, 0x00, 0x1E, 0x91, 0xA0, 0x01, 0x68, 0x52, 0x64])) \<noteq> Some 80" by code_simp
qed (rule sps_444_ok)

theorem emulation_prevention_misread:
  "bytes_bits [0x42, 0x00, 0x1E, 0xDA, 0x14, 0x9B, 0xFF, 0x01, 0x00, 0x00, 0x01] = sps_bits sps_wide @ [] \<and> aspect_of (sps_vui sps_wide) = (256, 1)
   \<and> map_option (\<lambda>d. (avc_sarWidth d, avc_sarHeight d))
       (FindAVCDimensions (0x67 # escape [0x42, 0x00, 0x1E, 0xDA, 0x14, 0x9B, 0xFF, 0x01, 0x00, 0x00, 0x01])) = Some (256, 3)"
proof (intro conjI)
  have bits: "sps_bits sps_wide = butlast (sps_bits (example_sps\<lparr>sps_crop := None, sps_vui := None\<rparr>)) @ aspect_bits (Some (Sar_extended 256 1))"
    by (simp add: sps_bits_def sps_wide_def butlast_append)
  have nats: "nat_bits 8 255 = replicate 8 True" "nat_bits 16 256 = replicate 7 False @ [True] @ replicate 8 False" by code_simp+
  have one: "nat_bits 16 1 = replicate 15 False @ [True]" by (simp add: nat_bits_def upt_rec numeral_eq_Suc bit_Suc_0_iff)
  show "bytes_bits [0x42, 0x00, 0x1E, 0xDA, 0x14, 0x9B, 0xFF, 0x01, 0x00, 0x00, 0x01] = sps_bits sps_wide @ []"
    unfolding bits aspect_bits.simps nats one by code_simp
  show "aspect_of (sps_vui sps_wide) = (256, 1)" by (simp add: sps_wide_def)
  show "map_option (\<lambda>d. (avc_sarWidth d, avc_sarHeight d))
     (FindAVCDimensions (0x67 # escape [0x42, 0x00, 0x1E, 0xDA, 0x14, 0x9B, 0xFF, 0x01, 0x00, 0x00, 0x01])) = Some (256, 3)" by code_simp
qed

text \<open>
  \<open>ExtractDimensionsFromVOLHeader\<close> decodes a VOL header. On a start code of four bytes and the fields of a rectangular video object
  layer, with or without a layer identifier, an extended aspect ratio, control and buffer parameters and a fixed rate (whose width in
  bits depends on the resolution of the time increment), it returns the width and the height.
\<close>
theorem vol_dimensions_parsed:
  assumes "vol_ok v" "4 \<le> length d" "bytes_bits (drop 4 d) = vol_bits v @ rest"
  shows "ExtractDimensionsFromVOLHeader d = Some (int (vol_width v), int (vol_height v))"
  using readVOLHeader_bits [OF assms(1)] reads_bytes [OF assms(3)] assms(2)
  unfolding gives_def ExtractDimensionsFromVOLHeader_def by fastforce

definition example_vol :: vol_header where
  "example_vol = \<lparr>vol_random = False, vol_type = 1, vol_layer_id = None, vol_aspect = 1, vol_par = (0, 0), vol_control = None,
     vol_resolution = 30, vol_fixed_rate = Some 1, vol_width = 176, vol_height = 144, vol_interlaced = False\<rparr>"

theorem vol_dimensions_parsed_witness:
  "ExtractDimensionsFromVOLHeader [0, 0, 1, 0x20, 0x00, 0x84, 0x40, 0x07, 0xB0, 0xC1, 0x61, 0x04, 0x84] = Some (176, 144)"
proof -
  have "vol_ok example_vol" by (simp add: vol_ok_def example_vol_def)
  moreover have "bytes_bits (drop 4 [0, 0, 1, 0x20, 0x00, 0x84, 0x40, 0x07, 0xB0, 0xC1, 0x61, 0x04, 0x84]) = vol_bits example_vol @ [False]"
    by code_simp
  moreover have "vol_width example_vol = 176" "vol_height example_vol = 144" by (simp_all add: example_vol_def)
  ultimately show ?thesis
    using vol_dimensions_parsed [of example_vol "[0, 0, 1, 0x20, 0x00, 0x84, 0x40, 0x07, 0xB0, 0xC1, 0x61, 0x04, 0x84]" "[False]"] by simp
qed

end
