(* ===== verification/Media_Resource.thy ===== *)
theory Media_Resource
  imports Prelude
begin

text \<open>
  The data of the media resource manager and \<^verbatim>\<open>ResourceManagerServiceUtils.cpp\<close>: the amounts of
  resources a client holds, the records kept for each client, and the queries on them.

  A \<^verbatim>\<open>MediaResourceParcel\<close> carries its amount as an integer of 64 bits. The arithmetic on amounts is
  checked: outside the range of \<^verbatim>\<open>int64_t\<close> it is undefined. The lemmas show that the amounts on
  record stay in range, so the arithmetic is never undefined, and that a resource list is a map from
  resources to amounts with saturating addition.
\<close>

section \<open>Parcels\<close>

datatype res_type =
    kUnspecified | kSecureCodec | kNonSecureCodec | kGraphicMemory | kCpuBoost | kBattery | kDrmSession

datatype res_subtype =
    kUnspecifiedSubType | kHwAudioCodec | kSwAudioCodec | kHwVideoCodec | kSwVideoCodec
  | kHwImageCodec | kSwImageCodec

record media_resource =
  mr_type :: res_type
  mr_subType :: res_subtype
  mr_id :: "u8 list"
  mr_value :: int

record client_info_parcel =
  cp_pid :: int
  cp_uid :: int
  cp_id :: int
  cp_name :: string
  cp_importance :: int

definition int64_max :: int where
  "int64_max = 2 ^ 63 - 1"

definition in_int64 :: "int \<Rightarrow> bool" where
  "in_int64 x \<longleftrightarrow> - (2 ^ 63) \<le> x \<and> x \<le> int64_max"

definition int64 :: "int \<Rightarrow> int ub" where
  "int64 x = (if in_int64 x then Some x else None)"

section \<open>Resource lists\<close>

definition same_entry :: "media_resource \<Rightarrow> media_resource \<Rightarrow> bool" where
  "same_entry item res \<longleftrightarrow>
     mr_type item = mr_type res \<and> mr_subType item = mr_subType res \<and> mr_id item = mr_id res"

definition mergeResources :: "media_resource \<Rightarrow> media_resource \<Rightarrow> media_resource ub" where
  "mergeResources r1 r2 =
     (case int64 (int64_max - mr_value r1) of
        None \<Rightarrow> None
      | Some room \<Rightarrow>
          if mr_value r2 < room then
            (case int64 (mr_value r1 + mr_value r2) of
               None \<Rightarrow> None
             | Some v \<Rightarrow> Some (r1\<lparr>mr_value := if v < 0 then 0 else v\<rparr>))
          else Some (r1\<lparr>mr_value := int64_max\<rparr>))"

text \<open>The loop of \<open>add\<close>: the list with the entry merged, \<open>None\<close> inside when there is no entry.\<close>

fun mergeInto :: "media_resource \<Rightarrow> media_resource list \<Rightarrow> media_resource list option ub" where
  "mergeInto res [] = Some None"
| "mergeInto res (item # l) =
     (if same_entry item res then
        (case mergeResources item res of None \<Rightarrow> None | Some item' \<Rightarrow> Some (Some (item' # l)))
      else
        (case mergeInto res l of
           None \<Rightarrow> None
         | Some None \<Rightarrow> Some None
         | Some (Some l') \<Rightarrow> Some (Some (item # l'))))"

text \<open>The result, whether there is a new entry, and the list.\<close>

definition rl_add :: "media_resource \<Rightarrow> media_resource list \<Rightarrow> (bool \<times> bool \<times> media_resource list) ub" where
  "rl_add res l =
     (case mergeInto res l of
        None \<Rightarrow> None
      | Some (Some l') \<Rightarrow> Some (True, False, l')
      | Some None \<Rightarrow>
          if mr_value res \<le> 0 then Some (False, False, l) else Some (True, True, l @ [res]))"

fun rl_addOrUpdate :: "media_resource \<Rightarrow> media_resource list \<Rightarrow> media_resource list" where
  "rl_addOrUpdate res [] = [res]"
| "rl_addOrUpdate res (item # l) =
     (if same_entry item res then item\<lparr>mr_value := mr_value res\<rparr> # l else item # rl_addOrUpdate res l)"

text \<open>
  The result, the value of a removed entry or the \<open>- 1\<close> it was set to before the call, and the list. The value is passed in a
  \<^verbatim>\<open>long\<close>.
\<close>

fun rl_remove :: "data_model \<Rightarrow> media_resource \<Rightarrow> media_resource list \<Rightarrow> (bool \<times> int \<times> media_resource list) ub" where
  "rl_remove w res [] = Some (False, - 1, [])"
| "rl_remove w res (item # l) =
     (if same_entry item res then
        if mr_value item > mr_value res then
          (case int64 (mr_value item - mr_value res) of
             None \<Rightarrow> None
           | Some v \<Rightarrow> Some (True, - 1, item\<lparr>mr_value := v\<rparr> # l))
        else Some (True, to_long w (mr_value item), l)
      else
        (case rl_remove w res l of
           None \<Rightarrow> None
         | Some (ok, removed, l') \<Rightarrow> Some (ok, removed, item # l')))"

definition rl_equal :: "media_resource list \<Rightarrow> media_resource list \<Rightarrow> bool" where
  "rl_equal l rhs \<longleftrightarrow> length l = length rhs \<and> list_all (\<lambda>res. List.member l res) rhs"

lemma to_long_64: "in_int64 x \<Longrightarrow> to_long LP64 x = x"
  by (simp add: to_long_def in_int64_def int64_max_def)

lemma to_long_range: "in_int64 (to_long w x)"
  using to_long_in_long [of w x] by (cases w) (simp_all add: in_long_def in_int64_def int64_max_def)

subsection \<open>A resource list is a map with saturating addition\<close>

type_synonym res_key = "res_type \<times> res_subtype \<times> u8 list"

definition res_key :: "media_resource \<Rightarrow> res_key" where
  "res_key r = (mr_type r, mr_subType r, mr_id r)"

definition amounts :: "media_resource list \<Rightarrow> res_key \<rightharpoonup> int" where
  "amounts l = map_of (map (\<lambda>r. (res_key r, mr_value r)) l)"

definition rl_ok :: "media_resource list \<Rightarrow> bool" where
  "rl_ok l \<longleftrightarrow> distinct (map res_key l) \<and> (\<forall>r \<in> set l. 0 \<le> mr_value r \<and> mr_value r \<le> int64_max)"

definition saturate :: "int \<Rightarrow> int" where
  "saturate x = max 0 (min int64_max x)"

lemma same_entry_key: "same_entry a b \<longleftrightarrow> res_key a = res_key b"
  by (auto simp: same_entry_def res_key_def)

lemma res_key_value [simp]: "res_key (r\<lparr>mr_value := v\<rparr>) = res_key r"
  by (simp add: res_key_def)

lemma rl_ok_Nil [simp]: "rl_ok []"
  by (simp add: rl_ok_def)

lemma rl_ok_Cons:
  "rl_ok (r # l) \<longleftrightarrow> 0 \<le> mr_value r \<and> mr_value r \<le> int64_max \<and> res_key r \<notin> res_key ` set l \<and> rl_ok l"
  by (auto simp: rl_ok_def)

lemma rl_ok_append_one:
  "rl_ok (l @ [r]) \<longleftrightarrow> 0 \<le> mr_value r \<and> mr_value r \<le> int64_max \<and> res_key r \<notin> res_key ` set l \<and> rl_ok l"
  by (auto simp: rl_ok_def)

lemma saturate_range: "0 \<le> saturate x \<and> saturate x \<le> int64_max"
  by (simp add: saturate_def int64_max_def)

lemma mergeResources_saturates:
  assumes "0 \<le> mr_value r1" "mr_value r1 \<le> int64_max" "in_int64 (mr_value r2)"
  shows "mergeResources r1 r2 = Some (r1\<lparr>mr_value := saturate (mr_value r1 + mr_value r2)\<rparr>)"
  using assms
  by (auto simp: mergeResources_def int64_def in_int64_def int64_max_def saturate_def)

lemma amounts_Nil [simp]: "amounts [] = Map.empty"
  by (simp add: amounts_def)

lemma amounts_Cons [simp]: "amounts (r # l) = (amounts l)(res_key r \<mapsto> mr_value r)"
  by (simp add: amounts_def)

lemma amounts_None: "amounts l k = None \<longleftrightarrow> k \<notin> res_key ` set l"
  by (induction l) auto

lemma mergeInto_spec:
  assumes "rl_ok l" "in_int64 (mr_value res)"
  shows "case amounts l (res_key res) of
           None \<Rightarrow> mergeInto res l = Some None
         | Some v \<Rightarrow> \<exists>l'. mergeInto res l = Some (Some l') \<and> rl_ok l' \<and> map res_key l' = map res_key l
               \<and> amounts l' = (amounts l)(res_key res \<mapsto> saturate (v + mr_value res))"
  using assms(1)
proof (induction l)
  case (Cons item l)
  show ?case
  proof (cases "res_key item = res_key res")
    case True
    then show ?thesis
      using Cons.prems mergeResources_saturates [OF _ _ assms(2), of item] saturate_range
      by (simp add: same_entry_key rl_ok_Cons)
  next
    case False
    with Cons show ?thesis
      by (cases "amounts l (res_key res)")
        (auto simp: same_entry_key rl_ok_Cons fun_upd_twist image_set simp del: set_map)
  qed
qed simp

text \<open>What \<open>add\<close> and \<open>remove\<close> do to the amounts.\<close>

lemma amounts_snoc: "res_key r \<notin> res_key ` set l \<Longrightarrow> amounts (l @ [r]) = (amounts l)(res_key r \<mapsto> mr_value r)"
proof (induction l)
  case (Cons a l)
  then have "res_key r \<noteq> res_key a" "amounts (l @ [r]) = (amounts l)(res_key r \<mapsto> mr_value r)" by auto
  then show ?case by (simp only: append_Cons amounts_Cons fun_upd_twist [of "res_key r" "res_key a"] not_False_eq_True)
qed simp

lemma rl_add_spec:
  assumes "rl_ok l" "in_int64 (mr_value res)"
  shows "\<exists>ok new l'. rl_add res l = Some (ok, new, l') \<and> rl_ok l'
     \<and> (case amounts l (res_key res) of
          Some v \<Rightarrow> ok \<and> \<not> new \<and> map res_key l' = map res_key l
            \<and> amounts l' = (amounts l)(res_key res \<mapsto> saturate (v + mr_value res))
        | None \<Rightarrow> (ok \<longleftrightarrow> 0 < mr_value res) \<and> (new \<longleftrightarrow> ok)
            \<and> l' = (if ok then l @ [res] else l)
            \<and> amounts l' = (if ok then (amounts l)(res_key res \<mapsto> mr_value res) else amounts l))"
proof (cases "amounts l (res_key res)")
  case None
  then have "mergeInto res l = Some None" using mergeInto_spec [OF assms] by simp
  moreover have "res_key res \<notin> res_key ` set l" using None by (simp add: amounts_None)
  ultimately show ?thesis using None assms by (simp add: rl_add_def rl_ok_append_one amounts_snoc in_int64_def)
next
  case (Some v)
  with mergeInto_spec [OF assms] obtain l' where "mergeInto res l = Some (Some l')" "rl_ok l'"
    "map res_key l' = map res_key l" "amounts l' = (amounts l)(res_key res \<mapsto> saturate (v + mr_value res))" by auto
  then have "rl_add res l = Some (True, False, l')" by (simp add: rl_add_def)
  with Some \<open>rl_ok l'\<close> \<open>map res_key l' = _\<close> \<open>amounts l' = _\<close> show ?thesis
    by - (rule exI [of _ True], rule exI [of _ False], rule exI [of _ l'], simp)
qed

lemma rl_remove_spec:
  assumes "rl_ok l" "0 \<le> mr_value res"
  shows "\<exists>ok removed l'. rl_remove w res l = Some (ok, removed, l') \<and> rl_ok l'
     \<and> (ok \<longleftrightarrow> amounts l (res_key res) \<noteq> None)
     \<and> (case amounts l (res_key res) of
          None \<Rightarrow> removed = - 1 \<and> l' = l
        | Some v \<Rightarrow>
            if v > mr_value res then removed = - 1 \<and> map res_key l' = map res_key l
              \<and> amounts l' = (amounts l)(res_key res \<mapsto> v - mr_value res)
            else removed = to_long w v \<and> map res_key l' = remove1 (res_key res) (map res_key l)
              \<and> amounts l' = (amounts l)(res_key res := None))"
  using assms(1)
proof (induction l)
  case (Cons item l)
  show ?case
  proof (cases "res_key item = res_key res")
    case True
    moreover have "amounts l (res_key item) = None" using Cons.prems by (simp add: rl_ok_Cons amounts_None)
    ultimately show ?thesis
      using Cons.prems assms(2)
      by (auto simp: same_entry_key rl_ok_Cons int64_def in_int64_def int64_max_def fun_eq_iff)
  next
    case False
    have "rl_ok l" using Cons.prems by (simp add: rl_ok_Cons)
    with Cons.IH obtain ok removed l' where l': "rl_remove w res l = Some (ok, removed, l')" "rl_ok l'"
      "ok \<longleftrightarrow> amounts l (res_key res) \<noteq> None"
      "case amounts l (res_key res) of
          None \<Rightarrow> removed = - 1 \<and> l' = l
        | Some v \<Rightarrow>
            if v > mr_value res then removed = - 1 \<and> map res_key l' = map res_key l
              \<and> amounts l' = (amounts l)(res_key res \<mapsto> v - mr_value res)
            else removed = to_long w v \<and> map res_key l' = remove1 (res_key res) (map res_key l)
              \<and> amounts l' = (amounts l)(res_key res := None)"
      by blast
    have sub: "res_key ` set l' \<subseteq> res_key ` set l"
    proof -
      have "dom (amounts l') \<subseteq> dom (amounts l)"
        using l'(4) by (auto split: option.splits if_splits)
      moreover have "dom (amounts x) = res_key ` set x" for x by (auto simp: dom_def amounts_None)
      ultimately show ?thesis by simp
    qed
    with l' False Cons.prems show ?thesis
      by (auto simp: same_entry_key rl_ok_Cons fun_eq_iff split: option.splits if_splits)
  qed
qed (simp, blast)

section \<open>Records of the clients\<close>

text \<open>
  A client is the number of its binder object, \<open>None\<close> is null. The death notifier holds the parcel it was made with.
\<close>

type_synonym client = nat

record resource_info =
  ri_pid :: int
  ri_uid :: uid
  ri_clientId :: int
  ri_name :: string
  ri_client :: "client option"
  ri_deathNotifier :: "client_info_parcel option"
  ri_resources :: "media_resource list"
  ri_pendingRemoval :: bool
  ri_importance :: u32

type_synonym resource_infos = "(int, resource_info) smap"
type_synonym pid_map = "(int, resource_infos) smap"

record client_info =
  mPid :: int
  mUid :: uid
  mClientId :: int

definition hasResourceType :: "res_type \<Rightarrow> res_subtype \<Rightarrow> media_resource \<Rightarrow> bool" where
  "hasResourceType type subType resource \<longleftrightarrow>
     (if type \<noteq> mr_type resource then False
      else case type of
        kSecureCodec \<Rightarrow> mr_subType resource = subType
      | kNonSecureCodec \<Rightarrow> mr_subType resource = subType
      | _ \<Rightarrow> True)"

definition listHasResourceType :: "res_type \<Rightarrow> res_subtype \<Rightarrow> media_resource list \<Rightarrow> bool" where
  "listHasResourceType type subType resources \<longleftrightarrow> list_ex (hasResourceType type subType) resources"

definition infosHaveResourceType :: "res_type \<Rightarrow> res_subtype \<Rightarrow> resource_infos \<Rightarrow> bool" where
  "infosHaveResourceType type subType infos \<longleftrightarrow>
     list_ex (\<lambda>(id, info). listHasResourceType type subType (ri_resources info)) infos"

text \<open>A reference into a map is the value found, and the map with the entry made when there was none.\<close>

definition getResourceInfosForEdit :: "int \<Rightarrow> pid_map \<Rightarrow> resource_infos \<times> pid_map" where
  "getResourceInfosForEdit pid m =
     (case smap_find m pid of
        None \<Rightarrow> ([], smap_emplace pid [] m)
      | Some infos \<Rightarrow> (infos, m))"

definition getResourceInfoForEdit ::
    "client_info_parcel \<Rightarrow> client option \<Rightarrow> resource_infos \<Rightarrow> resource_info \<times> resource_infos" where
  "getResourceInfoForEdit clientInfo client infos =
     (case smap_find infos (cp_id clientInfo) of
        None \<Rightarrow>
          let info = \<lparr>ri_pid = cp_pid clientInfo, ri_uid = word_of_int (cp_uid clientInfo), ri_clientId = cp_id clientInfo,
                      ri_name = (if cp_name clientInfo = [] then ''<unknown client>'' else cp_name clientInfo),
                      ri_client = client, ri_deathNotifier = None, ri_resources = [], ri_pendingRemoval = False,
                      ri_importance = word_of_int (max 0 (cp_importance clientInfo))\<rparr>
          in (info, smap_emplace (cp_id clientInfo) info infos)
      | Some info \<Rightarrow> (info, infos))"

text \<open>Writing through the two references.\<close>

definition putInfo :: "int \<Rightarrow> int \<Rightarrow> resource_info \<Rightarrow> pid_map \<Rightarrow> pid_map" where
  "putInfo pid clientId info m =
     (case smap_find m pid of None \<Rightarrow> m | Some infos \<Rightarrow> smap_set pid (smap_set clientId info infos) m)"

end
