(* ===== verification/Process_Info.thy ===== *)
theory Process_Info
  imports Prelude
begin

text \<open>
  \<^verbatim>\<open>ProcessInfo.cpp\<close> of the media utilities, which the resource manager asks for the priority of a process and
  whether a caller may act for another process.

  What the platform answers during one call of a service is a record \<open>rm_env\<close>: who calls, which permissions
  the caller has, the scores and states the process info service reports (\<open>None\<close>: the query fails), and the time. The answers do not
  change within one call. \<open>dataModel\<close> is the width of \<^verbatim>\<open>long\<close> in the build: 32 bits in a mediaserver
  as its \<^verbatim>\<open>Android.bp\<close> prefers it, or 64.
\<close>

section \<open>The environment of a call\<close>

record rm_env =
  callingPid :: int
  callingUid :: int
  selfPid :: int
  aidMedia :: int
  permitted :: "string \<Rightarrow> bool"
  oomScoreOf :: "int \<Rightarrow> int option"
  procStateOf :: "(int \<Rightarrow> int) option"
  systemTimeUs :: int
  dataModel :: data_model
  activityManager :: bool
  linkedToDeath :: bool
  resourceMonitor :: bool

section \<open>\<^verbatim>\<open>ProcessInfo\<close>\<close>

record process_info =
  mOverrideMap :: "(int, int \<times> int) smap"

definition NATIVE_ADJ :: int where
  "NATIVE_ADJ = - 1000"

definition PROCESS_STATE_NONEXISTENT :: int where
  "PROCESS_STATE_NONEXISTENT = 20"

definition newProcessInfo :: process_info where
  "newProcessInfo = \<lparr>mOverrideMap = []\<rparr>"

text \<open>\<open>None\<close>: the query failed; otherwise whether each process exists.\<close>

definition checkProcessExistent :: "rm_env \<Rightarrow> process_info \<Rightarrow> int list \<Rightarrow> bool list option" where
  "checkProcessExistent e p pids =
     (case procStateOf e of
        None \<Rightarrow> None
      | Some states \<Rightarrow>
          Some (map (\<lambda>pid.
            let state = (if states pid = PROCESS_STATE_NONEXISTENT then
                           (case smap_find (mOverrideMap p) pid of
                              Some (procState, oomScore) \<Rightarrow> procState
                            | None \<Rightarrow> states pid)
                         else states pid)
            in state \<noteq> PROCESS_STATE_NONEXISTENT) pids))"

definition getPriority :: "rm_env \<Rightarrow> process_info \<Rightarrow> int \<Rightarrow> int option" where
  "getPriority e p pid =
     (case oomScoreOf e pid of
        None \<Rightarrow> None
      | Some score \<Rightarrow>
          if score \<le> NATIVE_ADJ then
            (case smap_find (mOverrideMap p) pid of
               Some (procState, oomScore) \<Rightarrow> Some oomScore
             | None \<Rightarrow> None)
          else Some score)"

definition isPidUidTrusted :: "rm_env \<Rightarrow> int \<Rightarrow> int \<Rightarrow> bool" where
  "isPidUidTrusted e pid uid \<longleftrightarrow>
     (if pid = callingPid e \<and> (uid = callingUid e \<or> uid = - 1) then True
      else if callingPid e = selfPid e then True
      else if callingUid e = aidMedia e then True
      else permitted e ''android.permission.MEDIA_RESOURCE_OVERRIDE_PID'')"

definition isPidTrusted :: "rm_env \<Rightarrow> int \<Rightarrow> bool" where
  "isPidTrusted e pid \<longleftrightarrow> isPidUidTrusted e pid (- 1)"

definition pi_overrideProcessInfo :: "int \<Rightarrow> int \<Rightarrow> int \<Rightarrow> process_info \<Rightarrow> bool \<times> process_info" where
  "pi_overrideProcessInfo pid procState oomScore p =
     (let p = p\<lparr>mOverrideMap := smap_erase pid (mOverrideMap p)\<rparr> in
      if oomScore \<le> NATIVE_ADJ then (False, p)
      else (True, p\<lparr>mOverrideMap := smap_emplace pid (procState, oomScore) (mOverrideMap p)\<rparr>))"

definition pi_removeProcessInfoOverride :: "int \<Rightarrow> process_info \<Rightarrow> process_info" where
  "pi_removeProcessInfoOverride pid p = p\<lparr>mOverrideMap := smap_erase pid (mOverrideMap p)\<rparr>"

text \<open>The scores on record are those of processes that are not native, so a priority is always above \<open>NATIVE_ADJ\<close>.\<close>

definition pi_ok :: "process_info \<Rightarrow> bool" where
  "pi_ok p \<longleftrightarrow> smap_ok (mOverrideMap p) \<and> (\<forall>pid st sc. smap_find (mOverrideMap p) pid = Some (st, sc) \<longrightarrow> NATIVE_ADJ < sc)"

lemma pi_ok_ops:
  "pi_ok newProcessInfo"
  "pi_ok p \<Longrightarrow> pi_ok (snd (pi_overrideProcessInfo pid st sc p))"
  "pi_ok p \<Longrightarrow> pi_ok (pi_removeProcessInfoOverride pid p)"
  by (auto simp: pi_ok_def newProcessInfo_def pi_overrideProcessInfo_def pi_removeProcessInfoOverride_def Let_def
      smap_simps smap_ok_erase smap_ok_emplace)

lemma getPriority_above_native: "pi_ok p \<Longrightarrow> getPriority e p pid = Some x \<Longrightarrow> NATIVE_ADJ < x"
  by (auto simp: getPriority_def pi_ok_def split: option.splits if_splits)

text \<open>A caller with no privilege is only trusted for its own process.\<close>

definition unprivileged :: "rm_env \<Rightarrow> bool" where
  "unprivileged e \<longleftrightarrow> callingPid e \<noteq> selfPid e \<and> callingUid e \<noteq> aidMedia e
     \<and> \<not> permitted e ''android.permission.MEDIA_RESOURCE_OVERRIDE_PID''"

lemma unprivileged_trust:
  "unprivileged e \<Longrightarrow> isPidTrusted e pid \<longleftrightarrow> pid = callingPid e"
  "unprivileged e \<Longrightarrow> isPidUidTrusted e pid uid \<Longrightarrow> pid = callingPid e"
  by (auto simp: unprivileged_def isPidTrusted_def isPidUidTrusted_def split: if_splits)

text \<open>An environment for evaluation: an application that calls for itself; the score of a process is its number.\<close>

definition sample_caller :: "int \<Rightarrow> rm_env" where
  "sample_caller pid =
     \<lparr>callingPid = pid, callingUid = 10000 + pid, selfPid = 1, aidMedia = 1013, permitted = (\<lambda>_. False),
      oomScoreOf = (\<lambda>p. Some p), procStateOf = Some (\<lambda>_. 0), systemTimeUs = 0, dataModel = LP64,
      activityManager = True, linkedToDeath = True, resourceMonitor = True\<rparr>"

end
