(* ===== verification/Resource_Observer.thy ===== *)
theory Resource_Observer
  imports Media_Resource Process_Info Device_Policies
begin

unbundle bit_operations_syntax

text \<open>
  \<^verbatim>\<open>ResourceObserverService.cpp\<close>: observers register for events on observable resources and are told when a
  client gets or releases them. The transcoding service is such an observer (\<open>Device_Policies\<close>).

  An observer is the number of its binder object. Registration takes two locks, one after the other; it is one step
  here. The theorem shows that each observer is told exactly about the resources its filters name.
\<close>

section \<open>Observable types in the order of their codes\<close>

fun observable_code :: "observable_type \<Rightarrow> int" where
  "observable_code kInvalid = 0"
| "observable_code kVideoSecureCodec = 1000"
| "observable_code kVideoNonSecureCodec = 1001"

lemma observable_code_inj: "observable_code a = observable_code b \<longleftrightarrow> a = b"
  by (cases a; cases b) simp_all

instantiation observable_type :: linorder
begin

definition less_eq_observable_type :: "observable_type \<Rightarrow> observable_type \<Rightarrow> bool" where
  "a \<le> b \<longleftrightarrow> observable_code a \<le> observable_code b"

definition less_observable_type :: "observable_type \<Rightarrow> observable_type \<Rightarrow> bool" where
  "a < b \<longleftrightarrow> observable_code a < observable_code b"

instance
  by standard (auto simp: less_eq_observable_type_def less_observable_type_def observable_code_inj [symmetric])

end

section \<open>State and operations\<close>

definition kBusy :: u64 where
  "kBusy = 1"

definition sEvents :: "u64 list" where
  "sEvents = [kBusy, kIdle]"

type_synonym observer = nat
type_synonym observable_filter = "observable_type \<times> u64"

record observer_info =
  oi_observer :: observer
  oi_filters :: "observable_filter list"

record observer_service =
  mObserverInfoMap :: "(observer, observer_info) smap"
  mObservableToSubscribersMap :: "(observable_filter, (observer, observer) smap) smap"
  sDeathRecipientMap :: "(observer, observer) smap"

datatype status = Ok | PERMISSION_DENIED | BAD_VALUE | ALREADY_EXISTS | NAME_NOT_FOUND

definition newObserverService :: observer_service where
  "newObserverService = \<lparr>mObserverInfoMap = [], mObservableToSubscribersMap = [], sDeathRecipientMap = []\<rparr>"

definition getObservableType :: "media_resource \<Rightarrow> observable_type" where
  "getObservableType res =
     (if mr_subType res = kHwVideoCodec \<or> mr_subType res = kSwVideoCodec then
        if mr_type res = kNonSecureCodec then kVideoNonSecureCodec
        else if mr_type res = kSecureCodec then kVideoSecureCodec
        else kInvalid
      else kInvalid)"

definition observerPermitted :: "rm_env \<Rightarrow> bool" where
  "observerPermitted e \<longleftrightarrow>
     selfPid e = callingPid e \<or> permitted e ''android.permission.REGISTER_MEDIA_RESOURCE_OBSERVER''"

text \<open>The keys the nested loops over filters and events visit.\<close>

definition filterKeys :: "observable_filter list \<Rightarrow> observable_filter list" where
  "filterKeys filters =
     concat (map (\<lambda>(type, eventFilter).
       map (\<lambda>event. (type, event)) (filter (\<lambda>event. eventFilter AND event \<noteq> 0) sEvents)) filters)"

definition subscribe ::
    "observer \<Rightarrow> observable_filter \<Rightarrow> (observable_filter, (observer, observer) smap) smap
       \<Rightarrow> (observable_filter, (observer, observer) smap) smap" where
  "subscribe b key m =
     (let (subs, m) = smap_index [] key m in smap_set key (smap_emplace b b subs) m)"

definition unsubscribe ::
    "observer \<Rightarrow> observable_filter \<Rightarrow> (observable_filter, (observer, observer) smap) smap
       \<Rightarrow> (observable_filter, (observer, observer) smap) smap" where
  "unsubscribe b key m =
     (let (subs, m) = smap_index [] key m;
          m = smap_set key (smap_erase b subs) m;
          (subs, m) = smap_index [] key m
      in if subs = [] then smap_erase key m else m)"

definition registerObserver ::
    "rm_env \<Rightarrow> observer option \<Rightarrow> observable_filter list \<Rightarrow> observer_service \<Rightarrow> status \<times> observer_service" where
  "registerObserver e in_observer in_filters s =
     (if \<not> observerPermitted e then (PERMISSION_DENIED, s)
      else case in_observer of
        None \<Rightarrow> (BAD_VALUE, s)
      | Some b \<Rightarrow>
          if smap_count (mObserverInfoMap s) b then (ALREADY_EXISTS, s)
          else if in_filters = [] then (BAD_VALUE, s)
          else
            (Ok, s\<lparr>mObserverInfoMap :=
                     smap_emplace b \<lparr>oi_observer = b, oi_filters = in_filters\<rparr> (mObserverInfoMap s),
                   mObservableToSubscribersMap :=
                     fold (subscribe b) (filterKeys in_filters) (mObservableToSubscribersMap s),
                   sDeathRecipientMap := smap_emplace b b (sDeathRecipientMap s)\<rparr>))"

definition unregisterObserver ::
    "rm_env \<Rightarrow> observer option \<Rightarrow> observer_service \<Rightarrow> status \<times> observer_service" where
  "unregisterObserver e in_observer s =
     (if \<not> observerPermitted e then (PERMISSION_DENIED, s)
      else case in_observer of
        None \<Rightarrow> (BAD_VALUE, s)
      | Some b \<Rightarrow>
          (case smap_find (mObserverInfoMap s) b of
             None \<Rightarrow> (NAME_NOT_FOUND, s)
           | Some info \<Rightarrow>
               (Ok, s\<lparr>mObservableToSubscribersMap :=
                        fold (unsubscribe b) (filterKeys (oi_filters info)) (mObservableToSubscribersMap s),
                      mObserverInfoMap := smap_erase b (mObserverInfoMap s),
                      sDeathRecipientMap := smap_erase b (sDeathRecipientMap s)\<rparr>)))"

definition os_BinderDiedCallback :: "rm_env \<Rightarrow> observer \<Rightarrow> observer_service \<Rightarrow> observer_service" where
  "os_BinderDiedCallback e cookie s =
     (case smap_find (sDeathRecipientMap s) cookie of
        None \<Rightarrow> s
      | Some b \<Rightarrow> snd (unregisterObserver e (Some b) s))"

text \<open>A call of an observer's \<open>onStatusChanged\<close>.\<close>

record status_change =
  sc_observer :: observer
  sc_event :: u64
  sc_uid :: int
  sc_pid :: int
  sc_monitors :: "(observable_type \<times> int) list"

type_synonym callee_list = "(observer, observer \<times> (observable_type \<times> int) list) smap"

definition addCallee :: "observable_type \<times> int \<Rightarrow> observer \<times> observer \<Rightarrow> callee_list \<Rightarrow> callee_list" where
  "addCallee monitor subscriber calleeList =
     (case smap_find calleeList (fst subscriber) of
        None \<Rightarrow> smap_emplace (fst subscriber) (snd subscriber, [monitor]) calleeList
      | Some (obs, monitors) \<Rightarrow> smap_set (fst subscriber) (obs, monitors @ [monitor]) calleeList)"

definition addCallees :: "observer_service \<Rightarrow> u64 \<Rightarrow> media_resource \<Rightarrow> callee_list \<Rightarrow> callee_list" where
  "addCallees s event res calleeList =
     (let observableType = getObservableType res in
      if observableType = kInvalid then calleeList
      else case smap_find (mObservableToSubscribersMap s) (observableType, event) of
        None \<Rightarrow> calleeList
      | Some subscribers \<Rightarrow> fold (addCallee (observableType, mr_value res)) subscribers calleeList)"

definition notifyObservers ::
    "u64 \<Rightarrow> int \<Rightarrow> int \<Rightarrow> media_resource list \<Rightarrow> observer_service \<Rightarrow> status_change list" where
  "notifyObservers event uid pid resources s =
     map (\<lambda>(b, obs, monitors).
            \<lparr>sc_observer = obs, sc_event = event, sc_uid = uid, sc_pid = pid, sc_monitors = monitors\<rparr>)
       (fold (addCallees s event) resources [])"

definition os_onResourceAdded :: "int \<Rightarrow> int \<Rightarrow> media_resource list \<Rightarrow> observer_service \<Rightarrow> status_change list" where
  "os_onResourceAdded uid pid resources s = notifyObservers kBusy uid pid resources s"

definition os_onResourceRemoved :: "int \<Rightarrow> int \<Rightarrow> media_resource list \<Rightarrow> observer_service \<Rightarrow> status_change list" where
  "os_onResourceRemoved uid pid resources s = notifyObservers kIdle uid pid resources s"

section \<open>The subscribers are those whose filters name the observable\<close>

definition subscribed :: "(observable_filter, (observer, observer) smap) smap \<Rightarrow> observable_filter \<Rightarrow> observer \<Rightarrow> bool" where
  "subscribed m key b \<longleftrightarrow> (case smap_find m key of None \<Rightarrow> False | Some subs \<Rightarrow> smap_find subs b \<noteq> None)"

definition subs_ok :: "(observable_filter, (observer, observer) smap) smap \<Rightarrow> bool" where
  "subs_ok m \<longleftrightarrow> smap_ok m \<and> (\<forall>key subs. smap_find m key = Some subs \<longrightarrow>
     subs \<noteq> [] \<and> smap_ok subs \<and> (\<forall>b c. smap_find subs b = Some c \<longrightarrow> c = b))"

definition obs_ok :: "observer_service \<Rightarrow> bool" where
  "obs_ok s \<longleftrightarrow> smap_ok (mObserverInfoMap s) \<and> subs_ok (mObservableToSubscribersMap s)
     \<and> (\<forall>key b. subscribed (mObservableToSubscribersMap s) key b \<longleftrightarrow>
          (\<exists>info. smap_find (mObserverInfoMap s) b = Some info \<and> key \<in> set (filterKeys (oi_filters info))))
     \<and> (\<forall>b. smap_find (sDeathRecipientMap s) b = (if smap_count (mObserverInfoMap s) b then Some b else None))"

lemma smap_not_Nil: "smap_find m k \<noteq> None \<Longrightarrow> m \<noteq> []"
  by auto

lemma subs_okD:
  "subs_ok m \<Longrightarrow> smap_find m key = Some subs \<Longrightarrow>
     subs \<noteq> [] \<and> smap_ok subs \<and> (\<forall>b c. smap_find subs b = Some c \<longrightarrow> c = b)"
  unfolding subs_ok_def by blast

lemma subs_okI:
  assumes "\<And>key subs. smap_find m key = Some subs \<Longrightarrow>
     subs \<noteq> [] \<and> smap_ok subs \<and> (\<forall>b c. smap_find subs b = Some c \<longrightarrow> c = b)" and "smap_ok m"
  shows "subs_ok m"
  unfolding subs_ok_def using assms by blast

lemma subs_index:
  assumes "subs_ok m" "smap_index [] key m = (subs, m1)"
  shows "smap_ok subs" "smap_find subs b = Some c \<Longrightarrow> c = b" "smap_ok m1" "j \<noteq> key \<Longrightarrow> smap_find m1 j = smap_find m j"
    "smap_find subs b \<noteq> None \<longleftrightarrow> subscribed m key b"
  using assms subs_okD [OF assms(1), of key]
  by (auto simp: smap_index_def subs_ok_def smap_simps smap_ok_set subscribed_def simp del: split_paired_All split: option.splits)

lemma subscribe_spec:
  assumes "subs_ok m"
  shows "subs_ok (subscribe b key m)"
    and "subscribed (subscribe b key m) k c \<longleftrightarrow> subscribed m k c \<or> (c = b \<and> k = key)"
proof -
  obtain subs m1 where i: "smap_index [] key m = (subs, m1)" by (metis surj_pair)
  note s = subs_index [OF assms i]
  have eq: "subscribe b key m = smap_set key (smap_emplace b b subs) m1" by (simp add: subscribe_def i)
  show "subs_ok (subscribe b key m)" unfolding eq
  proof (rule subs_okI)
    fix k subs' assume "smap_find (smap_set key (smap_emplace b b subs) m1) k = Some subs'"
    moreover have "smap_emplace b b subs \<noteq> []" by (rule smap_not_Nil [of _ b]) (simp add: smap_simps)
    ultimately show "subs' \<noteq> [] \<and> smap_ok subs' \<and> (\<forall>b c. smap_find subs' b = Some c \<longrightarrow> c = b)"
      using s(1,2,4) subs_okD [OF assms, of k]
      by (cases "k = key") (auto simp: smap_simps smap_ok_emplace split: if_splits)
  qed (simp add: s(3) smap_ok_set)
  show "subscribed (subscribe b key m) k c \<longleftrightarrow> subscribed m k c \<or> (c = b \<and> k = key)"
    using s(4,5) unfolding eq by (cases "k = key") (auto simp: subscribed_def smap_simps)
qed

lemma unsubscribe_spec:
  assumes "subs_ok m"
  shows "subs_ok (unsubscribe b key m)"
    and "subscribed (unsubscribe b key m) k c \<longleftrightarrow> subscribed m k c \<and> \<not> (c = b \<and> k = key)"
proof -
  obtain subs m1 where i: "smap_index [] key m = (subs, m1)" by (metis surj_pair)
  note s = subs_index [OF assms i]
  let ?m = "smap_set key (smap_erase b subs) m1"
  have eq: "unsubscribe b key m = (if smap_erase b subs = [] then smap_erase key ?m else ?m)"
    using smap_index_found [of ?m key "smap_erase b subs" "[]"] by (simp add: unsubscribe_def i smap_simps)
  show "subs_ok (unsubscribe b key m)"
  proof (rule subs_okI)
    fix k subs' assume "smap_find (unsubscribe b key m) k = Some subs'"
    then show "subs' \<noteq> [] \<and> smap_ok subs' \<and> (\<forall>b c. smap_find subs' b = Some c \<longrightarrow> c = b)"
      using s(1,2,4) subs_okD [OF assms, of k] unfolding eq
      by (cases "k = key") (auto simp: smap_simps smap_ok_erase split: if_splits)
  qed (auto simp: eq s(3) smap_ok_set smap_ok_erase)
  show "subscribed (unsubscribe b key m) k c \<longleftrightarrow> subscribed m k c \<and> \<not> (c = b \<and> k = key)"
  proof (cases "k = key")
    case True
    have "smap_erase b subs = [] \<Longrightarrow> c \<noteq> b \<Longrightarrow> smap_find subs c = None"
      using smap_find_erase [of b subs c] by simp
    then show ?thesis unfolding eq s(5) [of c, folded True, symmetric] using True by (auto simp: subscribed_def smap_simps)
  next
    case False
    with s(4) show ?thesis unfolding eq by (auto simp: subscribed_def smap_simps)
  qed
qed

lemma fold_subscribe:
  "subs_ok m \<Longrightarrow> subs_ok (fold (subscribe b) keys m)
     \<and> (subscribed (fold (subscribe b) keys m) k c \<longleftrightarrow> subscribed m k c \<or> (c = b \<and> k \<in> set keys))"
  by (induction keys arbitrary: m) (auto simp: subscribe_spec)

lemma fold_unsubscribe:
  "subs_ok m \<Longrightarrow> subs_ok (fold (unsubscribe b) keys m)
     \<and> (subscribed (fold (unsubscribe b) keys m) k c \<longleftrightarrow> subscribed m k c \<and> \<not> (c = b \<and> k \<in> set keys))"
  by (induction keys arbitrary: m) (auto simp: unsubscribe_spec)

lemma obs_ok_new: "obs_ok newObserverService"
  by (simp add: obs_ok_def newObserverService_def subs_ok_def subscribed_def smap_count_def)

lemma obs_ok_register: "obs_ok s \<Longrightarrow> obs_ok (snd (registerObserver e b f s))"
proof (cases b)
  case (Some c)
  assume ok: "obs_ok s"
  show ?thesis
  proof (cases "\<not> observerPermitted e \<or> smap_count (mObserverInfoMap s) c \<or> f = []")
    case True
    then show ?thesis using ok Some by (auto simp: registerObserver_def)
  next
    case False
    then show ?thesis using ok Some fold_subscribe [of "mObservableToSubscribersMap s" c "filterKeys f"]
      by (auto simp: registerObserver_def obs_ok_def smap_simps smap_ok_emplace split: if_splits)
  qed
qed (simp add: registerObserver_def)

lemma obs_ok_unregister: "obs_ok s \<Longrightarrow> obs_ok (snd (unregisterObserver e b s))"
proof (cases b)
  case (Some c)
  assume ok: "obs_ok s"
  show ?thesis
  proof (cases "smap_find (mObserverInfoMap s) c")
    case None
    then show ?thesis using ok Some by (auto simp: unregisterObserver_def)
  next
    case (Some info)
    then show ?thesis
      using ok \<open>b = Some c\<close> fold_unsubscribe [of "mObservableToSubscribersMap s" c "filterKeys (oi_filters info)"]
      by (auto simp: unregisterObserver_def obs_ok_def smap_simps smap_ok_erase split: if_splits)
  qed
qed (simp add: unregisterObserver_def)

lemma obs_ok_died: "obs_ok s \<Longrightarrow> obs_ok (os_BinderDiedCallback e b s)"
  by (auto simp: os_BinderDiedCallback_def obs_ok_unregister split: option.splits)

section \<open>Whom a change is reported to\<close>

text \<open>What an observer with these filters is to be told about an event.\<close>

definition monitorsFor :: "observable_filter list \<Rightarrow> u64 \<Rightarrow> media_resource list \<Rightarrow> (observable_type \<times> int) list" where
  "monitorsFor filters event resources =
     map (\<lambda>res. (getObservableType res, mr_value res))
       (filter (\<lambda>res. getObservableType res \<noteq> kInvalid \<and> (getObservableType res, event) \<in> set (filterKeys filters)) resources)"

definition told :: "(observer, observer_info) smap \<Rightarrow> u64 \<Rightarrow> media_resource list \<Rightarrow> observer \<Rightarrow> (observable_type \<times> int) list" where
  "told infos event resources b =
     (case smap_find infos b of None \<Rightarrow> [] | Some info \<Rightarrow> monitorsFor (oi_filters info) event resources)"

definition callees_are :: "callee_list \<Rightarrow> (observer \<Rightarrow> (observable_type \<times> int) list) \<Rightarrow> bool" where
  "callees_are c f \<longleftrightarrow> smap_ok c \<and> (\<forall>b. smap_find c b = (if f b = [] then None else Some (b, f b)))"

lemma addCallee_fold:
  assumes "callees_are c f" "\<And>b d. (b, d) \<in> set subs \<Longrightarrow> d = b" "distinct (map fst subs)"
  shows "callees_are (fold (addCallee mon) subs c) (\<lambda>b. if b \<in> fst ` set subs then f b @ [mon] else f b)"
  using assms
proof (induction subs arbitrary: c f)
  case (Cons x subs)
  obtain b where x: "x = (b, b)" using Cons.prems(2) by (cases x) auto
  have b: "b \<notin> fst ` set subs" using Cons.prems(3) x by simp
  define g where "g = f(b := f b @ [mon])"
  have "callees_are (addCallee mon x c) g" unfolding g_def
    using Cons.prems(1) x
    by (auto simp: callees_are_def addCallee_def smap_simps smap_ok_set smap_ok_emplace split: option.splits)
  then have "callees_are (fold (addCallee mon) subs (addCallee mon x c))
      (\<lambda>d. if d \<in> fst ` set subs then g d @ [mon] else g d)"
    using Cons.prems(2,3) by (intro Cons.IH) auto
  moreover have "(\<lambda>d. if d \<in> fst ` set subs then g d @ [mon] else g d)
      = (\<lambda>d. if d \<in> fst ` set (x # subs) then f d @ [mon] else f d)"
    using x b by (auto simp: fun_eq_iff g_def)
  ultimately show ?case by simp
qed simp

lemma addCallees_told:
  assumes "obs_ok s" "callees_are c (told (mObserverInfoMap s) event rs)"
  shows "callees_are (addCallees s event r c) (told (mObserverInfoMap s) event (rs @ [r]))"
proof (cases "getObservableType r = kInvalid")
  case True
  then have "told (mObserverInfoMap s) event (rs @ [r]) = told (mObserverInfoMap s) event rs"
    by (auto simp: told_def monitorsFor_def fun_eq_iff split: option.splits)
  with True assms(2) show ?thesis by (simp add: addCallees_def)
next
  case False
  define key where "key = (getObservableType r, event)"
  have sub: "subscribed (mObservableToSubscribersMap s) key b \<longleftrightarrow>
      (\<exists>info. smap_find (mObserverInfoMap s) b = Some info \<and> key \<in> set (filterKeys (oi_filters info)))" for b
    using assms(1) unfolding obs_ok_def by blast
  have ext: "told (mObserverInfoMap s) event (rs @ [r]) =
      (\<lambda>b. if subscribed (mObservableToSubscribersMap s) key b then told (mObserverInfoMap s) event rs b @ [(getObservableType r, mr_value r)]
           else told (mObserverInfoMap s) event rs b)"
    using False unfolding sub by (auto simp: fun_eq_iff told_def monitorsFor_def key_def split: option.splits)
  show ?thesis
  proof (cases "smap_find (mObservableToSubscribersMap s) key")
    case None
    then show ?thesis using False assms(2) unfolding ext by (simp add: addCallees_def key_def subscribed_def)
  next
    case (Some subs)
    then have ok: "smap_ok subs" "\<forall>b c. smap_find subs b = Some c \<longrightarrow> c = b"
      using assms(1) subs_okD [OF _ Some] unfolding obs_ok_def by blast+
    have "callees_are (fold (addCallee (getObservableType r, mr_value r)) subs c)
       (\<lambda>b. if b \<in> fst ` set subs then told (mObserverInfoMap s) event rs b @ [(getObservableType r, mr_value r)]
            else told (mObserverInfoMap s) event rs b)"
      using ok by (intro addCallee_fold assms(2)) (auto simp: smap_in_set smap_ok_distinct)
    moreover have "b \<in> fst ` set subs \<longleftrightarrow> subscribed (mObservableToSubscribersMap s) key b" for b
      using smap_keys_find [of b subs] Some by (simp add: smap_keys_def subscribed_def)
    ultimately show ?thesis using False Some unfolding ext by (simp add: addCallees_def key_def)
  qed
qed

lemma callees_told:
  assumes "obs_ok s"
  shows "callees_are (fold (addCallees s event) resources []) (told (mObserverInfoMap s) event resources)"
proof -
  have "callees_are (fold (addCallees s event) resources c) (told (mObserverInfoMap s) event (rs @ resources))"
    if "callees_are c (told (mObserverInfoMap s) event rs)" for c rs
    using that
  proof (induction resources arbitrary: c rs)
    case (Cons r resources)
    from Cons.IH [OF addCallees_told [OF assms Cons.prems, of r]] show ?case by simp
  qed simp
  from this [of "[]" "[]"] show ?thesis
    by (auto simp: callees_are_def told_def monitorsFor_def split: option.splits)
qed

text \<open>The services on which observers are registered and unregistered and die, in any order.\<close>

inductive observers_reach :: "observer_service \<Rightarrow> bool" where
  or_new: "observers_reach newObserverService"
| or_register: "observers_reach s \<Longrightarrow> observers_reach (snd (registerObserver e b f s))"
| or_unregister: "observers_reach s \<Longrightarrow> observers_reach (snd (unregisterObserver e b s))"
| or_died: "observers_reach s \<Longrightarrow> observers_reach (os_BinderDiedCallback e b s)"

lemma observers_reach_ok: "observers_reach s \<Longrightarrow> obs_ok s"
  by (induction rule: observers_reach.induct)
    (simp_all add: obs_ok_new obs_ok_register obs_ok_unregister obs_ok_died)

text \<open>
  C19: in every reachable state of the observer service a change of resources is reported to each observer at most once, in
  one call, exactly when its filters name the event for one of the resources; the call lists exactly those resources,
  in their order. Observers that are not registered, or no longer, are not called.
\<close>
theorem observers_told_exactly:
  assumes "observers_reach s"
  shows "filter (\<lambda>c. sc_observer c = b) (notifyObservers event uid pid resources s) =
     (let monitors = (case smap_find (mObserverInfoMap s) b of
                        None \<Rightarrow> [] | Some info \<Rightarrow> monitorsFor (oi_filters info) event resources)
      in if monitors = [] then []
         else [\<lparr>sc_observer = b, sc_event = event, sc_uid = uid, sc_pid = pid, sc_monitors = monitors\<rparr>])"
proof -
  define c where "c = fold (addCallees s event) resources []"
  define call where "call = (\<lambda>(b :: observer, obs, monitors).
     \<lparr>sc_observer = obs, sc_event = event, sc_uid = uid, sc_pid = pid, sc_monitors = monitors\<rparr>)"
  have c: "smap_ok c" "\<And>b. smap_find c b = (if told (mObserverInfoMap s) event resources b = [] then None
      else Some (b, told (mObserverInfoMap s) event resources b))"
    using callees_told [OF observers_reach_ok [OF assms], of event resources] by (auto simp: c_def callees_are_def)
  have own: "fst (snd x) = fst x" if "x \<in> set c" for x
  proof -
    have "smap_find c (fst x) = Some (snd x)" using that smap_in_set [OF c(1), of "fst x" "snd x"] by simp
    then show ?thesis unfolding c(2) by (auto split: if_splits dest: sym)
  qed
  have "filter (\<lambda>x. sc_observer (call x) = b) c = filter (\<lambda>x. fst x = b) c"
  proof (rule filter_cong)
    fix x assume "x \<in> set c"
    then show "(sc_observer (call x) = b) = (fst x = b)" using own [of x] by (simp add: call_def split_beta)
  qed simp
  also have "\<dots> = (case smap_find c b of None \<Rightarrow> [] | Some v \<Rightarrow> [(b, v)])"
    using c(1) smap_ok_distinct [OF c(1)]
  proof (induction c)
    case (Cons x c)
    have "filter (\<lambda>x. fst x = b) c = []" if "fst x = b"
      unfolding filter_empty_conv
    proof
      fix y assume "y \<in> set c"
      then have "fst y \<in> fst ` set c" by simp
      moreover have "fst x \<notin> fst ` set c" using Cons.prems(2) by simp
      ultimately show "fst y \<noteq> b" using that by metis
    qed
    with Cons show ?case by (cases x) (auto simp: smap_ok_def)
  qed simp
  finally show ?thesis
    by (simp add: notifyObservers_def c_def [symmetric] call_def [symmetric] filter_map comp_def c(2) told_def Let_def)
      (simp add: call_def told_def split: option.splits)
qed

theorem observers_told_exactly_witness:
  "filter (\<lambda>c. sc_observer c = 5)
     (notifyObservers kIdle 10 20
        [\<lparr>mr_type = kSecureCodec, mr_subType = kHwVideoCodec, mr_id = [], mr_value = 1\<rparr>]
        (snd (registerObserver (sample_caller 1) (Some 5) [(kVideoSecureCodec, - 1)] newObserverService)))
   = [\<lparr>sc_observer = 5, sc_event = 2, sc_uid = 10, sc_pid = 20, sc_monitors = [(kVideoSecureCodec, 1)]\<rparr>]"
  using observers_told_exactly [OF or_register [OF or_new, of "sample_caller 1" "Some 5" "[(kVideoSecureCodec, - 1)]"], of 5 kIdle 10 20
      "[\<lparr>mr_type = kSecureCodec, mr_subType = kHwVideoCodec, mr_id = [], mr_value = 1\<rparr>]"]
  by (simp add: registerObserver_def observerPermitted_def sample_caller_def newObserverService_def smap_simps
      smap_emplace_def monitorsFor_def getObservableType_def filterKeys_def sEvents_def kIdle_def kBusy_def)

end
