(* ===== verification/Resource_Metrics.thy ===== *)
theory Resource_Metrics
  imports Media_Resource Process_Info "HOL-Library.Char_ord" "HOL-Library.List_Lexorder"
begin

text \<open>
  \<^verbatim>\<open>ResourceManagerMetrics.cpp\<close> and \<^verbatim>\<open>UidObserver.cpp\<close>: how many codecs run, in the system and in each process, how many
  pixels they process, and which processes have ended.

  The atoms pushed to the statistics service are recorded in \<open>mAtoms\<close>. Counters are integers without bound: they
  count calls. The pixel counts are values of \<^verbatim>\<open>long\<close> and wrap around where the code lets them; the product of width and height, computed
  in \<^verbatim>\<open>long\<close>, and the difference of two time stamps are undefined when they leave the range. The width of \<^verbatim>\<open>long\<close>, a constant of the build,
  is kept beside the metrics (\<open>mLong\<close>). A \<^verbatim>\<open>ConcurrentCodecs\<close> is made without initial values for its five totals: they are
  indeterminate (\<open>None\<close>), and what is computed from them is.

  The theorem shows that, as long as clients are started and stopped in turn, the counters are the numbers of the
  codecs that run.
\<close>

section \<open>\<^verbatim>\<open>UidObserver\<close>\<close>

record uid_observer =
  uo_mRegistered :: bool
  mUids :: "(uid, int set) smap"

definition newUidObserver :: uid_observer where
  "newUidObserver = \<lparr>uo_mRegistered = False, mUids = []\<rparr>"

definition registerWithActivityManager :: "rm_env \<Rightarrow> uid_observer \<Rightarrow> uid_observer" where
  "registerWithActivityManager e u =
     (if uo_mRegistered u then u else if linkedToDeath e then u\<lparr>uo_mRegistered := True\<rparr> else u)"

definition uo_start :: "rm_env \<Rightarrow> uid_observer \<Rightarrow> uid_observer" where
  "uo_start e u = (if \<not> activityManager e then u else registerWithActivityManager e u)"

definition uo_stop :: "uid_observer \<Rightarrow> uid_observer" where
  "uo_stop u = (if uo_mRegistered u then u\<lparr>uo_mRegistered := False\<rparr> else u)"

definition uo_add :: "rm_env \<Rightarrow> int \<Rightarrow> uid \<Rightarrow> uid_observer \<Rightarrow> uid_observer" where
  "uo_add e pid uid u =
     (let u = (case smap_find (mUids u) uid of
                 Some pids \<Rightarrow> u\<lparr>mUids := smap_set uid (insert pid pids) (mUids u)\<rparr>
               | None \<Rightarrow> u\<lparr>mUids := smap_emplace uid {pid} (mUids u)\<rparr>)
      in if \<not> uo_mRegistered u then uo_start e u else u)"

definition onServiceRegistration :: "rm_env \<Rightarrow> string \<Rightarrow> uid_observer \<Rightarrow> uid_observer" where
  "onServiceRegistration e name u = (if name \<noteq> ''activity'' then u else registerWithActivityManager e u)"

definition getTerminatedProcesses :: "rm_env \<Rightarrow> process_info \<Rightarrow> int list \<Rightarrow> int list" where
  "getTerminatedProcesses e p pids =
     (case checkProcessExistent e p pids of
        None \<Rightarrow> []
      | Some existent \<Rightarrow> map fst (filter (\<lambda>(pid, exists). \<not> exists) (zip pids existent)))"

text \<open>The processes of a uid that have ended, and the observer without them.\<close>

definition uo_onUidGone :: "rm_env \<Rightarrow> process_info \<Rightarrow> uid \<Rightarrow> uid_observer \<Rightarrow> int list \<times> uid_observer" where
  "uo_onUidGone e p uid u =
     (case smap_find (mUids u) uid of
        None \<Rightarrow> ([], u)
      | Some pids \<Rightarrow>
          if card pids = 1 then ([Min pids], u\<lparr>mUids := smap_erase uid (mUids u)\<rparr>)
          else
            let terminatedPids = getTerminatedProcesses e p (sorted_list_of_set pids);
                rest = pids - set terminatedPids
            in (terminatedPids,
                if rest = {} then u\<lparr>mUids := smap_erase uid (mUids u)\<rparr>
                else u\<lparr>mUids := smap_set uid rest (mUids u)\<rparr>))"

definition uo_binderDied :: "uid_observer \<Rightarrow> uid_observer" where
  "uo_binderDied u = u\<lparr>uo_mRegistered := False\<rparr>"

section \<open>Codec buckets and the state of the metrics\<close>

datatype codec_bucket =
    CodecBucketUnspecified | HwAudioEncoder | HwAudioDecoder | HwVideoEncoder | HwVideoDecoder | HwImageEncoder | HwImageDecoder
  | SwAudioEncoder | SwAudioDecoder | SwVideoEncoder | SwVideoDecoder | SwImageEncoder | SwImageDecoder

record client_config =
  cc_clientInfo :: client_info_parcel
  cc_codecType :: res_subtype
  cc_isEncoder :: bool
  cc_width :: int
  cc_height :: int
  cc_timeStamp :: int
  cc_id :: int

record concurrent_codecs =
  cu_mCurrent :: "codec_bucket \<Rightarrow> int"
  cu_mPeak :: "codec_bucket \<Rightarrow> int"
  mHWVideoCodecs :: "int option"
  mSWVideoCodecs :: "int option"
  mVideoCodecs :: "int option"
  mAudioCodecs :: "int option"
  mImageCodecs :: "int option"

record pixel_count =
  px_mCurrent :: int
  px_mPeak :: int

datatype metrics_codec_type = TYPE_UNSPECIFIED | TYPE_AUDIO | TYPE_VIDEO | TYPE_IMAGE

datatype reclaim_status = RECLAIM_SUCCESS | RECLAIM_FAILED_NO_CLIENTS | RECLAIM_FAILED_RECLAIM_RESOURCES

text \<open>
  An atom of a codec that starts: its type, whether it is hardware, the numbers of codecs in the system and in the process, the pixels, and
  the totals (hardware video, software video, video, audio, image; \<open>None\<close> is an indeterminate value); of one that stops: the numbers and the time it ran; of a
  reclaim: uid, priority, name, number of codecs, status, number of targets, index, uid and priority of the target.
\<close>

datatype atom =
    CodecStarted client_config metrics_codec_type bool int int int "int option list"
  | CodecStopped client_config metrics_codec_type bool int int int int
  | ReclaimCompleted int int string int reclaim_status int int int int

record metrics =
  mClientConfigMap :: "(int, client_config) smap"
  mProcessPixelsMap :: "(int, pixel_count) smap"
  mConcurrentResourceCountMap :: "(string, int) smap"
  mConcurrentCodecsMap :: "codec_bucket \<Rightarrow> int"
  mProcessConcurrentCodecsMap :: "(int, concurrent_codecs) smap"
  mUidObserver :: uid_observer
  mLong :: data_model
  mAtoms :: "atom list"

definition ResourceManagerMetrics :: "rm_env \<Rightarrow> metrics" where
  "ResourceManagerMetrics e =
     \<lparr>mClientConfigMap = [], mProcessPixelsMap = [], mConcurrentResourceCountMap = [], mConcurrentCodecsMap = (\<lambda>_. 0),
      mProcessConcurrentCodecsMap = [], mUidObserver = uo_start e newUidObserver, mLong = dataModel e, mAtoms = []\<rparr>"

definition getMetricsCodecType :: "res_subtype \<Rightarrow> metrics_codec_type" where
  "getMetricsCodecType codecType =
     (case codecType of
        kHwAudioCodec \<Rightarrow> TYPE_AUDIO | kSwAudioCodec \<Rightarrow> TYPE_AUDIO
      | kHwVideoCodec \<Rightarrow> TYPE_VIDEO | kSwVideoCodec \<Rightarrow> TYPE_VIDEO
      | kHwImageCodec \<Rightarrow> TYPE_IMAGE | kSwImageCodec \<Rightarrow> TYPE_IMAGE
      | kUnspecifiedSubType \<Rightarrow> TYPE_UNSPECIFIED)"

definition isHardwareCodec :: "res_subtype \<Rightarrow> bool" where
  "isHardwareCodec codecType \<longleftrightarrow>
     codecType = kHwAudioCodec \<or> codecType = kHwVideoCodec \<or> codecType = kHwImageCodec"

definition getCodecBucket :: "bool \<Rightarrow> res_subtype \<Rightarrow> codec_bucket" where
  "getCodecBucket isEncoder codecType =
     (case codecType of
        kHwAudioCodec \<Rightarrow> if isEncoder then HwAudioEncoder else HwAudioDecoder
      | kSwAudioCodec \<Rightarrow> if isEncoder then SwAudioEncoder else SwAudioDecoder
      | kHwVideoCodec \<Rightarrow> if isEncoder then HwVideoEncoder else HwVideoDecoder
      | kSwVideoCodec \<Rightarrow> if isEncoder then SwVideoEncoder else SwVideoDecoder
      | kHwImageCodec \<Rightarrow> if isEncoder then HwImageEncoder else HwImageDecoder
      | kSwImageCodec \<Rightarrow> if isEncoder then SwImageEncoder else SwImageDecoder
      | kUnspecifiedSubType \<Rightarrow> CodecBucketUnspecified)"

definition hasPixels :: "res_subtype \<Rightarrow> bool" where
  "hasPixels codecType \<longleftrightarrow>
     codecType = kHwVideoCodec \<or> codecType = kSwVideoCodec \<or> codecType = kHwImageCodec \<or> codecType = kSwImageCodec"

section \<open>Counting codecs and pixels\<close>

text \<open>What the two \<open>switch\<close> statements add to the totals; \<open>d\<close> is 1 or -1.\<close>

definition countTotals :: "int \<Rightarrow> codec_bucket \<Rightarrow> concurrent_codecs \<Rightarrow> concurrent_codecs" where
  "countTotals d b c = (let counted = map_option (\<lambda>n. n + d) in
      if b \<in> {HwVideoEncoder, HwVideoDecoder, SwVideoEncoder, SwVideoDecoder} then
        let c = (if b = HwVideoEncoder \<or> b = HwVideoDecoder then c\<lparr>mHWVideoCodecs := counted (mHWVideoCodecs c)\<rparr>
                 else c\<lparr>mSWVideoCodecs := counted (mSWVideoCodecs c)\<rparr>)
        in c\<lparr>mVideoCodecs := counted (mVideoCodecs c)\<rparr>
      else if b \<in> {HwAudioEncoder, HwAudioDecoder, SwAudioEncoder, SwAudioDecoder} then
        c\<lparr>mAudioCodecs := counted (mAudioCodecs c)\<rparr>
      else if b \<in> {HwImageEncoder, HwImageDecoder, SwImageEncoder, SwImageDecoder} then
        c\<lparr>mImageCodecs := counted (mImageCodecs c)\<rparr>
      else c)"

definition increaseConcurrentCodecs :: "int \<Rightarrow> codec_bucket \<Rightarrow> metrics \<Rightarrow> metrics" where
  "increaseConcurrentCodecs pid b m =
     (let m = m\<lparr>mConcurrentCodecsMap := (mConcurrentCodecsMap m)(b := mConcurrentCodecsMap m b + 1)\<rparr>;
          c = (case smap_find (mProcessConcurrentCodecsMap m) pid of
                 None \<Rightarrow>
                   \<lparr>cu_mCurrent = (\<lambda>_. 0)(b := 1), cu_mPeak = (\<lambda>_. 0)(b := 1),
                    mHWVideoCodecs = None, mSWVideoCodecs = None, mVideoCodecs = None, mAudioCodecs = None, mImageCodecs = None\<rparr>
               | Some c \<Rightarrow>
                   let c = c\<lparr>cu_mCurrent := (cu_mCurrent c)(b := cu_mCurrent c b + 1)\<rparr> in
                   if cu_mPeak c b < cu_mCurrent c b then c\<lparr>cu_mPeak := (cu_mPeak c)(b := cu_mCurrent c b)\<rparr> else c)
      in m\<lparr>mProcessConcurrentCodecsMap := smap_set pid (countTotals 1 b c) (mProcessConcurrentCodecsMap m)\<rparr>)"

definition decreaseConcurrentCodecs :: "int \<Rightarrow> codec_bucket \<Rightarrow> metrics \<Rightarrow> metrics" where
  "decreaseConcurrentCodecs pid b m =
     (let m = (if mConcurrentCodecsMap m b > 0
               then m\<lparr>mConcurrentCodecsMap := (mConcurrentCodecsMap m)(b := mConcurrentCodecsMap m b - 1)\<rparr> else m)
      in case smap_find (mProcessConcurrentCodecsMap m) pid of
           None \<Rightarrow> m
         | Some c \<Rightarrow>
             let c = (if cu_mCurrent c b > 0 then c\<lparr>cu_mCurrent := (cu_mCurrent c)(b := cu_mCurrent c b - 1)\<rparr> else c)
             in m\<lparr>mProcessConcurrentCodecsMap := smap_set pid (countTotals (- 1) b c) (mProcessConcurrentCodecsMap m)\<rparr>)"

text \<open>The product \<open>width * (long) height\<close>.\<close>

definition pixelsOf :: "metrics \<Rightarrow> client_config \<Rightarrow> int ub" where
  "pixelsOf m cfg = (let n = cc_width cfg * cc_height cfg in if in_long (mLong m) n then Some n else None)"

definition increasePixelCount :: "int \<Rightarrow> int \<Rightarrow> metrics \<Rightarrow> metrics" where
  "increasePixelCount pid pixels m =
     (case smap_find (mProcessPixelsMap m) pid of
        None \<Rightarrow> m\<lparr>mProcessPixelsMap := smap_emplace pid \<lparr>px_mCurrent = pixels, px_mPeak = pixels\<rparr> (mProcessPixelsMap m)\<rparr>
      | Some c \<Rightarrow>
          let sum = px_mCurrent c + pixels;
              c = c\<lparr>px_mCurrent := to_long (mLong m) sum\<rparr>;
              c = (if \<not> in_long (mLong m) sum then c
                   else if px_mPeak c < px_mCurrent c then c\<lparr>px_mPeak := px_mCurrent c\<rparr> else c)
          in m\<lparr>mProcessPixelsMap := smap_set pid c (mProcessPixelsMap m)\<rparr>)"

definition decreasePixelCount :: "int \<Rightarrow> int \<Rightarrow> metrics \<Rightarrow> metrics" where
  "decreasePixelCount pid pixels m =
     (case smap_find (mProcessPixelsMap m) pid of
        None \<Rightarrow> m
      | Some c \<Rightarrow>
          let c = (if px_mCurrent c < pixels then c\<lparr>px_mCurrent := 0\<rparr>
                   else c\<lparr>px_mCurrent := to_long (mLong m) (px_mCurrent c - pixels)\<rparr>)
          in m\<lparr>mProcessPixelsMap := smap_set pid c (mProcessPixelsMap m)\<rparr>)"

definition updatePixelCount :: "int \<Rightarrow> int \<Rightarrow> int \<Rightarrow> metrics \<Rightarrow> metrics" where
  "updatePixelCount pid newPixels lastPixels m = increasePixelCount pid newPixels (decreasePixelCount pid lastPixels m)"

definition getPeakConcurrentPixelCount :: "int \<Rightarrow> metrics \<Rightarrow> int" where
  "getPeakConcurrentPixelCount pid m =
     (case smap_find (mProcessPixelsMap m) pid of Some c \<Rightarrow> px_mPeak c | None \<Rightarrow> 0)"

definition getCurrentConcurrentPixelCount :: "int \<Rightarrow> metrics \<Rightarrow> int" where
  "getCurrentConcurrentPixelCount pid m =
     (case smap_find (mProcessPixelsMap m) pid of Some c \<Rightarrow> px_mCurrent c | None \<Rightarrow> 0)"

section \<open>Notifications\<close>

definition addPid :: "rm_env \<Rightarrow> int \<Rightarrow> uid \<Rightarrow> metrics \<Rightarrow> metrics" where
  "addPid e pid uid m = (if uid \<noteq> 0 then m\<lparr>mUidObserver := uo_add e pid uid (mUidObserver m)\<rparr> else m)"

definition mt_notifyClientCreated :: "client_info_parcel \<Rightarrow> metrics \<Rightarrow> metrics" where
  "mt_notifyClientCreated clientInfo m =
     (case smap_find (mConcurrentResourceCountMap m) (cp_name clientInfo) of
        None \<Rightarrow> m\<lparr>mConcurrentResourceCountMap := smap_set (cp_name clientInfo) 1 (mConcurrentResourceCountMap m)\<rparr>
      | Some n \<Rightarrow> m\<lparr>mConcurrentResourceCountMap := smap_set (cp_name clientInfo) (n + 1) (mConcurrentResourceCountMap m)\<rparr>)"

text \<open>Counting the pixels of a codec that starts or stops, when it has any.\<close>

definition countPixels :: "(int \<Rightarrow> int \<Rightarrow> metrics \<Rightarrow> metrics) \<Rightarrow> client_config \<Rightarrow> metrics \<Rightarrow> metrics ub" where
  "countPixels count cfg m =
     (if hasPixels (cc_codecType cfg)
      then map_option (\<lambda>n. count (cp_pid (cc_clientInfo cfg)) n m) (pixelsOf m cfg) else Some m)"

definition mt_notifyClientStarted :: "rm_env \<Rightarrow> client_config \<Rightarrow> metrics \<Rightarrow> metrics ub" where
  "mt_notifyClientStarted e cfg m =
     (let pid = cp_pid (cc_clientInfo cfg);
          b = getCodecBucket (cc_isEncoder cfg) (cc_codecType cfg);
          m = m\<lparr>mUidObserver := uo_add e pid (word_of_int (cp_uid (cc_clientInfo cfg))) (mUidObserver m),
                mClientConfigMap := smap_set (cp_id (cc_clientInfo cfg)) cfg (mClientConfigMap m)\<rparr>;
          m = increaseConcurrentCodecs pid b m
      in map_option (\<lambda>m.
          let (atom :: atom) = (case smap_find (mProcessConcurrentCodecsMap m) pid of
                    Some c \<Rightarrow> CodecStarted cfg (getMetricsCodecType (cc_codecType cfg)) (isHardwareCodec (cc_codecType cfg))
                      (mConcurrentCodecsMap m b) (cu_mCurrent c b) (getCurrentConcurrentPixelCount pid m)
                      [mHWVideoCodecs c, mSWVideoCodecs c, mVideoCodecs c, mAudioCodecs c, mImageCodecs c]
                  | None \<Rightarrow> CodecStarted cfg (getMetricsCodecType (cc_codecType cfg)) (isHardwareCodec (cc_codecType cfg))
                      (mConcurrentCodecsMap m b) 0 (getCurrentConcurrentPixelCount pid m) (replicate 5 (Some 0)))
          in m\<lparr>mAtoms := mAtoms m @ [atom]\<rparr>) (countPixels increasePixelCount cfg m))"

definition mt_notifyClientStopped :: "client_config \<Rightarrow> metrics \<Rightarrow> metrics ub" where
  "mt_notifyClientStopped cfg m =
     (let pid = cp_pid (cc_clientInfo cfg);
          b = getCodecBucket (cc_isEncoder cfg) (cc_codecType cfg);
          m = decreaseConcurrentCodecs pid b m
      in Option.bind (countPixels decreasePixelCount cfg m) (\<lambda>m.
      let app = (case smap_find (mProcessConcurrentCodecsMap m) pid of Some c \<Rightarrow> cu_mCurrent c b | None \<Rightarrow> 0);
          pixels = getCurrentConcurrentPixelCount pid m;
          atom = CodecStopped cfg (getMetricsCodecType (cc_codecType cfg)) (isHardwareCodec (cc_codecType cfg))
            (mConcurrentCodecsMap m b) app pixels
      in case smap_find (mClientConfigMap m) (cp_id (cc_clientInfo cfg)) of
           Some entry \<Rightarrow>
             (case int64 (cc_timeStamp cfg - cc_timeStamp entry) of
                None \<Rightarrow> None
              | Some usageTime \<Rightarrow>
                  Some (m\<lparr>mClientConfigMap := smap_erase (cp_id (cc_clientInfo cfg)) (mClientConfigMap m),
                          mAtoms := mAtoms m @ [atom usageTime]\<rparr>))
         | None \<Rightarrow> Some (m\<lparr>mAtoms := mAtoms m @ [atom 0]\<rparr>)))"

definition mt_notifyClientReleased :: "rm_env \<Rightarrow> client_info_parcel \<Rightarrow> metrics \<Rightarrow> metrics ub" where
  "mt_notifyClientReleased e clientInfo m =
     (case (case smap_find (mClientConfigMap m) (cp_id clientInfo) of
              None \<Rightarrow> Some m
            | Some cfg \<Rightarrow> mt_notifyClientStopped (cfg\<lparr>cc_timeStamp := systemTimeUs e\<rparr>) m) of
        None \<Rightarrow> None
      | Some m \<Rightarrow>
          Some (case smap_find (mConcurrentResourceCountMap m) (cp_name clientInfo) of
                  None \<Rightarrow> m
                | Some n \<Rightarrow>
                    if n > 0
                    then m\<lparr>mConcurrentResourceCountMap := smap_set (cp_name clientInfo) (n - 1) (mConcurrentResourceCountMap m)\<rparr>
                    else m))"

definition mt_notifyClientConfigChanged :: "client_config \<Rightarrow> metrics \<Rightarrow> metrics ub" where
  "mt_notifyClientConfigChanged cfg m =
     (case smap_find (mClientConfigMap m) (cp_id (cc_clientInfo cfg)) of
        None \<Rightarrow> Some m
      | Some entry \<Rightarrow>
          if \<not> hasPixels (cc_codecType cfg) then Some m
          else
            (case (pixelsOf m cfg, pixelsOf m entry) of
               (Some newPixels, Some lastPixels) \<Rightarrow>
                 let m = updatePixelCount (cp_pid (cc_clientInfo cfg)) newPixels lastPixels m
                 in Some (m\<lparr>mClientConfigMap := smap_set (cp_id (cc_clientInfo cfg))
                      (entry\<lparr>cc_width := cc_width cfg, cc_height := cc_height cfg\<rparr>) (mClientConfigMap m)\<rparr>)
             | _ \<Rightarrow> None))"

definition onProcessTerminated :: "int \<Rightarrow> metrics \<Rightarrow> metrics" where
  "onProcessTerminated pid m =
     m\<lparr>mProcessConcurrentCodecsMap := smap_erase pid (mProcessConcurrentCodecsMap m),
       mProcessPixelsMap := smap_erase pid (mProcessPixelsMap m)\<rparr>"

definition mt_onUidGone :: "rm_env \<Rightarrow> process_info \<Rightarrow> uid \<Rightarrow> metrics \<Rightarrow> metrics" where
  "mt_onUidGone e p uid m =
     (let (terminatedPids, u) = uo_onUidGone e p uid (mUidObserver m)
      in fold onProcessTerminated terminatedPids (m\<lparr>mUidObserver := u\<rparr>))"

text \<open>The priorities of the requester and of the targets come in one vector.\<close>

definition mt_pushReclaimAtom ::
    "client_info_parcel \<Rightarrow> int list \<Rightarrow> client_info list \<Rightarrow> bool \<Rightarrow> metrics \<Rightarrow> metrics ub" where
  "mt_pushReclaimAtom clientInfo priorities targetClients reclaimed m =
     (if length priorities < Suc (length targetClients) then None
      else
        let requesterPriority = priorities ! 0;
            n = (case smap_find (mConcurrentResourceCountMap m) (cp_name clientInfo) of Some n \<Rightarrow> n | None \<Rightarrow> 0);
            reclaimStatus = (if reclaimed then RECLAIM_SUCCESS
                             else if targetClients = [] then RECLAIM_FAILED_NO_CLIENTS
                             else RECLAIM_FAILED_RECLAIM_RESOURCES)
        in if targetClients = [] then
             Some (m\<lparr>mAtoms := mAtoms m @
               [ReclaimCompleted (cp_uid clientInfo) requesterPriority (cp_name clientInfo) n reclaimStatus 0 (- 1) (- 1) (- 1)]\<rparr>)
           else
             Some (m\<lparr>mAtoms := mAtoms m @
               map (\<lambda>(i, target). ReclaimCompleted (cp_uid clientInfo) requesterPriority (cp_name clientInfo) n reclaimStatus
                      (int (length targetClients)) (int i + 1) (sint (mUid target)) (priorities ! Suc i))
                 (enumerate 0 targetClients)\<rparr>))"

section \<open>The counters count the codecs that run\<close>

definition bucketOf :: "client_config \<Rightarrow> codec_bucket" where
  "bucketOf c = getCodecBucket (cc_isEncoder c) (cc_codecType c)"

definition pidOf :: "client_config \<Rightarrow> int" where
  "pidOf c = cp_pid (cc_clientInfo c)"

text \<open>How many entries of a map satisfy a predicate.\<close>

definition entries :: "('v \<Rightarrow> bool) \<Rightarrow> ('k, 'v) smap \<Rightarrow> int" where
  "entries P m = smap_total (\<lambda>v. of_bool (P v)) m"

lemma entries_length: "entries P m = int (length (filter (\<lambda>x. P (snd x)) m))"
  by (induction m) (auto simp: entries_def)

lemma entries_nonneg [simp]: "0 \<le> entries P m"
  by (simp add: entries_length)

lemma entries_set_new:
  "smap_ok m \<Longrightarrow> smap_find m k = None \<Longrightarrow> entries P (smap_set k v m) = entries P m + of_bool (P v)"
  by (simp add: entries_def smap_total_set)

lemma entries_erase:
  "smap_ok m \<Longrightarrow> smap_find m k = Some v \<Longrightarrow> entries P (smap_erase k m) = entries P m - of_bool (P v)"
  by (simp add: entries_def smap_total_erase)

lemma entries_set_old:
  "smap_ok m \<Longrightarrow> smap_find m k = Some v \<Longrightarrow> P w = P v \<Longrightarrow> entries P (smap_set k w m) = entries P m"
  by (simp add: entries_def smap_total_set)

text \<open>
  The metrics of clients that keep to the protocol: a client is started only when it does not run, and stopped with the
  configuration it was started with (resolution and time stamp apart). Everything else may happen at any time. The second
  component is the set of processes that were reported to have ended.
\<close>

inductive metrics_reach :: "metrics \<Rightarrow> int set \<Rightarrow> bool" where
  mr_new: "metrics_reach (ResourceManagerMetrics e) {}"
| mr_created: "metrics_reach m T \<Longrightarrow> metrics_reach (mt_notifyClientCreated ci m) T"
| mr_started: "metrics_reach m T \<Longrightarrow> smap_find (mClientConfigMap m) (cp_id (cc_clientInfo cfg)) = None
    \<Longrightarrow> mt_notifyClientStarted e cfg m = Some m' \<Longrightarrow> metrics_reach m' T"
| mr_stopped: "metrics_reach m T \<Longrightarrow> smap_find (mClientConfigMap m) (cp_id (cc_clientInfo cfg)) = Some started
    \<Longrightarrow> bucketOf cfg = bucketOf started \<Longrightarrow> pidOf cfg = pidOf started
    \<Longrightarrow> mt_notifyClientStopped cfg m = Some m' \<Longrightarrow> metrics_reach m' T"
| mr_released: "metrics_reach m T \<Longrightarrow> mt_notifyClientReleased e ci m = Some m' \<Longrightarrow> metrics_reach m' T"
| mr_changed: "metrics_reach m T \<Longrightarrow> mt_notifyClientConfigChanged cfg m = Some m' \<Longrightarrow> metrics_reach m' T"
| mr_addPid: "metrics_reach m T \<Longrightarrow> metrics_reach (addPid e pid uid m) T"
| mr_uidGone: "metrics_reach m T
    \<Longrightarrow> metrics_reach (mt_onUidGone e p uid m) (T \<union> set (fst (uo_onUidGone e p uid (mUidObserver m))))"

definition counts :: "metrics \<Rightarrow> int set \<Rightarrow> bool" where
  "counts m T \<longleftrightarrow> smap_ok (mClientConfigMap m)
     \<and> (\<forall>k c. smap_find (mClientConfigMap m) k = Some c \<longrightarrow> cp_id (cc_clientInfo c) = k)
     \<and> (\<forall>b. mConcurrentCodecsMap m b = entries (\<lambda>c. bucketOf c = b) (mClientConfigMap m))
     \<and> (\<forall>pid b. pid \<notin> T \<longrightarrow>
          (case smap_find (mProcessConcurrentCodecsMap m) pid of None \<Rightarrow> 0 | Some c \<Rightarrow> cu_mCurrent c b)
            = entries (\<lambda>c. pidOf c = pid \<and> bucketOf c = b) (mClientConfigMap m))
     \<and> (\<forall>pid c b. smap_find (mProcessConcurrentCodecsMap m) pid = Some c \<longrightarrow> cu_mCurrent c b \<le> cu_mPeak c b)"

text \<open>The parts of the state the counters do not depend on.\<close>

lemma pixels_frame [simp]:
  "mClientConfigMap (increasePixelCount pid n m) = mClientConfigMap m"
  "mConcurrentCodecsMap (increasePixelCount pid n m) = mConcurrentCodecsMap m"
  "mProcessConcurrentCodecsMap (increasePixelCount pid n m) = mProcessConcurrentCodecsMap m"
  "mClientConfigMap (decreasePixelCount pid n m) = mClientConfigMap m"
  "mConcurrentCodecsMap (decreasePixelCount pid n m) = mConcurrentCodecsMap m"
  "mProcessConcurrentCodecsMap (decreasePixelCount pid n m) = mProcessConcurrentCodecsMap m"
  "mClientConfigMap (increaseConcurrentCodecs pid b m) = mClientConfigMap m"
  "mClientConfigMap (decreaseConcurrentCodecs pid b m) = mClientConfigMap m"
  by (simp_all add: increasePixelCount_def decreasePixelCount_def increaseConcurrentCodecs_def decreaseConcurrentCodecs_def
      Let_def split: option.splits)

lemma countPixels_frame:
  assumes "countPixels increasePixelCount cfg m = Some m' \<or> countPixels decreasePixelCount cfg m = Some m'"
  shows "mClientConfigMap m' = mClientConfigMap m" "mConcurrentCodecsMap m' = mConcurrentCodecsMap m"
    "mProcessConcurrentCodecsMap m' = mProcessConcurrentCodecsMap m"
  using assms by (auto simp: countPixels_def split: if_splits)

lemma countTotals_current [simp]:
  "cu_mCurrent (countTotals d b c) = cu_mCurrent c" "cu_mPeak (countTotals d b c) = cu_mPeak c"
  by (simp_all add: countTotals_def Let_def)

lemma countsI:
  assumes "smap_ok (mClientConfigMap m)"
    and "\<And>k c. smap_find (mClientConfigMap m) k = Some c \<Longrightarrow> cp_id (cc_clientInfo c) = k"
    and "\<And>b. mConcurrentCodecsMap m b = entries (\<lambda>c. bucketOf c = b) (mClientConfigMap m)"
    and "\<And>pid b. pid \<notin> T \<Longrightarrow>
          (case smap_find (mProcessConcurrentCodecsMap m) pid of None \<Rightarrow> 0 | Some c \<Rightarrow> cu_mCurrent c b)
            = entries (\<lambda>c. pidOf c = pid \<and> bucketOf c = b) (mClientConfigMap m)"
    and "\<And>pid c b. smap_find (mProcessConcurrentCodecsMap m) pid = Some c \<Longrightarrow> cu_mCurrent c b \<le> cu_mPeak c b"
  shows "counts m T"
  using assms by (auto simp: counts_def)

lemma counts_frame:
  assumes "counts m T" "mClientConfigMap m' = mClientConfigMap m" "mConcurrentCodecsMap m' = mConcurrentCodecsMap m"
    "mProcessConcurrentCodecsMap m' = mProcessConcurrentCodecsMap m"
  shows "counts m' T"
  using assms by (simp add: counts_def)

lemma counts_started:
  assumes "counts m T" "smap_find (mClientConfigMap m) (cp_id (cc_clientInfo cfg)) = None" "mt_notifyClientStarted e cfg m = Some m'"
  shows "counts m' T"
proof -
  define pid where "pid = pidOf cfg"
  define b where "b = bucketOf cfg"
  define m1 where "m1 = m\<lparr>mUidObserver := uo_add e pid (word_of_int (cp_uid (cc_clientInfo cfg))) (mUidObserver m),
      mClientConfigMap := smap_set (cp_id (cc_clientInfo cfg)) cfg (mClientConfigMap m)\<rparr>"
  have "counts (increaseConcurrentCodecs pid b m1) T"
  proof (rule countsI)
    fix p c assume "p \<notin> T"
    with assms(1,2) show "(case smap_find (mProcessConcurrentCodecsMap (increaseConcurrentCodecs pid b m1)) p of
        None \<Rightarrow> 0 | Some d \<Rightarrow> cu_mCurrent d c)
      = entries (\<lambda>d. pidOf d = p \<and> bucketOf d = c) (mClientConfigMap (increaseConcurrentCodecs pid b m1))"
      unfolding counts_def
      by (cases "p = pid")
        (auto simp: m1_def pid_def b_def increaseConcurrentCodecs_def Let_def entries_set_new smap_simps split: option.splits)
  next
    fix p c d assume "smap_find (mProcessConcurrentCodecsMap (increaseConcurrentCodecs pid b m1)) p = Some c"
    with assms(1) show "cu_mCurrent c d \<le> cu_mPeak c d"
      by (cases "p = pid")
        (auto simp: counts_def m1_def increaseConcurrentCodecs_def Let_def smap_simps split: option.splits if_splits)
  qed (use assms(1,2) in \<open>auto simp: counts_def m1_def b_def increaseConcurrentCodecs_def Let_def entries_set_new smap_ok_set smap_simps split: if_splits\<close>)
  moreover obtain m2 where "countPixels increasePixelCount cfg (increaseConcurrentCodecs pid b m1) = Some m2"
    "mClientConfigMap m' = mClientConfigMap m2" "mConcurrentCodecsMap m' = mConcurrentCodecsMap m2"
    "mProcessConcurrentCodecsMap m' = mProcessConcurrentCodecsMap m2"
    using assms(3) by (auto simp: mt_notifyClientStarted_def Let_def m1_def pid_def b_def pidOf_def bucketOf_def)
  ultimately show ?thesis using countPixels_frame [of cfg "increaseConcurrentCodecs pid b m1" m2] by (auto intro: counts_frame)
qed

lemma counts_stopped:
  assumes "counts m T" "smap_find (mClientConfigMap m) (cp_id (cc_clientInfo cfg)) = Some started"
    "bucketOf cfg = bucketOf started" "pidOf cfg = pidOf started" "mt_notifyClientStopped cfg m = Some m'"
  shows "counts m' T"
proof -
  define pid where "pid = pidOf cfg"
  define b where "b = bucketOf cfg"
  define m1 where "m1 = decreaseConcurrentCodecs pid b m"
  define m2 where "m2 = m1\<lparr>mClientConfigMap := smap_erase (cp_id (cc_clientInfo cfg)) (mClientConfigMap m)\<rparr>"
  have er: "entries P (smap_erase (cp_id (cc_clientInfo cfg)) (mClientConfigMap m)) = entries P (mClientConfigMap m) - of_bool (P started)" for P
    using assms(1,2) by (intro entries_erase) (auto simp: counts_def)
  have pos: "0 < entries P (mClientConfigMap m)" if "P started" for P
    using er [of P] that entries_nonneg [of P "smap_erase (cp_id (cc_clientInfo cfg)) (mClientConfigMap m)"] by simp
  have sys: "mConcurrentCodecsMap m d = entries (\<lambda>c. bucketOf c = d) (mClientConfigMap m)" for d
    using assms(1) by (simp add: counts_def)
  have bk: "bucketOf started = b" "pidOf started = pid" using assms(3,4) by (simp_all add: b_def pid_def)
  have "counts m2 T"
  proof (rule countsI)
    show "mConcurrentCodecsMap m2 d = entries (\<lambda>c. bucketOf c = d) (mClientConfigMap m2)" for d
      using sys pos [of "\<lambda>c. bucketOf c = b"] bk
      by (auto simp: m2_def m1_def decreaseConcurrentCodecs_def Let_def er split: option.splits)
  next
    fix p d assume "p \<notin> T"
    with assms(1) have "(case smap_find (mProcessConcurrentCodecsMap m) p of None \<Rightarrow> 0 | Some c \<Rightarrow> cu_mCurrent c d)
        = entries (\<lambda>c. pidOf c = p \<and> bucketOf c = d) (mClientConfigMap m)" by (simp add: counts_def)
    then show "(case smap_find (mProcessConcurrentCodecsMap m2) p of None \<Rightarrow> 0 | Some c \<Rightarrow> cu_mCurrent c d)
        = entries (\<lambda>c. pidOf c = p \<and> bucketOf c = d) (mClientConfigMap m2)"
      using pos [of "\<lambda>c. pidOf c = p \<and> bucketOf c = d"] bk
      by (cases "p = pid"; cases "d = b")
        (auto simp: m2_def m1_def decreaseConcurrentCodecs_def Let_def er smap_simps split: option.splits if_splits)
  next
    fix p c d assume c: "smap_find (mProcessConcurrentCodecsMap m2) p = Some c"
    have pk: "cu_mCurrent x d \<le> cu_mPeak x d" if "smap_find (mProcessConcurrentCodecsMap m) q = Some x" for q x
      using assms(1) that by (simp add: counts_def)
    show "cu_mCurrent c d \<le> cu_mPeak c d"
    proof (cases "smap_find (mProcessConcurrentCodecsMap m) p")
      case None
      with c show ?thesis
        by (cases "p = pid") (auto simp: m2_def m1_def decreaseConcurrentCodecs_def Let_def smap_simps split: option.splits if_splits)
    next
      case (Some x)
      with c pk [OF Some] show ?thesis
        by (cases "p = pid") (auto simp: m2_def m1_def decreaseConcurrentCodecs_def Let_def smap_simps split: option.splits if_splits)
    qed
  qed (use assms(1) in \<open>auto simp: counts_def m2_def smap_ok_erase smap_simps split: if_splits\<close>)
  then show ?thesis
  proof (rule counts_frame)
    have "mClientConfigMap m' = mClientConfigMap m2 \<and> mConcurrentCodecsMap m' = mConcurrentCodecsMap m2
      \<and> mProcessConcurrentCodecsMap m' = mProcessConcurrentCodecsMap m2"
    proof -
      obtain m3 where m3: "countPixels decreasePixelCount cfg m1 = Some m3"
        using assms(5) by (auto simp: mt_notifyClientStopped_def Let_def m1_def pid_def b_def pidOf_def bucketOf_def Option.bind_eq_Some_conv)
      note fr = countPixels_frame [of cfg m1 m3, OF disjI2 [OF m3]]
      have "smap_find (mClientConfigMap m3) (cp_id (cc_clientInfo cfg)) = Some started" using fr(1) assms(2) by (simp add: m1_def)
      then show ?thesis
        using assms(5) m3 fr unfolding mt_notifyClientStopped_def Let_def m2_def
        by (auto simp: m1_def pid_def b_def pidOf_def bucketOf_def split: option.splits)
    qed
    then show "mClientConfigMap m' = mClientConfigMap m2" "mConcurrentCodecsMap m' = mConcurrentCodecsMap m2"
      "mProcessConcurrentCodecsMap m' = mProcessConcurrentCodecsMap m2" by simp_all
  qed
qed

lemma counts_released:
  assumes "counts m T" "mt_notifyClientReleased e ci m = Some m'"
  shows "counts m' T"
proof -
  obtain m1 where m1: "counts m1 T" and m': "m' = m1 \<or> (\<exists>x. m' = m1\<lparr>mConcurrentResourceCountMap := x\<rparr>)"
  proof (cases "smap_find (mClientConfigMap m) (cp_id ci)")
    case None
    with assms show ?thesis by (intro that [of m]) (auto simp: mt_notifyClientReleased_def split: option.splits if_splits)
  next
    case (Some cfg)
    then obtain m1 where m1: "mt_notifyClientStopped (cfg\<lparr>cc_timeStamp := systemTimeUs e\<rparr>) m = Some m1"
      using assms(2) by (auto simp: mt_notifyClientReleased_def split: option.splits)
    have "cp_id (cc_clientInfo cfg) = cp_id ci" using assms(1) Some by (simp add: counts_def)
    then have "counts m1 T" using Some
      by (intro counts_stopped [OF assms(1) _ _ _ m1, of cfg]) (simp_all add: bucketOf_def pidOf_def)
    then show ?thesis using m1 Some assms(2)
      by (intro that [of m1]) (auto simp: mt_notifyClientReleased_def split: option.splits if_splits)
  qed
  from m1 show ?thesis by (rule counts_frame) (use m' in auto)
qed

lemma counts_changed:
  assumes "counts m T" "mt_notifyClientConfigChanged cfg m = Some m'"
  shows "counts m' T"
proof (cases "smap_find (mClientConfigMap m) (cp_id (cc_clientInfo cfg))")
  case (Some entry)
  define new where "new = entry\<lparr>cc_width := cc_width cfg, cc_height := cc_height cfg\<rparr>"
  have same: "bucketOf new = bucketOf entry" "pidOf new = pidOf entry" "cc_clientInfo new = cc_clientInfo entry"
    by (simp_all add: new_def bucketOf_def pidOf_def)
  have old: "entries P (smap_set (cp_id (cc_clientInfo cfg)) new (mClientConfigMap m)) = entries P (mClientConfigMap m)"
    if "P new = P entry" for P
    using assms(1) Some that by (intro entries_set_old) (auto simp: counts_def)
  have "counts (m\<lparr>mClientConfigMap := smap_set (cp_id (cc_clientInfo cfg)) new (mClientConfigMap m)\<rparr>) T"
    by (rule countsI) (use assms(1) Some same in \<open>auto simp: counts_def old smap_simps smap_ok_set split: if_splits\<close>)
  then show ?thesis
  proof (cases "hasPixels (cc_codecType cfg)")
    case True
    assume "counts (m\<lparr>mClientConfigMap := smap_set (cp_id (cc_clientInfo cfg)) new (mClientConfigMap m)\<rparr>) T"
    then show ?thesis
      by (rule counts_frame)
        (use True Some assms(2) in \<open>auto simp: mt_notifyClientConfigChanged_def Let_def updatePixelCount_def new_def split: option.splits\<close>)
  qed (use assms Some in \<open>simp add: mt_notifyClientConfigChanged_def\<close>)
qed (use assms in \<open>simp add: mt_notifyClientConfigChanged_def\<close>)

lemma counts_uidGone:
  assumes "counts m T"
  shows "counts (mt_onUidGone e p uid m) (T \<union> set (fst (uo_onUidGone e p uid (mUidObserver m))))"
proof -
  have "counts (fold onProcessTerminated pids x) (T' \<union> set pids)" if "counts x T'" for pids x T'
    using that
  proof (induction pids arbitrary: x T')
    case (Cons pid pids)
    have "counts (onProcessTerminated pid x) (insert pid T')"
      by (rule countsI) (use Cons.prems in \<open>auto simp: counts_def onProcessTerminated_def smap_simps split: if_splits\<close>)
    from Cons.IH [OF this] show ?case by simp
  qed simp
  moreover have "counts (m\<lparr>mUidObserver := snd (uo_onUidGone e p uid (mUidObserver m))\<rparr>) T"
    by (rule counts_frame [OF assms]) simp_all
  ultimately show ?thesis by (simp add: mt_onUidGone_def split_beta)
qed

lemma metrics_reach_counts: "metrics_reach m T \<Longrightarrow> counts m T"
proof (induction rule: metrics_reach.induct)
  case (mr_new e)
  show ?case by (simp add: counts_def ResourceManagerMetrics_def entries_def)
next
  case (mr_created m T ci)
  show ?case by (rule counts_frame [OF mr_created.IH]) (simp_all add: mt_notifyClientCreated_def split: option.splits)
next
  case (mr_addPid m T e pid uid)
  show ?case by (rule counts_frame [OF mr_addPid.IH]) (simp_all add: addPid_def)
qed (blast intro: counts_started counts_stopped counts_released counts_changed counts_uidGone)+

text \<open>
  C20: as long as clients are started and stopped in turn, the number of concurrent codecs of each kind in the system is the number of clients
  that run, and the number for a process that was not reported to have ended is the number of its clients that run; the
  peak on record is never below the current number. Configuration changes, releases without a stop, and processes that
  end in between do not disturb the numbers.
\<close>
theorem concurrent_codecs_counted:
  assumes "metrics_reach m T"
  shows "mConcurrentCodecsMap m b = int (length (filter (\<lambda>(i, c). getCodecBucket (cc_isEncoder c) (cc_codecType c) = b) (mClientConfigMap m)))
     \<and> (pid \<notin> T \<longrightarrow>
      (case smap_find (mProcessConcurrentCodecsMap m) pid of None \<Rightarrow> 0 | Some u \<Rightarrow> cu_mCurrent u b)
        = int (length (filter (\<lambda>(i, c). cp_pid (cc_clientInfo c) = pid \<and> getCodecBucket (cc_isEncoder c) (cc_codecType c) = b)
            (mClientConfigMap m))))
     \<and> (\<forall>u. smap_find (mProcessConcurrentCodecsMap m) pid = Some u \<longrightarrow> cu_mCurrent u b \<le> cu_mPeak u b)"
  using metrics_reach_counts [OF assms]
  by (simp add: counts_def entries_length bucketOf_def pidOf_def case_prod_beta')

text \<open>A run for evaluation: client 3 of process 7 starts a video decoder.\<close>

definition started_config :: client_config where
  "started_config = \<lparr>cc_clientInfo = \<lparr>cp_pid = 7, cp_uid = 10, cp_id = 3, cp_name = [], cp_importance = 0\<rparr>,
     cc_codecType = kHwVideoCodec, cc_isEncoder = False, cc_width = 2, cc_height = 3, cc_timeStamp = 5, cc_id = 9\<rparr>"

definition started_metrics :: metrics where
  "started_metrics = the (mt_notifyClientStarted (sample_caller 7) started_config (ResourceManagerMetrics (sample_caller 7)))"

lemma started_metrics_run:
  "mt_notifyClientStarted (sample_caller 7) started_config (ResourceManagerMetrics (sample_caller 7)) = Some started_metrics"
  "mClientConfigMap started_metrics = [(3, started_config)]"
  by (simp_all add: started_metrics_def mt_notifyClientStarted_def Let_def ResourceManagerMetrics_def started_config_def countPixels_def
      hasPixels_def pixelsOf_def in_long_def increaseConcurrentCodecs_def increasePixelCount_def sample_caller_def)

lemma started_metrics_reach: "metrics_reach started_metrics {}"
  by (rule mr_started [OF mr_new _ started_metrics_run(1)]) (simp add: ResourceManagerMetrics_def)

theorem concurrent_codecs_counted_witness:
  "metrics_reach started_metrics {} \<and> mClientConfigMap started_metrics = [(3, started_config)]
   \<and> mConcurrentCodecsMap started_metrics HwVideoDecoder = 1 \<and> mConcurrentCodecsMap started_metrics HwVideoEncoder = 0
   \<and> (case smap_find (mProcessConcurrentCodecsMap started_metrics) 7 of None \<Rightarrow> 0 | Some u \<Rightarrow> cu_mCurrent u HwVideoDecoder) = 1"
  using concurrent_codecs_counted [OF started_metrics_reach, of HwVideoDecoder 7]
    concurrent_codecs_counted [OF started_metrics_reach, of HwVideoEncoder 7] started_metrics_reach
  by (simp add: started_metrics_run(2)) (simp add: started_config_def getCodecBucket_def)

text \<open>
  The totals of a process are indeterminate for good: a \<^verbatim>\<open>ConcurrentCodecs\<close> is made without them and they are only ever incremented and
  decremented, so every \<^verbatim>\<open>MEDIA_CODEC_STARTED\<close> atom reports what the memory held.
\<close>

definition no_totals :: "concurrent_codecs \<Rightarrow> bool" where
  "no_totals c \<longleftrightarrow> (mHWVideoCodecs c, mSWVideoCodecs c, mVideoCodecs c, mAudioCodecs c, mImageCodecs c) = (None, None, None, None, None)"

lemma no_totals_count [simp]: "no_totals (countTotals d b c) = no_totals c"
  by (auto simp: no_totals_def countTotals_def Let_def)

definition totals_unset :: "metrics \<Rightarrow> bool" where
  "totals_unset m \<longleftrightarrow> (\<forall>pid c. smap_find (mProcessConcurrentCodecsMap m) pid = Some c \<longrightarrow> no_totals c)"

lemma unset_frame: "totals_unset m \<Longrightarrow> mProcessConcurrentCodecsMap m' = mProcessConcurrentCodecsMap m \<Longrightarrow> totals_unset m'"
  by (simp add: totals_unset_def)

lemma unset_counted:
  "totals_unset m \<Longrightarrow> totals_unset (increaseConcurrentCodecs pid b m)"
  "totals_unset m \<Longrightarrow> totals_unset (decreaseConcurrentCodecs pid b m)"
  unfolding totals_unset_def
  by (auto simp: increaseConcurrentCodecs_def decreaseConcurrentCodecs_def Let_def smap_simps split: option.splits if_splits)
    (auto simp: no_totals_def)

lemma unset_ended: "totals_unset m \<Longrightarrow> totals_unset (fold onProcessTerminated pids m)"
proof (induction pids arbitrary: m)
  case (Cons pid pids)
  have "totals_unset (onProcessTerminated pid m)"
    using Cons.prems by (auto simp: totals_unset_def onProcessTerminated_def smap_simps split: if_splits)
  from Cons.IH [OF this] show ?case by simp
qed simp

lemma unset_stopped:
  assumes "totals_unset m" "mt_notifyClientStopped cfg m = Some m'"
  shows "totals_unset m'"
proof -
  obtain m1 where m1: "countPixels decreasePixelCount cfg (decreaseConcurrentCodecs (pidOf cfg) (bucketOf cfg) m) = Some m1"
    using assms(2) by (auto simp: mt_notifyClientStopped_def Let_def pidOf_def bucketOf_def Option.bind_eq_Some_conv)
  moreover have "mProcessConcurrentCodecsMap m' = mProcessConcurrentCodecsMap m1"
    using assms(2) m1 by (cases "smap_find (mClientConfigMap m1) (cp_id (cc_clientInfo cfg))")
      (auto simp: mt_notifyClientStopped_def Let_def pidOf_def bucketOf_def split: option.splits)
  ultimately have "mProcessConcurrentCodecsMap m' = mProcessConcurrentCodecsMap (decreaseConcurrentCodecs (pidOf cfg) (bucketOf cfg) m)"
    using countPixels_frame(3) by metis
  then show ?thesis by (rule unset_frame [OF unset_counted(2) [OF assms(1)]])
qed

lemma unset_started:
  assumes "totals_unset m" "mt_notifyClientStarted e cfg m = Some m'"
  shows "totals_unset m'"
proof -
  define m1 where "m1 = m\<lparr>mUidObserver := uo_add e (pidOf cfg) (word_of_int (cp_uid (cc_clientInfo cfg))) (mUidObserver m),
      mClientConfigMap := smap_set (cp_id (cc_clientInfo cfg)) cfg (mClientConfigMap m)\<rparr>"
  have "totals_unset m1" by (rule unset_frame [OF assms(1)]) (simp add: m1_def)
  moreover obtain m2 where m2: "countPixels increasePixelCount cfg (increaseConcurrentCodecs (pidOf cfg) (bucketOf cfg) m1) = Some m2"
    "mProcessConcurrentCodecsMap m' = mProcessConcurrentCodecsMap m2"
    using assms(2) by (auto simp: mt_notifyClientStarted_def Let_def m1_def pidOf_def bucketOf_def)
  moreover have "mProcessConcurrentCodecsMap m' = mProcessConcurrentCodecsMap (increaseConcurrentCodecs (pidOf cfg) (bucketOf cfg) m1)"
    using m2 countPixels_frame(3) by metis
  ultimately show ?thesis using unset_frame unset_counted(1) by blast
qed

lemma totals_indeterminate: "metrics_reach m T \<Longrightarrow> totals_unset m"
proof (induction rule: metrics_reach.induct)
  case (mr_released m T e ci m')
  then show ?case
    by (auto simp: mt_notifyClientReleased_def split: option.splits if_splits intro: unset_stopped unset_frame)
next
  case (mr_changed m T cfg m')
  then show ?case
    by (auto simp: mt_notifyClientConfigChanged_def Let_def updatePixelCount_def split: option.splits if_splits intro: unset_frame)
next
  case (mr_uidGone m T e p uid)
  then show ?case by (simp add: mt_onUidGone_def split_beta) (rule unset_ended, erule unset_frame, simp)
qed (auto simp: totals_unset_def ResourceManagerMetrics_def mt_notifyClientCreated_def addPid_def split: option.splits
    dest: unset_started [unfolded totals_unset_def] unset_stopped [unfolded totals_unset_def])

end
