(* ===== verification/Resource_Service.thy ===== *)
theory Resource_Service
  imports Resource_Observer Resource_Metrics
begin

text \<open>
  \<^verbatim>\<open>ResourceManagerService.cpp\<close>: the resources on record for each client of each process, and the operations
  that change them. The choice of the clients to take resources from is in \<open>Resource_Selection\<close>.

  The members of the class are a record. Calls to other parts of the system (the battery and scheduling services, the
  resource monitor, the observers, the clients) are recorded in \<open>mCalls\<close> in their order. \<^verbatim>\<open>ResourceManagerServiceNew\<close>
  inherits the members: its state extends the record, so the operations here apply to it, too.
\<close>

section \<open>State\<close>

datatype monitor_type = TYPE_AUDIO_CODEC | TYPE_VIDEO_CODEC | TYPE_IMAGE_CODEC

datatype rm_call =
    CpusetBoost bool
  | NoteStartVideo uid
  | NoteStopVideo uid
  | NoteResetVideo
  | ResourceGranted int monitor_type
  | StatusChanged status_change
  | ReclaimResource client

record rms =
  mSupportsMultipleSecureCodecs :: bool
  mSupportsSecureWithNonSecureCodec :: bool
  mCpuBoostCount :: int
  mMap :: pid_map
  mOverridePidMap :: "(int, int) smap"
  mProcessInfoOverrideMap :: "(int, client) smap"
  mObserverService :: "observer_service option"
  mResourceManagerMetrics :: metrics
  mProcessInfo :: process_info
  mCalls :: "rm_call list"

definition ResourceManagerService :: "rm_env \<Rightarrow> process_info \<Rightarrow> rms" where
  "ResourceManagerService e processInfo =
     \<lparr>mSupportsMultipleSecureCodecs = True, mSupportsSecureWithNonSecureCodec = True, mCpuBoostCount = 0, mMap = [],
      mOverridePidMap = [], mProcessInfoOverrideMap = [], mObserverService = None,
      mResourceManagerMetrics = ResourceManagerMetrics e, mProcessInfo = processInfo, mCalls = [NoteResetVideo]\<rparr>"

definition rm_emit :: "rm_call list \<Rightarrow> 'a rms_scheme \<Rightarrow> 'a rms_scheme" where
  "rm_emit calls s = s\<lparr>mCalls := mCalls s @ calls\<rparr>"

definition setObserverService :: "observer_service \<Rightarrow> 'a rms_scheme \<Rightarrow> 'a rms_scheme" where
  "setObserverService observerService s = s\<lparr>mObserverService := Some observerService\<rparr>"

definition configOne :: "string \<times> string \<Rightarrow> 'a rms_scheme \<Rightarrow> 'a rms_scheme" where
  "configOne policy s =
     (if fst policy = ''supports-multiple-secure-codecs'' then s\<lparr>mSupportsMultipleSecureCodecs := (snd policy = ''true'')\<rparr>
      else if fst policy = ''supports-secure-with-non-secure-codec''
        then s\<lparr>mSupportsSecureWithNonSecureCodec := (snd policy = ''true'')\<rparr>
      else s)"

definition config :: "(string \<times> string) list \<Rightarrow> 'a rms_scheme \<Rightarrow> 'a rms_scheme" where
  "config policies s = fold configOne policies s"

section \<open>What other services are told\<close>

definition isVideoBattery :: "media_resource \<Rightarrow> bool" where
  "isVideoBattery res \<longleftrightarrow>
     mr_type res = kBattery \<and> (mr_subType res = kHwVideoCodec \<or> mr_subType res = kSwVideoCodec)"

definition isCpuBoost :: "media_resource \<Rightarrow> bool" where
  "isCpuBoost res \<longleftrightarrow> mr_type res = kCpuBoost \<and> mr_subType res = kUnspecifiedSubType"

definition onFirstAdded :: "uid \<Rightarrow> media_resource \<Rightarrow> 'a rms_scheme \<Rightarrow> 'a rms_scheme" where
  "onFirstAdded uid res s =
     (if isCpuBoost res then
        (rm_emit [CpusetBoost True] s)\<lparr>mCpuBoostCount := mCpuBoostCount s + 1\<rparr>
      else if isVideoBattery res then rm_emit [NoteStartVideo uid] s
      else s)"

definition onLastRemoved :: "uid \<Rightarrow> media_resource \<Rightarrow> 'a rms_scheme \<Rightarrow> 'a rms_scheme" where
  "onLastRemoved uid res s =
     (if isCpuBoost res \<and> mCpuBoostCount s > 0 then
        let s = s\<lparr>mCpuBoostCount := mCpuBoostCount s - 1\<rparr>
        in if mCpuBoostCount s = 0 then rm_emit [CpusetBoost False] s else s
      else if isVideoBattery res then rm_emit [NoteStopVideo uid] s
      else s)"

definition grantedType :: "media_resource \<Rightarrow> monitor_type option" where
  "grantedType res =
     (case mr_subType res of
        kHwAudioCodec \<Rightarrow> Some TYPE_AUDIO_CODEC | kSwAudioCodec \<Rightarrow> Some TYPE_AUDIO_CODEC
      | kHwVideoCodec \<Rightarrow> Some TYPE_VIDEO_CODEC | kSwVideoCodec \<Rightarrow> Some TYPE_VIDEO_CODEC
      | kHwImageCodec \<Rightarrow> Some TYPE_IMAGE_CODEC | kSwImageCodec \<Rightarrow> Some TYPE_IMAGE_CODEC
      | kUnspecifiedSubType \<Rightarrow> None)"

definition notifyResourceGranted :: "rm_env \<Rightarrow> int \<Rightarrow> media_resource list \<Rightarrow> 'a rms_scheme \<Rightarrow> 'a rms_scheme" where
  "notifyResourceGranted e pid resources s =
     (if resourceMonitor e then rm_emit (map (ResourceGranted pid) (List.map_filter grantedType resources)) s else s)"

text \<open>The observers are told of added and removed resources when there is an observer service and there is something to tell.\<close>

definition observersAdded :: "int \<Rightarrow> int \<Rightarrow> media_resource list \<Rightarrow> 'a rms_scheme \<Rightarrow> 'a rms_scheme" where
  "observersAdded uid pid added s =
     (case mObserverService s of
        None \<Rightarrow> s
      | Some obs \<Rightarrow> if added = [] then s else rm_emit (map StatusChanged (os_onResourceAdded uid pid added obs)) s)"

definition observersRemoved :: "int \<Rightarrow> int \<Rightarrow> media_resource list \<Rightarrow> 'a rms_scheme \<Rightarrow> 'a rms_scheme" where
  "observersRemoved uid pid removed s =
     (case mObserverService s of
        None \<Rightarrow> s
      | Some obs \<Rightarrow> if removed = [] then s else rm_emit (map StatusChanged (os_onResourceRemoved uid pid removed obs)) s)"

section \<open>Adding and removing resources\<close>

text \<open>The bodies of the two loops: the resources held, the list for the observers, and the service.\<close>

definition addOne ::
    "uid \<Rightarrow> media_resource \<Rightarrow> media_resource list \<times> media_resource list \<times> 'a rms_scheme
       \<Rightarrow> (media_resource list \<times> media_resource list \<times> 'a rms_scheme) ub" where
  "addOne uid res st =
     (case st of (held, added, s) \<Rightarrow>
        if mr_value res < 0 \<and> mr_type res \<noteq> kDrmSession then Some (held, added, s)
        else
          (case rl_add res held of
             None \<Rightarrow> None
           | Some (ok, isNewEntry, held) \<Rightarrow>
               if \<not> ok then Some (held, added, s)
               else
                 (case rl_add res added of
                    None \<Rightarrow> None
                  | Some (_, _, added) \<Rightarrow> Some (held, added, if isNewEntry then onFirstAdded uid res s else s))))"

definition removeOne ::
    "uid \<Rightarrow> media_resource \<Rightarrow> media_resource list \<times> media_resource list \<times> 'a rms_scheme
       \<Rightarrow> (media_resource list \<times> media_resource list \<times> 'a rms_scheme) ub" where
  "removeOne uid res st =
     (case st of (held, removed, s) \<Rightarrow>
        if mr_value res < 0 then Some (held, removed, s)
        else
          (case rl_remove (mLong (mResourceManagerMetrics s)) res held of
             None \<Rightarrow> None
           | Some (ok, removedEntryValue, held) \<Rightarrow>
               if \<not> ok then Some (held, removed, s)
               else
                 let s = (if removedEntryValue \<noteq> - 1 then onLastRemoved uid res s else s);
                     actualRemoved = (if removedEntryValue \<noteq> - 1 then res\<lparr>mr_value := removedEntryValue\<rparr> else res)
                 in (case rl_add actualRemoved removed of
                       None \<Rightarrow> None
                     | Some (_, _, removed) \<Rightarrow> Some (held, removed, s))))"

definition addResource ::
    "rm_env \<Rightarrow> client_info_parcel \<Rightarrow> client option \<Rightarrow> media_resource list \<Rightarrow> 'a rms_scheme \<Rightarrow> 'a rms_scheme ub" where
  "addResource e clientInfo client resources s =
     (let trusted = isPidUidTrusted e (cp_pid clientInfo) (cp_uid clientInfo);
          pid = (if trusted then cp_pid clientInfo else callingPid e);
          uid = (if trusted then cp_uid clientInfo else callingUid e);
          (infos, m) = getResourceInfosForEdit pid (mMap s);
          (info, infos) = getResourceInfoForEdit clientInfo client infos
      in case foldM (addOne (ri_uid info)) resources (ri_resources info, [], s) of
           None \<Rightarrow> None
         | Some (held, added, s) \<Rightarrow>
             let info = info\<lparr>ri_resources := held,
                             ri_deathNotifier := (if ri_deathNotifier info = None \<and> client \<noteq> None then Some clientInfo
                                                  else ri_deathNotifier info)\<rparr>;
                 s = s\<lparr>mMap := smap_set pid (smap_set (cp_id clientInfo) info infos) m\<rparr>;
                 s = observersAdded uid pid added s
             in Some (notifyResourceGranted e pid resources s))"

definition removeResource ::
    "rm_env \<Rightarrow> client_info_parcel \<Rightarrow> media_resource list \<Rightarrow> 'a rms_scheme \<Rightarrow> 'a rms_scheme ub" where
  "removeResource e clientInfo resources s =
     (let pid = (if isPidTrusted e (cp_pid clientInfo) then cp_pid clientInfo else callingPid e)
      in case smap_find (mMap s) pid of
           None \<Rightarrow> Some s
         | Some infos \<Rightarrow>
             (case smap_find infos (cp_id clientInfo) of
                None \<Rightarrow> Some s
              | Some info \<Rightarrow>
                  (case foldM (removeOne (ri_uid info)) resources (ri_resources info, [], s) of
                     None \<Rightarrow> None
                   | Some (held, removed, s) \<Rightarrow>
                       let s = s\<lparr>mMap := putInfo pid (cp_id clientInfo) (info\<lparr>ri_resources := held\<rparr>) (mMap s)\<rparr>
                       in Some (observersRemoved (sint (ri_uid info)) pid removed s))))"

definition removeClientResources ::
    "rm_env \<Rightarrow> client_info_parcel \<Rightarrow> bool \<Rightarrow> 'a rms_scheme \<Rightarrow> 'a rms_scheme ub" where
  "removeClientResources e clientInfo checkValid s =
     (let pid = (if checkValid \<and> \<not> isPidTrusted e (cp_pid clientInfo) then callingPid e else cp_pid clientInfo)
      in case smap_find (mMap s) pid of
           None \<Rightarrow> Some s
         | Some infos \<Rightarrow>
             (case smap_find infos (cp_id clientInfo) of
                None \<Rightarrow> Some s
              | Some info \<Rightarrow>
                  let s = fold (onLastRemoved (ri_uid info)) (ri_resources info) s
                  in (case mt_notifyClientReleased e clientInfo (mResourceManagerMetrics s) of
                        None \<Rightarrow> None
                      | Some m \<Rightarrow>
                          let s = s\<lparr>mResourceManagerMetrics := m\<rparr>;
                              s = observersRemoved (sint (ri_uid info)) pid (ri_resources info) s
                          in Some (s\<lparr>mMap := smap_set pid (smap_erase (cp_id clientInfo) infos) (mMap s)\<rparr>))))"

definition removeClient :: "rm_env \<Rightarrow> client_info_parcel \<Rightarrow> 'a rms_scheme \<Rightarrow> 'a rms_scheme ub" where
  "removeClient e clientInfo s = removeClientResources e clientInfo True s"

definition markClientForPendingRemoval :: "rm_env \<Rightarrow> client_info_parcel \<Rightarrow> 'a rms_scheme \<Rightarrow> 'a rms_scheme" where
  "markClientForPendingRemoval e clientInfo s =
     (let pid = (if isPidTrusted e (cp_pid clientInfo) then cp_pid clientInfo else callingPid e)
      in case smap_find (mMap s) pid of
           None \<Rightarrow> s
         | Some infos \<Rightarrow>
             (case smap_find infos (cp_id clientInfo) of
                None \<Rightarrow> s
              | Some info \<Rightarrow>
                  s\<lparr>mMap := putInfo pid (cp_id clientInfo) (info\<lparr>ri_pendingRemoval := True\<rparr>) (mMap s)\<rparr>))"

text \<open>The client on record for an id, and its removal after a failed reclaim.\<close>

definition getClient_l :: "int \<Rightarrow> int \<Rightarrow> 'a rms_scheme \<Rightarrow> client option" where
  "getClient_l pid clientId s =
     (case smap_find (mMap s) pid of
        None \<Rightarrow> None
      | Some infos \<Rightarrow> (case smap_find infos clientId of None \<Rightarrow> None | Some info \<Rightarrow> ri_client info))"

definition removeClient_l :: "int \<Rightarrow> int \<Rightarrow> 'a rms_scheme \<Rightarrow> bool \<times> 'a rms_scheme" where
  "removeClient_l pid clientId s =
     (case smap_find (mMap s) pid of
        None \<Rightarrow> (False, s)
      | Some infos \<Rightarrow>
          (case smap_find infos clientId of
             None \<Rightarrow> (False, s)
           | Some info \<Rightarrow> (True, s\<lparr>mMap := smap_set pid (smap_erase clientId infos) (mMap s)\<rparr>)))"

section \<open>Virtual methods\<close>

text \<open>
  \<^verbatim>\<open>ResourceManagerServiceNew\<close> inherits the operations below, and those that take resources from clients, and
  overrides methods that they call. The methods called are an argument of these operations, like the table of the virtual
  methods of the class. The choice of the clients to ask may be undefined (\<open>None\<close>).
\<close>

record 's vtable =
  v_getTargetClients :: "rm_env \<Rightarrow> client_info_parcel \<Rightarrow> media_resource list \<Rightarrow> 's \<Rightarrow> (bool \<times> client_info list) ub"
  v_getPriority_l :: "rm_env \<Rightarrow> 's \<Rightarrow> int \<Rightarrow> int option"
  v_getClient_l :: "int \<Rightarrow> int \<Rightarrow> 's \<Rightarrow> client option"
  v_removeClient_l :: "int \<Rightarrow> int \<Rightarrow> 's \<Rightarrow> bool \<times> 's"
  v_overridePid_l :: "int \<Rightarrow> int \<Rightarrow> 's \<Rightarrow> bool \<times> 's"
  v_overrideProcessInfo_l :: "client \<Rightarrow> int \<Rightarrow> int \<Rightarrow> int \<Rightarrow> 's \<Rightarrow> bool \<times> 's"
  v_removeProcessInfoOverride :: "int \<Rightarrow> 's \<Rightarrow> 's"
  v_removeResource :: "rm_env \<Rightarrow> client_info_parcel \<Rightarrow> bool \<Rightarrow> 's \<Rightarrow> 's ub"

section \<open>Overrides\<close>

definition overridePid_l :: "int \<Rightarrow> int \<Rightarrow> 'a rms_scheme \<Rightarrow> bool \<times> 'a rms_scheme" where
  "overridePid_l originalPid newPid s =
     (let s = s\<lparr>mOverridePidMap := smap_erase originalPid (mOverridePidMap s)\<rparr>
      in if newPid \<noteq> - 1
         then (True, s\<lparr>mOverridePidMap := smap_emplace originalPid newPid (mOverridePidMap s)\<rparr>)
         else (False, s))"

definition mayOverridePid :: "rm_env \<Rightarrow> bool" where
  "mayOverridePid e \<longleftrightarrow>
     callingPid e = selfPid e \<or> permitted e ''android.permission.MEDIA_RESOURCE_OVERRIDE_PID''"

definition overridePid :: "'a rms_scheme vtable \<Rightarrow> rm_env \<Rightarrow> int \<Rightarrow> int \<Rightarrow> 'a rms_scheme \<Rightarrow> status \<times> 'a rms_scheme" where
  "overridePid v e originalPid newPid s =
     (if \<not> mayOverridePid e then (PERMISSION_DENIED, s)
      else
        let (overridden, s) = v_overridePid_l v originalPid newPid s
        in (Ok, if overridden then s\<lparr>mResourceManagerMetrics := addPid e newPid 0 (mResourceManagerMetrics s)\<rparr> else s))"

definition removeProcessInfoOverride_l :: "int \<Rightarrow> 'a rms_scheme \<Rightarrow> 'a rms_scheme" where
  "removeProcessInfoOverride_l pid s =
     (case smap_find (mProcessInfoOverrideMap s) pid of
        None \<Rightarrow> s
      | Some _ \<Rightarrow>
          s\<lparr>mProcessInfo := pi_removeProcessInfoOverride pid (mProcessInfo s),
            mProcessInfoOverrideMap := smap_erase pid (mProcessInfoOverrideMap s)\<rparr>)"

definition overrideProcessInfo_l ::
    "client \<Rightarrow> int \<Rightarrow> int \<Rightarrow> int \<Rightarrow> 'a rms_scheme \<Rightarrow> bool \<times> 'a rms_scheme" where
  "overrideProcessInfo_l client pid procState oomScore s =
     (let s = removeProcessInfoOverride_l pid s;
          (accepted, p) = pi_overrideProcessInfo pid procState oomScore (mProcessInfo s);
          s = s\<lparr>mProcessInfo := p\<rparr>
      in if \<not> accepted then (False, s)
         else (True, s\<lparr>mProcessInfoOverrideMap := smap_emplace pid client (mProcessInfoOverrideMap s)\<rparr>))"

definition mayOverrideProcessInfo :: "rm_env \<Rightarrow> int \<Rightarrow> bool" where
  "mayOverrideProcessInfo e pid \<longleftrightarrow>
     \<not> (callingPid e \<noteq> selfPid e \<and>
        (callingPid e \<noteq> pid \<or> \<not> permitted e ''android.permission.GET_PROCESS_STATE_AND_OOM_SCORE''))"

definition overrideProcessInfo ::
    "'a rms_scheme vtable \<Rightarrow> rm_env \<Rightarrow> client option \<Rightarrow> int \<Rightarrow> int \<Rightarrow> int \<Rightarrow> 'a rms_scheme \<Rightarrow> status \<times> 'a rms_scheme" where
  "overrideProcessInfo v e client pid procState oomScore s =
     (if \<not> mayOverrideProcessInfo e pid then (PERMISSION_DENIED, s)
      else case client of
        None \<Rightarrow> (BAD_VALUE, s)
      | Some client \<Rightarrow>
          let (accepted, s) = v_overrideProcessInfo_l v client pid procState oomScore s
          in (if accepted then Ok else BAD_VALUE, s))"

definition removeProcessInfoOverride :: "int \<Rightarrow> 'a rms_scheme \<Rightarrow> 'a rms_scheme" where
  "removeProcessInfoOverride pid s = removeProcessInfoOverride_l pid s"

section \<open>Death of a client\<close>

definition dn_binderDied :: "'a rms_scheme vtable \<Rightarrow> rm_env \<Rightarrow> client_info_parcel \<Rightarrow> 'a rms_scheme \<Rightarrow> 'a rms_scheme ub" where
  "dn_binderDied v e clientInfo s =
     (let s = snd (overridePid v e (cp_pid clientInfo) (- 1) s) in v_removeResource v e clientInfo False s)"

definition override_binderDied :: "'a rms_scheme vtable \<Rightarrow> client_info_parcel \<Rightarrow> 'a rms_scheme \<Rightarrow> 'a rms_scheme" where
  "override_binderDied v clientInfo s = v_removeProcessInfoOverride v (cp_pid clientInfo) s"

section \<open>Notifications passed to the metrics\<close>

definition rm_metrics :: "(metrics \<Rightarrow> metrics) \<Rightarrow> 'a rms_scheme \<Rightarrow> 'a rms_scheme" where
  "rm_metrics f s = s\<lparr>mResourceManagerMetrics := f (mResourceManagerMetrics s)\<rparr>"

definition notifyClientCreated :: "client_info_parcel \<Rightarrow> 'a rms_scheme \<Rightarrow> 'a rms_scheme" where
  "notifyClientCreated clientInfo s = rm_metrics (mt_notifyClientCreated clientInfo) s"

definition rm_metrics_ub :: "(metrics \<Rightarrow> metrics ub) \<Rightarrow> 'a rms_scheme \<Rightarrow> 'a rms_scheme ub" where
  "rm_metrics_ub f s = map_option (\<lambda>m. s\<lparr>mResourceManagerMetrics := m\<rparr>) (f (mResourceManagerMetrics s))"

definition notifyClientStarted :: "rm_env \<Rightarrow> client_config \<Rightarrow> 'a rms_scheme \<Rightarrow> 'a rms_scheme ub" where
  "notifyClientStarted e cfg s = rm_metrics_ub (mt_notifyClientStarted e cfg) s"

definition notifyClientStopped :: "client_config \<Rightarrow> 'a rms_scheme \<Rightarrow> 'a rms_scheme ub" where
  "notifyClientStopped cfg s = rm_metrics_ub (mt_notifyClientStopped cfg) s"

definition notifyClientConfigChanged :: "client_config \<Rightarrow> 'a rms_scheme \<Rightarrow> 'a rms_scheme ub" where
  "notifyClientConfigChanged cfg s = rm_metrics_ub (mt_notifyClientConfigChanged cfg) s"

end
