(* ===== verification/Resource_Selection.thy ===== *)
theory Resource_Selection
  imports Resource_Service
begin

text \<open>
  \<^verbatim>\<open>ResourceManagerService.cpp\<close>, continued: which clients a process may take resources from, and how they are
  taken.

  The loops over the maps of clients are folds over the clients in the order of the maps. While a client is asked
  to give up its resources the lock is not held; what the service does in the meantime is an argument of the
  loop that asks the clients.
\<close>

section \<open>Priorities\<close>

definition getPriority_l :: "rm_env \<Rightarrow> 'a rms_scheme \<Rightarrow> int \<Rightarrow> int option" where
  "getPriority_l e s pid =
     (let newPid = (case smap_find (mOverridePidMap s) pid of Some p \<Rightarrow> p | None \<Rightarrow> pid)
      in getPriority e (mProcessInfo s) newPid)"

definition isCallingPriorityHigher_l :: "rm_env \<Rightarrow> 'a rms_scheme \<Rightarrow> int \<Rightarrow> int \<Rightarrow> bool" where
  "isCallingPriorityHigher_l e s caller pid =
     (case getPriority_l e s caller of
        None \<Rightarrow> False
      | Some callingPidPriority \<Rightarrow>
          (case getPriority_l e s pid of
             None \<Rightarrow> False
           | Some priority \<Rightarrow> callingPidPriority < priority))"

section \<open>Searching the clients\<close>

text \<open>The clients of all processes, in iteration order.\<close>

definition allInfos :: "pid_map \<Rightarrow> (int \<times> int \<times> resource_info) list" where
  "allInfos m = concat (map (\<lambda>(pid, infos). map (\<lambda>(clientId, info). (pid, clientId, info)) infos) m)"

text \<open>
  The biggest client: the comparison with the largest value so far is unsigned. The state of the loops is the uid and
  the id of the client and that value; the id - 1 stands for no client.
\<close>

type_synonym biggest = "uid \<times> int \<times> int"

definition unsigned64 :: "int \<Rightarrow> int" where
  "unsigned64 x = x mod 2 ^ 64"

definition biggestResource ::
    "res_type \<Rightarrow> res_subtype \<Rightarrow> resource_info \<Rightarrow> media_resource \<Rightarrow> biggest \<Rightarrow> biggest" where
  "biggestResource type subType info resource b =
     (case b of (uid, clientId, largestValue) \<Rightarrow>
        if hasResourceType type subType resource \<and> unsigned64 (mr_value resource) > largestValue
        then (ri_uid info, ri_clientId info, unsigned64 (mr_value resource))
        else b)"

definition biggestInfo :: "res_type \<Rightarrow> res_subtype \<Rightarrow> resource_info \<Rightarrow> biggest \<Rightarrow> biggest" where
  "biggestInfo type subType info b = fold (biggestResource type subType info) (ri_resources info) b"

definition noBiggest :: biggest where
  "noBiggest = (- 1, - 1, 0)"

text \<open>The client found, in a process.\<close>

definition biggestClient :: "int \<Rightarrow> biggest \<Rightarrow> client_info option" where
  "biggestClient pid b =
     (case b of (uid, clientId, _) \<Rightarrow>
        if clientId = - 1 then None else Some \<lparr>mPid = pid, mUid = uid, mClientId = clientId\<rparr>)"

definition getBiggestClient_l ::
    "int \<Rightarrow> res_type \<Rightarrow> res_subtype \<Rightarrow> bool \<Rightarrow> 'a rms_scheme \<Rightarrow> client_info option" where
  "getBiggestClient_l pid type subType pendingRemovalOnly s =
     (case smap_find (mMap s) pid of
        None \<Rightarrow> None
      | Some infos \<Rightarrow>
          biggestClient pid
            (fold (\<lambda>(clientId, info) b.
                     if pendingRemovalOnly \<and> \<not> ri_pendingRemoval info then b else biggestInfo type subType info b)
               infos noBiggest))"

definition getBiggestClientPendingRemoval_l ::
    "int \<Rightarrow> res_type \<Rightarrow> res_subtype \<Rightarrow> 'a rms_scheme \<Rightarrow> client_info option" where
  "getBiggestClientPendingRemoval_l pid type subType s = getBiggestClient_l pid type subType True s"

text \<open>
  The process with the lowest priority so far and its priority; the pid - 1 stands for none. A process is skipped
  (\<open>None\<close>) when it has no such resource or no priority.
\<close>

definition keepLowest :: "(int \<times> int) option \<Rightarrow> int \<times> int \<Rightarrow> int \<times> int" where
  "keepLowest candidate lowest =
     (case candidate of
        None \<Rightarrow> lowest
      | Some (tempPid, tempPriority) \<Rightarrow>
          if fst lowest = - 1 \<or> tempPriority > snd lowest then (tempPid, tempPriority) else lowest)"

definition lowestFound :: "int \<times> int \<Rightarrow> (int \<times> int) option" where
  "lowestFound lowest = (if fst lowest \<noteq> - 1 then Some lowest else None)"

definition lowestCandidate ::
    "rm_env \<Rightarrow> res_type \<Rightarrow> res_subtype \<Rightarrow> 'a rms_scheme \<Rightarrow> int \<times> resource_infos \<Rightarrow> (int \<times> int) option" where
  "lowestCandidate e type subType s entry =
     (case entry of (tempPid, infos) \<Rightarrow>
        if infos = [] then None
        else if \<not> infosHaveResourceType type subType infos then None
        else map_option (Pair tempPid) (getPriority_l e s tempPid))"

definition getLowestPriorityPid_l ::
    "rm_env \<Rightarrow> res_type \<Rightarrow> res_subtype \<Rightarrow> 'a rms_scheme \<Rightarrow> (int \<times> int) option" where
  "getLowestPriorityPid_l e type subType s =
     lowestFound (fold (\<lambda>entry. keepLowest (lowestCandidate e type subType s entry)) (mMap s) (- 1, - 1))"

definition getLowestPriorityBiggestClient_l ::
    "rm_env \<Rightarrow> int \<Rightarrow> res_type \<Rightarrow> res_subtype \<Rightarrow> 'a rms_scheme \<Rightarrow> client_info option" where
  "getLowestPriorityBiggestClient_l e caller type subType s =
     (case getPriority_l e s caller of
        None \<Rightarrow> None
      | Some callingPriority \<Rightarrow>
          (case getLowestPriorityPid_l e type subType s of
             None \<Rightarrow> None
           | Some (lowestPriorityPid, lowestPriority) \<Rightarrow>
               if lowestPriority \<le> callingPriority then None
               else getBiggestClient_l lowestPriorityPid type subType False s))"

text \<open>All clients with a resource, unless one belongs to a process the caller has no precedence over.\<close>

fun allClientsLoop ::
    "rm_env \<Rightarrow> 'a rms_scheme \<Rightarrow> int \<Rightarrow> int \<Rightarrow> res_type \<Rightarrow> res_subtype \<Rightarrow> (int \<times> int \<times> resource_info) list \<Rightarrow> client_info list
       \<Rightarrow> bool \<times> client_info list" where
  "allClientsLoop e s caller callerId type subType [] clientsInfo = (True, clientsInfo)"
| "allClientsLoop e s caller callerId type subType ((pid, clientId, info) # rest) clientsInfo =
     (if pid = caller \<and> clientId = callerId then allClientsLoop e s caller callerId type subType rest clientsInfo
      else if listHasResourceType type subType (ri_resources info) then
        if \<not> isCallingPriorityHigher_l e s caller pid then (False, [])
        else allClientsLoop e s caller callerId type subType rest
               (clientsInfo @ [\<lparr>mPid = pid, mUid = ri_uid info, mClientId = ri_clientId info\<rparr>])
      else allClientsLoop e s caller callerId type subType rest clientsInfo)"

definition getAllClients_l ::
    "rm_env \<Rightarrow> int \<Rightarrow> int \<Rightarrow> res_type \<Rightarrow> res_subtype \<Rightarrow> client_info list \<Rightarrow> 'a rms_scheme \<Rightarrow> bool \<times> client_info list" where
  "getAllClients_l e caller callerId type subType clientsInfo s =
     allClientsLoop e s caller callerId type subType (allInfos (mMap s)) clientsInfo"

definition getClientForResource_l ::
    "rm_env \<Rightarrow> int \<Rightarrow> res_type \<Rightarrow> res_subtype \<Rightarrow> 'a rms_scheme \<Rightarrow> client_info list \<Rightarrow> client_info list" where
  "getClientForResource_l e caller type subType s clientsInfo =
     (case getBiggestClientPendingRemoval_l caller type subType s of
        Some client \<Rightarrow> clientsInfo @ [client]
      | None \<Rightarrow>
          (case getLowestPriorityBiggestClient_l e caller type subType s of
             Some client \<Rightarrow> clientsInfo @ [client]
           | None \<Rightarrow> clientsInfo))"

section \<open>The clients to take resources from\<close>

definition lastOfType :: "res_type \<Rightarrow> media_resource list \<Rightarrow> media_resource option" where
  "lastOfType type resources = find (\<lambda>res. mr_type res = type) (rev resources)"

definition forResource ::
    "rm_env \<Rightarrow> int \<Rightarrow> media_resource option \<Rightarrow> (media_resource \<Rightarrow> res_type) \<Rightarrow> 'a rms_scheme \<Rightarrow> client_info list \<Rightarrow> client_info list" where
  "forResource e caller res type s clients =
     (case res of None \<Rightarrow> clients | Some r \<Rightarrow> getClientForResource_l e caller (type r) (mr_subType r) s clients)"

text \<open>The first pass: conflicts between secure and non-secure codecs. \<open>None\<close>: the request cannot be met.\<close>

definition conflictPass ::
    "rm_env \<Rightarrow> int \<Rightarrow> int \<Rightarrow> media_resource option \<Rightarrow> media_resource option \<Rightarrow> 'a rms_scheme \<Rightarrow> client_info list option" where
  "conflictPass e caller callerId secureCodec nonSecureCodec s =
     (let step = (\<lambda>needed type subType clients.
            case clients of
              None \<Rightarrow> None
            | Some cs \<Rightarrow>
                if needed then
                  (case getAllClients_l e caller callerId type subType cs s of (ok, cs) \<Rightarrow> if ok then Some cs else None)
                else Some cs);
          afterSecure = (case secureCodec of
            None \<Rightarrow> Some []
          | Some r \<Rightarrow>
              step (\<not> mSupportsSecureWithNonSecureCodec s) kNonSecureCodec (mr_subType r)
                (step (\<not> mSupportsMultipleSecureCodecs s) kSecureCodec (mr_subType r) (Some [])))
      in case nonSecureCodec of
           None \<Rightarrow> afterSecure
         | Some r \<Rightarrow> step (\<not> mSupportsSecureWithNonSecureCodec s) kSecureCodec (mr_subType r) afterSecure)"

text \<open>The other passes.\<close>

definition otherPasses ::
    "rm_env \<Rightarrow> int \<Rightarrow> media_resource option \<Rightarrow> media_resource option \<Rightarrow> media_resource option \<Rightarrow> 'a rms_scheme
       \<Rightarrow> client_info list \<Rightarrow> client_info list" where
  "otherPasses e caller secureCodec nonSecureCodec graphicMemory s clients =
     (let clients = (if clients = [] then forResource e caller graphicMemory mr_type s clients else clients);
          clients = (if clients = []
                     then forResource e caller nonSecureCodec mr_type s (forResource e caller secureCodec mr_type s clients)
                     else clients)
      in if clients = []
         then forResource e caller nonSecureCodec (\<lambda>_. kSecureCodec) s
                (forResource e caller secureCodec (\<lambda>_. kNonSecureCodec) s clients)
         else clients)"

definition getTargetClients ::
    "rm_env \<Rightarrow> client_info_parcel \<Rightarrow> media_resource list \<Rightarrow> 'a rms_scheme \<Rightarrow> bool \<times> client_info list" where
  "getTargetClients e clientInfo resources s =
     (let caller = (if isPidTrusted e (cp_pid clientInfo) then cp_pid clientInfo else callingPid e);
          secureCodec = lastOfType kSecureCodec resources;
          nonSecureCodec = lastOfType kNonSecureCodec resources;
          graphicMemory = lastOfType kGraphicMemory resources;
          drmSession = lastOfType kDrmSession resources
      in case conflictPass e caller (cp_id clientInfo) secureCodec nonSecureCodec s of
           None \<Rightarrow> (False, [])
         | Some clients \<Rightarrow>
             let clients = forResource e caller drmSession mr_type s clients
             in if drmSession \<noteq> None \<and> clients = [] then (False, clients)
                else
                  let clients = otherPasses e caller secureCodec nonSecureCodec graphicMemory s clients
                  in (clients \<noteq> [], clients))"

text \<open>The virtual methods of the class.\<close>

definition baseMethods :: "'a rms_scheme vtable" where
  "baseMethods =
     \<lparr>v_getTargetClients = (\<lambda>e clientInfo resources s. Some (getTargetClients e clientInfo resources s)),
      v_getPriority_l = getPriority_l, v_getClient_l = getClient_l, v_removeClient_l = removeClient_l,
      v_overridePid_l = overridePid_l, v_overrideProcessInfo_l = overrideProcessInfo_l,
      v_removeProcessInfoOverride = removeProcessInfoOverride, v_removeResource = removeClientResources\<rparr>"

lemma baseMethods_simps [simp]:
  "v_getTargetClients baseMethods e ci rs s = Some (getTargetClients e ci rs s)"
  "v_getPriority_l baseMethods = getPriority_l" "v_getClient_l baseMethods = getClient_l"
  "v_removeClient_l baseMethods = removeClient_l" "v_overridePid_l baseMethods = overridePid_l"
  "v_overrideProcessInfo_l baseMethods = overrideProcessInfo_l"
  "v_removeProcessInfoOverride baseMethods = removeProcessInfoOverride" "v_removeResource baseMethods = removeClientResources"
  by (simp_all add: baseMethods_def)

section \<open>Taking them\<close>

text \<open>
  \<open>answer\<close>: whether a client gives up its resources; \<open>meanwhile\<close>: what the service does while the client is
  asked. The result, and the service.
\<close>

fun reclaimLoop ::
    "'a rms_scheme vtable \<Rightarrow> (client \<Rightarrow> bool) \<Rightarrow> (client \<Rightarrow> 'a rms_scheme \<Rightarrow> 'a rms_scheme) \<Rightarrow> client_info list \<Rightarrow> 'a rms_scheme
       \<Rightarrow> client_info option \<times> 'a rms_scheme" where
  "reclaimLoop v answer meanwhile [] s = (None, s)"
| "reclaimLoop v answer meanwhile (target # rest) s =
     (case v_getClient_l v (mPid target) (mClientId target) s of
        None \<Rightarrow> reclaimLoop v answer meanwhile rest s
      | Some client \<Rightarrow>
          let s = meanwhile client (rm_emit [ReclaimResource client] s)
          in if answer client then reclaimLoop v answer meanwhile rest s else (Some target, s))"

definition reclaimUnconditionallyFrom ::
    "'a rms_scheme vtable \<Rightarrow> (client \<Rightarrow> bool) \<Rightarrow> (client \<Rightarrow> 'a rms_scheme \<Rightarrow> 'a rms_scheme) \<Rightarrow> client_info list \<Rightarrow> 'a rms_scheme \<Rightarrow> bool \<times> 'a rms_scheme" where
  "reclaimUnconditionallyFrom v answer meanwhile targetClients s =
     (if targetClients = [] then (False, s)
      else case reclaimLoop v answer meanwhile targetClients s of
        (None, s) \<Rightarrow> (True, s)
      | (Some failed, s) \<Rightarrow>
          if mClientId failed = - 1 then (True, s)
          else (False, snd (v_removeClient_l v (mPid failed) (mClientId failed) s)))"

definition pushReclaimAtom ::
    "'a rms_scheme vtable \<Rightarrow> rm_env \<Rightarrow> client_info_parcel \<Rightarrow> client_info list \<Rightarrow> bool \<Rightarrow> 'a rms_scheme \<Rightarrow> 'a rms_scheme ub" where
  "pushReclaimAtom v e clientInfo targetClients reclaimed s =
     (let prio = (\<lambda>pid. case v_getPriority_l v e s pid of Some p \<Rightarrow> p | None \<Rightarrow> - 1);
          priorities = prio (cp_pid clientInfo) # map (\<lambda>t. prio (mPid t)) targetClients
      in map_option (\<lambda>m. s\<lparr>mResourceManagerMetrics := m\<rparr>)
           (mt_pushReclaimAtom clientInfo priorities targetClients reclaimed (mResourceManagerMetrics s)))"

definition reclaimResource ::
    "'a rms_scheme vtable \<Rightarrow> rm_env \<Rightarrow> (client \<Rightarrow> bool) \<Rightarrow> (client \<Rightarrow> 'a rms_scheme \<Rightarrow> 'a rms_scheme)
       \<Rightarrow> client_info_parcel \<Rightarrow> media_resource list \<Rightarrow> 'a rms_scheme \<Rightarrow> (bool \<times> 'a rms_scheme) ub" where
  "reclaimResource v e answer meanwhile clientInfo resources s =
     (if resources = [] then Some (False, s)
      else case v_getTargetClients v e clientInfo resources s of
        None \<Rightarrow> None
      | Some (found, targetClients) \<Rightarrow>
          let (reclaimed, s) = (if found then reclaimUnconditionallyFrom v answer meanwhile targetClients s else (False, s));
              targetClients = (if found then targetClients else [])
          in map_option (\<lambda>s. (reclaimed, s)) (pushReclaimAtom v e clientInfo targetClients reclaimed s))"

text \<open>The clients of a process that are marked for removal: one for each kind of resource.\<close>

definition pendingRemovalKinds :: "(res_type \<times> res_subtype) list" where
  "pendingRemovalKinds =
     concat (map (\<lambda>type.
       if type = kSecureCodec \<or> type = kNonSecureCodec then
         map (\<lambda>subType. (type, subType))
           [kHwAudioCodec, kSwAudioCodec, kHwVideoCodec, kSwVideoCodec, kHwImageCodec, kSwImageCodec]
       else [(type, kUnspecifiedSubType)])
       [kSecureCodec, kNonSecureCodec, kGraphicMemory, kDrmSession])"

definition pendingRemovalTargets :: "rm_env \<Rightarrow> int \<Rightarrow> 'a rms_scheme \<Rightarrow> client_info list" where
  "pendingRemovalTargets e pid s =
     (let pid = (if isPidTrusted e pid then pid else callingPid e)
      in List.map_filter (\<lambda>(type, subType). getBiggestClientPendingRemoval_l pid type subType s) pendingRemovalKinds)"

definition reclaimResourcesFromClientsPendingRemoval ::
    "rm_env \<Rightarrow> (client \<Rightarrow> bool) \<Rightarrow> (client \<Rightarrow> 'a rms_scheme \<Rightarrow> 'a rms_scheme) \<Rightarrow> int \<Rightarrow> 'a rms_scheme \<Rightarrow> 'a rms_scheme" where
  "reclaimResourcesFromClientsPendingRemoval e answer meanwhile pid s =
     (let targetClients = pendingRemovalTargets e pid s
      in if targetClients = [] then s else snd (reclaimUnconditionallyFrom baseMethods answer meanwhile targetClients s))"

end
