(* ===== verification/Resource_Tracker.thy ===== *)
theory Resource_Tracker
  imports Resource_Selection
begin

text \<open>
  \<^verbatim>\<open>ResourceTracker.cpp\<close>: the resources on record, as the newer implementation of the resource manager keeps them.

  The members of the class are a record. The tracker calls back into the service that owns it when the first resource of
  a kind is added and when the last one is removed, and it shares the process information with it; its
  operations therefore take the service, too, and return both.
\<close>

section \<open>State\<close>

record tracker =
  rt_mMap :: pid_map
  rt_mOverridePidMap :: "(int, int) smap"
  rt_mProcessInfoOverrideMap :: "(int, client) smap"
  rt_mObserverService :: "observer_service option"

definition ResourceTracker :: tracker where
  "ResourceTracker = \<lparr>rt_mMap = [], rt_mOverridePidMap = [], rt_mProcessInfoOverrideMap = [], rt_mObserverService = None\<rparr>"

definition setResourceObserverService :: "observer_service \<Rightarrow> tracker \<Rightarrow> tracker" where
  "setResourceObserverService observerService t = t\<lparr>rt_mObserverService := Some observerService\<rparr>"

section \<open>Helpers\<close>

definition isHwCodec :: "res_subtype \<Rightarrow> bool" where
  "isHwCodec subType \<longleftrightarrow> subType = kHwImageCodec \<or> subType = kHwVideoCodec"

fun primaryLoop :: "res_type \<Rightarrow> res_subtype \<Rightarrow> res_subtype \<Rightarrow> bool \<Rightarrow> bool \<Rightarrow> media_resource list \<Rightarrow> bool" where
  "primaryLoop type subType primarySubType foundResource matchedPrimary [] = False"
| "primaryLoop type subType primarySubType foundResource matchedPrimary (res # rest) =
     (let (foundResource, matchedPrimary) =
            (if hasResourceType type subType res then (True, matchedPrimary)
             else if mr_subType res = primarySubType then (foundResource, True)
             else if isHwCodec (mr_subType res) = isHwCodec primarySubType then (foundResource, True)
             else (foundResource, matchedPrimary))
      in if matchedPrimary \<and> foundResource then True
         else primaryLoop type subType primarySubType foundResource matchedPrimary rest)"

definition hasResourceTypePrimary :: "res_type \<Rightarrow> res_subtype \<Rightarrow> media_resource list \<Rightarrow> res_subtype \<Rightarrow> bool" where
  "hasResourceTypePrimary type subType resources primarySubType =
     primaryLoop type subType primarySubType False (primarySubType = kUnspecifiedSubType) resources"

definition contains_client :: "client_info list \<Rightarrow> int \<Rightarrow> bool" where
  "contains_client clients clientId \<longleftrightarrow> find (\<lambda>client. mClientId client = clientId) clients \<noteq> None"

definition rt_getResourceInfo :: "int \<Rightarrow> int \<Rightarrow> tracker \<Rightarrow> resource_info option" where
  "rt_getResourceInfo pid clientId t =
     (case smap_find (rt_mMap t) pid of None \<Rightarrow> None | Some infos \<Rightarrow> smap_find infos clientId)"

section \<open>Adding and removing resources\<close>

text \<open>The observers are told through the service, in the order of its calls.\<close>

definition rt_observersAdded :: "tracker \<Rightarrow> int \<Rightarrow> int \<Rightarrow> media_resource list \<Rightarrow> 'a rms_scheme \<Rightarrow> 'a rms_scheme" where
  "rt_observersAdded t uid pid added s =
     (case rt_mObserverService t of
        None \<Rightarrow> s
      | Some obs \<Rightarrow> if added = [] then s else rm_emit (map StatusChanged (os_onResourceAdded uid pid added obs)) s)"

definition rt_observersRemoved :: "tracker \<Rightarrow> int \<Rightarrow> int \<Rightarrow> media_resource list \<Rightarrow> 'a rms_scheme \<Rightarrow> 'a rms_scheme" where
  "rt_observersRemoved t uid pid removed s =
     (case rt_mObserverService t of
        None \<Rightarrow> s
      | Some obs \<Rightarrow> if removed = [] then s else rm_emit (map StatusChanged (os_onResourceRemoved uid pid removed obs)) s)"

definition rt_addResource ::
    "rm_env \<Rightarrow> client_info_parcel \<Rightarrow> client option \<Rightarrow> media_resource list \<Rightarrow> tracker \<Rightarrow> 'a rms_scheme
       \<Rightarrow> (bool \<times> tracker \<times> 'a rms_scheme) ub" where
  "rt_addResource e clientInfo client resources t s =
     (let trusted = isPidUidTrusted e (cp_pid clientInfo) (cp_uid clientInfo);
          pid = (if trusted then cp_pid clientInfo else callingPid e);
          uid = (if trusted then cp_uid clientInfo else callingUid e);
          (infos, m) = getResourceInfosForEdit pid (rt_mMap t);
          (info, infos) = getResourceInfoForEdit clientInfo client infos
      in case foldM (addOne (ri_uid info)) resources (ri_resources info, [], s) of
           None \<Rightarrow> None
         | Some (held, resourceAdded, s) \<Rightarrow>
             let info = info\<lparr>ri_resources := held,
                             ri_deathNotifier := (if ri_deathNotifier info = None \<and> client \<noteq> None then Some clientInfo
                                                  else ri_deathNotifier info)\<rparr>;
                 t = t\<lparr>rt_mMap := smap_set pid (smap_set (cp_id clientInfo) info infos) m\<rparr>
             in Some (resourceAdded \<noteq> [], t, rt_observersAdded t uid pid resourceAdded s))"

definition rt_updateResource :: "client_info_parcel \<Rightarrow> tracker \<Rightarrow> bool \<times> tracker" where
  "rt_updateResource clientInfo t =
     (let (infos, m) = getResourceInfosForEdit (cp_pid clientInfo) (rt_mMap t);
          t = t\<lparr>rt_mMap := m\<rparr>
      in case smap_find infos (cp_id clientInfo) of
           None \<Rightarrow> (False, t)
         | Some info \<Rightarrow>
             (True, t\<lparr>rt_mMap := putInfo (cp_pid clientInfo) (cp_id clientInfo)
                (info\<lparr>ri_importance := word_of_int (max 0 (cp_importance clientInfo))\<rparr>) m\<rparr>))"

definition rt_removeResources ::
    "rm_env \<Rightarrow> client_info_parcel \<Rightarrow> media_resource list \<Rightarrow> tracker \<Rightarrow> 'a rms_scheme \<Rightarrow> (bool \<times> tracker \<times> 'a rms_scheme) ub" where
  "rt_removeResources e clientInfo resources t s =
     (let pid = (if isPidTrusted e (cp_pid clientInfo) then cp_pid clientInfo else callingPid e)
      in case smap_find (rt_mMap t) pid of
           None \<Rightarrow> Some (False, t, s)
         | Some infos \<Rightarrow>
             (case smap_find infos (cp_id clientInfo) of
                None \<Rightarrow> Some (False, t, s)
              | Some info \<Rightarrow>
                  (case foldM (removeOne (ri_uid info)) resources (ri_resources info, [], s) of
                     None \<Rightarrow> None
                   | Some (held, resourceRemoved, s) \<Rightarrow>
                       let t = t\<lparr>rt_mMap := putInfo pid (cp_id clientInfo) (info\<lparr>ri_resources := held\<rparr>) (rt_mMap t)\<rparr>
                       in Some (True, t, rt_observersRemoved t (sint (ri_uid info)) pid resourceRemoved s))))"

definition rt_removeResource ::
    "rm_env \<Rightarrow> client_info_parcel \<Rightarrow> bool \<Rightarrow> tracker \<Rightarrow> 'a rms_scheme \<Rightarrow> bool \<times> tracker \<times> 'a rms_scheme" where
  "rt_removeResource e clientInfo validateCallingPid t s =
     (let pid = (if validateCallingPid \<and> \<not> isPidTrusted e (cp_pid clientInfo) then callingPid e else cp_pid clientInfo)
      in case smap_find (rt_mMap t) pid of
           None \<Rightarrow> (False, t, s)
         | Some infos \<Rightarrow>
             (case smap_find infos (cp_id clientInfo) of
                None \<Rightarrow> (False, t, s)
              | Some info \<Rightarrow>
                  let s = fold (onLastRemoved (ri_uid info)) (ri_resources info) s;
                      s = rt_observersRemoved t (sint (ri_uid info)) pid (ri_resources info) s
                  in (True, t\<lparr>rt_mMap := smap_set pid (smap_erase (cp_id clientInfo) infos) (rt_mMap t)\<rparr>, s)))"

definition rt_getClient :: "int \<Rightarrow> int \<Rightarrow> tracker \<Rightarrow> client option" where
  "rt_getClient pid clientId t =
     (case smap_find (rt_mMap t) pid of
        None \<Rightarrow> None
      | Some infos \<Rightarrow> (case smap_find infos clientId of None \<Rightarrow> None | Some info \<Rightarrow> ri_client info))"

definition rt_removeClient :: "int \<Rightarrow> int \<Rightarrow> tracker \<Rightarrow> bool \<times> tracker" where
  "rt_removeClient pid clientId t =
     (case smap_find (rt_mMap t) pid of
        None \<Rightarrow> (False, t)
      | Some infos \<Rightarrow>
          (case smap_find infos clientId of
             None \<Rightarrow> (False, t)
           | Some info \<Rightarrow> (True, t\<lparr>rt_mMap := smap_set pid (smap_erase clientId infos) (rt_mMap t)\<rparr>)))"

definition rt_markClientForPendingRemoval :: "rm_env \<Rightarrow> client_info_parcel \<Rightarrow> tracker \<Rightarrow> bool \<times> tracker" where
  "rt_markClientForPendingRemoval e clientInfo t =
     (let pid = (if isPidTrusted e (cp_pid clientInfo) then cp_pid clientInfo else callingPid e)
      in case smap_find (rt_mMap t) pid of
           None \<Rightarrow> (False, t)
         | Some infos \<Rightarrow>
             (case smap_find infos (cp_id clientInfo) of
                None \<Rightarrow> (False, t)
              | Some info \<Rightarrow>
                  (True, t\<lparr>rt_mMap := putInfo pid (cp_id clientInfo) (info\<lparr>ri_pendingRemoval := True\<rparr>) (rt_mMap t)\<rparr>)))"

section \<open>Overrides\<close>

definition rt_overridePid :: "int \<Rightarrow> int \<Rightarrow> tracker \<Rightarrow> bool \<times> tracker" where
  "rt_overridePid originalPid newPid t =
     (let t = t\<lparr>rt_mOverridePidMap := smap_erase originalPid (rt_mOverridePidMap t)\<rparr>
      in if newPid \<noteq> - 1
         then (True, t\<lparr>rt_mOverridePidMap := smap_emplace originalPid newPid (rt_mOverridePidMap t)\<rparr>)
         else (False, t))"

definition rt_removeProcessInfoOverride :: "int \<Rightarrow> tracker \<Rightarrow> process_info \<Rightarrow> tracker \<times> process_info" where
  "rt_removeProcessInfoOverride pid t p =
     (case smap_find (rt_mProcessInfoOverrideMap t) pid of
        None \<Rightarrow> (t, p)
      | Some _ \<Rightarrow>
          (t\<lparr>rt_mProcessInfoOverrideMap := smap_erase pid (rt_mProcessInfoOverrideMap t)\<rparr>,
           pi_removeProcessInfoOverride pid p))"

definition rt_overrideProcessInfo ::
    "client \<Rightarrow> int \<Rightarrow> int \<Rightarrow> int \<Rightarrow> tracker \<Rightarrow> process_info \<Rightarrow> bool \<times> tracker \<times> process_info" where
  "rt_overrideProcessInfo client pid procState oomScore t p =
     (let (t, p) = rt_removeProcessInfoOverride pid t p;
          (accepted, p) = pi_overrideProcessInfo pid procState oomScore p
      in if \<not> accepted then (False, t, p)
         else (True, t\<lparr>rt_mProcessInfoOverrideMap := smap_emplace pid client (rt_mProcessInfoOverrideMap t)\<rparr>, p))"

section \<open>Priorities\<close>

definition rt_getPriority :: "rm_env \<Rightarrow> process_info \<Rightarrow> tracker \<Rightarrow> int \<Rightarrow> int option" where
  "rt_getPriority e p t pid =
     (let newPid = (case smap_find (rt_mOverridePidMap t) pid of Some q \<Rightarrow> q | None \<Rightarrow> pid)
      in getPriority e p newPid)"

definition rt_isCallingPriorityHigher :: "rm_env \<Rightarrow> process_info \<Rightarrow> tracker \<Rightarrow> int \<Rightarrow> int \<Rightarrow> bool" where
  "rt_isCallingPriorityHigher e p t caller pid =
     (case rt_getPriority e p t caller of
        None \<Rightarrow> False
      | Some callingPidPriority \<Rightarrow>
          (case rt_getPriority e p t pid of None \<Rightarrow> False | Some priority \<Rightarrow> callingPidPriority < priority))"

section \<open>Searching the clients\<close>

definition addClient :: "resource_info \<Rightarrow> client_info list \<Rightarrow> client_info list" where
  "addClient info clients =
     (if contains_client clients (ri_clientId info) then clients
      else clients @ [\<lparr>mPid = ri_pid info, mUid = ri_uid info, mClientId = ri_clientId info\<rparr>])"

text \<open>The clients that hold a resource, added to a list; whether one was added.\<close>

fun rt_allClientsLoop ::
    "res_type \<Rightarrow> res_subtype \<Rightarrow> res_subtype \<Rightarrow> (int \<times> int \<times> resource_info) list \<Rightarrow> bool \<Rightarrow> client_info list \<Rightarrow> bool \<times> client_info list" where
  "rt_allClientsLoop type subType primarySubType [] foundClient clients = (foundClient, clients)"
| "rt_allClientsLoop type subType primarySubType ((pid, i, info) # rest) foundClient clients =
     (if hasResourceTypePrimary type subType (ri_resources info) primarySubType \<and> \<not> contains_client clients (ri_clientId info)
      then rt_allClientsLoop type subType primarySubType rest True (addClient info clients)
      else rt_allClientsLoop type subType primarySubType rest foundClient clients)"

definition rt_getAllClients ::
    "res_type \<Rightarrow> res_subtype \<Rightarrow> res_subtype \<Rightarrow> tracker \<Rightarrow> client_info list \<Rightarrow> bool \<times> client_info list" where
  "rt_getAllClients type subType primarySubType t clients =
     rt_allClientsLoop type subType primarySubType (allInfos (rt_mMap t)) False clients"

fun nonConflictingLoop ::
    "rm_env \<Rightarrow> process_info \<Rightarrow> tracker \<Rightarrow> int \<Rightarrow> int \<Rightarrow> res_type \<Rightarrow> res_subtype \<Rightarrow> (int \<times> int \<times> resource_info) list
       \<Rightarrow> client_info list \<Rightarrow> bool \<times> client_info list" where
  "nonConflictingLoop e p t caller callerId type subType [] clients = (True, clients)"
| "nonConflictingLoop e p t caller callerId type subType ((pid, i, info) # rest) clients =
     (if pid = caller \<and> i = callerId then nonConflictingLoop e p t caller callerId type subType rest clients
      else if listHasResourceType type subType (ri_resources info) then
        if \<not> rt_isCallingPriorityHigher e p t caller pid then (False, [])
        else nonConflictingLoop e p t caller callerId type subType rest (addClient info clients)
      else nonConflictingLoop e p t caller callerId type subType rest clients)"

definition rt_getNonConflictingClients ::
    "rm_env \<Rightarrow> process_info \<Rightarrow> int \<Rightarrow> int \<Rightarrow> res_type \<Rightarrow> res_subtype \<Rightarrow> tracker \<Rightarrow> client_info list \<Rightarrow> bool \<times> client_info list" where
  "rt_getNonConflictingClients e p caller callerId type subType t clients =
     nonConflictingLoop e p t caller callerId type subType (allInfos (rt_mMap t)) clients"

text \<open>The process with the lowest priority: of all processes, and of those of a list of clients.\<close>

definition rt_getLowestPriorityPid ::
    "rm_env \<Rightarrow> process_info \<Rightarrow> res_type \<Rightarrow> res_subtype \<Rightarrow> tracker \<Rightarrow> (int \<times> int) option" where
  "rt_getLowestPriorityPid e p type subType t =
     lowestFound
       (fold (\<lambda>(tempPid, infos). keepLowest
                (if infos = [] then None
                 else if \<not> infosHaveResourceType type subType infos then None
                 else map_option (Pair tempPid) (rt_getPriority e p t tempPid)))
          (rt_mMap t) (- 1, - 1))"

definition clientCandidate ::
    "rm_env \<Rightarrow> process_info \<Rightarrow> res_type \<Rightarrow> res_subtype \<Rightarrow> res_subtype \<Rightarrow> tracker \<Rightarrow> client_info \<Rightarrow> (int \<times> int) option" where
  "clientCandidate e p type subType primarySubType t client =
     (case rt_getResourceInfo (mPid client) (mClientId client) t of
        None \<Rightarrow> None
      | Some info \<Rightarrow>
          if \<not> hasResourceTypePrimary type subType (ri_resources info) primarySubType then None
          else map_option (Pair (mPid client)) (rt_getPriority e p t (mPid client)))"

definition rt_getLowestPriorityPidOf ::
    "rm_env \<Rightarrow> process_info \<Rightarrow> res_type \<Rightarrow> res_subtype \<Rightarrow> res_subtype \<Rightarrow> client_info list \<Rightarrow> tracker \<Rightarrow> (int \<times> int) option" where
  "rt_getLowestPriorityPidOf e p type subType primarySubType clients t =
     lowestFound (fold (\<lambda>client. keepLowest (clientCandidate e p type subType primarySubType t client)) clients (- 1, - 1))"

text \<open>The biggest clients.\<close>

definition rt_getBiggestClientPendingRemoval :: "int \<Rightarrow> res_type \<Rightarrow> res_subtype \<Rightarrow> tracker \<Rightarrow> client_info option" where
  "rt_getBiggestClientPendingRemoval pid type subType t =
     (case smap_find (rt_mMap t) pid of
        None \<Rightarrow> None
      | Some infos \<Rightarrow>
          biggestClient pid
            (fold (\<lambda>(i, info) b. if \<not> ri_pendingRemoval info then b else biggestInfo type subType info b) infos noBiggest))"

definition matchedPrimary :: "res_subtype \<Rightarrow> media_resource list \<Rightarrow> bool" where
  "matchedPrimary primarySubType resources \<longleftrightarrow>
     primarySubType = kUnspecifiedSubType
       \<or> list_ex (\<lambda>res. mr_subType res = primarySubType \<or> isHwCodec (mr_subType res) = isHwCodec primarySubType) resources"

definition biggestOf ::
    "(resource_info \<Rightarrow> bool) \<Rightarrow> int \<Rightarrow> res_type \<Rightarrow> res_subtype \<Rightarrow> res_subtype \<Rightarrow> tracker \<Rightarrow> client_info \<Rightarrow> biggest \<Rightarrow> biggest" where
  "biggestOf skip targetPid type subType primarySubType t client b =
     (if mPid client \<noteq> targetPid then b
      else case rt_getResourceInfo (mPid client) (mClientId client) t of
        None \<Rightarrow> b
      | Some info \<Rightarrow>
          if skip info then b
          else if \<not> matchedPrimary primarySubType (ri_resources info) then b
          else biggestInfo type subType info b)"

definition rt_getBiggestClient ::
    "int \<Rightarrow> res_type \<Rightarrow> res_subtype \<Rightarrow> client_info list \<Rightarrow> res_subtype \<Rightarrow> tracker \<Rightarrow> client_info option" where
  "rt_getBiggestClient targetPid type subType clients primarySubType t =
     biggestClient targetPid (fold (biggestOf (\<lambda>_. False) targetPid type subType primarySubType t) clients noBiggest)"

definition rt_getLeastImportantBiggestClient ::
    "int \<Rightarrow> u32 \<Rightarrow> res_type \<Rightarrow> res_subtype \<Rightarrow> res_subtype \<Rightarrow> client_info list \<Rightarrow> tracker \<Rightarrow> client_info option" where
  "rt_getLeastImportantBiggestClient targetPid importance type subType primarySubType clients t =
     biggestClient targetPid
       (fold (biggestOf (\<lambda>info. ri_importance info \<le> importance) targetPid type subType primarySubType t) clients noBiggest)"

definition rt_getClientsMarkedPendingRemoval :: "rm_env \<Rightarrow> int \<Rightarrow> tracker \<Rightarrow> client_info list \<Rightarrow> client_info list" where
  "rt_getClientsMarkedPendingRemoval e pid t targetClients =
     (let pid = (if isPidTrusted e pid then pid else callingPid e)
      in fold (\<lambda>(type, subType) targets.
           case rt_getBiggestClientPendingRemoval pid type subType t of
             None \<Rightarrow> targets
           | Some clientInfo \<Rightarrow> if contains_client targets (mClientId clientInfo) then targets else targets @ [clientInfo])
           pendingRemovalKinds targetClients)"

end
