(* ===== verification/Reclaim_Policies.thy ===== *)
theory Reclaim_Policies
  imports Resource_Tracker
begin

text \<open>
  The parts that choose whom to take resources from in the newer implementation, and the service that joins them:
  \<^verbatim>\<open>DefaultResourceModel.cpp\<close> (the clients that hold what is requested), \<^verbatim>\<open>ProcessPriorityReclaimPolicy.cpp\<close> and
  \<^verbatim>\<open>ClientImportanceReclaimPolicy.cpp\<close> (the client to take it from) and \<^verbatim>\<open>ResourceManagerServiceNew.cpp\<close>.

  A policy object is its class, since its only member is the tracker. The functions that read the first resource requested
  are undefined (\<open>None\<close>) when there is none.
\<close>

section \<open>Requests\<close>

record reclaim_request =
  rq_mCallingPid :: int
  rq_mClientId :: int
  rq_mCallingClientImportance :: u32
  rq_mResources :: "media_resource list"

definition otherCodec :: "res_type \<Rightarrow> res_type" where
  "otherCodec type = (if type = kSecureCodec then kNonSecureCodec else kSecureCodec)"

section \<open>The resource model\<close>

record resource_model =
  dm_mSupportsMultipleSecureCodecs :: bool
  dm_mSupportsSecureWithNonSecureCodec :: bool

definition getCodecClients :: "tracker \<Rightarrow> reclaim_request \<Rightarrow> client_info list \<Rightarrow> (bool \<times> client_info list) ub" where
  "getCodecClients t request clients =
     (case rq_mResources request of
        [] \<Rightarrow> None
      | first # rest \<Rightarrow>
          let clients = fold (\<lambda>res clients. snd (rt_getAllClients (mr_type res) (mr_subType res) (mr_subType first) t clients)) rest clients;
              clients = snd (rt_getAllClients (mr_type first) (mr_subType first) kUnspecifiedSubType t clients);
              clients = snd (rt_getAllClients (otherCodec (mr_type first)) (mr_subType first) kUnspecifiedSubType t clients)
          in Some (clients \<noteq> [], clients))"

text \<open>The conflicts between secure and non-secure codecs; \<open>False\<close>: the request cannot be met.\<close>

definition modelConflicts ::
    "rm_env \<Rightarrow> process_info \<Rightarrow> tracker \<Rightarrow> resource_model \<Rightarrow> reclaim_request \<Rightarrow> media_resource \<Rightarrow> bool \<times> client_info list" where
  "modelConflicts e p t dm request first =
     (let conflicting = (\<lambda>type clients.
            rt_getNonConflictingClients e p (rq_mCallingPid request) (rq_mClientId request) type (mr_subType first) t clients)
      in case mr_type first of
        kSecureCodec \<Rightarrow>
          let (ok, clients) = (if \<not> dm_mSupportsMultipleSecureCodecs dm then conflicting kSecureCodec [] else (True, []))
          in if \<not> ok then (False, clients)
             else if \<not> dm_mSupportsSecureWithNonSecureCodec dm then conflicting kNonSecureCodec clients
             else (True, clients)
      | kNonSecureCodec \<Rightarrow>
          if \<not> dm_mSupportsSecureWithNonSecureCodec dm then conflicting kSecureCodec [] else (True, [])
      | _ \<Rightarrow> (True, []))"

definition dm_getAllClients ::
    "rm_env \<Rightarrow> process_info \<Rightarrow> tracker \<Rightarrow> resource_model \<Rightarrow> reclaim_request \<Rightarrow> (bool \<times> client_info list) ub" where
  "dm_getAllClients e p t dm request =
     (case rq_mResources request of
        [] \<Rightarrow> None
      | first # rest \<Rightarrow>
          (case modelConflicts e p t dm request first of (ok, clients) \<Rightarrow>
             if \<not> ok then Some (False, clients)
             else if clients \<noteq> [] then Some (False, clients)
             else
               (case mr_type first of
                  kSecureCodec \<Rightarrow> getCodecClients t request clients
                | kNonSecureCodec \<Rightarrow> getCodecClients t request clients
                | kGraphicMemory \<Rightarrow> Some (rt_getAllClients (mr_type first) (mr_subType first) kUnspecifiedSubType t clients)
                | kDrmSession \<Rightarrow> Some (rt_getAllClients (mr_type first) (mr_subType first) kUnspecifiedSubType t clients)
                | _ \<Rightarrow> Some (clients \<noteq> [], clients))))"

section \<open>The reclaim policies\<close>

datatype reclaim_policy = ProcessPriorityReclaimPolicy | ClientImportanceReclaimPolicy

definition getBiggestClientFromLowestPriority ::
    "rm_env \<Rightarrow> process_info \<Rightarrow> tracker \<Rightarrow> int \<Rightarrow> res_type \<Rightarrow> res_subtype \<Rightarrow> res_subtype \<Rightarrow> client_info list \<Rightarrow> client_info option" where
  "getBiggestClientFromLowestPriority e p t callingPriority type subType primarySubType clients =
     (case rt_getLowestPriorityPidOf e p type subType primarySubType clients t of
        None \<Rightarrow> None
      | Some (lowestPriorityPid, lowestPriority) \<Rightarrow>
          if lowestPriority \<le> callingPriority then None
          else rt_getBiggestClient lowestPriorityPid type subType clients primarySubType t)"

text \<open>
  Both policies look for a client with the other resources requested, then with the resource itself, then, for a codec,
  with the other type of codec; \<open>pick\<close> is the search of the policy.
\<close>

fun pickOther :: "(res_type \<Rightarrow> res_subtype \<Rightarrow> res_subtype \<Rightarrow> client_info option) \<Rightarrow> res_subtype \<Rightarrow> media_resource list \<Rightarrow> client_info option" where
  "pickOther pick primarySubType [] = None"
| "pickOther pick primarySubType (res # rest) =
     (case pick (mr_type res) (mr_subType res) primarySubType of
        Some client \<Rightarrow> Some client
      | None \<Rightarrow> pickOther pick primarySubType rest)"

definition pickClient :: "(res_type \<Rightarrow> res_subtype \<Rightarrow> res_subtype \<Rightarrow> client_info option) \<Rightarrow> media_resource \<Rightarrow> media_resource list \<Rightarrow> client_info option" where
  "pickClient pick first rest =
     (case pickOther pick (mr_subType first) rest of
        Some client \<Rightarrow> Some client
      | None \<Rightarrow>
          (case pick (mr_type first) (mr_subType first) kUnspecifiedSubType of
             Some client \<Rightarrow> Some client
           | None \<Rightarrow>
               if mr_type first \<noteq> kSecureCodec \<and> mr_type first \<noteq> kNonSecureCodec then None
               else pick (otherCodec (mr_type first)) (mr_subType first) kUnspecifiedSubType))"

definition pp_getClients ::
    "rm_env \<Rightarrow> process_info \<Rightarrow> tracker \<Rightarrow> reclaim_request \<Rightarrow> client_info list \<Rightarrow> client_info list \<Rightarrow> (bool \<times> client_info list) ub" where
  "pp_getClients e p t request clients targetClients =
     (case rq_mResources request of
        [] \<Rightarrow> None
      | first # rest \<Rightarrow>
          (case rt_getPriority e p t (rq_mCallingPid request) of
             None \<Rightarrow> Some (False, targetClients)
           | Some callingPriority \<Rightarrow>
               (case pickClient (\<lambda>type subType primarySubType.
                       getBiggestClientFromLowestPriority e p t callingPriority type subType primarySubType clients) first rest of
                  None \<Rightarrow> Some (False, targetClients)
                | Some clientInfo \<Rightarrow> Some (True, targetClients @ [clientInfo]))))"

definition ci_getClients ::
    "tracker \<Rightarrow> reclaim_request \<Rightarrow> client_info list \<Rightarrow> client_info list \<Rightarrow> (bool \<times> client_info list) ub" where
  "ci_getClients t request clients targetClients =
     (case rq_mResources request of
        [] \<Rightarrow> None
      | first # rest \<Rightarrow>
          (case pickClient (\<lambda>type subType primarySubType.
                  rt_getLeastImportantBiggestClient (rq_mCallingPid request) (rq_mCallingClientImportance request)
                    type subType primarySubType clients t) first rest of
             None \<Rightarrow> Some (False, targetClients)
           | Some targetClient \<Rightarrow> Some (True, targetClients @ [targetClient])))"

definition policy_getClients ::
    "reclaim_policy \<Rightarrow> rm_env \<Rightarrow> process_info \<Rightarrow> tracker \<Rightarrow> reclaim_request \<Rightarrow> client_info list \<Rightarrow> client_info list
       \<Rightarrow> (bool \<times> client_info list) ub" where
  "policy_getClients policy e p t request clients targetClients =
     (case policy of
        ProcessPriorityReclaimPolicy \<Rightarrow> pp_getClients e p t request clients targetClients
      | ClientImportanceReclaimPolicy \<Rightarrow> ci_getClients t request clients targetClients)"

section \<open>The service\<close>

record rms_new = rms +
  mResourceTracker :: tracker
  mDefaultResourceModel :: resource_model
  mReclaimPolicies :: "reclaim_policy list"

definition setUpResourceModels :: "rms_new \<Rightarrow> rms_new" where
  "setUpResourceModels s =
     s\<lparr>mDefaultResourceModel :=
         \<lparr>dm_mSupportsMultipleSecureCodecs = mSupportsMultipleSecureCodecs s,
          dm_mSupportsSecureWithNonSecureCodec = mSupportsSecureWithNonSecureCodec s\<rparr>\<rparr>"

definition setReclaimPolicy :: "bool \<Rightarrow> bool \<Rightarrow> rms_new \<Rightarrow> rms_new" where
  "setReclaimPolicy processPriority clientImportance s =
     s\<lparr>mReclaimPolicies := (if processPriority then [ProcessPriorityReclaimPolicy] else [])
         @ (if clientImportance then [ClientImportanceReclaimPolicy] else [])\<rparr>"

definition setUpReclaimPolicies :: "rms_new \<Rightarrow> rms_new" where
  "setUpReclaimPolicies s = setReclaimPolicy True True (s\<lparr>mReclaimPolicies := []\<rparr>)"

text \<open>The constructor and \<^verbatim>\<open>init\<close>: the members of the base class, then the tracker, the model and the policies.\<close>

definition ResourceManagerServiceNew :: "rm_env \<Rightarrow> process_info \<Rightarrow> rms_new" where
  "ResourceManagerServiceNew e processInfo =
     (let s = rms.extend (ResourceManagerService e processInfo)
                (rms_new.fields ResourceTracker
                   \<lparr>dm_mSupportsMultipleSecureCodecs = True, dm_mSupportsSecureWithNonSecureCodec = True\<rparr> [])
      in setUpReclaimPolicies (setUpResourceModels s))"

definition new_config :: "(string \<times> string) list \<Rightarrow> rms_new \<Rightarrow> rms_new" where
  "new_config policies s = setUpResourceModels (config policies s)"

definition new_setObserverService :: "observer_service \<Rightarrow> rms_new \<Rightarrow> rms_new" where
  "new_setObserverService obs s =
     (let s = setObserverService obs s in s\<lparr>mResourceTracker := setResourceObserverService obs (mResourceTracker s)\<rparr>)"

definition new_addResource ::
    "rm_env \<Rightarrow> client_info_parcel \<Rightarrow> client option \<Rightarrow> media_resource list \<Rightarrow> rms_new \<Rightarrow> rms_new ub" where
  "new_addResource e clientInfo client resources s =
     (case rt_addResource e clientInfo client resources (mResourceTracker s) s of
        None \<Rightarrow> None
      | Some (_, t, s) \<Rightarrow> Some (notifyResourceGranted e (cp_pid clientInfo) resources (s\<lparr>mResourceTracker := t\<rparr>)))"

definition new_removeResources :: "rm_env \<Rightarrow> client_info_parcel \<Rightarrow> media_resource list \<Rightarrow> rms_new \<Rightarrow> rms_new ub" where
  "new_removeResources e clientInfo resources s =
     (case rt_removeResources e clientInfo resources (mResourceTracker s) s of
        None \<Rightarrow> None
      | Some (_, t, s) \<Rightarrow> Some (s\<lparr>mResourceTracker := t\<rparr>))"

definition new_removeResource :: "rm_env \<Rightarrow> client_info_parcel \<Rightarrow> bool \<Rightarrow> rms_new \<Rightarrow> rms_new ub" where
  "new_removeResource e clientInfo checkValid s =
     (case rt_removeResource e clientInfo checkValid (mResourceTracker s) s of
        (removed, t, s) \<Rightarrow>
          let s = s\<lparr>mResourceTracker := t\<rparr>
          in if removed
             then map_option (\<lambda>m. s\<lparr>mResourceManagerMetrics := m\<rparr>) (mt_notifyClientReleased e clientInfo (mResourceManagerMetrics s))
             else Some s)"

definition new_removeClient :: "rm_env \<Rightarrow> client_info_parcel \<Rightarrow> rms_new \<Rightarrow> rms_new ub" where
  "new_removeClient e clientInfo s = new_removeResource e clientInfo True s"

definition new_markClientForPendingRemoval :: "rm_env \<Rightarrow> client_info_parcel \<Rightarrow> rms_new \<Rightarrow> rms_new" where
  "new_markClientForPendingRemoval e clientInfo s =
     s\<lparr>mResourceTracker := snd (rt_markClientForPendingRemoval e clientInfo (mResourceTracker s))\<rparr>"

definition new_getClient_l :: "int \<Rightarrow> int \<Rightarrow> rms_new \<Rightarrow> client option" where
  "new_getClient_l pid clientId s = rt_getClient pid clientId (mResourceTracker s)"

definition new_removeClient_l :: "int \<Rightarrow> int \<Rightarrow> rms_new \<Rightarrow> bool \<times> rms_new" where
  "new_removeClient_l pid clientId s =
     (let (found, t) = rt_removeClient pid clientId (mResourceTracker s) in (found, s\<lparr>mResourceTracker := t\<rparr>))"

definition new_getPriority_l :: "rm_env \<Rightarrow> rms_new \<Rightarrow> int \<Rightarrow> int option" where
  "new_getPriority_l e s pid = rt_getPriority e (mProcessInfo s) (mResourceTracker s) pid"

definition new_overridePid_l :: "int \<Rightarrow> int \<Rightarrow> rms_new \<Rightarrow> bool \<times> rms_new" where
  "new_overridePid_l originalPid newPid s =
     (let (overridden, t) = rt_overridePid originalPid newPid (mResourceTracker s) in (overridden, s\<lparr>mResourceTracker := t\<rparr>))"

definition new_overrideProcessInfo_l :: "client \<Rightarrow> int \<Rightarrow> int \<Rightarrow> int \<Rightarrow> rms_new \<Rightarrow> bool \<times> rms_new" where
  "new_overrideProcessInfo_l client pid procState oomScore s =
     (let (accepted, t, p) = rt_overrideProcessInfo client pid procState oomScore (mResourceTracker s) (mProcessInfo s)
      in (accepted, s\<lparr>mResourceTracker := t, mProcessInfo := p\<rparr>))"

definition new_removeProcessInfoOverride :: "int \<Rightarrow> rms_new \<Rightarrow> rms_new" where
  "new_removeProcessInfoOverride pid s =
     (let (t, p) = rt_removeProcessInfoOverride pid (mResourceTracker s) (mProcessInfo s)
      in s\<lparr>mResourceTracker := t, mProcessInfo := p\<rparr>)"

definition new_notifyClientConfigChanged :: "client_config \<Rightarrow> rms_new \<Rightarrow> rms_new ub" where
  "new_notifyClientConfigChanged cfg s =
     notifyClientConfigChanged cfg
       (s\<lparr>mResourceTracker := snd (rt_updateResource (cc_clientInfo cfg) (mResourceTracker s))\<rparr>)"

section \<open>The clients to take resources from\<close>

text \<open>First the clients of the caller's process that are marked for removal, then the policies in their order.\<close>

fun pendingFirst :: "int \<Rightarrow> media_resource list \<Rightarrow> tracker \<Rightarrow> client_info option" where
  "pendingFirst caller [] t = None"
| "pendingFirst caller (resource # rest) t =
     (case rt_getBiggestClientPendingRemoval caller (mr_type resource) (mr_subType resource) t of
        Some client \<Rightarrow> Some client
      | None \<Rightarrow> pendingFirst caller rest t)"

fun policyLoop ::
    "reclaim_policy list \<Rightarrow> rm_env \<Rightarrow> process_info \<Rightarrow> tracker \<Rightarrow> reclaim_request \<Rightarrow> client_info list \<Rightarrow> client_info list \<Rightarrow> client_info list ub" where
  "policyLoop [] e p t request clients targetClients = Some targetClients"
| "policyLoop (policy # policies) e p t request clients targetClients =
     (case policy_getClients policy e p t request clients targetClients of
        None \<Rightarrow> None
      | Some (found, targetClients) \<Rightarrow>
          if found then Some targetClients else policyLoop policies e p t request clients targetClients)"

definition new_getClientForResource_l ::
    "rm_env \<Rightarrow> reclaim_request \<Rightarrow> client_info list \<Rightarrow> client_info list \<Rightarrow> rms_new \<Rightarrow> client_info list ub" where
  "new_getClientForResource_l e request clients targetClients s =
     (case pendingFirst (rq_mCallingPid request) (rq_mResources request) (mResourceTracker s) of
        Some targetClient \<Rightarrow> Some (targetClients @ [targetClient])
      | None \<Rightarrow> policyLoop (mReclaimPolicies s) e (mProcessInfo s) (mResourceTracker s) request clients targetClients)"

definition new_getTargetClients ::
    "rm_env \<Rightarrow> client_info_parcel \<Rightarrow> media_resource list \<Rightarrow> rms_new \<Rightarrow> (bool \<times> client_info list) ub" where
  "new_getTargetClients e clientInfo resources s =
     (let caller = (if isPidTrusted e (cp_pid clientInfo) then cp_pid clientInfo else callingPid e);
          callingImportance = word_of_int (max 0 (cp_importance clientInfo));
          request = \<lparr>rq_mCallingPid = caller, rq_mClientId = cp_id clientInfo, rq_mCallingClientImportance = callingImportance,
                     rq_mResources = resources\<rparr>
      in case dm_getAllClients e (mProcessInfo s) (mResourceTracker s) (mDefaultResourceModel s) request of
           None \<Rightarrow> None
         | Some (ok, clients) \<Rightarrow>
             if \<not> ok then Some (clients \<noteq> [], clients)
             else map_option (\<lambda>targetClients. (targetClients \<noteq> [], targetClients))
                    (new_getClientForResource_l e request clients [] s))"

text \<open>The methods that the class overrides.\<close>

definition newMethods :: "rms_new vtable" where
  "newMethods =
     \<lparr>v_getTargetClients = new_getTargetClients, v_getPriority_l = new_getPriority_l, v_getClient_l = new_getClient_l,
      v_removeClient_l = new_removeClient_l, v_overridePid_l = new_overridePid_l,
      v_overrideProcessInfo_l = new_overrideProcessInfo_l, v_removeProcessInfoOverride = new_removeProcessInfoOverride,
      v_removeResource = new_removeResource\<rparr>"

definition new_reclaimResourcesFromClientsPendingRemoval ::
    "rm_env \<Rightarrow> (client \<Rightarrow> bool) \<Rightarrow> (client \<Rightarrow> rms_new \<Rightarrow> rms_new) \<Rightarrow> int \<Rightarrow> rms_new \<Rightarrow> rms_new" where
  "new_reclaimResourcesFromClientsPendingRemoval e answer meanwhile pid s =
     (let targetClients = rt_getClientsMarkedPendingRemoval e pid (mResourceTracker s) []
      in if targetClients = [] then s else snd (reclaimUnconditionallyFrom newMethods answer meanwhile targetClients s))"

text \<open>The searches of the base class, in terms of the tracker, the model and the process priority policy.\<close>

definition new_getLowestPriorityPid_l :: "rm_env \<Rightarrow> res_type \<Rightarrow> res_subtype \<Rightarrow> rms_new \<Rightarrow> (int \<times> int) option" where
  "new_getLowestPriorityPid_l e type subType s = rt_getLowestPriorityPid e (mProcessInfo s) type subType (mResourceTracker s)"

definition new_getLowestPriorityBiggestClient_l ::
    "rm_env \<Rightarrow> int \<Rightarrow> int \<Rightarrow> media_resource option \<Rightarrow> rms_new \<Rightarrow> client_info option ub" where
  "new_getLowestPriorityBiggestClient_l e caller callerId resource s =
     (case resource of
        None \<Rightarrow> Some None
      | Some res \<Rightarrow>
          let request = \<lparr>rq_mCallingPid = caller, rq_mClientId = callerId, rq_mCallingClientImportance = 0, rq_mResources = [res]\<rparr>
          in case dm_getAllClients e (mProcessInfo s) (mResourceTracker s) (mDefaultResourceModel s) request of
               None \<Rightarrow> None
             | Some (_, clients) \<Rightarrow>
                 map_option (\<lambda>(found, targetClients). if found \<and> targetClients \<noteq> [] then Some (hd targetClients) else None)
                   (pp_getClients e (mProcessInfo s) (mResourceTracker s) request clients []))"

text \<open>The clients before the first one that cannot be taken from stay in the list.\<close>

fun checkPriorities ::
    "rm_env \<Rightarrow> int \<Rightarrow> client_info list \<Rightarrow> client_info list \<Rightarrow> rms_new \<Rightarrow> bool \<times> client_info list" where
  "checkPriorities e caller [] clientsInfo s = (True, clientsInfo)"
| "checkPriorities e caller (info # rest) clientsInfo s =
     (if \<not> rt_isCallingPriorityHigher e (mProcessInfo s) (mResourceTracker s) caller (mPid info) then (False, clientsInfo)
      else checkPriorities e caller rest (clientsInfo @ [info]) s)"

definition new_getAllClients_l ::
    "rm_env \<Rightarrow> int \<Rightarrow> res_type \<Rightarrow> res_subtype \<Rightarrow> client_info list \<Rightarrow> rms_new \<Rightarrow> bool \<times> client_info list" where
  "new_getAllClients_l e caller type subType clientsInfo s =
     checkPriorities e caller (snd (rt_getAllClients type subType kUnspecifiedSubType (mResourceTracker s) [])) clientsInfo s"

end
