(* ===== verification/Resource_Invariant.thy ===== *)
theory Resource_Invariant
  imports Resource_Selection
begin

text \<open>
  The book-keeping of the resource manager. The amounts on record stay in range, so adding and removing resources is
  never undefined; and the battery and scheduling services have been told exactly what is on record, except for
  clients that were dropped after they refused to give up their resources, and for entries whose amount becomes -1 in a
  \<^verbatim>\<open>long\<close> of 32 bits: these are removed without a report.
\<close>

section \<open>Counting what is on record\<close>

fun boostKey :: "res_key \<Rightarrow> bool" where
  "boostKey (type, subType, i) \<longleftrightarrow> type = kCpuBoost \<and> subType = kUnspecifiedSubType"

fun videoKey :: "res_key \<Rightarrow> bool" where
  "videoKey (type, subType, i) \<longleftrightarrow> type = kBattery \<and> (subType = kHwVideoCodec \<or> subType = kSwVideoCodec)"

lemma boostKey_res [simp]: "boostKey (res_key r) = isCpuBoost r"
  by (simp add: res_key_def isCpuBoost_def)

lemma videoKey_res [simp]: "videoKey (res_key r) = isVideoBattery r"
  by (simp add: res_key_def isVideoBattery_def)

definition keyCount :: "(res_key \<Rightarrow> bool) \<Rightarrow> res_key list \<Rightarrow> int" where
  "keyCount Q ks = int (length (filter Q ks))"

lemma keyCount_simps [simp]:
  "keyCount Q [] = 0" "keyCount Q (k # ks) = of_bool (Q k) + keyCount Q ks" "keyCount Q (ks @ ls) = keyCount Q ks + keyCount Q ls"
  by (simp_all add: keyCount_def)

lemma keyCount_nonneg [simp]: "0 \<le> keyCount Q ks"
  by (simp add: keyCount_def)

lemma keyCount_remove1: "k \<in> set ks \<Longrightarrow> keyCount Q (remove1 k ks) = keyCount Q ks - of_bool (Q k)"
  by (induction ks) auto

lemma keyCount_pos: "k \<in> set ks \<Longrightarrow> Q k \<Longrightarrow> 0 < keyCount Q ks"
  by (induction ks) (auto simp: add_pos_nonneg)

text \<open>What the two services were told: for a uid, how many more video starts than stops; and whether the last boost request was to boost.\<close>

fun videoBalance :: "uid \<Rightarrow> rm_call list \<Rightarrow> int" where
  "videoBalance u [] = 0"
| "videoBalance u (NoteStartVideo v # cs) = of_bool (u = v) + videoBalance u cs"
| "videoBalance u (NoteStopVideo v # cs) = videoBalance u cs - of_bool (u = v)"
| "videoBalance u (_ # cs) = videoBalance u cs"

fun boostOn :: "bool \<Rightarrow> rm_call list \<Rightarrow> bool" where
  "boostOn b [] = b"
| "boostOn b (CpusetBoost c # cs) = boostOn c cs"
| "boostOn b (_ # cs) = boostOn b cs"

lemma videoBalance_append [simp]: "videoBalance u (cs @ ds) = videoBalance u cs + videoBalance u ds"
  by (induction u cs rule: videoBalance.induct) simp_all

lemma boostOn_append [simp]: "boostOn b (cs @ ds) = boostOn (boostOn b cs) ds"
  by (induction b cs rule: boostOn.induct) simp_all

lemma told_frame [simp]:
  "videoBalance u (map StatusChanged xs) = 0" "boostOn b (map StatusChanged xs) = b"
  "videoBalance u (map (ResourceGranted pid) ys) = 0" "boostOn b (map (ResourceGranted pid) ys) = b"
  by (induction xs) (simp_all, (induction ys, simp_all)+)

section \<open>The two loops\<close>

text \<open>
  The accounts while one client of a uid is worked on: its resources are \<open>held\<close>, everything else on record accounts for
  \<open>D\<close> boosts and \<open>B\<close> video codecs.
\<close>

definition balanced :: "uid \<Rightarrow> int \<Rightarrow> (uid \<Rightarrow> int) \<Rightarrow> res_key list \<Rightarrow> 'a rms_scheme \<Rightarrow> bool" where
  "balanced uid D B ks s \<longleftrightarrow> 0 \<le> D \<and> mCpuBoostCount s = D + keyCount boostKey ks
     \<and> (\<forall>u. videoBalance u (mCalls s) = B u + (if u = uid then keyCount videoKey ks else 0))
     \<and> (boostOn False (mCalls s) \<longleftrightarrow> 0 < mCpuBoostCount s)"

text \<open>What is left over without being on record can only grow, and does not when \<^verbatim>\<open>long\<close> has 64 bits.\<close>

definition wide :: "'a rms_scheme \<Rightarrow> bool" where
  "wide s \<longleftrightarrow> mLong (mResourceManagerMetrics s) = LP64"

definition leftover :: "bool \<Rightarrow> int \<Rightarrow> (uid \<Rightarrow> int) \<Rightarrow> int \<Rightarrow> (uid \<Rightarrow> int) \<Rightarrow> bool" where
  "leftover w D B D' B' \<longleftrightarrow> D \<le> D' \<and> (\<forall>u. B u \<le> B' u) \<and> (w \<longrightarrow> D' = D \<and> B' = B)"

lemma leftover_refl [simp]: "leftover w D B D B"
  by (simp add: leftover_def)

lemma leftover_trans: "leftover w D B D' B' \<Longrightarrow> leftover w D' B' D'' B'' \<Longrightarrow> leftover w D B D'' B''"
  unfolding leftover_def by (meson order_trans)

lemma not_both_kinds: "isCpuBoost r \<Longrightarrow> \<not> isVideoBattery r"
  by (simp add: isCpuBoost_def isVideoBattery_def)

lemma balanced_first: "balanced uid D B ks s \<Longrightarrow> balanced uid D B (ks @ [res_key r]) (onFirstAdded uid r s)"
  using not_both_kinds [of r] keyCount_nonneg [of boostKey ks]
  by (auto simp: balanced_def onFirstAdded_def rm_emit_def)

lemma balanced_last:
  "balanced uid D B ks s \<Longrightarrow> res_key r \<in> set ks \<Longrightarrow> balanced uid D B (remove1 (res_key r) ks) (onLastRemoved uid r s)"
  using not_both_kinds [of r] keyCount_pos [of "res_key r" ks boostKey]
  by (auto simp: balanced_def onLastRemoved_def rm_emit_def keyCount_remove1 Let_def)

lemma balanced_skipped:
  assumes "balanced uid D B ks s" "k \<in> set ks"
  shows "\<exists>D' B'. leftover False D B D' B' \<and> balanced uid D' B' (remove1 k ks) s"
proof (intro exI conjI)
  show "leftover False D B (D + of_bool (boostKey k)) (\<lambda>u. B u + (if u = uid then of_bool (videoKey k) else 0))" by (simp add: leftover_def)
  show "balanced uid (D + of_bool (boostKey k)) (\<lambda>u. B u + (if u = uid then of_bool (videoKey k) else 0)) (remove1 k ks) s"
    using assms by (auto simp: balanced_def keyCount_remove1)
qed

text \<open>Only the boost count and the calls change.\<close>

definition same_but_calls :: "'a rms_scheme \<Rightarrow> 'a rms_scheme \<Rightarrow> bool" where
  "same_but_calls s s' \<longleftrightarrow> s' = s\<lparr>mCpuBoostCount := mCpuBoostCount s', mCalls := mCalls s'\<rparr>"

lemma same_but_calls_refl [simp]: "same_but_calls s s"
  by (simp add: same_but_calls_def)

lemma same_but_calls_trans: "same_but_calls s s' \<Longrightarrow> same_but_calls s' s'' \<Longrightarrow> same_but_calls s s''"
  unfolding same_but_calls_def by (metis (no_types) rms.surjective rms.update_convs(3) rms.update_convs(10))

lemma same_but_calls_metrics: "same_but_calls s s' \<Longrightarrow> mResourceManagerMetrics s' = mResourceManagerMetrics s"
  unfolding same_but_calls_def by (metis rms.select_convs(8) rms.surjective rms.update_convs(3,10))

lemma same_but_calls_wide: "same_but_calls s s' \<Longrightarrow> wide s' = wide s"
  by (simp add: wide_def same_but_calls_metrics)

lemma same_first [simp]: "same_but_calls s (onFirstAdded uid r s)"
  and same_last [simp]: "same_but_calls s (onLastRemoved uid r s)"
  by (auto simp: same_but_calls_def onFirstAdded_def onLastRemoved_def rm_emit_def Let_def)

lemma addOne_spec:
  assumes "rl_ok held" "rl_ok added" "in_int64 (mr_value res)" "balanced uid D B (map res_key held) s"
  shows "\<exists>held' added' s'. addOne uid res (held, added, s) = Some (held', added', s') \<and> rl_ok held' \<and> rl_ok added'
     \<and> balanced uid D B (map res_key held') s' \<and> same_but_calls s s'"
proof (cases "mr_value res < 0 \<and> mr_type res \<noteq> kDrmSession")
  case True
  then show ?thesis using assms by (simp add: addOne_def)
next
  case False
  obtain ok new held' where h: "rl_add res held = Some (ok, new, held')" "rl_ok held'"
    and keys: "map res_key held' = (if new then map res_key held @ [res_key res] else map res_key held)" "new \<longrightarrow> ok"
    using rl_add_spec [OF assms(1,3)] by (auto split: option.splits if_splits)
  obtain ok' new' added' where a: "rl_add res added = Some (ok', new', added')" "rl_ok added'"
    using rl_add_spec [OF assms(2,3)] by blast
  have "balanced uid D B (map res_key held') (if new then onFirstAdded uid res s else s)"
    using assms(4) balanced_first [OF assms(4)] keys by simp
  with False h a keys(2) assms(2) show ?thesis by (auto simp: addOne_def)
qed

lemma removeOne_spec:
  assumes "rl_ok held" "rl_ok removed" "in_int64 (mr_value res)" "balanced uid D B (map res_key held) s"
  shows "\<exists>held' removed' s' D' B'. removeOne uid res (held, removed, s) = Some (held', removed', s') \<and> rl_ok held' \<and> rl_ok removed'
     \<and> leftover (wide s) D B D' B' \<and> balanced uid D' B' (map res_key held') s' \<and> same_but_calls s s'"
proof (cases "mr_value res < 0")
  case True
  then show ?thesis using assms by (simp add: removeOne_def) (blast intro: leftover_refl)
next
  case False
  then obtain ok v held' where h: "rl_remove (mLong (mResourceManagerMetrics s)) res held = Some (ok, v, held')" "rl_ok held'"
    and ok: "ok \<longleftrightarrow> amounts held (res_key res) \<noteq> None"
    and v: "case amounts held (res_key res) of
          None \<Rightarrow> v = - 1 \<and> held' = held
        | Some x \<Rightarrow>
            if x > mr_value res then v = - 1 \<and> map res_key held' = map res_key held
              \<and> amounts held' = (amounts held)(res_key res \<mapsto> x - mr_value res)
            else v = to_long (mLong (mResourceManagerMetrics s)) x \<and> map res_key held' = remove1 (res_key res) (map res_key held)
              \<and> amounts held' = (amounts held)(res_key res := None)"
    using rl_remove_spec [OF assms(1), of res "mLong (mResourceManagerMetrics s)"] by auto
  show ?thesis
  proof (cases "amounts held (res_key res)")
    case None
    with h ok v assms False show ?thesis by (simp add: removeOne_def) (blast intro: leftover_refl)
  next
    case (Some x)
    then have ks: "res_key res \<in> set (map res_key held)" using amounts_None [of held "res_key res"] by simp
    have x: "0 \<le> x \<and> x \<le> int64_max"
      using map_of_SomeD [OF Some [unfolded amounts_def]] assms(1) by (auto simp: rl_ok_def)
    define s' where "s' = (if v \<noteq> - 1 then onLastRemoved uid res s else s)"
    define r' where "r' = (if v \<noteq> - 1 then res\<lparr>mr_value := v\<rparr> else res)"
    have wide_v: "v \<noteq> - 1" if "wide s" "\<not> x > mr_value res"
      using v Some that x to_long_64 [of x] by (simp add: wide_def in_int64_def)
    obtain D' B' where bal: "leftover (wide s) D B D' B'" "balanced uid D' B' (map res_key held') s'"
    proof (cases "\<not> x > mr_value res \<and> v = - 1")
      case True
      then have keys: "map res_key held' = remove1 (res_key res) (map res_key held)" "\<not> wide s" using v Some wide_v by auto
      from balanced_skipped [OF assms(4) ks] show thesis using that keys True by (auto simp: s'_def)
    next
      case False
      then have "balanced uid D B (map res_key held') s'"
        using v Some assms(4) balanced_last [OF assms(4) ks] by (auto simp: s'_def split: if_splits)
      with that [OF leftover_refl] show thesis .
    qed
    have "in_int64 (mr_value r')" using v Some x assms(3) to_long_range by (auto simp: r'_def split: if_splits)
    then obtain o2 n2 removed' where a: "rl_add r' removed = Some (o2, n2, removed')" "rl_ok removed'"
      using rl_add_spec [OF assms(2)] by blast
    have "removeOne uid res (held, removed, s) = Some (held', removed', s')"
      using False h ok Some a(1) by (simp add: removeOne_def Let_def s'_def [symmetric] r'_def [symmetric])
    moreover have "same_but_calls s s'" by (simp add: s'_def)
    ultimately show ?thesis using h(2) a(2) bal by blast
  qed
qed

lemma loop_spec:
  fixes f :: "media_resource \<Rightarrow> media_resource list \<times> media_resource list \<times> 'a rms_scheme
      \<Rightarrow> (media_resource list \<times> media_resource list \<times> 'a rms_scheme) ub"
  assumes body: "\<And>res held other s D B. \<lbrakk>rl_ok held; rl_ok other; in_int64 (mr_value res); balanced uid D B (map res_key held) s\<rbrakk> \<Longrightarrow>
      \<exists>held' other' s' D' B'. f res (held, other, s) = Some (held', other', s') \<and> rl_ok held' \<and> rl_ok other'
        \<and> leftover (wide s) D B D' B' \<and> balanced uid D' B' (map res_key held') s' \<and> same_but_calls s s'"
    and "rl_ok held" "balanced uid D B (map res_key held) s" "\<forall>r \<in> set resources. in_int64 (mr_value r)"
  shows "\<exists>held' other' s' D' B'. foldM f resources (held, [], s) = Some (held', other', s') \<and> rl_ok held' \<and> rl_ok other'
     \<and> leftover (wide s) D B D' B' \<and> balanced uid D' B' (map res_key held') s' \<and> same_but_calls s s'"
proof -
  define P where "P rs st \<longleftrightarrow> (\<forall>r \<in> set rs. in_int64 (mr_value r)) \<and> (case st of (h, x, s') \<Rightarrow>
      rl_ok h \<and> rl_ok x \<and> (\<exists>D' B'. leftover (wide s) D B D' B' \<and> balanced uid D' B' (map res_key h) s') \<and> same_but_calls s s')" for rs :: "media_resource list" and st
  have "\<exists>st'. foldM f resources (held, [], s) = Some st' \<and> P [] st'"
  proof (rule foldM_rule)
    show "P resources (held, [], s)" using assms unfolding P_def by simp (blast intro: leftover_refl)
    fix r rs st assume P: "P (r # rs) st"
    obtain h x s' where st: "st = (h, x, s')" by (cases st)
    obtain D1 B1 where D1: "leftover (wide s) D B D1 B1" "balanced uid D1 B1 (map res_key h) s'" and same: "same_but_calls s s'"
      using P st by (auto simp: P_def)
    have "\<exists>h2 x2 s2 D2 B2. f r (h, x, s') = Some (h2, x2, s2) \<and> rl_ok h2 \<and> rl_ok x2
        \<and> leftover (wide s') D1 B1 D2 B2 \<and> balanced uid D2 B2 (map res_key h2) s2 \<and> same_but_calls s' s2"
      using P st D1(2) by (intro body) (auto simp: P_def)
    then obtain h2 x2 s2 D2 B2 where r: "f r (h, x, s') = Some (h2, x2, s2)" "rl_ok h2" "rl_ok x2"
      "leftover (wide s') D1 B1 D2 B2" "balanced uid D2 B2 (map res_key h2) s2" "same_but_calls s' s2" by blast
    have "leftover (wide s) D B D2 B2" using leftover_trans [OF D1(1)] r(4) same_but_calls_wide [OF same] by simp
    then show "\<exists>st'. f r st = Some st' \<and> P rs st'"
      using P st r same_but_calls_trans [OF same r(6)] unfolding P_def by (simp, blast)
  qed
  then show ?thesis by (auto simp: P_def) blast
qed

lemma addLoop_spec:
  assumes "rl_ok held" "balanced uid D B (map res_key held) s" "\<forall>r \<in> set resources. in_int64 (mr_value r)"
  shows "\<exists>held' other' s' D' B'. foldM (addOne uid) resources (held, [], s) = Some (held', other', s') \<and> rl_ok held' \<and> rl_ok other'
     \<and> leftover (wide s) D B D' B' \<and> balanced uid D' B' (map res_key held') s' \<and> same_but_calls s s'"
  by (rule loop_spec [OF _ assms]) (use addOne_spec leftover_refl in blast)

lemma removeLoop_spec:
  assumes "rl_ok held" "balanced uid D B (map res_key held) s" "\<forall>r \<in> set resources. in_int64 (mr_value r)"
  shows "\<exists>held' other' s' D' B'. foldM (removeOne uid) resources (held, [], s) = Some (held', other', s') \<and> rl_ok held' \<and> rl_ok other'
     \<and> leftover (wide s) D B D' B' \<and> balanced uid D' B' (map res_key held') s' \<and> same_but_calls s s'"
  by (rule loop_spec [OF _ assms]) (rule removeOne_spec)

lemma lastLoop_spec:
  "balanced uid D B (map res_key rs) s \<Longrightarrow>
     balanced uid D B [] (fold (onLastRemoved uid) rs s) \<and> same_but_calls s (fold (onLastRemoved uid) rs s)"
proof (induction rs arbitrary: s)
  case (Cons r rs)
  from balanced_last [OF Cons.prems, of r] have "balanced uid D B (map res_key rs) (onLastRemoved uid r s)" by simp
  from Cons.IH [OF this] show ?case using same_but_calls_trans [OF same_last] by auto
qed simp

section \<open>The map of processes\<close>

definition info_ok :: "int \<Rightarrow> resource_info \<Rightarrow> bool" where
  "info_ok clientId info \<longleftrightarrow> ri_clientId info = clientId \<and> rl_ok (ri_resources info)"

definition infos_ok :: "resource_infos \<Rightarrow> bool" where
  "infos_ok infos \<longleftrightarrow> smap_ok infos \<and> (\<forall>clientId info. smap_find infos clientId = Some info \<longrightarrow> info_ok clientId info)"

definition map_ok :: "pid_map \<Rightarrow> bool" where
  "map_ok m \<longleftrightarrow> smap_ok m \<and> (\<forall>pid infos. smap_find m pid = Some infos \<longrightarrow> infos_ok infos)"

text \<open>The sum of a number over all clients.\<close>

definition weight :: "(resource_info \<Rightarrow> int) \<Rightarrow> pid_map \<Rightarrow> int" where
  "weight w m = smap_total (smap_total w) m"

definition boosts :: "resource_info \<Rightarrow> int" where
  "boosts info = keyCount boostKey (map res_key (ri_resources info))"

definition videos :: "uid \<Rightarrow> resource_info \<Rightarrow> int" where
  "videos u info = (if ri_uid info = u then keyCount videoKey (map res_key (ri_resources info)) else 0)"

lemma weights_nonneg [simp]: "0 \<le> boosts info" "0 \<le> videos u info"
  by (simp_all add: boosts_def videos_def)

lemma infos_ok_Nil [simp]: "infos_ok []"
  by (simp add: infos_ok_def)

lemma infos_ok_set: "infos_ok infos \<Longrightarrow> info_ok clientId info \<Longrightarrow> infos_ok (smap_set clientId info infos)"
  by (auto simp: infos_ok_def smap_simps smap_ok_set)

lemma infos_ok_erase: "infos_ok infos \<Longrightarrow> infos_ok (smap_erase clientId infos)"
  by (auto simp: infos_ok_def smap_simps smap_ok_erase)

lemma map_ok_set: "map_ok m \<Longrightarrow> infos_ok infos \<Longrightarrow> map_ok (smap_set pid infos m)"
  by (auto simp: map_ok_def smap_simps smap_ok_set)

lemma map_ok_find: "map_ok m \<Longrightarrow> smap_find m pid = Some infos \<Longrightarrow> infos_ok infos"
  by (simp add: map_ok_def)

lemma weight_set:
  assumes "map_ok m" "smap_find m pid = Some infos"
  shows "weight w (smap_set pid infos' m) = weight w m + smap_total w infos' - smap_total w infos"
  using assms by (simp add: weight_def map_ok_def smap_total_set)

lemma weight_set_info:
  assumes "map_ok m" "smap_find m pid = Some infos" "smap_find infos clientId = Some info"
  shows "weight w (smap_set pid (smap_set clientId info' infos) m) = weight w m + w info' - w info"
    and "weight w (smap_set pid (smap_erase clientId infos) m) = weight w m - w info"
  using assms map_ok_find [OF assms(1,2)]
  by (simp_all add: weight_set infos_ok_def smap_total_set smap_total_erase)

lemma total_ge:
  assumes "\<And>v. 0 \<le> f v" "smap_find m k = Some v"
  shows "f v \<le> smap_total f m"
  using assms(2)
proof (induction m k rule: smap_find.induct)
  case (2 a b m k)
  then show ?case using assms(1) [of b] smap_total_nonneg [of f m, OF assms(1)] by (auto split: if_splits)
qed simp

lemma weight_ge:
  assumes "\<And>i. 0 \<le> w i" "smap_find m pid = Some infos" "smap_find infos clientId = Some info"
  shows "w info \<le> weight w m"
proof -
  have "w info \<le> smap_total w infos" using total_ge [OF assms(1,3)] .
  also have "\<dots> \<le> weight w m" unfolding weight_def
    by (rule total_ge [OF _ assms(2)]) (rule smap_total_nonneg [OF assms(1)])
  finally show ?thesis .
qed

text \<open>The references \<open>addResource\<close> works on: the client's record, made when there was none.\<close>

lemma edit_spec:
  assumes "map_ok m" "getResourceInfosForEdit pid m = (infos, m1)" "getResourceInfoForEdit ci client infos = (info, infos1)"
  shows "info_ok (cp_id ci) info"
    and "\<lbrakk>\<And>i. ri_resources i = [] \<Longrightarrow> w i = 0\<rbrakk> \<Longrightarrow> (\<And>i. 0 \<le> w i) \<Longrightarrow> w info \<le> weight w m"
    and "info_ok (cp_id ci) info' \<Longrightarrow> map_ok (smap_set pid (smap_set (cp_id ci) info' infos1) m1)"
    and "\<lbrakk>\<And>i. ri_resources i = [] \<Longrightarrow> w i = 0\<rbrakk> \<Longrightarrow>
           weight w (smap_set pid (smap_set (cp_id ci) info' infos1) m1) = weight w m + w info' - w info"
proof -
  have m1: "map_ok m1" "infos_ok infos" "smap_find m1 pid = Some infos" "weight w m1 = weight w m" for w
    using assms(1,2) map_ok_find [OF assms(1)]
    by (auto simp: getResourceInfosForEdit_def weight_def map_ok_def smap_ok_emplace smap_simps smap_total_emplace
        split: option.splits if_splits)
  have i1: "info_ok (cp_id ci) info" "infos_ok infos1" "smap_find infos1 (cp_id ci) = Some info"
    using assms(3) m1(2)
    by (auto simp: getResourceInfoForEdit_def Let_def infos_ok_def info_ok_def smap_ok_emplace smap_simps split: option.splits if_splits)
  have t1: "smap_total w infos1 = smap_total w infos" if "\<And>i. ri_resources i = [] \<Longrightarrow> w i = 0" for w
    using assms(3) m1(2) that
    by (auto simp: getResourceInfoForEdit_def Let_def infos_ok_def smap_total_emplace split: option.splits)
  have w: "w info = 0 \<or> smap_find infos (cp_id ci) = Some info" if "\<And>i. ri_resources i = [] \<Longrightarrow> w i = 0" for w
    using assms(3) that by (auto simp: getResourceInfoForEdit_def Let_def split: option.splits)
  show "info_ok (cp_id ci) info" by (fact i1(1))
  show "w info \<le> weight w m" if "\<And>i. ri_resources i = [] \<Longrightarrow> w i = (0 :: int)" "\<And>i. 0 \<le> w i" for w
  proof -
    have "0 \<le> weight w m" unfolding weight_def by (intro smap_total_nonneg that(2))
    moreover have "w info \<le> weight w m" if "smap_find infos (cp_id ci) = Some info"
      using weight_ge [of w, OF \<open>\<And>i. 0 \<le> w i\<close> m1(3) that] m1(4) [of w] by simp
    ultimately show ?thesis using w [of w] that(1) by auto
  qed
  show "map_ok (smap_set pid (smap_set (cp_id ci) info' infos1) m1)" if "info_ok (cp_id ci) info'"
    by (intro map_ok_set infos_ok_set m1(1) i1(2) that)
  show "weight w (smap_set pid (smap_set (cp_id ci) info' infos1) m1) = weight w m + w info' - w info"
    if "\<And>i. ri_resources i = [] \<Longrightarrow> w i = (0 :: int)" for w
    using weight_set [OF m1(1,3), of w] i1(2,3) t1 [OF that] m1(4) [of w] by (simp add: infos_ok_def smap_total_set)
qed

end
