(* ===== verification/Resource_Machine.thy ===== *)
theory Resource_Machine
  imports Resource_Invariant
begin

text \<open>
  The resource manager as a state machine: clients add and remove resources, are marked, die, are started and
  stopped, priorities are overridden, and reclaims ask clients and drop those that refuse, in any order. Every call is
  handled without undefined behaviour and keeps the invariant.
\<close>

section \<open>The invariant\<close>

text \<open>
  The accounts of what other services were told. \<open>f\<close> says whether something may be left over: what a client dropped by a reclaim
  held stays counted, and so does, with a \<^verbatim>\<open>long\<close> of 32 bits, an entry that is removed without a report.
\<close>

definition accounts :: "bool \<Rightarrow> int \<Rightarrow> rm_call list \<Rightarrow> pid_map \<Rightarrow> bool" where
  "accounts f n calls m \<longleftrightarrow>
     (\<exists>D B. 0 \<le> D \<and> (\<forall>u. 0 \<le> B u) \<and> (\<not> f \<longrightarrow> D = 0 \<and> (\<forall>u. B u = 0)) \<and> n = D + weight boosts m
        \<and> (\<forall>u. videoBalance u calls = B u + weight (videos u) m))
     \<and> (boostOn False calls \<longleftrightarrow> 0 < n)"

definition stamps_ok :: "metrics \<Rightarrow> bool" where
  "stamps_ok m \<longleftrightarrow> (\<forall>k c. smap_find (mClientConfigMap m) k = Some c \<longrightarrow> 0 \<le> cc_timeStamp c \<and> cc_timeStamp c \<le> int64_max
     \<and> (hasPixels (cc_codecType c) \<longrightarrow> in_long (mLong m) (cc_width c * cc_height c)))"

definition rm_inv :: "bool \<Rightarrow> 'a rms_scheme \<Rightarrow> bool" where
  "rm_inv f s \<longleftrightarrow> map_ok (mMap s) \<and> stamps_ok (mResourceManagerMetrics s) \<and> pi_ok (mProcessInfo s)
     \<and> accounts (f \<or> \<not> wide s) (mCpuBoostCount s) (mCalls s) (mMap s)"

text \<open>The clock of the system is in range.\<close>

definition clock_in_range :: "rm_env \<Rightarrow> bool" where
  "clock_in_range e \<longleftrightarrow> 0 \<le> systemTimeUs e \<and> systemTimeUs e \<le> int64_max"

lemma weights_no_resources: "ri_resources i = [] \<Longrightarrow> boosts i = 0" "ri_resources i = [] \<Longrightarrow> videos u i = 0"
  by (simp_all add: boosts_def videos_def)

lemma accounts_loop:
  assumes "accounts f (mCpuBoostCount s) (mCalls s) m" "boosts info \<le> weight boosts m"
  shows "\<exists>D B. balanced (ri_uid info) D B (map res_key (ri_resources info)) (s :: 'a rms_scheme)
     \<and> (\<forall>(s' :: 'a rms_scheme) ks m' D' B'. leftover (\<not> f) D B D' B' \<longrightarrow> balanced (ri_uid info) D' B' ks s'
        \<longrightarrow> weight boosts m' = weight boosts m + keyCount boostKey ks - boosts info
        \<longrightarrow> (\<forall>u. weight (videos u) m' = weight (videos u) m + (if u = ri_uid info then keyCount videoKey ks else 0) - videos u info)
        \<longrightarrow> accounts f (mCpuBoostCount s') (mCalls s') m')"
proof -
  from assms(1) obtain D B where a: "0 \<le> D" "\<forall>u. 0 \<le> B u" "\<not> f \<longrightarrow> D = 0 \<and> (\<forall>u. B u = 0)"
    "mCpuBoostCount s = D + weight boosts m" "\<forall>u. videoBalance u (mCalls s) = B u + weight (videos u) m"
    "boostOn False (mCalls s) \<longleftrightarrow> 0 < mCpuBoostCount s"
    unfolding accounts_def by blast
  define D' where "D' = D + weight boosts m - boosts info"
  define B' where "B' u = B u + weight (videos u) m - videos u info" for u
  have "balanced (ri_uid info) D' B' (map res_key (ri_resources info)) s"
    using a assms(2) by (auto simp: balanced_def D'_def B'_def boosts_def videos_def)
  moreover have "accounts f (mCpuBoostCount s') (mCalls s') m'"
    if left: "leftover (\<not> f) D' B' D'' B''" and "balanced (ri_uid info) D'' B'' ks s'" "weight boosts m' = weight boosts m + keyCount boostKey ks - boosts info"
      "\<And>u. weight (videos u) m' = weight (videos u) m + (if u = ri_uid info then keyCount videoKey ks else 0) - videos u info"
    for s' :: "'a rms_scheme" and ks m' D'' B''
  proof -
    have "mCpuBoostCount s' = (D + (D'' - D')) + weight boosts m'" "\<forall>u. videoBalance u (mCalls s') = (B u + (B'' u - B' u)) + weight (videos u) m'"
      "boostOn False (mCalls s') \<longleftrightarrow> 0 < mCpuBoostCount s'"
      using that(2-) by (auto simp: balanced_def D'_def B'_def)
    moreover have "0 \<le> D + (D'' - D')" "\<forall>u. 0 \<le> B u + (B'' u - B' u)" "\<not> f \<longrightarrow> D + (D'' - D') = 0 \<and> (\<forall>u. B u + (B'' u - B' u) = 0)"
      using a(1,2,3) left by (auto simp: leftover_def add_nonneg_nonneg)
    ultimately show ?thesis unfolding accounts_def
      by (intro conjI exI [of _ "D + (D'' - D')"] exI [of _ "\<lambda>u. B u + (B'' u - B' u)"]) auto
  qed
  ultimately show ?thesis by blast
qed

section \<open>Every operation keeps it\<close>

lemma rm_inv_frame:
  assumes "rm_inv f s" "mMap s' = mMap s" "mCpuBoostCount s' = mCpuBoostCount s"
    "\<And>u. videoBalance u (mCalls s') = videoBalance u (mCalls s)" "boostOn False (mCalls s') = boostOn False (mCalls s)"
    "stamps_ok (mResourceManagerMetrics s')" "mLong (mResourceManagerMetrics s') = mLong (mResourceManagerMetrics s)" "pi_ok (mProcessInfo s')"
  shows "rm_inv f s'"
  using assms by (simp add: rm_inv_def accounts_def wide_def)

lemma observers_frame:
  "rm_inv f s \<Longrightarrow> rm_inv f (observersAdded uid pid l s)" "rm_inv f s \<Longrightarrow> rm_inv f (observersRemoved uid pid l s)"
  "rm_inv f s \<Longrightarrow> rm_inv f (notifyResourceGranted e pid l s)"
  by (auto simp: observersAdded_def observersRemoved_def notifyResourceGranted_def rm_emit_def rm_inv_def accounts_def wide_def split: option.splits)

lemma same_but_callsD:
  assumes "same_but_calls s s'"
  shows "mMap s' = mMap s" "mResourceManagerMetrics s' = mResourceManagerMetrics s" "mProcessInfo s' = mProcessInfo s"
    "mObserverService s' = mObserverService s"
  using assms unfolding same_but_calls_def by (metis rms.select_convs rms.surjective rms.update_convs(3,10))+

lemma rm_inv_add:
  assumes "rm_inv f s" "\<forall>r \<in> set resources. in_int64 (mr_value r)"
  shows "\<exists>s'. addResource e ci client resources s = Some s' \<and> rm_inv f s'"
proof -
  define pid where "pid = (if isPidUidTrusted e (cp_pid ci) (cp_uid ci) then cp_pid ci else callingPid e)"
  obtain infos m where i: "getResourceInfosForEdit pid (mMap s) = (infos, m)" by (metis surj_pair)
  obtain info infos1 where j: "getResourceInfoForEdit ci client infos = (info, infos1)" by (metis surj_pair)
  have inv: "map_ok (mMap s)" "accounts (f \<or> \<not> wide s) (mCpuBoostCount s) (mCalls s) (mMap s)" using assms(1) by (simp_all add: rm_inv_def)
  note edit = edit_spec [OF inv(1) i j]
  have le: "boosts info \<le> weight boosts (mMap s)" by (rule edit(2)) (simp_all add: weights_no_resources)
  obtain D B where bal: "balanced (ri_uid info) D B (map res_key (ri_resources info)) s"
    and close: "\<And>s' ks m' D' B'. leftover (\<not> (f \<or> \<not> wide s)) D B D' B' \<Longrightarrow> balanced (ri_uid info) D' B' ks (s' :: 'a rms_scheme)
        \<Longrightarrow> weight boosts m' = weight boosts (mMap s) + keyCount boostKey ks - boosts info
        \<Longrightarrow> \<forall>u. weight (videos u) m' = weight (videos u) (mMap s) + (if u = ri_uid info then keyCount videoKey ks else 0) - videos u info
        \<Longrightarrow> accounts (f \<or> \<not> wide s) (mCpuBoostCount s') (mCalls s') m'"
    using accounts_loop [OF inv(2) le] by blast
  have "rl_ok (ri_resources info)" using edit(1) by (simp add: info_ok_def)
  from addLoop_spec [OF this bal assms(2)] obtain held added s1 D' B' where
    l: "foldM (addOne (ri_uid info)) resources (ri_resources info, [], s) = Some (held, added, s1)"
    "rl_ok held" "balanced (ri_uid info) D' B' (map res_key held) s1" "same_but_calls s s1" "leftover (wide s) D B D' B'" by blast
  have left: "leftover (\<not> (f \<or> \<not> wide s)) D B D' B'" using l(5) by (auto simp: leftover_def)
  define info' where "info' = info\<lparr>ri_resources := held,
      ri_deathNotifier := (if ri_deathNotifier info = None \<and> client \<noteq> None then Some ci else ri_deathNotifier info)\<rparr>"
  define m' where "m' = smap_set pid (smap_set (cp_id ci) info' infos1) m"
  have i': "info_ok (cp_id ci) info'" using edit(1) l(2) by (simp add: info'_def info_ok_def)
  have "accounts (f \<or> \<not> wide s) (mCpuBoostCount s1) (mCalls s1) m'"
  proof (rule close [OF left l(3)])
    show "weight boosts m' = weight boosts (mMap s) + keyCount boostKey (map res_key held) - boosts info"
      using edit(4) [of boosts info'] weights_no_resources by (simp add: m'_def) (simp add: boosts_def info'_def)
    show "\<forall>u. weight (videos u) m' = weight (videos u) (mMap s)
        + (if u = ri_uid info then keyCount videoKey (map res_key held) else 0) - videos u info"
    proof
      fix u
      show "weight (videos u) m' = weight (videos u) (mMap s)
          + (if u = ri_uid info then keyCount videoKey (map res_key held) else 0) - videos u info"
        using edit(4) [of "videos u" info'] weights_no_resources by (simp add: m'_def) (simp add: videos_def info'_def)
    qed
  qed
  then have "rm_inv f (s1\<lparr>mMap := m'\<rparr>)"
    using assms(1) edit(3) [OF i'] same_but_callsD [OF l(4)] by (simp add: rm_inv_def m'_def wide_def)
  moreover have "addResource e ci client resources s
      = Some (notifyResourceGranted e pid resources
          (observersAdded (if isPidUidTrusted e (cp_pid ci) (cp_uid ci) then cp_uid ci else callingUid e) pid added (s1\<lparr>mMap := m'\<rparr>)))"
    unfolding addResource_def Let_def pid_def [symmetric] i prod.case j l(1) option.case m'_def info'_def by (rule refl)
  ultimately show ?thesis by (simp add: observers_frame)
qed

text \<open>An operation on a client on record.\<close>

lemma putInfo_found: "smap_find m pid = Some infos \<Longrightarrow> putInfo pid clientId info m = smap_set pid (smap_set clientId info infos) m"
  by (simp add: putInfo_def)

lemma rm_inv_remove:
  assumes "rm_inv f s" "\<forall>r \<in> set resources. in_int64 (mr_value r)"
  shows "\<exists>s'. removeResource e ci resources s = Some s' \<and> rm_inv f s'"
proof -
  define pid where "pid = (if isPidTrusted e (cp_pid ci) then cp_pid ci else callingPid e)"
  show ?thesis
  proof (cases "\<exists>infos info. smap_find (mMap s) pid = Some infos \<and> smap_find infos (cp_id ci) = Some info")
    case False
    then show ?thesis using assms(1)
      by (auto simp: removeResource_def Let_def pid_def [symmetric] split: option.splits)
  next
    case True
    then obtain infos info where i: "smap_find (mMap s) pid = Some infos" "smap_find infos (cp_id ci) = Some info" by blast
    have inv: "map_ok (mMap s)" "accounts (f \<or> \<not> wide s) (mCpuBoostCount s) (mCalls s) (mMap s)" using assms(1) by (simp_all add: rm_inv_def)
    have io: "infos_ok infos" "info_ok (cp_id ci) info" using map_ok_find [OF inv(1) i(1)] i(2) by (auto simp: infos_ok_def)
    have le: "boosts info \<le> weight boosts (mMap s)" by (rule weight_ge [OF _ i]) simp
    obtain D B where bal: "balanced (ri_uid info) D B (map res_key (ri_resources info)) s"
      and close: "\<And>s' ks m' D' B'. leftover (\<not> (f \<or> \<not> wide s)) D B D' B' \<Longrightarrow> balanced (ri_uid info) D' B' ks (s' :: 'a rms_scheme)
          \<Longrightarrow> weight boosts m' = weight boosts (mMap s) + keyCount boostKey ks - boosts info
          \<Longrightarrow> \<forall>u. weight (videos u) m' = weight (videos u) (mMap s) + (if u = ri_uid info then keyCount videoKey ks else 0) - videos u info
          \<Longrightarrow> accounts (f \<or> \<not> wide s) (mCpuBoostCount s') (mCalls s') m'"
      using accounts_loop [OF inv(2) le] by blast
    have "rl_ok (ri_resources info)" using io(2) by (simp add: info_ok_def)
    from removeLoop_spec [OF this bal assms(2)] obtain held removed s1 D' B' where
      l: "foldM (removeOne (ri_uid info)) resources (ri_resources info, [], s) = Some (held, removed, s1)"
      "rl_ok held" "balanced (ri_uid info) D' B' (map res_key held) s1" "same_but_calls s s1" "leftover (wide s) D B D' B'" by blast
    have left: "leftover (\<not> (f \<or> \<not> wide s)) D B D' B'" using l(5) by (auto simp: leftover_def)
    define info' where "info' = info\<lparr>ri_resources := held\<rparr>"
    define m' where "m' = smap_set pid (smap_set (cp_id ci) info' infos) (mMap s)"
    have i': "info_ok (cp_id ci) info'" using io(2) l(2) by (simp add: info'_def info_ok_def)
    have "accounts (f \<or> \<not> wide s) (mCpuBoostCount s1) (mCalls s1) m'"
      using weight_set_info(1) [OF inv(1) i]
      by (intro close [OF left l(3)]) (auto simp: m'_def info'_def boosts_def videos_def)
    then have "rm_inv f (s1\<lparr>mMap := m'\<rparr>)"
      using assms(1) map_ok_set [OF inv(1) infos_ok_set [OF io(1) i']] same_but_callsD [OF l(4)] by (simp add: rm_inv_def m'_def wide_def)
    moreover have "putInfo pid (cp_id ci) info' (mMap s1) = m'"
      using putInfo_found i(1) same_but_callsD(1) [OF l(4)] by (simp add: m'_def)
    ultimately show ?thesis
      using l(1) i by (simp add: removeResource_def Let_def pid_def [symmetric] info'_def [symmetric] observers_frame)
  qed
qed

text \<open>The time stamps stay in range, so their differences do.\<close>

lemma mLong_frame [simp]:
  "mLong (increasePixelCount pid n m) = mLong m" "mLong (decreasePixelCount pid n m) = mLong m"
  "mLong (increaseConcurrentCodecs pid b m) = mLong m" "mLong (decreaseConcurrentCodecs pid b m) = mLong m"
  by (simp_all add: increasePixelCount_def decreasePixelCount_def increaseConcurrentCodecs_def decreaseConcurrentCodecs_def Let_def
      split: option.splits)

lemma countPixels_mLong:
  "countPixels increasePixelCount cfg m = Some m' \<or> countPixels decreasePixelCount cfg m = Some m' \<Longrightarrow> mLong m' = mLong m"
  by (auto simp: countPixels_def split: if_splits)

definition pixels_ok :: "metrics \<Rightarrow> client_config \<Rightarrow> bool" where
  "pixels_ok m cfg \<longleftrightarrow> (hasPixels (cc_codecType cfg) \<longrightarrow> in_long (mLong m) (cc_width cfg * cc_height cfg))"

lemma countPixels_defined: "countPixels count cfg m \<noteq> None \<longleftrightarrow> pixels_ok m cfg"
  by (simp add: countPixels_def pixels_ok_def pixelsOf_def Let_def)

lemma stamps_stop_keeps:
  assumes "mt_notifyClientStopped cfg m = Some m'" "stamps_ok m"
  shows "stamps_ok m' \<and> mLong m' = mLong m"
proof -
  define m0 where "m0 = decreaseConcurrentCodecs (cp_pid (cc_clientInfo cfg)) (getCodecBucket (cc_isEncoder cfg) (cc_codecType cfg)) m"
  obtain m1 where m1: "countPixels decreasePixelCount cfg m0 = Some m1"
    using assms(1) by (auto simp: mt_notifyClientStopped_def Let_def m0_def Option.bind_eq_Some_conv)
  have fr: "mClientConfigMap m1 = mClientConfigMap m" "mLong m1 = mLong m"
    using countPixels_frame(1) [OF disjI2 [OF m1]] countPixels_mLong [OF disjI2 [OF m1]] by (simp_all add: m0_def)
  have "(mClientConfigMap m' = mClientConfigMap m1 \<or> mClientConfigMap m' = smap_erase (cp_id (cc_clientInfo cfg)) (mClientConfigMap m1))
      \<and> mLong m' = mLong m1"
    using assms(1) m1 by (cases "smap_find (mClientConfigMap m1) (cp_id (cc_clientInfo cfg))")
      (auto simp: mt_notifyClientStopped_def Let_def m0_def split: option.splits)
  with fr assms(2) show ?thesis by (auto simp: stamps_ok_def smap_simps split: if_splits)
qed

lemma stamps_stop:
  assumes "stamps_ok m" "0 \<le> cc_timeStamp cfg" "cc_timeStamp cfg \<le> int64_max" "pixels_ok m cfg"
  shows "\<exists>m'. mt_notifyClientStopped cfg m = Some m' \<and> stamps_ok m' \<and> mLong m' = mLong m"
proof -
  define m0 where "m0 = decreaseConcurrentCodecs (cp_pid (cc_clientInfo cfg)) (getCodecBucket (cc_isEncoder cfg) (cc_codecType cfg)) m"
  have "pixels_ok m0 cfg" using assms(4) by (simp add: pixels_ok_def m0_def)
  then obtain m1 where m1: "countPixels decreasePixelCount cfg m0 = Some m1" using countPixels_defined by blast
  have "mClientConfigMap m1 = mClientConfigMap m" using countPixels_frame(1) [OF disjI2 [OF m1]] by (simp add: m0_def)
  moreover have "in_int64 (cc_timeStamp cfg - cc_timeStamp entry)"
    if "smap_find (mClientConfigMap m) k = Some entry" for k entry
    using assms that by (auto simp: stamps_ok_def in_int64_def int64_max_def dest!: spec)
  ultimately have "mt_notifyClientStopped cfg m \<noteq> None" using m1
    by (auto simp: mt_notifyClientStopped_def Let_def m0_def int64_def split: option.splits)
  then show ?thesis using stamps_stop_keeps [OF _ assms(1)] by blast
qed

lemma stamps_release:
  assumes "stamps_ok m" "clock_in_range e"
  shows "\<exists>m'. mt_notifyClientReleased e ci m = Some m' \<and> stamps_ok m' \<and> mLong m' = mLong m"
proof (cases "smap_find (mClientConfigMap m) (cp_id ci)")
  case None
  then show ?thesis using assms(1) by (auto simp: mt_notifyClientReleased_def stamps_ok_def split: option.splits)
next
  case (Some cfg)
  have "pixels_ok m (cfg\<lparr>cc_timeStamp := systemTimeUs e\<rparr>)" using assms(1) Some by (auto simp: stamps_ok_def pixels_ok_def)
  then obtain m1 where "mt_notifyClientStopped (cfg\<lparr>cc_timeStamp := systemTimeUs e\<rparr>) m = Some m1" "stamps_ok m1" "mLong m1 = mLong m"
    using stamps_stop [OF assms(1), of "cfg\<lparr>cc_timeStamp := systemTimeUs e\<rparr>"] assms(2) by (auto simp: clock_in_range_def)
  with Some show ?thesis by (auto simp: mt_notifyClientReleased_def stamps_ok_def split: option.splits)
qed

lemma stamps_other [simp]:
  "stamps_ok (mt_notifyClientCreated ci m) = stamps_ok m" "mLong (mt_notifyClientCreated ci m) = mLong m"
  "stamps_ok (addPid e pid u m) = stamps_ok m" "mLong (addPid e pid u m) = mLong m"
  "stamps_ok (mt_onUidGone e p u m) = stamps_ok m" "mLong (mt_onUidGone e p u m) = mLong m"
proof -
  have f: "mClientConfigMap (fold onProcessTerminated pids m) = mClientConfigMap m \<and> mLong (fold onProcessTerminated pids m) = mLong m" for pids m
    by (induction pids arbitrary: m) (simp_all add: onProcessTerminated_def)
  show "stamps_ok (mt_onUidGone e p u m) = stamps_ok m" "mLong (mt_onUidGone e p u m) = mLong m"
    by (simp_all add: mt_onUidGone_def stamps_ok_def split_beta f)
qed (simp_all add: stamps_ok_def mt_notifyClientCreated_def addPid_def split: option.splits)

lemma stamps_start:
  assumes "mt_notifyClientStarted e cfg m = Some m'" "stamps_ok m" "0 \<le> cc_timeStamp cfg" "cc_timeStamp cfg \<le> int64_max"
  shows "stamps_ok m' \<and> mLong m' = mLong m"
proof -
  define m0 where "m0 = increaseConcurrentCodecs (cp_pid (cc_clientInfo cfg)) (getCodecBucket (cc_isEncoder cfg) (cc_codecType cfg))
    (m\<lparr>mUidObserver := uo_add e (cp_pid (cc_clientInfo cfg)) (word_of_int (cp_uid (cc_clientInfo cfg))) (mUidObserver m),
       mClientConfigMap := smap_set (cp_id (cc_clientInfo cfg)) cfg (mClientConfigMap m)\<rparr>)"
  obtain m1 where m1: "countPixels increasePixelCount cfg m0 = Some m1" "mClientConfigMap m' = mClientConfigMap m1" "mLong m' = mLong m1"
    using assms(1) by (auto simp: mt_notifyClientStarted_def Let_def m0_def)
  have "mClientConfigMap m' = smap_set (cp_id (cc_clientInfo cfg)) cfg (mClientConfigMap m)" "mLong m' = mLong m"
    using countPixels_frame(1) [OF disjI1 [OF m1(1)]] countPixels_mLong [OF disjI1 [OF m1(1)]] m1(2,3) by (simp_all add: m0_def)
  moreover have "pixels_ok m cfg" using countPixels_defined [of increasePixelCount cfg m0] m1(1) by (simp add: pixels_ok_def m0_def)
  ultimately show ?thesis using assms(2-) by (auto simp: stamps_ok_def pixels_ok_def smap_simps split: if_splits)
qed

lemma start_defined: "pixels_ok m cfg \<Longrightarrow> mt_notifyClientStarted e cfg m \<noteq> None"
  using countPixels_defined [of increasePixelCount cfg] by (simp add: mt_notifyClientStarted_def Let_def pixels_ok_def)

lemma stamps_change:
  assumes "mt_notifyClientConfigChanged cfg m = Some m'" "stamps_ok m"
  shows "stamps_ok m' \<and> mLong m' = mLong m"
  using assms
  by (auto simp: stamps_ok_def mt_notifyClientConfigChanged_def updatePixelCount_def pixelsOf_def Let_def smap_simps
      split: option.splits if_splits)

lemma change_defined:
  assumes "stamps_ok m" "pixels_ok m cfg"
    "\<And>entry. smap_find (mClientConfigMap m) (cp_id (cc_clientInfo cfg)) = Some entry \<Longrightarrow> cc_codecType entry = cc_codecType cfg"
  shows "mt_notifyClientConfigChanged cfg m \<noteq> None"
  using assms by (auto simp: stamps_ok_def pixels_ok_def mt_notifyClientConfigChanged_def pixelsOf_def Let_def split: option.splits)

lemma stamps_atom: "stamps_ok m \<Longrightarrow> mt_pushReclaimAtom ci ps ts r m = Some m' \<Longrightarrow> stamps_ok m' \<and> mLong m' = mLong m"
  by (auto simp: mt_pushReclaimAtom_def stamps_ok_def Let_def split: if_splits)

lemma rm_inv_removeClientResources:
  assumes "rm_inv f s" "clock_in_range e"
  shows "\<exists>s'. removeClientResources e ci chk s = Some s' \<and> rm_inv f s'"
proof -
  define pid where "pid = (if chk \<and> \<not> isPidTrusted e (cp_pid ci) then callingPid e else cp_pid ci)"
  show ?thesis
  proof (cases "\<exists>infos info. smap_find (mMap s) pid = Some infos \<and> smap_find infos (cp_id ci) = Some info")
    case False
    then show ?thesis using assms(1)
      by (auto simp: removeClientResources_def Let_def pid_def [symmetric] split: option.splits)
  next
    case True
    then obtain infos info where i: "smap_find (mMap s) pid = Some infos" "smap_find infos (cp_id ci) = Some info" by blast
    have inv: "map_ok (mMap s)" "accounts (f \<or> \<not> wide s) (mCpuBoostCount s) (mCalls s) (mMap s)" "stamps_ok (mResourceManagerMetrics s)"
      using assms(1) by (simp_all add: rm_inv_def)
    have le: "boosts info \<le> weight boosts (mMap s)" by (rule weight_ge [OF _ i]) simp
    obtain D B where bal: "balanced (ri_uid info) D B (map res_key (ri_resources info)) s"
      and close: "\<And>s' ks m' D' B'. leftover (\<not> (f \<or> \<not> wide s)) D B D' B' \<Longrightarrow> balanced (ri_uid info) D' B' ks (s' :: 'a rms_scheme)
        \<Longrightarrow> weight boosts m' = weight boosts (mMap s) + keyCount boostKey ks - boosts info
        \<Longrightarrow> \<forall>u. weight (videos u) m' = weight (videos u) (mMap s) + (if u = ri_uid info then keyCount videoKey ks else 0) - videos u info
        \<Longrightarrow> accounts (f \<or> \<not> wide s) (mCpuBoostCount s') (mCalls s') m'"
      using accounts_loop [OF inv(2) le] by blast
    define s1 where "s1 = fold (onLastRemoved (ri_uid info)) (ri_resources info) s"
    have l: "balanced (ri_uid info) D B [] s1" "same_but_calls s s1" using lastLoop_spec [OF bal] by (simp_all add: s1_def)
    obtain mt where mt: "mt_notifyClientReleased e ci (mResourceManagerMetrics s1) = Some mt" "stamps_ok mt" "mLong mt = mLong (mResourceManagerMetrics s)"
      using stamps_release [OF _ assms(2)] inv(3) same_but_callsD [OF l(2)] by metis
    define m' where "m' = smap_set pid (smap_erase (cp_id ci) infos) (mMap s)"
    have "accounts (f \<or> \<not> wide s) (mCpuBoostCount s1) (mCalls s1) m'"
      using weight_set_info(2) [OF inv(1) i] by (intro close [OF leftover_refl l(1)]) (auto simp: m'_def)
    moreover have "map_ok m'" unfolding m'_def
      using map_ok_set [OF inv(1)] infos_ok_erase [OF map_ok_find [OF inv(1) i(1)]] by blast
    ultimately have "rm_inv f (s1\<lparr>mResourceManagerMetrics := mt, mMap := m'\<rparr>)"
      using assms(1) mt(2,3) same_but_callsD [OF l(2)] by (simp add: rm_inv_def wide_def)
    then have "rm_inv f (observersRemoved (sint (ri_uid info)) pid (ri_resources info) (s1\<lparr>mResourceManagerMetrics := mt, mMap := m'\<rparr>))"
      by (rule observers_frame)
    moreover have "removeClientResources e ci chk s
        = Some (observersRemoved (sint (ri_uid info)) pid (ri_resources info) (s1\<lparr>mResourceManagerMetrics := mt, mMap := m'\<rparr>))"
      using i mt(1) same_but_callsD(1) [OF l(2)]
      by (simp add: removeClientResources_def Let_def pid_def [symmetric] s1_def [symmetric] m'_def observersRemoved_def rm_emit_def
          split: option.splits)
    ultimately show ?thesis by simp
  qed
qed

lemma rm_inv_removeClient_l:
  assumes "rm_inv f s"
  shows "rm_inv True (snd (removeClient_l pid clientId s))"
proof (cases "\<exists>infos info. smap_find (mMap s) pid = Some infos \<and> smap_find infos clientId = Some info")
  case True
  then obtain infos info where i: "smap_find (mMap s) pid = Some infos" "smap_find infos clientId = Some info" by blast
  have inv: "map_ok (mMap s)" "accounts (f \<or> \<not> wide s) (mCpuBoostCount s) (mCalls s) (mMap s)" using assms by (simp_all add: rm_inv_def)
  define m' where "m' = smap_set pid (smap_erase clientId infos) (mMap s)"
  have w: "weight w (mMap s) = weight w m' + w info" for w using weight_set_info(2) [OF inv(1) i, of w] by (simp add: m'_def)
  have "accounts True (mCpuBoostCount s) (mCalls s) m'"
  proof -
    from inv(2) obtain D B where a: "0 \<le> D" "\<forall>u. 0 \<le> B u" "mCpuBoostCount s = D + weight boosts (mMap s)"
      "\<forall>u. videoBalance u (mCalls s) = B u + weight (videos u) (mMap s)" "boostOn False (mCalls s) \<longleftrightarrow> 0 < mCpuBoostCount s"
      unfolding accounts_def by blast
    show ?thesis unfolding accounts_def
      by (rule conjI [OF exI [of _ "D + boosts info"]], rule exI [of _ "\<lambda>u. B u + videos u info"]) (use a in \<open>simp_all add: w\<close>)
  qed
  moreover have "map_ok m'" unfolding m'_def
    using map_ok_set [OF inv(1)] infos_ok_erase [OF map_ok_find [OF inv(1) i(1)]] by blast
  ultimately show ?thesis using assms i by (simp add: removeClient_l_def rm_inv_def m'_def wide_def)
next
  case False
  have "rm_inv True s" using assms by (auto simp: rm_inv_def accounts_def)
  with False show ?thesis by (auto simp: removeClient_l_def split: option.splits)
qed

lemma rm_inv_mark:
  assumes "rm_inv f s"
  shows "rm_inv f (markClientForPendingRemoval e ci s)"
proof -
  define pid where "pid = (if isPidTrusted e (cp_pid ci) then cp_pid ci else callingPid e)"
  show ?thesis
  proof (cases "\<exists>infos info. smap_find (mMap s) pid = Some infos \<and> smap_find infos (cp_id ci) = Some info")
    case False
    then show ?thesis using assms
      by (auto simp: markClientForPendingRemoval_def Let_def pid_def [symmetric] split: option.splits)
  next
    case True
    then obtain infos info where i: "smap_find (mMap s) pid = Some infos" "smap_find infos (cp_id ci) = Some info" by blast
    have inv: "map_ok (mMap s)" using assms by (simp add: rm_inv_def)
    have io: "infos_ok infos" "info_ok (cp_id ci) info" using map_ok_find [OF inv i(1)] i(2) by (auto simp: infos_ok_def)
    define m' where "m' = smap_set pid (smap_set (cp_id ci) (info\<lparr>ri_pendingRemoval := True\<rparr>) infos) (mMap s)"
    have "weight boosts m' = weight boosts (mMap s)" "weight (videos u) m' = weight (videos u) (mMap s)" for u
      using weight_set_info(1) [OF inv i] by (simp_all add: m'_def boosts_def videos_def)
    moreover have "map_ok m'" unfolding m'_def
      by (intro map_ok_set inv infos_ok_set io(1)) (use io(2) in \<open>simp add: info_ok_def\<close>)
    ultimately have "rm_inv f (s\<lparr>mMap := m'\<rparr>)" using assms by (simp add: rm_inv_def accounts_def wide_def)
    then show ?thesis using i
      by (simp add: markClientForPendingRemoval_def Let_def pid_def [symmetric] putInfo_found m'_def)
  qed
qed

lemma rm_inv_override:
  "rm_inv f s \<Longrightarrow> rm_inv f (snd (overridePid baseMethods e p q s))"
  "rm_inv f s \<Longrightarrow> rm_inv f (removeProcessInfoOverride pid s)"
  "rm_inv f s \<Longrightarrow> rm_inv f (snd (overrideProcessInfo baseMethods e c pid st sc s))"
proof -
  have r: "rm_inv f (removeProcessInfoOverride_l pid s)" if "rm_inv f s" for s :: "'a rms_scheme"
    using that by (auto simp: removeProcessInfoOverride_l_def rm_inv_def wide_def pi_ok_ops split: option.splits)
  show "rm_inv f s \<Longrightarrow> rm_inv f (snd (overridePid baseMethods e p q s))"
    by (auto simp: overridePid_def overridePid_l_def Let_def rm_inv_def wide_def)
  show "rm_inv f s \<Longrightarrow> rm_inv f (removeProcessInfoOverride pid s)"
    by (simp add: removeProcessInfoOverride_def r)
  have "rm_inv f (snd (overrideProcessInfo_l c pid st sc s))" if "rm_inv f s" for c
  proof -
    have "pi_ok (snd (pi_overrideProcessInfo pid st sc (mProcessInfo (removeProcessInfoOverride_l pid s))))"
      using r [OF that] by (intro pi_ok_ops) (simp add: rm_inv_def)
    with r [OF that] show ?thesis
      by (auto simp: overrideProcessInfo_l_def Let_def rm_inv_def wide_def split: prod.splits)
  qed
  then show "rm_inv f s \<Longrightarrow> rm_inv f (snd (overrideProcessInfo baseMethods e c pid st sc s))"
    by (auto simp: overrideProcessInfo_def split_beta split: option.splits)
qed

lemma rm_inv_died:
  assumes "rm_inv f s" "clock_in_range e"
  shows "\<exists>s'. dn_binderDied baseMethods e ci s = Some s' \<and> rm_inv f s'"
  using rm_inv_removeClientResources [OF rm_inv_override(1) [OF assms(1), of e "cp_pid ci" "- 1"] assms(2), of ci False]
  by (auto simp: dn_binderDied_def Let_def)

section \<open>The machine\<close>

text \<open>
  The states of \<^verbatim>\<open>ResourceManagerService\<close>. Parcels hold amounts of 64 bits, clients give time stamps that are not
  negative. The flag says whether a reclaim dropped a client.
\<close>

definition parcels_ok :: "media_resource list \<Rightarrow> bool" where
  "parcels_ok resources \<longleftrightarrow> (\<forall>r \<in> set resources. in_int64 (mr_value r))"

inductive rm_reach :: "bool \<Rightarrow> rms \<Rightarrow> bool" where
  rr_new: "rm_reach False (ResourceManagerService e newProcessInfo)"
| rr_config: "rm_reach f s \<Longrightarrow> rm_reach f (config policies s)"
| rr_observers: "rm_reach f s \<Longrightarrow> rm_reach f (setObserverService obs s)"
| rr_add: "rm_reach f s \<Longrightarrow> parcels_ok rs \<Longrightarrow> addResource e ci client rs s = Some s' \<Longrightarrow> rm_reach f s'"
| rr_remove: "rm_reach f s \<Longrightarrow> parcels_ok rs \<Longrightarrow> removeResource e ci rs s = Some s' \<Longrightarrow> rm_reach f s'"
| rr_removeClient: "rm_reach f s \<Longrightarrow> clock_in_range e \<Longrightarrow> removeClient e ci s = Some s' \<Longrightarrow> rm_reach f s'"
| rr_died: "rm_reach f s \<Longrightarrow> clock_in_range e \<Longrightarrow> dn_binderDied baseMethods e ci s = Some s' \<Longrightarrow> rm_reach f s'"
| rr_mark: "rm_reach f s \<Longrightarrow> rm_reach f (markClientForPendingRemoval e ci s)"
| rr_overridePid: "rm_reach f s \<Longrightarrow> rm_reach f (snd (overridePid baseMethods e p q s))"
| rr_overrideInfo: "rm_reach f s \<Longrightarrow> rm_reach f (snd (overrideProcessInfo baseMethods e c pid st sc s))"
| rr_overrideDied: "rm_reach f s \<Longrightarrow> rm_reach f (override_binderDied baseMethods ci s)"
| rr_created: "rm_reach f s \<Longrightarrow> rm_reach f (notifyClientCreated ci s)"
| rr_started: "rm_reach f s \<Longrightarrow> 0 \<le> cc_timeStamp cfg \<Longrightarrow> cc_timeStamp cfg \<le> int64_max
    \<Longrightarrow> notifyClientStarted e cfg s = Some s' \<Longrightarrow> rm_reach f s'"
| rr_stopped: "rm_reach f s \<Longrightarrow> 0 \<le> cc_timeStamp cfg \<Longrightarrow> cc_timeStamp cfg \<le> int64_max
    \<Longrightarrow> notifyClientStopped cfg s = Some s' \<Longrightarrow> rm_reach f s'"
| rr_changed: "rm_reach f s \<Longrightarrow> notifyClientConfigChanged cfg s = Some s' \<Longrightarrow> rm_reach f s'"
| rr_uidGone: "rm_reach f s \<Longrightarrow> rm_reach f (rm_metrics (mt_onUidGone e (mProcessInfo s) u) s)"
| rr_ask: "rm_reach f s \<Longrightarrow> rm_reach f (rm_emit [ReclaimResource c] s)"
| rr_refused: "rm_reach f s \<Longrightarrow> rm_reach True (snd (removeClient_l pid clientId s))"
| rr_atom: "rm_reach f s \<Longrightarrow> pushReclaimAtom baseMethods e ci ts r s = Some s' \<Longrightarrow> rm_reach f s'"

lemma config_frame [simp]:
  "mMap (config ps s) = mMap s" "mCpuBoostCount (config ps s) = mCpuBoostCount s" "mCalls (config ps s) = mCalls s"
  "mResourceManagerMetrics (config ps s) = mResourceManagerMetrics s" "mProcessInfo (config ps s) = mProcessInfo s"
  unfolding config_def by (induction ps arbitrary: s) (simp_all add: configOne_def)

lemma rm_inv_metrics:
  "rm_inv f s \<Longrightarrow> stamps_ok (g (mResourceManagerMetrics s)) \<Longrightarrow> mLong (g (mResourceManagerMetrics s)) = mLong (mResourceManagerMetrics s)
   \<Longrightarrow> rm_inv f (rm_metrics g s)"
  by (simp add: rm_inv_def rm_metrics_def wide_def)

lemma rm_inv_metrics_ub:
  assumes "rm_inv f s" "rm_metrics_ub g s = Some s'"
    "\<And>m'. g (mResourceManagerMetrics s) = Some m' \<Longrightarrow> stamps_ok m' \<and> mLong m' = mLong (mResourceManagerMetrics s)"
  shows "rm_inv f s'"
  using assms by (auto simp: rm_inv_def rm_metrics_ub_def wide_def)

lemma rm_inv_stamps: "rm_inv f s \<Longrightarrow> stamps_ok (mResourceManagerMetrics s)"
  by (simp add: rm_inv_def)

lemma rm_reach_inv: "rm_reach f s \<Longrightarrow> rm_inv f s"
proof (induction rule: rm_reach.induct)
  case (rr_new e)
  show ?case
    by (auto simp: rm_inv_def ResourceManagerService_def map_ok_def stamps_ok_def ResourceManagerMetrics_def pi_ok_ops
        accounts_def weight_def)
next
  case (rr_config f s policies)
  then show ?case by (simp add: rm_inv_def wide_def)
next
  case (rr_observers f s obs)
  then show ?case by (simp add: rm_inv_def setObserverService_def wide_def)
next
  case (rr_add f s rs e ci client s')
  then show ?case using rm_inv_add [of f s rs e ci client] by (simp add: parcels_ok_def)
next
  case (rr_remove f s rs e ci s')
  then show ?case using rm_inv_remove [of f s rs e ci] by (simp add: parcels_ok_def)
next
  case (rr_removeClient f s e ci s')
  then show ?case using rm_inv_removeClientResources [of f s e ci True] by (simp add: removeClient_def)
next
  case (rr_died f s e ci s')
  then show ?case using rm_inv_died [of f s e ci] by auto
next
  case (rr_stopped f s cfg s')
  then show ?case unfolding notifyClientStopped_def
    by (auto intro!: rm_inv_metrics_ub [of f s] dest: stamps_stop_keeps rm_inv_stamps)
next
  case (rr_started f s cfg e s')
  then show ?case unfolding notifyClientStarted_def
    by (auto intro!: rm_inv_metrics_ub [of f s] dest: stamps_start rm_inv_stamps)
next
  case (rr_changed f s cfg s')
  then show ?case unfolding notifyClientConfigChanged_def
    by (auto intro!: rm_inv_metrics_ub [of f s] dest: stamps_change rm_inv_stamps)
next
  case (rr_ask f s c)
  then show ?case by (simp add: rm_inv_def accounts_def rm_emit_def wide_def)
next
  case (rr_atom f s e ci ts r s')
  then show ?case by (auto simp: pushReclaimAtom_def Let_def rm_inv_def wide_def dest: stamps_atom)
qed (simp_all add: rm_inv_mark rm_inv_override override_binderDied_def rm_inv_removeClient_l notifyClientCreated_def rm_inv_metrics rm_inv_stamps)

section \<open>What every resource manager promises\<close>

text \<open>
  The calls that change what is on record, read as a state of the older service: each one is handled and keeps the invariant. The
  safety of the calls and the accounts follow, for the older service here and for the newer one in \<open>Tracker_Machine\<close>.
\<close>

locale resource_manager =
  fixes view :: "'s \<Rightarrow> rms"
    and add :: "rm_env \<Rightarrow> client_info_parcel \<Rightarrow> client option \<Rightarrow> media_resource list \<Rightarrow> 's \<Rightarrow> 's ub"
    and remove :: "rm_env \<Rightarrow> client_info_parcel \<Rightarrow> media_resource list \<Rightarrow> 's \<Rightarrow> 's ub"
    and release :: "rm_env \<Rightarrow> client_info_parcel \<Rightarrow> 's \<Rightarrow> 's ub"
    and died :: "rm_env \<Rightarrow> client_info_parcel \<Rightarrow> 's \<Rightarrow> 's ub"
  assumes add_inv: "rm_inv f (view s) \<Longrightarrow> parcels_ok rs \<Longrightarrow> \<exists>s'. add e ci client rs s = Some s' \<and> rm_inv f (view s')"
    and remove_inv: "rm_inv f (view s) \<Longrightarrow> parcels_ok rs \<Longrightarrow> \<exists>s'. remove e ci rs s = Some s' \<and> rm_inv f (view s')"
    and release_inv: "rm_inv f (view s) \<Longrightarrow> clock_in_range e \<Longrightarrow> \<exists>s'. release e ci s = Some s' \<and> rm_inv f (view s')"
    and died_inv: "rm_inv f (view s) \<Longrightarrow> clock_in_range e \<Longrightarrow> \<exists>s'. died e ci s = Some s' \<and> rm_inv f (view s')"
begin

lemma no_undefined:
  assumes "rm_inv f (view s)" "parcels_ok rs" "clock_in_range e"
  shows "add e ci client rs s \<noteq> None \<and> remove e ci rs s \<noteq> None \<and> release e ci s \<noteq> None \<and> died e ci s \<noteq> None"
  using add_inv [OF assms(1,2), of e ci client] remove_inv [OF assms(1,2), of e ci] release_inv [OF assms(1,3), of ci]
    died_inv [OF assms(1,3), of ci] by auto

lemma accounts_exact:
  assumes "rm_inv f (view s)"
  shows "(boostOn False (mCalls (view s)) \<longleftrightarrow> 0 < mCpuBoostCount (view s)) \<and> weight boosts (mMap (view s)) \<le> mCpuBoostCount (view s)
     \<and> weight (videos u) (mMap (view s)) \<le> videoBalance u (mCalls (view s))
     \<and> (\<not> f \<and> wide (view s) \<longrightarrow> mCpuBoostCount (view s) = weight boosts (mMap (view s)) \<and> videoBalance u (mCalls (view s)) = weight (videos u) (mMap (view s)))"
  using assms by (auto simp: rm_inv_def accounts_def)

lemma amounts_in_range:
  assumes "rm_inv f (view s)" "smap_find (mMap (view s)) pid = Some infos" "smap_find infos i = Some info" "r \<in> set (ri_resources info)"
  shows "0 \<le> mr_value r \<and> mr_value r \<le> int64_max"
  using assms by (auto simp: rm_inv_def map_ok_def infos_ok_def info_ok_def rl_ok_def)

end

interpretation old: resource_manager "\<lambda>s. s" addResource removeResource removeClient "dn_binderDied baseMethods"
  by unfold_locales
    (simp_all add: rm_inv_add rm_inv_remove rm_inv_removeClientResources rm_inv_died removeClient_def parcels_ok_def)

lemma reports_defined:
  assumes "rm_inv f s" "0 \<le> cc_timeStamp cfg \<and> cc_timeStamp cfg \<le> int64_max
    \<and> (hasPixels (cc_codecType cfg) \<longrightarrow> in_long (mLong (mResourceManagerMetrics s)) (cc_width cfg * cc_height cfg))"
  shows "notifyClientStarted e cfg s \<noteq> None \<and> notifyClientStopped cfg s \<noteq> None
    \<and> ((\<forall>entry. smap_find (mClientConfigMap (mResourceManagerMetrics s)) (cp_id (cc_clientInfo cfg)) = Some entry
          \<longrightarrow> cc_codecType entry = cc_codecType cfg) \<longrightarrow> notifyClientConfigChanged cfg s \<noteq> None)"
proof -
  let ?m = "mResourceManagerMetrics s"
  have ok: "stamps_ok ?m" "pixels_ok ?m cfg" using assms by (simp_all add: rm_inv_def pixels_ok_def)
  have "mt_notifyClientStopped cfg ?m \<noteq> None" using stamps_stop [OF ok(1) _ _ ok(2)] assms(2) by auto
  then show ?thesis using start_defined [OF ok(2), of e] change_defined [OF ok]
    by (auto simp: notifyClientStarted_def notifyClientStopped_def notifyClientConfigChanged_def rm_metrics_ub_def)
qed

text \<open>The product of two sizes of 32 bits always fits a \<^verbatim>\<open>long\<close> of 64 bits.\<close>

lemma product_fits_LP64: "- (2 ^ 31) \<le> w \<Longrightarrow> w < 2 ^ 31 \<Longrightarrow> - (2 ^ 31) \<le> h \<Longrightarrow> h < 2 ^ 31 \<Longrightarrow> in_long LP64 (w * h)"
proof -
  assume "- (2 ^ 31) \<le> w" "w < 2 ^ 31" "- (2 ^ 31) \<le> h" "h < 2 ^ 31"
  then have "\<bar>w\<bar> \<le> 2 ^ 31" "\<bar>h\<bar> \<le> 2 ^ 31" by auto
  then have "\<bar>w * h\<bar> \<le> 2 ^ 31 * 2 ^ 31" unfolding abs_mult by (rule mult_mono) simp_all
  then have "- (2 ^ 62) \<le> w * h" "w * h \<le> 2 ^ 62" by (simp_all add: abs_le_iff)
  then show ?thesis by (simp add: in_long_def)
qed

section \<open>Properties\<close>


text \<open>A run for evaluation: process 7 adds a boost and a video codec for its client 3.\<close>

definition demo_client :: client_info_parcel where
  "demo_client = \<lparr>cp_pid = 7, cp_uid = 10007, cp_id = 3, cp_name = ''c'', cp_importance = 0\<rparr>"

definition demo_resources :: "media_resource list" where
  "demo_resources =
     [\<lparr>mr_type = kCpuBoost, mr_subType = kUnspecifiedSubType, mr_id = [], mr_value = 1\<rparr>,
      \<lparr>mr_type = kNonSecureCodec, mr_subType = kHwVideoCodec, mr_id = [], mr_value = 1\<rparr>]"

definition demo_service :: rms where
  "demo_service = the (addResource (sample_caller 7) demo_client (Some 5) demo_resources
     (ResourceManagerService (sample_caller 7) newProcessInfo))"

lemma demo_parcels: "parcels_ok demo_resources" "clock_in_range (sample_caller 7)"
  by (simp_all add: parcels_ok_def demo_resources_def in_int64_def int64_max_def clock_in_range_def sample_caller_def)

lemma demo_reach: "rm_reach False demo_service"
proof -
  obtain s where "addResource (sample_caller 7) demo_client (Some 5) demo_resources
      (ResourceManagerService (sample_caller 7) newProcessInfo) = Some s"
    using rm_inv_add [OF rm_reach_inv [OF rr_new], of demo_resources "sample_caller 7" demo_client "Some 5" "sample_caller 7"]
      demo_parcels(1) by (auto simp: parcels_ok_def)
  with rr_add [OF rr_new demo_parcels(1)] show ?thesis by (simp add: demo_service_def)
qed



lemmas run_simps = demo_service_def addResource_def removeClientResources_def ResourceManagerService_def demo_client_def demo_resources_def
  sample_caller_def isPidUidTrusted_def isPidTrusted_def getResourceInfosForEdit_def getResourceInfoForEdit_def smap_emplace_def smap_count_def
  addOne_def rl_add_def mergeInto.simps same_entry_def onFirstAdded_def isCpuBoost_def isVideoBattery_def rm_emit_def observersAdded_def
  notifyResourceGranted_def grantedType_def List.map_filter_def Let_def ResourceManagerMetrics_def

lemma demo_service_eval:
  "mLong (mResourceManagerMetrics demo_service) = LP64" "mCpuBoostCount demo_service = 1" "mCalls demo_service = [NoteResetVideo, CpusetBoost True, ResourceGranted 7 TYPE_VIDEO_CODEC]"
  "mMap demo_service = [(7, [(3, \<lparr>ri_pid = 7, ri_uid = 10007, ri_clientId = 3, ri_name = ''c'', ri_client = Some 5,
     ri_deathNotifier = Some demo_client, ri_resources = demo_resources, ri_pendingRemoval = False, ri_importance = 0\<rparr>)])]"
  by (simp_all add: run_simps)


text \<open>
  In a build with a \<^verbatim>\<open>long\<close> of 32 bits the count is not exact: a boost of \<open>2 ^ 32 - 1\<close> is passed out of \<open>ResourceList::remove\<close> as -1, the mark of
  an entry that stays, so the boost is removed from the record but stays requested.
\<close>

definition narrow_caller :: rm_env where
  "narrow_caller = (sample_caller 7)\<lparr>dataModel := ILP32\<rparr>"

definition narrow_boost :: "media_resource list" where
  "narrow_boost = [\<lparr>mr_type = kCpuBoost, mr_subType = kUnspecifiedSubType, mr_id = [], mr_value = 4294967295\<rparr>]"

definition narrow_run :: "rms ub" where
  "narrow_run = Option.bind
     (addResource narrow_caller demo_client (Some 5) narrow_boost (ResourceManagerService narrow_caller newProcessInfo))
     (removeResource narrow_caller demo_client narrow_boost)"

theorem narrow_long_keeps_boost:
  "\<exists>s. narrow_run = Some s \<and> weight boosts (mMap s) = 0 \<and> mCpuBoostCount s = 1 \<and> boostOn False (mCalls s)"
proof -
  define s where "s = the narrow_run"
  have "narrow_run = Some s" "mMap s = [(7, [(3, \<lparr>ri_pid = 7, ri_uid = 10007, ri_clientId = 3, ri_name = ''c'', ri_client = Some 5,
     ri_deathNotifier = Some demo_client, ri_resources = [], ri_pendingRemoval = False, ri_importance = 0\<rparr>)])]"
    "mCpuBoostCount s = 1" "boostOn False (mCalls s)"
    unfolding s_def narrow_run_def
    by (simp_all add: run_simps narrow_caller_def narrow_boost_def removeResource_def removeOne_def to_long_def putInfo_def
        observersRemoved_def mergeResources_def int64_def in_int64_def int64_max_def)
  then show ?thesis by (auto simp: weight_def boosts_def)
qed

text \<open>
  a client that refuses to give up its resources is forgotten without being accounted for. When
  a reclaim drops a client that holds a boost, the boost stays requested: the count keeps it, no call withdraws it, and
  the later removal or death of the client has no effect.
\<close>
theorem refused_client_keeps_boost:
  assumes "rm_reach f s" "smap_find (mMap s) (cp_pid ci) = Some infos" "smap_find infos (cp_id ci) = Some info"
    "r \<in> set (ri_resources info)" "isCpuBoost r"
  shows "let s' = snd (removeClient_l (cp_pid ci) (cp_id ci) s) in
     0 < mCpuBoostCount s' \<and> boostOn False (mCalls s') \<and> getClient_l (cp_pid ci) (cp_id ci) s' = None
     \<and> removeClientResources e ci False s' = Some s'"
proof -
  have "0 < boosts info" unfolding boosts_def by (rule keyCount_pos [of "res_key r"]) (use assms(4,5) in auto)
  also have "\<dots> \<le> weight boosts (mMap s)" by (rule weight_ge [OF _ assms(2,3)]) simp
  also have "\<dots> \<le> mCpuBoostCount s" using rm_reach_inv [OF assms(1)] by (auto simp: rm_inv_def accounts_def)
  finally have "0 < mCpuBoostCount s" .
  moreover have "boostOn False (mCalls s) \<longleftrightarrow> 0 < mCpuBoostCount s"
    using rm_reach_inv [OF assms(1)] by (auto simp: rm_inv_def accounts_def)
  ultimately show ?thesis using assms(2,3)
    by (simp add: removeClient_l_def getClient_l_def removeClientResources_def Let_def smap_simps)
qed

theorem refused_client_keeps_boost_witness:
  "boostOn False (mCalls (snd (removeClient_l 7 3 demo_service)))"
  using refused_client_keeps_boost [OF demo_reach, of demo_client _ _ "hd demo_resources"]
  by (simp add: demo_service_eval demo_client_def Let_def) (simp add: demo_resources_def isCpuBoost_def)

end
