(* ===== verification/Reclaim_Choice.thy ===== *)
theory Reclaim_Choice
  imports Resource_Machine
begin

text \<open>
  Whom the resource manager takes resources from: the biggest client of the process with the lowest priority, never a
  client of a process that the caller has no precedence over, except its own clients that are marked for removal.
\<close>

section \<open>The biggest client\<close>

text \<open>What holds after the loops over a list of clients, from any start.\<close>

lemma biggestResource_fold:
  assumes "b = fold (biggestResource type subType i) rs b0"
  shows "snd (snd b0) \<le> snd (snd b)
     \<and> (\<forall>r \<in> set rs. hasResourceType type subType r \<longrightarrow> unsigned64 (mr_value r) \<le> snd (snd b))
     \<and> (b = b0 \<or> (\<exists>r \<in> set rs. hasResourceType type subType r \<and> b = (ri_uid i, ri_clientId i, unsigned64 (mr_value r))))"
  using assms
proof (induction rs arbitrary: b rule: rev_induct)
  case (snoc r rs)
  from snoc.IH [OF refl] snoc.prems show ?case
    by (auto simp: biggestResource_def split: prod.splits if_splits)
qed simp

lemmas biggestInfo_spec = biggestResource_fold [OF biggestInfo_def]

lemma biggest_fold_spec:
  assumes "b = fold (biggestInfo type subType) is b0"
  shows "snd (snd b0) \<le> snd (snd b)
     \<and> (\<forall>i \<in> set is. \<forall>r \<in> set (ri_resources i). hasResourceType type subType r \<longrightarrow> unsigned64 (mr_value r) \<le> snd (snd b))
     \<and> (b = b0 \<or> (\<exists>i \<in> set is. \<exists>r \<in> set (ri_resources i). hasResourceType type subType r
           \<and> b = (ri_uid i, ri_clientId i, unsigned64 (mr_value r))))"
  using assms
proof (induction "is" arbitrary: b0)
  case (Cons i "is")
  define b1 where "b1 = biggestInfo type subType i b0"
  from Cons.prems have "b = fold (biggestInfo type subType) is b1" by (simp add: b1_def)
  from Cons.IH [OF this] biggestInfo_spec [of b0 type subType i] show ?case
    by (simp add: b1_def [symmetric]) (meson order_trans)
qed simp

text \<open>For the clients of a process: the client found holds the most.\<close>

definition holds_most :: "(resource_info \<Rightarrow> bool) \<Rightarrow> res_type \<Rightarrow> res_subtype \<Rightarrow> resource_info list \<Rightarrow> resource_info \<Rightarrow> bool" where
  "holds_most P type subType infos info \<longleftrightarrow> P info \<and> info \<in> set infos \<and>
     (\<exists>r \<in> set (ri_resources info). hasResourceType type subType r \<and>
        (\<forall>i \<in> set infos. P i \<longrightarrow> (\<forall>r' \<in> set (ri_resources i). hasResourceType type subType r' \<longrightarrow> mr_value r' \<le> mr_value r)))"

lemma unsigned64_id: "0 \<le> x \<Longrightarrow> x \<le> int64_max \<Longrightarrow> unsigned64 x = x"
  by (simp add: unsigned64_def int64_max_def)

lemma biggestClient_spec:
  assumes "biggestClient pid (fold (biggestInfo type subType) (filter P is) noBiggest) = Some c"
    and "\<And>i. i \<in> set is \<Longrightarrow> rl_ok (ri_resources i)"
  shows "\<exists>info. holds_most P type subType is info \<and> c = \<lparr>mPid = pid, mUid = ri_uid info, mClientId = ri_clientId info\<rparr>"
proof -
  define b where "b = fold (biggestInfo type subType) (filter P is) noBiggest"
  have "b \<noteq> noBiggest" using assms(1) unfolding b_def [symmetric] by (auto simp: biggestClient_def noBiggest_def)
  then obtain i r where i: "i \<in> set is" "P i" "r \<in> set (ri_resources i)" "hasResourceType type subType r"
      "b = (ri_uid i, ri_clientId i, unsigned64 (mr_value r))"
    and le: "\<And>j r'. \<lbrakk>j \<in> set is; P j; r' \<in> set (ri_resources j); hasResourceType type subType r'\<rbrakk> \<Longrightarrow>
        unsigned64 (mr_value r') \<le> unsigned64 (mr_value r)"
    using biggest_fold_spec [OF b_def] by auto
  have u: "unsigned64 (mr_value r') = mr_value r'" if "j \<in> set is" "r' \<in> set (ri_resources j)" for j r'
    using assms(2) [OF that(1)] that(2) by (intro unsigned64_id) (auto simp: rl_ok_def)
  have "holds_most P type subType is i" unfolding holds_most_def using i le u by metis
  moreover have "c = \<lparr>mPid = pid, mUid = ri_uid i, mClientId = ri_clientId i\<rparr>"
    using assms(1) i(5) unfolding b_def [symmetric] by (auto simp: biggestClient_def split: if_splits)
  ultimately show ?thesis by blast
qed

lemma fold_skip: "fold (\<lambda>(a, i) b. if \<not> P i then b else f i b) xs b0 = fold f (filter P (map snd xs)) b0"
  by (induction xs arbitrary: b0) auto

lemma infos_member:
  assumes "infos_ok infos" "info \<in> set (map snd infos)"
  shows "smap_find infos (ri_clientId info) = Some info" "rl_ok (ri_resources info)"
proof -
  obtain i where "(i, info) \<in> set infos" using assms(2) by auto
  then have "smap_find infos i = Some info" using assms(1) smap_in_set [of infos i info] by (simp add: infos_ok_def)
  then show "smap_find infos (ri_clientId info) = Some info" "rl_ok (ri_resources info)"
    using assms(1) by (auto simp: infos_ok_def info_ok_def)
qed

lemma getBiggestClient_l_spec:
  assumes "map_ok (mMap s)" "getBiggestClient_l pid type subType pend s = Some c"
  shows "\<exists>infos info. smap_find (mMap s) pid = Some infos \<and> smap_find infos (mClientId c) = Some info
     \<and> mPid c = pid \<and> mUid c = ri_uid info
     \<and> holds_most (\<lambda>i. pend \<longrightarrow> ri_pendingRemoval i) type subType (map snd infos) info"
proof -
  obtain infos where i: "smap_find (mMap s) pid = Some infos"
    using assms(2) by (auto simp: getBiggestClient_l_def split: option.splits)
  have ok: "infos_ok infos" using map_ok_find [OF assms(1) i] .
  have "(\<lambda>(a, i) b. if pend \<and> \<not> ri_pendingRemoval i then b else biggestInfo type subType i b)
      = (\<lambda>(a :: int, i) b. if \<not> (pend \<longrightarrow> ri_pendingRemoval i) then b else biggestInfo type subType i b)" by (auto simp: fun_eq_iff)
  then have "biggestClient pid (fold (biggestInfo type subType) (filter (\<lambda>i. pend \<longrightarrow> ri_pendingRemoval i) (map snd infos)) noBiggest) = Some c"
    using assms(2) i fold_skip [of "\<lambda>i. pend \<longrightarrow> ri_pendingRemoval i" "biggestInfo type subType" infos noBiggest]
    by (simp add: getBiggestClient_l_def)
  from biggestClient_spec [OF this infos_member(2) [OF ok]] obtain info where
    info: "holds_most (\<lambda>i. pend \<longrightarrow> ri_pendingRemoval i) type subType (map snd infos) info"
      "c = \<lparr>mPid = pid, mUid = ri_uid info, mClientId = ri_clientId info\<rparr>" by blast
  have "smap_find infos (ri_clientId info) = Some info"
    using infos_member(1) [OF ok] info(1) unfolding holds_most_def by blast
  with i info show ?thesis by auto
qed

lemma getBiggestClient_l_some:
  assumes "map_ok (mMap s)" "(pid, infos) \<in> set (mMap s)" "infosHaveResourceType type subType infos"
    "\<forall>pid infos i info r. smap_find (mMap s) pid = Some infos \<longrightarrow> smap_find infos i = Some info \<longrightarrow> r \<in> set (ri_resources info)
       \<longrightarrow> i \<noteq> - 1 \<and> 0 < mr_value r"
  shows "getBiggestClient_l pid type subType False s \<noteq> None"
proof -
  have f: "smap_find (mMap s) pid = Some infos" using assms(1,2) by (simp add: map_ok_def smap_in_set)
  have ok: "infos_ok infos" using map_ok_find [OF assms(1) f] .
  define b where "b = fold (biggestInfo type subType) (map snd infos) noBiggest"
  have pos: "ri_clientId i \<noteq> - 1 \<and> 0 < unsigned64 (mr_value r)" if "i \<in> set (map snd infos)" "r \<in> set (ri_resources i)" for i r
  proof -
    have "ri_clientId i \<noteq> - 1" "0 < mr_value r" "mr_value r \<le> int64_max"
      using assms(4) f infos_member [OF ok that(1)] that(2) by (auto simp: rl_ok_def)
    then show ?thesis by (simp add: unsigned64_id)
  qed
  obtain i r where "i \<in> set (map snd infos)" "r \<in> set (ri_resources i)" "hasResourceType type subType r"
    using assms(3) by (force simp: infosHaveResourceType_def listHasResourceType_def list_ex_iff)
  then have "snd (snd b) \<noteq> 0" using biggest_fold_spec [OF b_def] pos by fastforce
  then have "b \<noteq> noBiggest" by (auto simp: noBiggest_def)
  then have "fst (snd b) \<noteq> - 1" using biggest_fold_spec [OF b_def] pos by fastforce
  moreover have "fold (\<lambda>(clientId, info) b. biggestInfo type subType info b) infos noBiggest = b"
    using fold_skip [of "\<lambda>_. True" "biggestInfo type subType" infos noBiggest] by (simp add: b_def)
  ultimately show ?thesis using f by (simp add: getBiggestClient_l_def biggestClient_def split_beta)
qed

section \<open>The process with the lowest priority\<close>

text \<open>The loop: candidates with their priorities, in order.\<close>

lemma lowest_none:
  assumes "fst (fold (\<lambda>x. keepLowest (cand x)) xs (- 1, - 1)) = - 1" "\<forall>x \<in> set xs. \<forall>q. cand x \<noteq> Some (- 1, q)"
  shows "\<forall>x \<in> set xs. cand x = None"
  using assms
proof (induction xs rule: rev_induct)
  case (snoc x xs)
  then show ?case
    by (cases "cand x") (auto simp: keepLowest_def split: if_splits)
qed simp

lemma lowest_fold_spec:
  assumes "fold (\<lambda>x. keepLowest (cand x)) xs (- 1, - 1) = (pid, priority)" "pid \<noteq> - 1"
  shows "(\<exists>x \<in> set xs. cand x = Some (pid, priority))
     \<and> ((\<forall>x \<in> set xs. \<forall>q. cand x \<noteq> Some (- 1, q)) \<longrightarrow> (\<forall>x \<in> set xs. \<forall>p q. cand x = Some (p, q) \<longrightarrow> q \<le> priority))"
  using assms
proof (induction xs arbitrary: pid priority rule: rev_induct)
  case (snoc x xs)
  obtain p0 q0 where st: "fold (\<lambda>x. keepLowest (cand x)) xs (- 1, - 1) = (p0, q0)"
    by (cases "fold (\<lambda>x. keepLowest (cand x)) xs (- 1, - 1)")
  have now: "keepLowest (cand x) (p0, q0) = (pid, priority)" using snoc.prems(1) st by simp
  show ?case
  proof (cases "cand x")
    case None
    with now have "p0 = pid" "q0 = priority" by (simp_all add: keepLowest_def)
    with None snoc.IH [OF st] snoc.prems(2) show ?thesis by simp
  next
    case (Some pq)
    obtain p q where x: "cand x = Some (p, q)" using Some by (cases pq) auto
    show ?thesis
    proof (cases "p0 = - 1")
      case True
      then have "pid = p" "priority = q" using now x by (simp_all add: keepLowest_def)
      moreover have "\<forall>y \<in> set xs. cand y = None" if "\<forall>y \<in> set xs. \<forall>q. cand y \<noteq> Some (- 1, q)"
        by (rule lowest_none [OF _ that]) (simp add: st True)
      ultimately show ?thesis using x by (metis Un_iff list.set(1,2) option.distinct(1) option.inject order_refl prod.inject
          set_append set_ConsD singletonD insertI1)
    next
      case False
      note IH = snoc.IH [OF st False]
      from now x False have "(pid, priority) = (if q > q0 then (p, q) else (p0, q0))" by (simp add: keepLowest_def)
      with x IH show ?thesis by (cases "q > q0") force+
    qed
  qed
qed simp

lemma smap_findD: "smap_find m k = Some v \<Longrightarrow> (k, v) \<in> set m"
  by (induction m k rule: smap_find.induct) (auto split: if_splits)

lemma lowestCandidate_simps:
  "lowestCandidate e type subType s (p, infos) = Some (pid, q) \<longleftrightarrow>
     pid = p \<and> infosHaveResourceType type subType infos \<and> getPriority_l e s p = Some q"
  "lowestCandidate e type subType s (p, infos) = None \<longleftrightarrow> \<not> infosHaveResourceType type subType infos \<or> getPriority_l e s p = None"
  by (auto simp: lowestCandidate_def infosHaveResourceType_def)

lemma lowestCandidate_pid:
  assumes "smap_find (mMap s) (- 1) = None"
  shows "\<forall>x \<in> set (mMap s). \<forall>q. lowestCandidate e type subType s x \<noteq> Some (- 1, q)"
proof -
  have "- 1 \<notin> fst ` set (mMap s)" using assms smap_keys_find [of "- 1" "mMap s"] by (simp add: smap_keys_def)
  then show ?thesis by (force simp: lowestCandidate_simps)
qed

lemma getLowestPriorityPid_l_spec:
  assumes "getLowestPriorityPid_l e type subType s = Some (pid, priority)"
  shows "\<exists>infos. (pid, infos) \<in> set (mMap s) \<and> infosHaveResourceType type subType infos \<and> getPriority_l e s pid = Some priority"
    and "smap_find (mMap s) (- 1) = None \<Longrightarrow> smap_find (mMap s) p = Some infos \<Longrightarrow> infosHaveResourceType type subType infos
      \<Longrightarrow> getPriority_l e s p = Some q \<Longrightarrow> q \<le> priority"
proof -
  have f: "fold (\<lambda>x. keepLowest (lowestCandidate e type subType s x)) (mMap s) (- 1, - 1) = (pid, priority)" "pid \<noteq> - 1"
    using assms by (auto simp: getLowestPriorityPid_l_def lowestFound_def split: if_splits)
  note spec = lowest_fold_spec [OF f]
  show "\<exists>infos. (pid, infos) \<in> set (mMap s) \<and> infosHaveResourceType type subType infos \<and> getPriority_l e s pid = Some priority"
    using spec by (fastforce simp: lowestCandidate_simps)
  assume a: "smap_find (mMap s) (- 1) = None" "smap_find (mMap s) p = Some infos" "infosHaveResourceType type subType infos"
    "getPriority_l e s p = Some q"
  have "lowestCandidate e type subType s (p, infos) = Some (p, q)" using a(3,4) by (simp add: lowestCandidate_simps)
  with spec lowestCandidate_pid [OF a(1)] smap_findD [OF a(2)] show "q \<le> priority" by blast
qed

lemma getLowestPriorityPid_l_none:
  assumes "getLowestPriorityPid_l e type subType s = None" "smap_find (mMap s) (- 1) = None"
    "smap_find (mMap s) p = Some infos" "infosHaveResourceType type subType infos"
  shows "getPriority_l e s p = None"
proof -
  have "fst (fold (\<lambda>x. keepLowest (lowestCandidate e type subType s x)) (mMap s) (- 1, - 1)) = - 1"
    using assms(1) by (auto simp: getLowestPriorityPid_l_def lowestFound_def split: if_splits)
  from lowest_none [OF this lowestCandidate_pid [OF assms(2)]] smap_findD [OF assms(3)]
  have "lowestCandidate e type subType s (p, infos) = None" by blast
  with assms(4) show ?thesis by (simp add: lowestCandidate_simps)
qed

section \<open>Every choice is justified\<close>

text \<open>
  A client may be asked to give up its resources for a caller: it is on record, and it is marked for removal in the
  process of the caller, or its process has a lower priority.
\<close>

definition justified :: "rm_env \<Rightarrow> 'a rms_scheme \<Rightarrow> int \<Rightarrow> client_info \<Rightarrow> bool" where
  "justified e s caller t \<longleftrightarrow>
     (\<exists>infos info. smap_find (mMap s) (mPid t) = Some infos \<and> smap_find infos (mClientId t) = Some info \<and> mUid t = ri_uid info
        \<and> (mPid t = caller \<and> ri_pendingRemoval info \<or> isCallingPriorityHigher_l e s caller (mPid t)))"

lemma allInfos_member:
  assumes "map_ok m" "(pid, clientId, info) \<in> set (allInfos m)"
  shows "\<exists>infos. smap_find m pid = Some infos \<and> smap_find infos clientId = Some info \<and> ri_clientId info = clientId"
proof -
  obtain infos where i: "(pid, infos) \<in> set m" "(clientId, info) \<in> set infos"
    using assms(2) by (auto simp: allInfos_def)
  have m: "smap_find m pid = Some infos" using assms(1) i(1) by (simp add: map_ok_def smap_in_set)
  then have "smap_find infos clientId = Some info" "infos_ok infos"
    using map_ok_find [OF assms(1)] i(2) by (simp_all add: infos_ok_def smap_in_set)
  with m show ?thesis by (auto simp: infos_ok_def info_ok_def)
qed

lemma allClientsLoop_targets:
  "allClientsLoop e s caller callerId type subType xs cs = (ok, cs') \<Longrightarrow> t \<in> set cs' \<Longrightarrow>
     t \<in> set cs \<or> (\<exists>pid clientId info. (pid, clientId, info) \<in> set xs \<and> isCallingPriorityHigher_l e s caller pid
        \<and> t = \<lparr>mPid = pid, mUid = ri_uid info, mClientId = ri_clientId info\<rparr>)"
proof (induction e s caller callerId type subType xs cs rule: allClientsLoop.induct)
  case (2 e s caller callerId type subType pid clientId info rest cs)
  then show ?case by (auto split: if_splits)
qed simp

lemma getAllClients_justified:
  assumes "map_ok (mMap s)" "getAllClients_l e caller callerId type subType cs s = (ok, cs')" "\<forall>t \<in> set cs. justified e s caller t"
  shows "\<forall>t \<in> set cs'. justified e s caller t"
proof
  fix t assume "t \<in> set cs'"
  from allClientsLoop_targets [OF assms(2) [unfolded getAllClients_l_def] this] assms(3)
  show "justified e s caller t"
    using allInfos_member [OF assms(1)] unfolding justified_def by fastforce
qed

lemma conflictPass_justified:
  assumes "map_ok (mMap s)" "conflictPass e caller callerId sec non s = Some cs"
  shows "\<forall>t \<in> set cs. justified e s caller t"
proof -
  note step = getAllClients_justified [OF assms(1)]
  show ?thesis using assms(2)
    by (auto simp: conflictPass_def Let_def split: option.splits if_splits prod.splits dest!: step)
qed

lemma getLowestPriorityBiggestClient_l_spec:
  assumes "map_ok (mMap s)" "getLowestPriorityBiggestClient_l e caller type subType s = Some c"
  shows "\<exists>priority callingPriority infos info. getLowestPriorityPid_l e type subType s = Some (mPid c, priority)
     \<and> getPriority_l e s caller = Some callingPriority \<and> callingPriority < priority
     \<and> smap_find (mMap s) (mPid c) = Some infos \<and> smap_find infos (mClientId c) = Some info \<and> mUid c = ri_uid info
     \<and> holds_most (\<lambda>_. True) type subType (map snd infos) info"
proof -
  obtain priority callingPriority pid where
    p: "getLowestPriorityPid_l e type subType s = Some (pid, priority)" "getPriority_l e s caller = Some callingPriority"
      "callingPriority < priority" "getBiggestClient_l pid type subType False s = Some c"
    using assms(2) by (auto simp: getLowestPriorityBiggestClient_l_def split: option.splits if_splits)
  from getBiggestClient_l_spec [OF assms(1) p(4)] p(1-3) show ?thesis by fastforce
qed

lemma getClientForResource_justified:
  assumes "map_ok (mMap s)" "\<forall>t \<in> set cs. justified e s caller t"
  shows "\<forall>t \<in> set (getClientForResource_l e caller type subType s cs). justified e s caller t"
proof -
  have "justified e s caller c" if "getBiggestClientPendingRemoval_l caller type subType s = Some c" for c
    using getBiggestClient_l_spec [OF assms(1) that [unfolded getBiggestClientPendingRemoval_l_def]]
    by (auto simp: justified_def holds_most_def)
  moreover have "justified e s caller c" if c: "getLowestPriorityBiggestClient_l e caller type subType s = Some c" for c
  proof -
    obtain priority callingPriority infos info where
      p: "getLowestPriorityPid_l e type subType s = Some (mPid c, priority)" "getPriority_l e s caller = Some callingPriority"
        "callingPriority < priority" "smap_find (mMap s) (mPid c) = Some infos" "smap_find infos (mClientId c) = Some info"
        "mUid c = ri_uid info"
      using getLowestPriorityBiggestClient_l_spec [OF assms(1) c] by blast
    have "getPriority_l e s (mPid c) = Some priority" using getLowestPriorityPid_l_spec(1) [OF p(1)] by blast
    with p show ?thesis unfolding justified_def isCallingPriorityHigher_l_def by simp
  qed
  ultimately show ?thesis using assms(2) by (auto simp: getClientForResource_l_def split: option.splits)
qed

lemma forResource_justified:
  "map_ok (mMap s) \<Longrightarrow> list_all (justified e s caller) cs \<Longrightarrow> list_all (justified e s caller) (forResource e caller res type s cs)"
  using getClientForResource_justified [of s cs e caller] by (simp add: list_all_iff forResource_def split: option.split)

lemma otherPasses_justified:
  assumes "map_ok (mMap s)" "list_all (justified e s caller) cs"
  shows "list_all (justified e s caller) (otherPasses e caller sec non graphic s cs)"
  unfolding otherPasses_def Let_def by (simp add: assms forResource_justified)

lemma reclaim_found:
  assumes "getTargetClients e ci rs s = (found, ts)"
  shows "found \<longleftrightarrow> ts \<noteq> []"
  using assms unfolding getTargetClients_def Let_def by (auto split: option.splits if_splits)

section \<open>Properties\<close>

text \<open>The process that a request is made for: only a trusted caller may name another one.\<close>

definition requester :: "rm_env \<Rightarrow> int \<Rightarrow> int" where
  "requester e pid = (if isPidTrusted e pid then pid else callingPid e)"

text \<open>
  C12: the resource manager only takes resources from clients that must give way. In every reachable state each target of a
  reclaim is a client on record, under its own process and uid; it is marked for removal in the process of the caller, or
  the caller's process has the higher priority. A caller without privileges cannot pass for another process. The
  request fails exactly when there is no target.
\<close>
theorem reclaim_targets_justified:
  assumes "rm_reach f s" "getTargetClients e ci rs s = (ok, targets)"
  shows "(\<forall>t \<in> set targets. justified e s (requester e (cp_pid ci)) t) \<and> (ok \<longleftrightarrow> targets \<noteq> [])
     \<and> (unprivileged e \<longrightarrow> requester e (cp_pid ci) = callingPid e)"
proof -
  have m: "map_ok (mMap s)" using rm_reach_inv [OF assms(1)] by (simp add: rm_inv_def)
  define caller where "caller = requester e (cp_pid ci)"
  have "list_all (justified e s caller) targets \<and> (ok \<longleftrightarrow> targets \<noteq> [])"
  proof (cases "conflictPass e caller (cp_id ci) (lastOfType kSecureCodec rs) (lastOfType kNonSecureCodec rs) s")
    case None
    then show ?thesis using assms(2) unfolding getTargetClients_def Let_def requester_def [symmetric] caller_def [symmetric] by auto
  next
    case (Some cs)
    have "list_all (justified e s caller) cs" using conflictPass_justified [OF m Some] by (simp add: list_all_iff)
    note j = forResource_justified [OF m this] otherPasses_justified [OF m forResource_justified [OF m this]]
    show ?thesis using assms(2) Some j unfolding getTargetClients_def Let_def requester_def [symmetric] caller_def [symmetric]
      by (auto split: if_splits)
  qed
  then show ?thesis by (auto simp: list_all_iff caller_def requester_def unprivileged_trust)
qed

lemma demo_flags:
  "mSupportsMultipleSecureCodecs demo_service" "mSupportsSecureWithNonSecureCodec demo_service"
  "mOverridePidMap demo_service = []" "mProcessInfo demo_service = newProcessInfo"
  by (simp_all add: run_simps)

lemmas selection_simps = conflictPass_def otherPasses_def forResource_def getClientForResource_l_def
  getBiggestClientPendingRemoval_l_def getBiggestClient_l_def biggestClient_def noBiggest_def biggestInfo_def biggestResource_def
  getLowestPriorityBiggestClient_l_def getLowestPriorityPid_l_def lowestCandidate_def lowestFound_def keepLowest_def getPriority_l_def getPriority_def
  infosHaveResourceType_def listHasResourceType_def hasResourceType_def unsigned64_def isPidTrusted_def isPidUidTrusted_def
  newProcessInfo_def NATIVE_ADJ_def sample_caller_def demo_client_def demo_resources_def Let_def

lemma demo_targets:
  "getTargetClients (sample_caller 5) (demo_client\<lparr>cp_pid := 5, cp_id := 4\<rparr>) (tl demo_resources) demo_service
     = (True, [\<lparr>mPid = 7, mUid = 10007, mClientId = 3\<rparr>])"
  by (simp add: getTargetClients_def Let_def lastOfType_def demo_resources_def) (simp add: demo_service_eval demo_flags selection_simps)

theorem reclaim_targets_justified_witness:
  "justified (sample_caller 5) demo_service 5 \<lparr>mPid = 7, mUid = 10007, mClientId = 3\<rparr>"
  using reclaim_targets_justified [OF demo_reach demo_targets]
  by (simp add: requester_def isPidTrusted_def isPidUidTrusted_def sample_caller_def demo_client_def)



text \<open>Asking the clients: what the service does in the meantime may be any calls.\<close>

definition keeps_reachable :: "(client \<Rightarrow> rms \<Rightarrow> rms) \<Rightarrow> bool" where
  "keeps_reachable meanwhile \<longleftrightarrow> (\<forall>c f s. rm_reach f s \<longrightarrow> (\<exists>f'. rm_reach f' (meanwhile c s)))"

lemma reclaimLoop_reach:
  assumes "keeps_reachable meanwhile" "rm_reach f s" "reclaimLoop baseMethods answer meanwhile ts s = (failed, s')"
  shows "\<exists>f'. rm_reach f' s'"
  using assms(2,3)
proof (induction ts arbitrary: f s)
  case (Cons t ts)
  then show ?case using assms(1)
    by (auto simp: keeps_reachable_def Let_def split: option.splits if_splits) (metis rr_ask)+
qed auto

lemma reclaimLoop_agreed: "\<forall>c. answer c \<Longrightarrow> fst (reclaimLoop baseMethods answer meanwhile ts s) = None"
  by (induction ts arbitrary: s) (auto simp: Let_def split: option.splits)

lemma reclaimUnconditionallyFrom_reach:
  assumes "keeps_reachable meanwhile" "rm_reach f s" "reclaimUnconditionallyFrom baseMethods answer meanwhile ts s = (r, s')"
  shows "\<exists>f'. rm_reach f' s'"
proof -
  obtain failed s1 where l: "reclaimLoop baseMethods answer meanwhile ts s = (failed, s1)" by (cases "reclaimLoop baseMethods answer meanwhile ts s")
  obtain f1 where "rm_reach f1 s1" using reclaimLoop_reach [OF assms(1,2) l] ..
  with l assms(2,3) show ?thesis
    by (auto simp: reclaimUnconditionallyFrom_def split: if_splits option.splits intro: rr_refused)
qed

text \<open>
  C18: every reclaim request is handled. It returns without undefined behaviour in a reachable state, whatever
  the clients answer and whatever calls the service handles in the meantime; and when all clients agree, it succeeds exactly
  when there were targets.
\<close>
theorem reclaim_request_handled:
  assumes "rm_reach f s" "keeps_reachable meanwhile"
  shows "\<exists>r s' f'. reclaimResource baseMethods e answer meanwhile ci rs s = Some (r, s') \<and> rm_reach f' s'
     \<and> (r \<longrightarrow> rs \<noteq> [] \<and> fst (getTargetClients e ci rs s))
     \<and> ((\<forall>c. answer c) \<longrightarrow> rs \<noteq> [] \<longrightarrow> r = fst (getTargetClients e ci rs s))"
proof (cases "rs = []")
  case True
  with assms(1) show ?thesis by (auto simp: reclaimResource_def)
next
  case False
  obtain found ts where t: "getTargetClients e ci rs s = (found, ts)" by (cases "getTargetClients e ci rs s")
  obtain r s1 where u: "(if found then reclaimUnconditionallyFrom baseMethods answer meanwhile ts s else (False, s)) = (r, s1)" by fastforce
  obtain f1 where f1: "rm_reach f1 s1"
    using u reclaimUnconditionallyFrom_reach [OF assms(2,1), of answer ts r s1] assms(1) by (auto split: if_splits)
  have "\<exists>s'. pushReclaimAtom baseMethods e ci ts' r s1 = Some s'" for ts'
    by (simp add: pushReclaimAtom_def mt_pushReclaimAtom_def Let_def)
  then obtain s' where s': "pushReclaimAtom baseMethods e ci (if found then ts else []) r s1 = Some s'" by blast
  have "r = found" if "\<forall>c. answer c"
    using u reclaimLoop_agreed [OF that, of meanwhile ts s] reclaim_found [OF t]
    by (auto simp: reclaimUnconditionallyFrom_def split: if_splits prod.splits)
  with False t u s' rr_atom [OF f1 s'] show ?thesis by (auto simp: reclaimResource_def split: if_splits)
qed

theorem reclaim_request_handled_witness:
  "\<exists>s' f'. reclaimResource baseMethods (sample_caller 5) (\<lambda>_. True) (\<lambda>_ s. s) (demo_client\<lparr>cp_pid := 5, cp_id := 4\<rparr>) (tl demo_resources) demo_service
     = Some (True, s') \<and> rm_reach f' s'"
proof -
  have "keeps_reachable (\<lambda>_ s. s)" by (auto simp: keeps_reachable_def)
  from reclaim_request_handled [OF demo_reach this, of "sample_caller 5" "\<lambda>_. True" "demo_client\<lparr>cp_pid := 5, cp_id := 4\<rparr>" "tl demo_resources"]
  show ?thesis by (auto simp: demo_targets) (simp add: demo_resources_def)
qed

end
