(* ===== verification/Tracker_Refinement.thy ===== *)
theory Tracker_Refinement
  imports Reclaim_Policies Reclaim_Choice
begin

text \<open>
  The newer resource manager implements the older one: read as the state of the older service, with the tracker's maps in place of
  the members it inherits and does not use, each operation of the newer service is the operation of the older one.
  The differences are explicit: which process the resource monitor is told of, and the importance of the clients.
\<close>

section \<open>The newer service as the older one\<close>

definition asService :: "rms_new \<Rightarrow> rms" where
  "asService s =
     (let t = mResourceTracker s
      in (rms.truncate s)\<lparr>mMap := rt_mMap t, mOverridePidMap := rt_mOverridePidMap t,
            mProcessInfoOverrideMap := rt_mProcessInfoOverrideMap t, mObserverService := rt_mObserverService t\<rparr>)"

lemma asService_sel [simp]:
  "mSupportsMultipleSecureCodecs (asService s) = mSupportsMultipleSecureCodecs s"
  "mSupportsSecureWithNonSecureCodec (asService s) = mSupportsSecureWithNonSecureCodec s"
  "mCpuBoostCount (asService s) = mCpuBoostCount s" "mMap (asService s) = rt_mMap (mResourceTracker s)"
  "mOverridePidMap (asService s) = rt_mOverridePidMap (mResourceTracker s)"
  "mProcessInfoOverrideMap (asService s) = rt_mProcessInfoOverrideMap (mResourceTracker s)"
  "mObserverService (asService s) = rt_mObserverService (mResourceTracker s)"
  "mResourceManagerMetrics (asService s) = mResourceManagerMetrics s" "mProcessInfo (asService s) = mProcessInfo s"
  "mCalls (asService s) = mCalls s"
  by (simp_all add: asService_def Let_def rms.truncate_def)

lemma asService_upd:
  "asService (s\<lparr>mCpuBoostCount := n\<rparr>) = (asService s)\<lparr>mCpuBoostCount := n\<rparr>"
  "asService (s\<lparr>mCalls := c\<rparr>) = (asService s)\<lparr>mCalls := c\<rparr>"
  "asService (s\<lparr>mResourceManagerMetrics := m\<rparr>) = (asService s)\<lparr>mResourceManagerMetrics := m\<rparr>"
  "asService (s\<lparr>mProcessInfo := p\<rparr>) = (asService s)\<lparr>mProcessInfo := p\<rparr>"
  "asService (s\<lparr>mSupportsMultipleSecureCodecs := b\<rparr>) = (asService s)\<lparr>mSupportsMultipleSecureCodecs := b\<rparr>"
  "asService (s\<lparr>mSupportsSecureWithNonSecureCodec := b\<rparr>) = (asService s)\<lparr>mSupportsSecureWithNonSecureCodec := b\<rparr>"
  "asService (s\<lparr>mObserverService := obs\<rparr>) = asService s"
  "asService (s\<lparr>mDefaultResourceModel := dm\<rparr>) = asService s"
  "asService (s\<lparr>mReclaimPolicies := ps\<rparr>) = asService s"
  "asService (s\<lparr>mResourceTracker := t\<rparr>) = (asService s)\<lparr>mMap := rt_mMap t, mOverridePidMap := rt_mOverridePidMap t,
      mProcessInfoOverrideMap := rt_mProcessInfoOverrideMap t, mObserverService := rt_mObserverService t\<rparr>"
  by (simp_all add: asService_def Let_def rms.truncate_def)

lemma rms_same [simp]:
  "(s :: rms)\<lparr>mMap := mMap s\<rparr> = s" "(s :: rms)\<lparr>mOverridePidMap := mOverridePidMap s\<rparr> = s"
  "(s :: rms)\<lparr>mProcessInfoOverrideMap := mProcessInfoOverrideMap s\<rparr> = s" "(s :: rms)\<lparr>mObserverService := mObserverService s\<rparr> = s"
  by simp_all

text \<open>What is passed on to the service commutes with the reading.\<close>

lemma asService_emit: "asService (rm_emit cs s) = rm_emit cs (asService s)"
  by (simp add: rm_emit_def asService_upd)

lemma asService_first: "asService (onFirstAdded u r s) = onFirstAdded u r (asService s)"
  by (simp add: onFirstAdded_def asService_upd asService_emit)

lemma asService_last: "asService (onLastRemoved u r s) = onLastRemoved u r (asService s)"
  by (simp add: onLastRemoved_def asService_upd asService_emit Let_def)

lemma asService_granted: "asService (notifyResourceGranted e pid rs s) = notifyResourceGranted e pid rs (asService s)"
  by (simp add: notifyResourceGranted_def asService_emit)

lemma asService_addOne:
  "addOne u r (h, a, asService s) = map_option (\<lambda>(h, a, s). (h, a, asService s)) (addOne u r (h, a, s))"
  by (auto simp: addOne_def asService_first split: option.splits prod.splits)

lemma asService_removeOne:
  "removeOne u r (h, a, asService s) = map_option (\<lambda>(h, a, s). (h, a, asService s)) (removeOne u r (h, a, s))"
  by (auto simp: removeOne_def asService_last Let_def split: option.splits prod.splits)

lemma foldM_commute:
  assumes "\<And>x st. f x (g st) = map_option g (f' x st)"
  shows "foldM f xs (g st) = map_option g (foldM f' xs st)"
  by (induction xs arbitrary: st) (simp_all add: assms split: option.splits)

lemma asService_addLoop:
  "foldM (addOne u) rs (h, a, asService s) = map_option (\<lambda>(h, a, s). (h, a, asService s)) (foldM (addOne u) rs (h, a, s))"
proof -
  have "foldM (addOne u) rs ((\<lambda>(h, a, s). (h, a, asService s)) (h, a, s))
      = map_option (\<lambda>(h, a, s). (h, a, asService s)) (foldM (addOne u) rs (h, a, s))"
    by (rule foldM_commute) (auto simp: asService_addOne)
  then show ?thesis by simp
qed

lemma asService_removeLoop:
  "foldM (removeOne u) rs (h, a, asService s) = map_option (\<lambda>(h, a, s). (h, a, asService s)) (foldM (removeOne u) rs (h, a, s))"
proof -
  have "foldM (removeOne u) rs ((\<lambda>(h, a, s). (h, a, asService s)) (h, a, s))
      = map_option (\<lambda>(h, a, s). (h, a, asService s)) (foldM (removeOne u) rs (h, a, s))"
    by (rule foldM_commute) (auto simp: asService_removeOne)
  then show ?thesis by simp
qed

lemma asService_lastLoop: "asService (fold (onLastRemoved u) rs s) = fold (onLastRemoved u) rs (asService s)"
  by (induction rs arbitrary: s) (simp_all add: asService_last)

text \<open>The loops leave the tracker alone; the observers are told from the tracker.\<close>

lemma foldM_keeps:
  assumes "foldM f xs st = Some st'" "P st" "\<And>x st st'. f x st = Some st' \<Longrightarrow> P st \<Longrightarrow> P st'"
  shows "P st'"
  using assms(1,2) by (induction xs arbitrary: st) (auto split: option.splits dest: assms(3))

lemma tracker_frame [simp]:
  "mResourceTracker (rm_emit cs s) = mResourceTracker s"
  "mResourceTracker (onFirstAdded u r s) = mResourceTracker s" "mResourceTracker (onLastRemoved u r s) = mResourceTracker s"
  "mResourceTracker (notifyResourceGranted e pid rs s) = mResourceTracker s"
  by (simp_all add: rm_emit_def onFirstAdded_def onLastRemoved_def notifyResourceGranted_def Let_def)

lemma tracker_steps:
  "addOne u r st = Some st' \<Longrightarrow> mResourceTracker (snd (snd st')) = mResourceTracker (snd (snd st))"
  "removeOne u r st = Some st' \<Longrightarrow> mResourceTracker (snd (snd st')) = mResourceTracker (snd (snd st))"
  by (auto simp: addOne_def removeOne_def Let_def split: prod.splits if_splits option.splits)

lemma tracker_loops:
  "foldM (addOne u) rs (h, a, s) = Some (h', a', s') \<Longrightarrow> mResourceTracker s' = mResourceTracker s"
  "foldM (removeOne u) rs (h, a, s) = Some (h', a', s') \<Longrightarrow> mResourceTracker s' = mResourceTracker s"
  "mResourceTracker (fold (onLastRemoved u) rs s) = mResourceTracker s"
proof -
  let ?P = "\<lambda>st. mResourceTracker (snd (snd st)) = mResourceTracker s"
  show "mResourceTracker s' = mResourceTracker s" if "foldM (addOne u) rs (h, a, s) = Some (h', a', s')"
    using foldM_keeps [OF that, of ?P] tracker_steps(1) by (metis snd_conv)
  show "mResourceTracker s' = mResourceTracker s" if "foldM (removeOne u) rs (h, a, s) = Some (h', a', s')"
    using foldM_keeps [OF that, of ?P] tracker_steps(2) by (metis snd_conv)
  show "mResourceTracker (fold (onLastRemoved u) rs s) = mResourceTracker s" by (induction rs arbitrary: s) simp_all
qed

lemma asService_observers:
  "asService ((rt_observersAdded t u pid a s)\<lparr>mResourceTracker := t\<rparr>) = observersAdded u pid a (asService (s\<lparr>mResourceTracker := t\<rparr>))"
  "asService ((rt_observersRemoved t u pid a s)\<lparr>mResourceTracker := t\<rparr>) = observersRemoved u pid a (asService (s\<lparr>mResourceTracker := t\<rparr>))"
  by (auto simp: rt_observersAdded_def rt_observersRemoved_def observersAdded_def observersRemoved_def asService_upd rm_emit_def
      split: option.splits)

lemma asService_tracker_map:
  "mResourceTracker s' = t \<Longrightarrow> asService (s'\<lparr>mResourceTracker := t\<lparr>rt_mMap := m\<rparr>\<rparr>) = (asService s')\<lparr>mMap := m\<rparr>"
  by (simp add: asService_def Let_def rms.truncate_def)

section \<open>The operations\<close>

text \<open>Adding resources: the same, but the resource monitor is told of the process that the caller names.\<close>

lemma new_addResource_refines:
  "\<exists>r. addResource e ci client rs (asService s)
        = map_option (notifyResourceGranted e (if isPidUidTrusted e (cp_pid ci) (cp_uid ci) then cp_pid ci else callingPid e) rs) r
     \<and> map_option asService (new_addResource e ci client rs s) = map_option (notifyResourceGranted e (cp_pid ci) rs) r"
proof -
  define pid where "pid = (if isPidUidTrusted e (cp_pid ci) (cp_uid ci) then cp_pid ci else callingPid e)"
  define uid where "uid = (if isPidUidTrusted e (cp_pid ci) (cp_uid ci) then cp_uid ci else callingUid e)"
  obtain infos m where i: "getResourceInfosForEdit pid (rt_mMap (mResourceTracker s)) = (infos, m)" by (metis surj_pair)
  obtain info infos1 where j: "getResourceInfoForEdit ci client infos = (info, infos1)" by (metis surj_pair)
  show ?thesis
  proof (cases "foldM (addOne (ri_uid info)) rs (ri_resources info, [], s)")
    case None
    then show ?thesis
      by (intro exI [of _ None])
        (simp add: addResource_def new_addResource_def rt_addResource_def Let_def pid_def [symmetric] i j asService_addLoop)
  next
    case (Some x)
    obtain held added s1 where l: "foldM (addOne (ri_uid info)) rs (ri_resources info, [], s) = Some (held, added, s1)"
      using Some by (cases x) auto
    define m' where "m' = smap_set pid (smap_set (cp_id ci) (info\<lparr>ri_resources := held,
        ri_deathNotifier := (if ri_deathNotifier info = None \<and> client \<noteq> None then Some ci else ri_deathNotifier info)\<rparr>) infos1) m"
    define t' where "t' = (mResourceTracker s)\<lparr>rt_mMap := m'\<rparr>"
    define s' where "s' = observersAdded uid pid added ((asService s1)\<lparr>mMap := m'\<rparr>)"
    have "addResource e ci client rs (asService s) = Some (notifyResourceGranted e pid rs s')"
      unfolding addResource_def Let_def asService_sel pid_def [symmetric] uid_def [symmetric] i prod.case j asService_addLoop l
        option.map prod.case option.case s'_def m'_def by (rule refl)
    moreover have "new_addResource e ci client rs s
        = Some (notifyResourceGranted e (cp_pid ci) rs ((rt_observersAdded t' uid pid added s1)\<lparr>mResourceTracker := t'\<rparr>))"
      unfolding new_addResource_def rt_addResource_def Let_def pid_def [symmetric] uid_def [symmetric] i prod.case j l
        option.case t'_def m'_def by (rule refl)
    moreover have "asService ((rt_observersAdded t' uid pid added s1)\<lparr>mResourceTracker := t'\<rparr>) = s'"
      unfolding asService_observers using tracker_loops(1) [OF l] by (simp add: t'_def s'_def asService_tracker_map)
    ultimately show ?thesis unfolding pid_def [symmetric]
      by (intro exI [of _ "Some s'"]) (simp add: asService_granted)
  qed
qed

lemma new_removeResources_refines:
  "map_option asService (new_removeResources e ci rs s) = removeResource e ci rs (asService s)"
proof -
  define pid where "pid = (if isPidTrusted e (cp_pid ci) then cp_pid ci else callingPid e)"
  show ?thesis
  proof (cases "\<exists>infos info. smap_find (rt_mMap (mResourceTracker s)) pid = Some infos \<and> smap_find infos (cp_id ci) = Some info")
    case False
    then show ?thesis
      by (auto simp: new_removeResources_def rt_removeResources_def removeResource_def Let_def pid_def [symmetric] split: option.splits)
  next
    case True
    then obtain infos info where i: "smap_find (rt_mMap (mResourceTracker s)) pid = Some infos" "smap_find infos (cp_id ci) = Some info"
      by blast
    show ?thesis
    proof (cases "foldM (removeOne (ri_uid info)) rs (ri_resources info, [], s)")
      case None
      with i show ?thesis
        by (simp add: new_removeResources_def rt_removeResources_def removeResource_def Let_def pid_def [symmetric] asService_removeLoop)
    next
      case (Some x)
      obtain held removed s1 where l: "foldM (removeOne (ri_uid info)) rs (ri_resources info, [], s) = Some (held, removed, s1)"
        using Some by (cases x) auto
      with i tracker_loops(2) [OF l] show ?thesis
        by (simp add: new_removeResources_def rt_removeResources_def removeResource_def Let_def pid_def [symmetric]
            asService_removeLoop asService_observers asService_tracker_map)
    qed
  qed
qed

lemma new_removeResource_refines:
  "map_option asService (new_removeResource e ci chk s) = removeClientResources e ci chk (asService s)"
proof -
  define pid where "pid = (if chk \<and> \<not> isPidTrusted e (cp_pid ci) then callingPid e else cp_pid ci)"
  show ?thesis
  proof (cases "\<exists>infos info. smap_find (rt_mMap (mResourceTracker s)) pid = Some infos \<and> smap_find infos (cp_id ci) = Some info")
    case False
    then show ?thesis
      by (auto simp: new_removeResource_def rt_removeResource_def removeClientResources_def Let_def pid_def [symmetric] split: option.splits)
  next
    case True
    then obtain infos info where i: "smap_find (rt_mMap (mResourceTracker s)) pid = Some infos" "smap_find infos (cp_id ci) = Some info"
      by blast
    define s1 where "s1 = fold (onLastRemoved (ri_uid info)) (ri_resources info) s"
    define m' where "m' = smap_set pid (smap_erase (cp_id ci) infos) (rt_mMap (mResourceTracker s))"
    define t' where "t' = (mResourceTracker s)\<lparr>rt_mMap := m'\<rparr>"
    define s2 where "s2 = (rt_observersRemoved (mResourceTracker s) (sint (ri_uid info)) pid (ri_resources info) s1)\<lparr>mResourceTracker := t'\<rparr>"
    have t: "mResourceTracker s1 = mResourceTracker s" by (simp add: s1_def tracker_loops)
    have m2: "mResourceManagerMetrics (rt_observersRemoved (mResourceTracker s) (sint (ri_uid info)) pid (ri_resources info) s1)
        = mResourceManagerMetrics s1"
      by (simp add: rt_observersRemoved_def rm_emit_def split: option.splits)
    have new: "new_removeResource e ci chk s
        = map_option (\<lambda>m. s2\<lparr>mResourceManagerMetrics := m\<rparr>) (mt_notifyClientReleased e ci (mResourceManagerMetrics s1))"
      using i m2 by (simp add: new_removeResource_def rt_removeResource_def Let_def pid_def [symmetric] s1_def [symmetric]
          m'_def [symmetric] t'_def [symmetric] s2_def [symmetric])
    have s2: "asService s2 = (observersRemoved (sint (ri_uid info)) pid (ri_resources info) (asService s1))\<lparr>mMap := m'\<rparr>"
      using t by (auto simp: s2_def t'_def rt_observersRemoved_def observersRemoved_def rm_emit_def asService_def Let_def rms.truncate_def
          split: option.splits)
    have obs: "observersRemoved u p l ((x :: rms)\<lparr>mResourceManagerMetrics := m\<rparr>) = (observersRemoved u p l x)\<lparr>mResourceManagerMetrics := m\<rparr>"
      "mMap (observersRemoved u p l x) = mMap x" for u p l x m
      by (auto simp: observersRemoved_def rm_emit_def split: option.splits)
    have old: "fold (onLastRemoved (ri_uid info)) (ri_resources info) (asService s) = asService s1"
      by (simp add: s1_def asService_lastLoop)
    show ?thesis using i unfolding new
      by (simp add: removeClientResources_def Let_def pid_def [symmetric] old obs m'_def [symmetric] t option.map_comp comp_def
          asService_upd s2 split: option.splits)
  qed
qed

lemma new_mark_refines: "asService (new_markClientForPendingRemoval e ci s) = markClientForPendingRemoval e ci (asService s)"
  by (auto simp: new_markClientForPendingRemoval_def rt_markClientForPendingRemoval_def markClientForPendingRemoval_def Let_def
      asService_def rms.truncate_def split: option.splits)

lemma new_getClient_refines: "new_getClient_l pid i s = getClient_l pid i (asService s)"
  by (simp add: new_getClient_l_def rt_getClient_def getClient_l_def)

lemma new_removeClient_l_refines: "map_prod id asService (new_removeClient_l pid i s) = removeClient_l pid i (asService s)"
  by (auto simp: new_removeClient_l_def rt_removeClient_def removeClient_l_def asService_def Let_def rms.truncate_def split: option.splits)

lemma new_getPriority_refines: "new_getPriority_l e s = getPriority_l e (asService s)"
  by (simp add: new_getPriority_l_def rt_getPriority_def getPriority_l_def fun_eq_iff)

lemma new_overrides_refine:
  "map_prod id asService (new_overridePid_l p q s) = overridePid_l p q (asService s)"
  "map_prod id asService (new_overrideProcessInfo_l c pid st sc s) = overrideProcessInfo_l c pid st sc (asService s)"
  "asService (new_removeProcessInfoOverride pid s) = removeProcessInfoOverride pid (asService s)"
proof -
  show r: "asService (new_removeProcessInfoOverride pid s) = removeProcessInfoOverride pid (asService s)" for s
    by (auto simp: new_removeProcessInfoOverride_def rt_removeProcessInfoOverride_def removeProcessInfoOverride_def
        removeProcessInfoOverride_l_def asService_def Let_def rms.truncate_def split: option.splits)
  show "map_prod id asService (new_overridePid_l p q s) = overridePid_l p q (asService s)"
    by (simp add: new_overridePid_l_def rt_overridePid_def overridePid_l_def Let_def asService_def rms.truncate_def)
  show "map_prod id asService (new_overrideProcessInfo_l c pid st sc s) = overrideProcessInfo_l c pid st sc (asService s)"
    by (auto simp: new_overrideProcessInfo_l_def rt_overrideProcessInfo_def rt_removeProcessInfoOverride_def overrideProcessInfo_l_def
        removeProcessInfoOverride_l_def asService_def Let_def rms.truncate_def split: option.splits prod.splits)
qed

lemma newMethods_simps [simp]:
  "v_getTargetClients newMethods = new_getTargetClients" "v_getPriority_l newMethods = new_getPriority_l"
  "v_getClient_l newMethods = new_getClient_l" "v_removeClient_l newMethods = new_removeClient_l"
  "v_overridePid_l newMethods = new_overridePid_l" "v_overrideProcessInfo_l newMethods = new_overrideProcessInfo_l"
  "v_removeProcessInfoOverride newMethods = new_removeProcessInfoOverride" "v_removeResource newMethods = new_removeResource"
  by (simp_all add: newMethods_def)

text \<open>The inherited operations, with the methods of the two classes.\<close>

lemma overridePid_refines: "map_prod id asService (overridePid newMethods e p q s) = overridePid baseMethods e p q (asService s)"
  by (simp add: overridePid_def asService_upd map_prod_def split_beta new_overrides_refine(1) [of p q s, symmetric])

lemma overrideProcessInfo_refines:
  "map_prod id asService (overrideProcessInfo newMethods e c pid st sc s) = overrideProcessInfo baseMethods e c pid st sc (asService s)"
  using new_overrides_refine(2) [of _ pid st sc s]
  by (auto simp: overrideProcessInfo_def map_prod_def split_beta prod_eq_iff split: option.splits)

lemma dn_binderDied_refines: "map_option asService (dn_binderDied newMethods e ci s) = dn_binderDied baseMethods e ci (asService s)"
proof -
  have "asService (snd (overridePid newMethods e (cp_pid ci) (- 1) s)) = snd (overridePid baseMethods e (cp_pid ci) (- 1) (asService s))"
    using overridePid_refines [of e "cp_pid ci" "- 1" s] by (metis snd_map_prod)
  then show ?thesis by (simp add: dn_binderDied_def new_removeResource_refines)
qed

lemma override_binderDied_refines: "asService (override_binderDied newMethods ci s) = override_binderDied baseMethods ci (asService s)"
  by (simp add: override_binderDied_def new_overrides_refine)

lemma pushReclaimAtom_refines:
  "map_option asService (pushReclaimAtom newMethods e ci ts r s) = pushReclaimAtom baseMethods e ci ts r (asService s)"
  by (simp add: pushReclaimAtom_def Let_def new_getPriority_refines option.map_comp comp_def asService_upd)

lemma reclaimLoop_refines:
  assumes "\<And>c s. asService (mw c s) = mw' c (asService s)"
  shows "map_prod id asService (reclaimLoop newMethods answer mw ts s) = reclaimLoop baseMethods answer mw' ts (asService s)"
  by (induction ts arbitrary: s) (simp_all add: new_getClient_refines Let_def assms asService_emit split: option.splits)

lemma reclaimUnconditionallyFrom_refines:
  assumes "\<And>c s. asService (mw c s) = mw' c (asService s)"
  shows "map_prod id asService (reclaimUnconditionallyFrom newMethods answer mw ts s)
     = reclaimUnconditionallyFrom baseMethods answer mw' ts (asService s)"
proof -
  obtain failed s1 where l: "reclaimLoop newMethods answer mw ts s = (failed, s1)" by (cases "reclaimLoop newMethods answer mw ts s")
  then have "reclaimLoop baseMethods answer mw' ts (asService s) = (failed, asService s1)"
    using reclaimLoop_refines [of mw mw' answer ts s] assms by simp
  moreover have "asService (snd (new_removeClient_l p i s1)) = snd (removeClient_l p i (asService s1))" for p i
    using new_removeClient_l_refines [of p i s1] by (metis snd_map_prod)
  ultimately show ?thesis using l by (cases failed) (simp_all add: reclaimUnconditionallyFrom_def)
qed

lemma notify_refines:
  "asService (rm_metrics g s) = rm_metrics g (asService s)"
  "map_option asService (rm_metrics_ub h s) = rm_metrics_ub h (asService s)"
  by (simp_all add: rm_metrics_def rm_metrics_ub_def asService_upd option.map_comp comp_def)

lemma new_config_refines: "asService (new_config ps s) = config ps (asService s)"
proof -
  have "asService (fold configOne ps s) = fold configOne ps (asService s)" for s
    by (induction ps arbitrary: s) (simp_all add: configOne_def asService_upd)
  then show ?thesis by (simp add: new_config_def setUpResourceModels_def config_def asService_upd)
qed

lemma new_setObserverService_refines: "asService (new_setObserverService obs s) = setObserverService obs (asService s)"
  by (simp add: new_setObserverService_def setObserverService_def setResourceObserverService_def asService_def Let_def rms.truncate_def)

lemma new_start_refines: "asService (ResourceManagerServiceNew e p) = ResourceManagerService e p"
  by (simp add: ResourceManagerServiceNew_def setUpReclaimPolicies_def setReclaimPolicy_def setUpResourceModels_def asService_def
      ResourceManagerService_def ResourceTracker_def Let_def rms.truncate_def rms.extend_def rms_new.fields_def)

text \<open>A change of the configuration also records the importance of the client, and makes an entry for its process.\<close>

definition setImportance :: "client_info_parcel \<Rightarrow> rms \<Rightarrow> rms" where
  "setImportance ci s =
     (let (infos, m) = getResourceInfosForEdit (cp_pid ci) (mMap s)
      in s\<lparr>mMap := (case smap_find infos (cp_id ci) of
             None \<Rightarrow> m
           | Some info \<Rightarrow> putInfo (cp_pid ci) (cp_id ci) (info\<lparr>ri_importance := word_of_int (max 0 (cp_importance ci))\<rparr>) m)\<rparr>)"

lemma new_changed_refines:
  "map_option asService (new_notifyClientConfigChanged cfg s) = notifyClientConfigChanged cfg (setImportance (cc_clientInfo cfg) (asService s))"
proof -
  have "asService (s\<lparr>mResourceTracker := snd (rt_updateResource ci (mResourceTracker s))\<rparr>) = setImportance ci (asService s)" for ci
    by (auto simp: rt_updateResource_def setImportance_def Let_def asService_def rms.truncate_def split: option.splits prod.splits)
  then show ?thesis by (simp add: new_notifyClientConfigChanged_def notifyClientConfigChanged_def notify_refines)
qed

end
