(* ===== verification/Tracker_Machine.thy ===== *)
theory Tracker_Machine
  imports Tracker_Refinement
begin

text \<open>
  The newer resource manager as a state machine. It refines the older one, so the invariant of the older one holds of it, and with it
  the absence of undefined behaviour and the accounts. What it chooses to take resources from is justified as
  long as every client on record is registered for the process it is on record for; a caller that registers a client for another
  process breaks this.
\<close>

section \<open>The machine\<close>

text \<open>The flags say whether a reclaim dropped a client, and whether every client was added by a caller trusted with its process.\<close>

inductive new_reach :: "bool \<Rightarrow> bool \<Rightarrow> rms_new \<Rightarrow> bool" where
  nr_new: "new_reach False True (ResourceManagerServiceNew e newProcessInfo)"
| nr_config: "new_reach f g s \<Longrightarrow> new_reach f g (new_config policies s)"
| nr_policies: "new_reach f g s \<Longrightarrow> new_reach f g (setReclaimPolicy b c s)"
| nr_observers: "new_reach f g s \<Longrightarrow> new_reach f g (new_setObserverService obs s)"
| nr_add: "new_reach f g s \<Longrightarrow> parcels_ok rs \<Longrightarrow> new_addResource e ci client rs s = Some s'
    \<Longrightarrow> new_reach f (g \<and> isPidUidTrusted e (cp_pid ci) (cp_uid ci)) s'"
| nr_remove: "new_reach f g s \<Longrightarrow> parcels_ok rs \<Longrightarrow> new_removeResources e ci rs s = Some s' \<Longrightarrow> new_reach f g s'"
| nr_removeClient: "new_reach f g s \<Longrightarrow> clock_in_range e \<Longrightarrow> new_removeClient e ci s = Some s' \<Longrightarrow> new_reach f g s'"
| nr_died: "new_reach f g s \<Longrightarrow> clock_in_range e \<Longrightarrow> dn_binderDied newMethods e ci s = Some s' \<Longrightarrow> new_reach f g s'"
| nr_mark: "new_reach f g s \<Longrightarrow> new_reach f g (new_markClientForPendingRemoval e ci s)"
| nr_overridePid: "new_reach f g s \<Longrightarrow> new_reach f g (snd (overridePid newMethods e p q s))"
| nr_overrideInfo: "new_reach f g s \<Longrightarrow> new_reach f g (snd (overrideProcessInfo newMethods e c pid st sc s))"
| nr_overrideDied: "new_reach f g s \<Longrightarrow> new_reach f g (override_binderDied newMethods ci s)"
| nr_created: "new_reach f g s \<Longrightarrow> new_reach f g (notifyClientCreated ci s)"
| nr_started: "new_reach f g s \<Longrightarrow> 0 \<le> cc_timeStamp cfg \<Longrightarrow> cc_timeStamp cfg \<le> int64_max
    \<Longrightarrow> notifyClientStarted e cfg s = Some s' \<Longrightarrow> new_reach f g s'"
| nr_stopped: "new_reach f g s \<Longrightarrow> 0 \<le> cc_timeStamp cfg \<Longrightarrow> cc_timeStamp cfg \<le> int64_max
    \<Longrightarrow> notifyClientStopped cfg s = Some s' \<Longrightarrow> new_reach f g s'"
| nr_changed: "new_reach f g s \<Longrightarrow> new_notifyClientConfigChanged cfg s = Some s' \<Longrightarrow> new_reach f g s'"
| nr_uidGone: "new_reach f g s \<Longrightarrow> new_reach f g (rm_metrics (mt_onUidGone e (mProcessInfo s) u) s)"
| nr_ask: "new_reach f g s \<Longrightarrow> new_reach f g (rm_emit [ReclaimResource c] s)"
| nr_refused: "new_reach f g s \<Longrightarrow> new_reach True g (snd (new_removeClient_l pid clientId s))"
| nr_atom: "new_reach f g s \<Longrightarrow> pushReclaimAtom newMethods e ci ts r s = Some s' \<Longrightarrow> new_reach f g s'"

section \<open>The invariant of the older service\<close>

lemma infosForEdit_spec:
  assumes "map_ok m" "getResourceInfosForEdit pid m = (infos, m1)"
  shows "map_ok m1" "smap_find m1 pid = Some infos" "weight w m1 = weight w m"
  using assms map_ok_find [OF assms(1)]
  by (auto simp: getResourceInfosForEdit_def weight_def map_ok_def smap_ok_emplace smap_simps smap_total_emplace
      split: option.splits if_splits)

lemma rm_inv_setImportance:
  assumes "rm_inv f s"
  shows "rm_inv f (setImportance ci s)"
proof -
  obtain infos m where i: "getResourceInfosForEdit (cp_pid ci) (mMap s) = (infos, m)" by (metis surj_pair)
  have ok: "map_ok (mMap s)" using assms by (simp add: rm_inv_def)
  note e = infosForEdit_spec [OF ok i]
  define m' where "m' = (case smap_find infos (cp_id ci) of None \<Rightarrow> m
      | Some info \<Rightarrow> putInfo (cp_pid ci) (cp_id ci) (info\<lparr>ri_importance := word_of_int (max 0 (cp_importance ci))\<rparr>) m)"
  have io: "infos_ok infos" using map_ok_find [OF e(1,2)] .
  have "map_ok m' \<and> weight boosts m' = weight boosts (mMap s) \<and> (\<forall>u. weight (videos u) m' = weight (videos u) (mMap s))"
  proof (cases "smap_find infos (cp_id ci)")
    case None
    then show ?thesis using e by (simp add: m'_def)
  next
    case (Some info)
    have "info_ok (cp_id ci) info" using io Some by (simp add: infos_ok_def)
    then have "map_ok m'" using Some e io by (auto simp: m'_def putInfo_found info_ok_def intro!: map_ok_set infos_ok_set)
    moreover have "weight w m' = weight w (mMap s)" if "\<And>x i. w (i\<lparr>ri_importance := x\<rparr>) = w i" for w
      using Some e(2,3) weight_set_info(1) [OF e(1,2) Some, of w] that by (simp add: m'_def putInfo_found)
    ultimately show ?thesis by (simp add: boosts_def videos_def)
  qed
  then show ?thesis using assms
    unfolding setImportance_def i Let_def prod.case m'_def [symmetric] by (simp add: rm_inv_def accounts_def wide_def)
qed

lemma rm_inv_granted_any:
  assumes "r \<noteq> None" "\<exists>s'. map_option (notifyResourceGranted e p rs) r = Some s' \<and> rm_inv f s'"
  shows "\<exists>s'. map_option (notifyResourceGranted e q rs) r = Some s' \<and> rm_inv f s'"
proof -
  obtain s where r: "r = Some s" using assms(1) by auto
  have "rm_inv f (notifyResourceGranted e p rs s)" using assms(2) r by simp
  then have "rm_inv f s" by (auto simp: notifyResourceGranted_def rm_emit_def rm_inv_def accounts_def wide_def split: if_splits)
  then show ?thesis using r by (simp add: observers_frame)
qed

lemma new_inv_add:
  assumes "rm_inv f (asService s)" "parcels_ok rs"
  shows "\<exists>s'. new_addResource e ci client rs s = Some s' \<and> rm_inv f (asService s')"
proof -
  obtain r where r: "addResource e ci client rs (asService s)
        = map_option (notifyResourceGranted e (if isPidUidTrusted e (cp_pid ci) (cp_uid ci) then cp_pid ci else callingPid e) rs) r"
    "map_option asService (new_addResource e ci client rs s) = map_option (notifyResourceGranted e (cp_pid ci) rs) r"
    using new_addResource_refines by blast
  obtain s0 where "addResource e ci client rs (asService s) = Some s0" "rm_inv f s0"
    using rm_inv_add [OF assms(1), of rs e ci client] assms(2) by (auto simp: parcels_ok_def)
  then have "\<exists>s'. map_option (notifyResourceGranted e (cp_pid ci) rs) r = Some s' \<and> rm_inv f s'"
    using rm_inv_granted_any r(1) by (metis option.map_disc_iff option.distinct(1))
  then show ?thesis unfolding r(2) [symmetric] by auto
qed

lemma new_inv_remove:
  "rm_inv f (asService s) \<Longrightarrow> parcels_ok rs \<Longrightarrow> \<exists>s'. new_removeResources e ci rs s = Some s' \<and> rm_inv f (asService s')"
  "rm_inv f (asService s) \<Longrightarrow> clock_in_range e \<Longrightarrow> \<exists>s'. new_removeResource e ci chk s = Some s' \<and> rm_inv f (asService s')"
  using rm_inv_remove [of f "asService s" rs e ci] rm_inv_removeClientResources [of f "asService s" e ci chk]
  by (auto simp: parcels_ok_def new_removeResources_refines [symmetric] new_removeResource_refines [symmetric])

lemma new_inv_died:
  assumes "rm_inv f (asService s)" "clock_in_range e"
  shows "\<exists>s'. dn_binderDied newMethods e ci s = Some s' \<and> rm_inv f (asService s')"
proof -
  have "rm_inv f (asService (snd (overridePid newMethods e (cp_pid ci) (- 1) s)))"
    using rm_inv_override(1) [OF assms(1), of e "cp_pid ci" "- 1"] overridePid_refines [of e "cp_pid ci" "- 1" s] by (metis snd_map_prod)
  from new_inv_remove(2) [OF this assms(2)] show ?thesis by (simp add: dn_binderDied_def)
qed

interpretation new: resource_manager asService new_addResource new_removeResources new_removeClient "dn_binderDied newMethods"
  by unfold_locales (simp_all add: new_inv_add new_inv_remove new_inv_died new_removeClient_def)

lemma rm_inv_stop:
  assumes "rm_inv f s" "notifyClientStopped cfg s = Some s'"
  shows "rm_inv f s'"
  using assms(2) unfolding notifyClientStopped_def
  by (rule rm_inv_metrics_ub [OF assms(1)]) (use rm_inv_stamps [OF assms(1)] stamps_stop_keeps in blast)

lemma rm_inv_start:
  assumes "rm_inv f s" "0 \<le> cc_timeStamp cfg" "cc_timeStamp cfg \<le> int64_max" "notifyClientStarted e cfg s = Some s'"
  shows "rm_inv f s'"
  using assms(4) unfolding notifyClientStarted_def
  by (rule rm_inv_metrics_ub [OF assms(1)]) (use rm_inv_stamps [OF assms(1)] stamps_start assms(2,3) in blast)

lemma rm_inv_change:
  assumes "rm_inv f s" "notifyClientConfigChanged cfg s = Some s'"
  shows "rm_inv f s'"
  using assms(2) unfolding notifyClientConfigChanged_def
  by (rule rm_inv_metrics_ub [OF assms(1)]) (use rm_inv_stamps [OF assms(1)] stamps_change in blast)

lemma rm_inv_atom: "rm_inv f s \<Longrightarrow> pushReclaimAtom baseMethods e ci ts r s = Some s' \<Longrightarrow> rm_inv f s'"
  by (auto simp: pushReclaimAtom_def Let_def rm_inv_def wide_def dest: stamps_atom)

lemma new_inv_stamps: "rm_inv f (asService s) \<Longrightarrow> stamps_ok (mResourceManagerMetrics s)"
  using rm_inv_stamps [of f "asService s"] by simp

lemma new_reach_inv: "new_reach f g s \<Longrightarrow> rm_inv f (asService s)"
proof (induction rule: new_reach.induct)
  case (nr_new e)
  show ?case using rm_reach_inv [OF rr_new] by (simp add: new_start_refines)
next
  case (nr_config f g s policies)
  then show ?case by (simp add: new_config_refines rm_inv_def wide_def)
next
  case (nr_policies f g s b c)
  then show ?case by (simp add: setReclaimPolicy_def asService_upd)
next
  case (nr_observers f g s obs)
  then show ?case by (simp add: new_setObserverService_refines rm_inv_def setObserverService_def wide_def)
next
  case (nr_add f g s rs e ci client s')
  then show ?case using new_inv_add [of f s rs e ci client] by auto
next
  case (nr_remove f g s rs e ci s')
  then show ?case using new_inv_remove(1) [of f s rs e ci] by auto
next
  case (nr_removeClient f g s e ci s')
  then show ?case using new_inv_remove(2) [of f s e ci True] by (auto simp: new_removeClient_def)
next
  case (nr_died f g s e ci s')
  then show ?case using new_inv_died [of f s e ci] by auto
next
  case (nr_mark f g s e ci)
  then show ?case by (simp add: new_mark_refines rm_inv_mark)
next
  case (nr_overridePid f g s e p q)
  then show ?case using rm_inv_override(1) overridePid_refines [of e p q s] by (metis snd_map_prod)
next
  case (nr_overrideInfo f g s e c pid st sc)
  then show ?case using rm_inv_override(3) overrideProcessInfo_refines [of e c pid st sc s] by (metis snd_map_prod)
next
  case (nr_overrideDied f g s ci)
  then show ?case by (simp add: override_binderDied_def new_overrides_refine rm_inv_override)
next
  case (nr_created f g s ci)
  then show ?case by (simp add: notifyClientCreated_def notify_refines rm_inv_metrics new_inv_stamps)
next
  case (nr_started f g s cfg e s')
  have "notifyClientStarted e cfg (asService s) = Some (asService s')"
    using nr_started.hyps(4) by (simp add: notifyClientStarted_def notify_refines(2) [symmetric])
  with nr_started.IH nr_started.hyps(2,3) show ?case by (rule rm_inv_start)
next
  case (nr_stopped f g s cfg s')
  have "notifyClientStopped cfg (asService s) = Some (asService s')"
    using nr_stopped.hyps(4) by (simp add: notifyClientStopped_def notify_refines(2) [symmetric])
  with nr_stopped.IH show ?case by (rule rm_inv_stop)
next
  case (nr_changed f g s cfg s')
  have "rm_inv f (setImportance (cc_clientInfo cfg) (asService s))" using nr_changed.IH by (rule rm_inv_setImportance)
  moreover have "notifyClientConfigChanged cfg (setImportance (cc_clientInfo cfg) (asService s)) = Some (asService s')"
    using nr_changed.hyps(2) by (simp add: new_changed_refines [symmetric])
  ultimately show ?case by (rule rm_inv_change)
next
  case (nr_uidGone f g s e u)
  then show ?case by (simp add: notify_refines rm_inv_metrics new_inv_stamps)
next
  case (nr_ask f g s c)
  then show ?case by (simp add: asService_emit rm_inv_def accounts_def rm_emit_def wide_def)
next
  case (nr_refused f g s pid clientId)
  then show ?case using rm_inv_removeClient_l new_removeClient_l_refines [of pid clientId s] by (metis snd_map_prod)
next
  case (nr_atom f g s e ci ts r s')
  have "pushReclaimAtom baseMethods e ci ts r (asService s) = Some (asService s')"
    using nr_atom.hyps(2) by (simp add: pushReclaimAtom_refines [symmetric])
  with nr_atom.IH show ?case by (rule rm_inv_atom)
qed

section \<open>The process of a client\<close>

text \<open>Each client is registered for the process that it is on record for.\<close>

definition pids_ok :: "pid_map \<Rightarrow> bool" where
  "pids_ok m \<longleftrightarrow> (\<forall>pid infos i info. smap_find m pid = Some infos \<longrightarrow> smap_find infos i = Some info \<longrightarrow> ri_pid info = pid)"

lemma pids_ok_set:
  assumes "pids_ok m" "\<And>i info. smap_find infos i = Some info \<Longrightarrow> ri_pid info = pid"
  shows "pids_ok (smap_set pid infos m)"
  using assms by (auto simp: pids_ok_def smap_simps split: if_splits)

lemma pids_okD: "pids_ok m \<Longrightarrow> smap_find m pid = Some infos \<Longrightarrow> smap_find infos i = Some info \<Longrightarrow> ri_pid info = pid"
  unfolding pids_ok_def by blast

lemma pids_ok_put: "pids_ok m \<Longrightarrow> ri_pid info = pid \<Longrightarrow> pids_ok (putInfo pid i info m)"
  by (auto simp: putInfo_def smap_simps intro!: pids_ok_set split: if_splits option.splits dest: pids_okD)

lemma pids_ok_erase:
  assumes "pids_ok m" "smap_find m pid = Some infos"
  shows "pids_ok (smap_set pid (smap_erase i infos) m)"
  using pids_okD [OF assms] assms by (auto simp: smap_simps intro!: pids_ok_set split: if_splits)

lemma pids_infosForEdit:
  assumes "pids_ok m" "getResourceInfosForEdit pid m = (infos, m1)"
  shows "pids_ok m1" "smap_find m1 pid = Some infos"
  using assms by (auto simp: getResourceInfosForEdit_def pids_ok_def smap_simps split: option.splits if_splits)

lemma pids_add:
  assumes "rt_addResource e ci client rs t s = Some (b, t', s')" "isPidUidTrusted e (cp_pid ci) (cp_uid ci)" "pids_ok (rt_mMap t)"
  shows "pids_ok (rt_mMap t')"
proof -
  obtain infos m where i: "getResourceInfosForEdit (cp_pid ci) (rt_mMap t) = (infos, m)" by (metis surj_pair)
  obtain info infos1 where j: "getResourceInfoForEdit ci client infos = (info, infos1)" by (metis surj_pair)
  note m = pids_infosForEdit [OF assms(3) i]
  have infos: "ri_pid x = cp_pid ci" if "smap_find infos k = Some x" for k x using pids_okD [OF m that] .
  then have info: "ri_pid info = cp_pid ci" "\<And>k x. smap_find infos1 k = Some x \<Longrightarrow> ri_pid x = cp_pid ci"
    using j by (auto simp: getResourceInfoForEdit_def Let_def smap_simps split: option.splits if_splits)
  show ?thesis using assms(1,2) i j
    by (auto simp: rt_addResource_def Let_def smap_simps info split: option.splits if_splits intro!: pids_ok_set m)
qed

lemma pids_others:
  "pids_ok (rt_mMap t) \<Longrightarrow> rt_removeResources e ci rs t s = Some (b, t', s') \<Longrightarrow> pids_ok (rt_mMap t')"
  "pids_ok (rt_mMap t) \<Longrightarrow> rt_removeResource e ci chk t s = (b, t', s') \<Longrightarrow> pids_ok (rt_mMap t')"
  "pids_ok (rt_mMap t) \<Longrightarrow> pids_ok (rt_mMap (snd (rt_removeClient pid i t)))"
  "pids_ok (rt_mMap t) \<Longrightarrow> pids_ok (rt_mMap (snd (rt_markClientForPendingRemoval e ci t)))"
  by (auto simp: rt_removeResources_def rt_removeResource_def rt_removeClient_def rt_markClientForPendingRemoval_def Let_def
      split: option.splits if_splits intro!: pids_ok_put pids_ok_erase) (meson pids_okD)+

lemma pids_update:
  assumes "pids_ok (rt_mMap t)"
  shows "pids_ok (rt_mMap (snd (rt_updateResource ci t)))"
proof -
  obtain infos m where i: "getResourceInfosForEdit (cp_pid ci) (rt_mMap t) = (infos, m)" by (metis surj_pair)
  note m = pids_infosForEdit [OF assms i]
  show ?thesis using m pids_okD [OF m]
    by (auto simp: rt_updateResource_def i Let_def split: option.splits intro!: pids_ok_put)
qed

lemma tracker_unchanged [simp]:
  "mResourceTracker (rm_metrics h s) = mResourceTracker s" "mResourceTracker (setReclaimPolicy b c s) = mResourceTracker s"
  "mResourceTracker (new_config ps s) = mResourceTracker s"
  "rt_mMap (mResourceTracker (new_setObserverService obs s)) = rt_mMap (mResourceTracker s)"
  "rt_mMap (mResourceTracker (snd (overridePid newMethods e p q s))) = rt_mMap (mResourceTracker s)"
  "rt_mMap (mResourceTracker (snd (overrideProcessInfo newMethods e cl pid st sc s))) = rt_mMap (mResourceTracker s)"
  "rt_mMap (mResourceTracker (new_removeProcessInfoOverride pid s)) = rt_mMap (mResourceTracker s)"
proof -
  have "mResourceTracker (fold configOne ps s) = mResourceTracker s" for s :: rms_new
    by (induction ps arbitrary: s) (simp_all add: configOne_def)
  then show "mResourceTracker (new_config ps s) = mResourceTracker s"
    by (simp add: new_config_def config_def setUpResourceModels_def)
qed (auto simp: rm_metrics_def setReclaimPolicy_def new_setObserverService_def setObserverService_def setResourceObserverService_def
    overridePid_def new_overridePid_l_def rt_overridePid_def overrideProcessInfo_def new_overrideProcessInfo_l_def rt_overrideProcessInfo_def
    new_removeProcessInfoOverride_def rt_removeProcessInfoOverride_def Let_def split: option.splits prod.splits)

lemma tracker_notified [simp]:
  "mResourceTracker (notifyClientCreated ci s) = mResourceTracker s"
  "mResourceTracker (new_markClientForPendingRemoval e ci s) = snd (rt_markClientForPendingRemoval e ci (mResourceTracker s))"
  "mResourceTracker (snd (new_removeClient_l pid i s)) = snd (rt_removeClient pid i (mResourceTracker s))"
  "rt_mMap (mResourceTracker (override_binderDied newMethods ci s)) = rt_mMap (mResourceTracker s)"
  by (simp_all add: notifyClientCreated_def new_markClientForPendingRemoval_def new_removeClient_l_def Let_def split_beta override_binderDied_def)

lemma tracker_kept:
  "notifyClientStopped cfg s = Some s' \<Longrightarrow> mResourceTracker s' = mResourceTracker s"
  "pushReclaimAtom newMethods e ci ts r s = Some s' \<Longrightarrow> mResourceTracker s' = mResourceTracker s"
  "notifyClientStarted e cfg s = Some s' \<Longrightarrow> mResourceTracker s' = mResourceTracker s"
  "new_notifyClientConfigChanged cfg s = Some s' \<Longrightarrow> mResourceTracker s' = snd (rt_updateResource (cc_clientInfo cfg) (mResourceTracker s))"
  by (auto simp: notifyClientStopped_def notifyClientStarted_def new_notifyClientConfigChanged_def notifyClientConfigChanged_def
      rm_metrics_ub_def pushReclaimAtom_def Let_def)

lemma new_reach_pids: "new_reach f g s \<Longrightarrow> g \<Longrightarrow> pids_ok (rt_mMap (mResourceTracker s))"
proof (induction rule: new_reach.induct)
  case (nr_new e)
  show ?case by (simp add: ResourceManagerServiceNew_def setUpReclaimPolicies_def setReclaimPolicy_def setUpResourceModels_def
      ResourceTracker_def rms.extend_def rms_new.fields_def pids_ok_def Let_def)
next
  case (nr_add f g s rs e ci client s')
  then show ?case by (auto simp: new_addResource_def notifyResourceGranted_def rm_emit_def split: option.splits dest: pids_add)
next
  case (nr_remove f g s rs e ci s')
  then show ?case by (auto simp: new_removeResources_def split: option.splits dest: pids_others)
next
  case (nr_removeClient f g s e ci s')
  then show ?case by (auto simp: new_removeClient_def new_removeResource_def Let_def split: prod.splits if_splits dest: pids_others)
next
  case (nr_died f g s e ci s')
  define s1 where "s1 = snd (overridePid newMethods e (cp_pid ci) (- 1) s)"
  have "pids_ok (rt_mMap (mResourceTracker s1))" using nr_died.IH nr_died.prems by (simp add: s1_def)
  moreover have "new_removeResource e ci False s1 = Some s'" using nr_died.hyps(3) by (simp add: dn_binderDied_def s1_def)
  ultimately show ?case by (auto simp: new_removeResource_def Let_def split: prod.splits if_splits dest: pids_others)
next
  case (nr_stopped f g s cfg s')
  then show ?case by (simp add: tracker_kept(1) [OF nr_stopped.hyps(4)])
next
  case (nr_started f g s cfg e s')
  then show ?case by (simp add: tracker_kept(3) [OF nr_started.hyps(4)])
next
  case (nr_changed f g s cfg s')
  then show ?case by (simp add: tracker_kept(4) [OF nr_changed.hyps(2)] pids_update)
next
  case (nr_atom f g s e ci ts r s')
  then show ?case by (simp add: tracker_kept(2) [OF nr_atom.hyps(2)])
qed (simp_all add: pids_others(3,4))

end
