(* ===== verification/Policy_Choice.thy ===== *)
theory Policy_Choice
  imports Tracker_Machine
begin

text \<open>
  Whom the newer resource manager takes resources from. Under its policies a client must give way when it is marked for
  removal in the caller's process, when its process has a lower priority, or when it is less important than the caller's
  client in the same process. The choice respects this as long as the clients are registered for their own processes.
\<close>

section \<open>Justified choices\<close>

definition new_justified :: "rm_env \<Rightarrow> process_info \<Rightarrow> tracker \<Rightarrow> int \<Rightarrow> u32 \<Rightarrow> client_info \<Rightarrow> bool" where
  "new_justified e p tr caller importance t \<longleftrightarrow>
     (\<exists>info. rt_getResourceInfo (mPid t) (mClientId t) tr = Some info \<and> mUid t = ri_uid info
        \<and> (mPid t = caller \<and> ri_pendingRemoval info
           \<or> rt_isCallingPriorityHigher e p tr caller (mPid t)
           \<or> mPid t = caller \<and> importance < ri_importance info))"

lemma getResourceInfo_id:
  assumes "map_ok (rt_mMap tr)" "rt_getResourceInfo pid i tr = Some info"
  shows "ri_clientId info = i"
  using assms map_ok_find [OF assms(1)] by (auto simp: rt_getResourceInfo_def infos_ok_def info_ok_def split: option.splits)

lemma contains_client_iff: "contains_client cs i \<longleftrightarrow> (\<exists>c \<in> set cs. mClientId c = i)"
  by (auto simp: contains_client_def find_None_iff)

lemma nonConflictingLoop_targets:
  "nonConflictingLoop e p tr caller callerId type subType xs cs = (ok, cs') \<Longrightarrow> t \<in> set cs' \<Longrightarrow>
     t \<in> set cs \<or> (\<exists>pid i info. (pid, i, info) \<in> set xs \<and> rt_isCallingPriorityHigher e p tr caller pid
        \<and> t = \<lparr>mPid = ri_pid info, mUid = ri_uid info, mClientId = ri_clientId info\<rparr>)"
proof (induction e p tr caller callerId type subType xs cs rule: nonConflictingLoop.induct)
  case (2 e p tr caller callerId type subType pid i info rest cs)
  then show ?case by (fastforce simp: addClient_def split: if_splits)
qed simp

lemma nonConflicting_justified:
  assumes "map_ok (rt_mMap tr)" "pids_ok (rt_mMap tr)" "rt_getNonConflictingClients e p caller callerId type subType tr cs = (ok, cs')"
    "list_all (new_justified e p tr caller imp) cs"
  shows "list_all (new_justified e p tr caller imp) cs'"
  unfolding list_all_iff
proof
  fix t assume "t \<in> set cs'"
  from nonConflictingLoop_targets [OF assms(3) [unfolded rt_getNonConflictingClients_def] this]
  consider "t \<in> set cs" | pid i info where "(pid, i, info) \<in> set (allInfos (rt_mMap tr))" "rt_isCallingPriorityHigher e p tr caller pid"
    "t = \<lparr>mPid = ri_pid info, mUid = ri_uid info, mClientId = ri_clientId info\<rparr>" by blast
  then show "new_justified e p tr caller imp t"
  proof cases
    case 1
    then show ?thesis using assms(4) by (simp add: list_all_iff)
  next
    case 2
    obtain infos where i: "smap_find (rt_mMap tr) pid = Some infos" "smap_find infos i = Some info" "ri_clientId info = i"
      using allInfos_member [OF assms(1) 2(1)] by blast
    with pids_okD [OF assms(2) i(1,2)] 2 show ?thesis by (simp add: new_justified_def rt_getResourceInfo_def)
  qed
qed

lemma modelConflicts_justified:
  assumes "map_ok (rt_mMap tr)" "pids_ok (rt_mMap tr)"
  shows "list_all (new_justified e p tr (rq_mCallingPid rq) imp) (snd (modelConflicts e p tr dm rq first))"
proof -
  let ?P = "list_all (new_justified e p tr (rq_mCallingPid rq) imp)"
  have "?P (snd (rt_getNonConflictingClients e p (rq_mCallingPid rq) (rq_mClientId rq) type subType tr cs))" if "?P cs" for type subType cs
    using nonConflicting_justified [OF assms _ that] by (metis prod.collapse)
  then show ?thesis by (cases "mr_type first") (simp_all add: modelConflicts_def Let_def split_beta)
qed

section \<open>The searches\<close>

lemma pending_same: "rt_getBiggestClientPendingRemoval pid type subType (mResourceTracker s)
    = getBiggestClientPendingRemoval_l pid type subType (asService s)"
  by (cases "smap_find (rt_mMap (mResourceTracker s)) pid")
    (simp_all add: rt_getBiggestClientPendingRemoval_def getBiggestClientPendingRemoval_l_def getBiggestClient_l_def)

lemma biggestOf_spec:
  assumes "b = fold (biggestOf skip pid type subType primary tr) cs b0"
  shows "b = b0 \<or> (\<exists>c \<in> set cs. \<exists>info v. mPid c = pid \<and> rt_getResourceInfo pid (mClientId c) tr = Some info \<and> \<not> skip info
     \<and> b = (ri_uid info, ri_clientId info, v))"
  using assms
proof (induction cs arbitrary: b rule: rev_induct)
  case (snoc c cs)
  define b1 where "b1 = fold (biggestOf skip pid type subType primary tr) cs b0"
  have b: "b = biggestOf skip pid type subType primary tr c b1" using snoc.prems by (simp add: b1_def)
  show ?case using snoc.IH [OF b1_def] b biggestInfo_spec [of b1 type subType]
    by (auto simp: biggestOf_def split: if_splits option.splits) blast+
qed simp

lemma biggestOf_client:
  assumes "map_ok (rt_mMap tr)" "biggestClient pid (fold (biggestOf skip pid type subType primary tr) cs noBiggest) = Some t"
  shows "\<exists>info. mPid t = pid \<and> rt_getResourceInfo pid (mClientId t) tr = Some info \<and> mUid t = ri_uid info \<and> \<not> skip info"
proof -
  define b where "b = fold (biggestOf skip pid type subType primary tr) cs noBiggest"
  have t: "fst (snd b) \<noteq> - 1" "t = \<lparr>mPid = pid, mUid = fst b, mClientId = fst (snd b)\<rparr>"
    using assms(2) unfolding b_def [symmetric] by (auto simp: biggestClient_def split: prod.splits if_splits)
  then have "b \<noteq> noBiggest" by (auto simp: noBiggest_def)
  with biggestOf_spec [OF b_def] obtain c info v where
    "c \<in> set cs" "rt_getResourceInfo pid (mClientId c) tr = Some info" "\<not> skip info" "b = (ri_uid info, ri_clientId info, v)" by blast
  with t getResourceInfo_id [OF assms(1)] show ?thesis by auto
qed

lemma lowestPriority_justified:
  assumes "map_ok (rt_mMap tr)" "rt_getPriority e p tr caller = Some q"
    "getBiggestClientFromLowestPriority e p tr q type subType primary cs = Some t"
  shows "new_justified e p tr caller imp t"
proof -
  obtain pid priority where l: "rt_getLowestPriorityPidOf e p type subType primary cs tr = Some (pid, priority)" "q < priority"
    "rt_getBiggestClient pid type subType cs primary tr = Some t"
    using assms(3) by (auto simp: getBiggestClientFromLowestPriority_def split: option.splits if_splits)
  have "fold (\<lambda>c. keepLowest (clientCandidate e p type subType primary tr c)) cs (- 1, - 1) = (pid, priority)" "pid \<noteq> - 1"
    using l(1) by (auto simp: rt_getLowestPriorityPidOf_def lowestFound_def split: if_splits)
  from lowest_fold_spec [OF this] have "rt_getPriority e p tr pid = Some priority"
    by (auto simp: clientCandidate_def split: option.splits if_splits)
  moreover obtain info where "mPid t = pid" "rt_getResourceInfo pid (mClientId t) tr = Some info" "mUid t = ri_uid info"
    using biggestOf_client [OF assms(1) l(3) [unfolded rt_getBiggestClient_def]] by blast
  ultimately show ?thesis using assms(2) l(2) by (simp add: new_justified_def rt_isCallingPriorityHigher_def)
qed

lemma importance_justified:
  assumes "map_ok (rt_mMap tr)" "rt_getLeastImportantBiggestClient caller imp type subType primary cs tr = Some t"
  shows "new_justified e p tr caller imp t"
  using biggestOf_client [OF assms(1) assms(2) [unfolded rt_getLeastImportantBiggestClient_def]]
  by (auto simp: new_justified_def not_le)

lemma pickOther_from: "pickOther pick primary rs = Some t \<Longrightarrow> \<exists>type subType. pick type subType primary = Some t"
  by (induction rs) (auto split: option.splits)

lemma pickClient_from: "pickClient pick first rest = Some t \<Longrightarrow> \<exists>type subType primary. pick type subType primary = Some t"
  by (auto simp: pickClient_def split: option.splits if_splits dest!: pickOther_from)

text \<open>
  The interface \<^verbatim>\<open>IReclaimPolicy\<close>: a policy only adds clients that must give way, leaves the list alone when it finds none,
  and answers every request that names a resource.
\<close>

locale reclaim_policy_contract =
  fixes getClients :: "rm_env \<Rightarrow> process_info \<Rightarrow> tracker \<Rightarrow> reclaim_request \<Rightarrow> client_info list \<Rightarrow> client_info list
      \<Rightarrow> (bool \<times> client_info list) ub"
  assumes adds: "map_ok (rt_mMap tr) \<Longrightarrow> getClients e p tr rq cs ts = Some (True, ts')
      \<Longrightarrow> \<exists>t. ts' = ts @ [t] \<and> new_justified e p tr (rq_mCallingPid rq) (rq_mCallingClientImportance rq) t"
    and finds_none: "getClients e p tr rq cs ts = Some (False, ts') \<Longrightarrow> ts' = ts"
    and answers: "rq_mResources rq \<noteq> [] \<Longrightarrow> getClients e p tr rq cs ts \<noteq> None"
begin

lemma keeps_justified:
  assumes "map_ok (rt_mMap tr)" "getClients e p tr rq cs ts = Some (ok, ts')"
    "list_all (new_justified e p tr (rq_mCallingPid rq) (rq_mCallingClientImportance rq)) ts"
  shows "list_all (new_justified e p tr (rq_mCallingPid rq) (rq_mCallingClientImportance rq)) ts'"
proof (cases ok)
  case True
  with adds [OF assms(1)] assms(2,3) show ?thesis by fastforce
next
  case False
  with finds_none assms(2,3) show ?thesis by fastforce
qed

end

interpretation pp: reclaim_policy_contract pp_getClients
  by unfold_locales (auto simp: pp_getClients_def split: list.splits option.splits dest!: pickClient_from intro: lowestPriority_justified)

interpretation ci: reclaim_policy_contract "\<lambda>e p. ci_getClients"
  by unfold_locales (auto simp: ci_getClients_def split: list.splits option.splits dest!: pickClient_from intro: importance_justified)

lemma policy_justified:
  assumes "map_ok (rt_mMap tr)" "policy_getClients policy e p tr rq cs ts = Some (ok, ts')"
    "list_all (new_justified e p tr (rq_mCallingPid rq) (rq_mCallingClientImportance rq)) ts"
  shows "list_all (new_justified e p tr (rq_mCallingPid rq) (rq_mCallingClientImportance rq)) ts'"
  using assms pp.keeps_justified ci.keeps_justified by (cases policy) (auto simp: policy_getClients_def)

lemma policy_total: "rq_mResources rq \<noteq> [] \<Longrightarrow> policy_getClients policy e p tr rq cs ts \<noteq> None"
  using pp.answers ci.answers by (cases policy) (auto simp: policy_getClients_def)

lemma policyLoop_justified:
  assumes "map_ok (rt_mMap tr)" "policyLoop policies e p tr rq cs ts = Some ts'"
    "list_all (new_justified e p tr (rq_mCallingPid rq) (rq_mCallingClientImportance rq)) ts"
  shows "list_all (new_justified e p tr (rq_mCallingPid rq) (rq_mCallingClientImportance rq)) ts'"
  using assms(2,3)
proof (induction policies arbitrary: ts)
  case (Cons policy policies)
  then show ?case by (auto split: option.splits if_splits dest: policy_justified [OF assms(1)])
qed simp

lemma pendingFirst_from: "pendingFirst caller rs tr = Some t \<Longrightarrow> \<exists>type subType. rt_getBiggestClientPendingRemoval caller type subType tr = Some t"
  by (induction rs) (auto split: option.splits)

lemma pending_justified:
  assumes "map_ok (rt_mMap (mResourceTracker s))" "pendingFirst caller rs (mResourceTracker (s :: rms_new)) = Some t"
  shows "new_justified e p (mResourceTracker s) caller imp t"
proof -
  obtain type subType where "getBiggestClient_l caller type subType True (asService s) = Some t"
    using pendingFirst_from [OF assms(2)] by (auto simp: pending_same getBiggestClientPendingRemoval_l_def)
  from getBiggestClient_l_spec [OF _ this] assms(1) show ?thesis
    by (auto simp: new_justified_def rt_getResourceInfo_def holds_most_def)
qed

section \<open>No undefined choice\<close>

lemma policyLoop_total: "rq_mResources rq \<noteq> [] \<Longrightarrow> policyLoop policies e p tr rq cs ts \<noteq> None"
proof (induction policies arbitrary: ts)
  case (Cons policy policies)
  with policy_total [of rq policy e p tr cs ts] show ?case by (auto split: option.splits)
qed simp

lemma dm_getAllClients_total: "rq_mResources rq \<noteq> [] \<Longrightarrow> dm_getAllClients e p tr dm rq \<noteq> None"
  by (auto simp: dm_getAllClients_def getCodecClients_def Let_def split: list.splits prod.splits res_type.splits)

text \<open>The request as it is passed to the model and the policies.\<close>

definition requestOf :: "rm_env \<Rightarrow> client_info_parcel \<Rightarrow> media_resource list \<Rightarrow> reclaim_request" where
  "requestOf e ci rs = \<lparr>rq_mCallingPid = requester e (cp_pid ci), rq_mClientId = cp_id ci,
     rq_mCallingClientImportance = word_of_int (max 0 (cp_importance ci)), rq_mResources = rs\<rparr>"

lemma requestOf_sel [simp]:
  "rq_mCallingPid (requestOf e ci rs) = requester e (cp_pid ci)" "rq_mResources (requestOf e ci rs) = rs"
  "rq_mCallingClientImportance (requestOf e ci rs) = word_of_int (max 0 (cp_importance ci))"
  by (simp_all add: requestOf_def)

lemma new_getTargetClients_eq:
  "new_getTargetClients e ci rs s =
     (case dm_getAllClients e (mProcessInfo s) (mResourceTracker s) (mDefaultResourceModel s) (requestOf e ci rs) of
        None \<Rightarrow> None
      | Some (ok, clients) \<Rightarrow>
          if \<not> ok then Some (clients \<noteq> [], clients)
          else map_option (\<lambda>ts. (ts \<noteq> [], ts)) (new_getClientForResource_l e (requestOf e ci rs) clients [] s))"
  unfolding new_getTargetClients_def Let_def requestOf_def requester_def by (rule refl)

lemma new_getTargetClients_total: "rs \<noteq> [] \<Longrightarrow> new_getTargetClients e ci rs s \<noteq> None"
  using dm_getAllClients_total [of "requestOf e ci rs" e "mProcessInfo s" "mResourceTracker s" "mDefaultResourceModel s"]
    policyLoop_total [of "requestOf e ci rs" "mReclaimPolicies s" e "mProcessInfo s" "mResourceTracker s" _ "[]"]
  by (auto simp: new_getTargetClients_eq new_getClientForResource_l_def split: option.splits)

lemma addClient_any [simp]: "addClient info cs = [] \<longleftrightarrow> False"
  by (auto simp: addClient_def contains_client_def)

lemma found_when_any:
  "rt_allClientsLoop type subType primary xs found cs = (found', cs') \<Longrightarrow> (cs \<noteq> [] \<longrightarrow> found) \<Longrightarrow> cs' \<noteq> [] \<longrightarrow> found'"
  by (induction type subType primary xs found cs rule: rt_allClientsLoop.induct) (auto split: if_splits)

lemma getAllClients_none: "rt_getAllClients type subType primary tr [] = (False, cs) \<Longrightarrow> cs = []"
  using found_when_any [of type subType primary "allInfos (rt_mMap tr)" False "[]" False cs] by (auto simp: rt_getAllClients_def)

text \<open>A list of clients that comes with a conflict is the list of the clients in conflict.\<close>

lemma dm_conflict:
  assumes "dm_getAllClients e p tr dm rq = Some (False, cs)" "cs \<noteq> []"
  shows "\<exists>first. cs = snd (modelConflicts e p tr dm rq first)"
proof -
  obtain first rest where r: "rq_mResources rq = first # rest" using assms(1) by (cases "rq_mResources rq") (auto simp: dm_getAllClients_def)
  have "cs = snd (modelConflicts e p tr dm rq first)"
    using assms r
    by (cases "modelConflicts e p tr dm rq first")
      (auto simp: dm_getAllClients_def getCodecClients_def Let_def split: if_splits res_type.splits dest: getAllClients_none)
  then show ?thesis ..
qed

end
