(* ===== verification/Newer_Properties.thy ===== *)
theory Newer_Properties
  imports Policy_Choice
begin

text \<open>
  What the newer resource manager inherits from the older one by refinement, and where it departs from what is
  documented.
\<close>

section \<open>Refinement\<close>

text \<open>The calls with the process left out of those to the resource monitor.\<close>

fun withoutPid :: "rm_call \<Rightarrow> rm_call" where
  "withoutPid (ResourceGranted _ t) = ResourceGranted 0 t"
| "withoutPid c = c"

definition unattributed :: "rms \<Rightarrow> rms" where
  "unattributed s = s\<lparr>mCalls := map withoutPid (mCalls s)\<rparr>"

lemma unattributed_granted: "unattributed (notifyResourceGranted e pid rs s) = unattributed (notifyResourceGranted e q rs s)"
  by (simp add: unattributed_def notifyResourceGranted_def rm_emit_def comp_def)


definition demo_new :: rms_new where
  "demo_new = the (new_addResource (sample_caller 7) demo_client (Some 5) demo_resources
     (ResourceManagerServiceNew (sample_caller 7) newProcessInfo))"

lemma demo_trusted: "isPidUidTrusted (sample_caller 7) (cp_pid demo_client) (cp_uid demo_client)"
  by (simp add: isPidUidTrusted_def sample_caller_def demo_client_def)

lemma demo_new_refines: "asService demo_new = demo_service"
  and demo_new_reach: "new_reach False True demo_new"
proof -
  let ?s = "ResourceManagerServiceNew (sample_caller 7) newProcessInfo"
  obtain s' where s': "new_addResource (sample_caller 7) demo_client (Some 5) demo_resources ?s = Some s'"
    using new_inv_add [OF new_reach_inv [OF nr_new] demo_parcels(1), of "sample_caller 7" demo_client "Some 5"] by auto
  obtain r where r: "addResource (sample_caller 7) demo_client (Some 5) demo_resources (asService ?s)
      = map_option (notifyResourceGranted (sample_caller 7) (cp_pid demo_client) demo_resources) r"
    "map_option asService (new_addResource (sample_caller 7) demo_client (Some 5) demo_resources ?s)
      = map_option (notifyResourceGranted (sample_caller 7) (cp_pid demo_client) demo_resources) r"
    using new_addResource_refines [of "sample_caller 7" demo_client "Some 5" demo_resources ?s] demo_trusted by auto
  show "asService demo_new = demo_service"
    using r s' by (cases r) (auto simp: demo_new_def demo_service_def new_start_refines)
  show "new_reach False True demo_new" using nr_add [OF nr_new demo_parcels(1) s'] demo_trusted s' by (simp add: demo_new_def)
qed


section \<open>A client registered for another process\<close>

definition codec :: "res_type \<Rightarrow> res_subtype \<Rightarrow> media_resource" where
  "codec type subType = \<lparr>mr_type = type, mr_subType = subType, mr_id = [], mr_value = 1\<rparr>"

definition victim :: client_info_parcel where
  "victim = \<lparr>cp_pid = 3, cp_uid = 10003, cp_id = 1, cp_name = ''v'', cp_importance = 0\<rparr>"

definition requesting :: client_info_parcel where
  "requesting = \<lparr>cp_pid = 5, cp_uid = 10005, cp_id = 2, cp_name = ''r'', cp_importance = 0\<rparr>"

text \<open>
  Secure and non-secure codecs exclude each other. Process 3 adds an audio codec for its client 1; process 9 adds a video
  codec for the same client of process 3.
\<close>

definition shared0 :: rms_new where
  "shared0 = new_config [(''supports-secure-with-non-secure-codec'', ''false'')] (ResourceManagerServiceNew (sample_caller 3) newProcessInfo)"

definition shared1 :: rms_new where
  "shared1 = the (new_addResource (sample_caller 3) victim (Some 11) [codec kNonSecureCodec kHwAudioCodec] shared0)"

definition shared2 :: rms_new where
  "shared2 = the (new_addResource (sample_caller 9) victim (Some 22) [codec kNonSecureCodec kHwVideoCodec] shared1)"

lemma shared_targets:
  "new_getTargetClients (sample_caller 5) requesting [codec kSecureCodec kHwVideoCodec] shared2
     = Some (True, [\<lparr>mPid = 3, mUid = 10003, mClientId = 1\<rparr>])"
  by code_simp

lemma codec_parcels: "parcels_ok [codec type subType]"
  by (simp add: parcels_ok_def codec_def in_int64_def int64_max_def)

lemma shared_reach: "new_reach False False shared2"
proof -
  have 0: "new_reach False True shared0" unfolding shared0_def by (rule nr_config [OF nr_new])
  obtain s1 where s1: "new_addResource (sample_caller 3) victim (Some 11) [codec kNonSecureCodec kHwAudioCodec] shared0 = Some s1"
    using new_inv_add [OF new_reach_inv [OF 0] codec_parcels] by blast
  have "isPidUidTrusted (sample_caller 3) (cp_pid victim) (cp_uid victim)"
    by (simp add: isPidUidTrusted_def sample_caller_def victim_def)
  with nr_add [OF 0 codec_parcels s1] s1 have 1: "new_reach False True shared1" by (simp add: shared1_def)
  obtain s2 where s2: "new_addResource (sample_caller 9) victim (Some 22) [codec kNonSecureCodec kHwVideoCodec] shared1 = Some s2"
    using new_inv_add [OF new_reach_inv [OF 1] codec_parcels] by blast
  have "\<not> isPidUidTrusted (sample_caller 9) (cp_pid victim) (cp_uid victim)"
    by (simp add: isPidUidTrusted_def sample_caller_def victim_def)
  with nr_add [OF 1 codec_parcels s2] s2 show ?thesis by (simp add: shared2_def)
qed

lemma shared_victim:
  "new_getClient_l 3 1 shared2 = Some 11" "rt_getResourceInfo 3 1 (mResourceTracker shared2) \<noteq> None"
  "rt_isCallingPriorityHigher (sample_caller 5) (mProcessInfo shared2) (mResourceTracker shared2) 3 5"
  by code_simp+

lemma sample_caller_sel:
  "callingPid (sample_caller n) = n" "callingUid (sample_caller n) = 10000 + n" "selfPid (sample_caller n) = 1"
  "aidMedia (sample_caller n) = 1013" "permitted (sample_caller n) x = False"
  by (simp_all add: sample_caller_def)


section \<open>Safety by refinement\<close>



section \<open>The importance of clients\<close>

text \<open>Client 1 holds more and is more important than client 2.\<close>

definition ranked :: tracker where
  "ranked = ResourceTracker\<lparr>rt_mMap :=
     [(7, [(1, \<lparr>ri_pid = 7, ri_uid = 10007, ri_clientId = 1, ri_name = ''a'', ri_client = Some 1, ri_deathNotifier = None,
                ri_resources = [\<lparr>mr_type = kGraphicMemory, mr_subType = kUnspecifiedSubType, mr_id = [], mr_value = 8\<rparr>],
                ri_pendingRemoval = False, ri_importance = 1\<rparr>),
           (2, \<lparr>ri_pid = 7, ri_uid = 10007, ri_clientId = 2, ri_name = ''b'', ri_client = Some 2, ri_deathNotifier = None,
                ri_resources = [\<lparr>mr_type = kGraphicMemory, mr_subType = kUnspecifiedSubType, mr_id = [], mr_value = 4\<rparr>],
                ri_pendingRemoval = False, ri_importance = 9\<rparr>)])]\<rparr>"

definition ranked_request :: reclaim_request where
  "ranked_request = \<lparr>rq_mCallingPid = 7, rq_mClientId = 3, rq_mCallingClientImportance = 0,
     rq_mResources = [\<lparr>mr_type = kGraphicMemory, mr_subType = kUnspecifiedSubType, mr_id = [], mr_value = 1\<rparr>]\<rparr>"

text \<open>
  The importance policy takes resources from the biggest of the less important clients, not from the least important one. Client 2 is
  the least important client of the process and holds the resource, but the policy picks client 1, which holds more.
\<close>
theorem importance_policy_picks_biggest:
  "ci_getClients ranked ranked_request
       [\<lparr>mPid = 7, mUid = 10007, mClientId = 1\<rparr>, \<lparr>mPid = 7, mUid = 10007, mClientId = 2\<rparr>] []
     = Some (True, [\<lparr>mPid = 7, mUid = 10007, mClientId = 1\<rparr>])
   \<and> map_option ri_importance (rt_getResourceInfo 7 1 ranked) = Some 1 \<and> map_option ri_importance (rt_getResourceInfo 7 2 ranked) = Some 9"
  by code_simp

section \<open>Justified targets\<close>

text \<open>
  C16: the newer resource manager only takes resources from clients that must give way, as long as clients are added by callers
  trusted with the process they name. Each target is a client on record under its process and uid, and it is marked for removal
  in the caller's process, or belongs to a process with lower priority, or is less important than the caller's client in the
  caller's process. The request fails exactly when there is no target.
\<close>
theorem new_reclaim_targets_justified:
  assumes "new_reach f True s" "new_getTargetClients e ci rs s = Some (ok, targets)"
  shows "(\<forall>t \<in> set targets. new_justified e (mProcessInfo s) (mResourceTracker s) (requester e (cp_pid ci))
        (word_of_int (max 0 (cp_importance ci))) t) \<and> (ok \<longleftrightarrow> targets \<noteq> [])"
proof -
  let ?tr = "mResourceTracker s" and ?p = "mProcessInfo s" and ?rq = "requestOf e ci rs"
  let ?P = "list_all (new_justified e ?p ?tr (requester e (cp_pid ci)) (word_of_int (max 0 (cp_importance ci))))"
  have m: "map_ok (rt_mMap ?tr)" "pids_ok (rt_mMap ?tr)"
    using new_reach_inv [OF assms(1)] new_reach_pids [OF assms(1)] by (simp_all add: rm_inv_def)
  obtain found cs where dm: "dm_getAllClients e ?p ?tr (mDefaultResourceModel s) ?rq = Some (found, cs)"
    using assms(2) by (auto simp: new_getTargetClients_eq split: option.splits)
  have "?P targets"
  proof (cases found)
    case False
    have "?P cs"
    proof (cases "cs = []")
      case False
      have "dm_getAllClients e ?p ?tr (mDefaultResourceModel s) ?rq = Some (False, cs)" using dm \<open>\<not> found\<close> by simp
      from dm_conflict [OF this False] obtain first where "cs = snd (modelConflicts e ?p ?tr (mDefaultResourceModel s) ?rq first)" ..
      with modelConflicts_justified [OF m, of e ?p ?rq] show ?thesis by simp
    qed simp
    with False dm assms(2) show ?thesis by (simp add: new_getTargetClients_eq)
  next
    case True
    then have g: "new_getClientForResource_l e ?rq cs [] s = Some targets"
      using dm assms(2) by (auto simp: new_getTargetClients_eq)
    show ?thesis
    proof (cases "pendingFirst (requester e (cp_pid ci)) rs ?tr")
      case None
      with g policyLoop_justified [OF m(1), of _ e ?p ?rq cs "[]" targets] show ?thesis by (simp add: new_getClientForResource_l_def)
    next
      case (Some t)
      with g pending_justified [OF m(1) Some] show ?thesis by (auto simp: new_getClientForResource_l_def)
    qed
  qed
  moreover have "ok \<longleftrightarrow> targets \<noteq> []"
    using dm assms(2) by (auto simp: new_getTargetClients_eq split: if_splits)
  ultimately show ?thesis by (simp add: list_all_iff)
qed

lemma demo_new_targets:
  "new_getTargetClients (sample_caller 5) (demo_client\<lparr>cp_pid := 5, cp_id := 4\<rparr>) (tl demo_resources) demo_new
     = Some (True, [\<lparr>mPid = 7, mUid = 10007, mClientId = 3\<rparr>])"
  by code_simp

theorem new_reclaim_targets_justified_witness:
  "new_justified (sample_caller 5) (mProcessInfo demo_new) (mResourceTracker demo_new) 5 0 \<lparr>mPid = 7, mUid = 10007, mClientId = 3\<rparr>"
  using new_reclaim_targets_justified [OF demo_new_reach demo_new_targets]
  by (simp add: requester_def isPidTrusted_def isPidUidTrusted_def sample_caller_sel demo_client_def)

end
