(* ===== verification/Camera_Clients.thy ===== *)
theory Camera_Clients
  imports Prelude "HOL-Library.Monad_Syntax"
begin

text \<open>
  \<^verbatim>\<open>ClientManager.h\<close> of the camera service: who may hold a camera. A list of the active clients, the least recently added first, and the
  policy that decides which of them a new client evicts, by priority, conflicts between devices and cost.

  A descriptor is shared by pointers; \<open>mAddress\<close> is its address, and pointers are equal when the addresses are. The null pointer is \<open>None\<close>.
  Calls to the listener are a list. \<open>None\<close> as a result of type \<open>ub\<close> is undefined behaviour: signed overflow, or a read past the end of a vector.
\<close>

section \<open>Priorities\<close>

definition INVALID_ADJ :: int where "INVALID_ADJ = - 10000"

definition UNKNOWN_ADJ :: int where "UNKNOWN_ADJ = 1001"

definition PERCEPTIBLE_APP_ADJ :: int where "PERCEPTIBLE_APP_ADJ = 200"

definition NATIVE_ADJ :: int where "NATIVE_ADJ = - 1000"

record client_priority =
  mScore :: int
  mState :: int
  mIsVendorClient :: bool
  mScoreOffset :: int

text \<open>Addition of 32-bit integers; an overflow is undefined.\<close>

definition add32 :: "int \<Rightarrow> int \<Rightarrow> int ub" where
  "add32 x y = (if - (2 ^ 31) \<le> x + y \<and> x + y < 2 ^ 31 then Some (x + y) else None)"

definition setScore :: "int \<Rightarrow> client_priority \<Rightarrow> client_priority ub" where
  "setScore score p =
     (if score = INVALID_ADJ then Some (p\<lparr>mScore := UNKNOWN_ADJ\<rparr>)
      else do {
        s \<leftarrow> add32 (mScoreOffset p) score;
        Some (p\<lparr>mScore := s\<rparr>)
      })"

definition setState :: "int \<Rightarrow> client_priority \<Rightarrow> client_priority" where
  "setState state p = p\<lparr>mState := state\<rparr>"

definition ClientPriority :: "int \<Rightarrow> int \<Rightarrow> bool \<Rightarrow> int \<Rightarrow> client_priority ub" where
  "ClientPriority score state isVendorClient scoreOffset = do {
     p \<leftarrow> setScore score \<lparr>mScore = 0, mState = 0, mIsVendorClient = isVendorClient, mScoreOffset = scoreOffset\<rparr>;
     Some (setState state p)
   }"

text \<open>The operators \<^verbatim>\<open>==\<close>, \<^verbatim>\<open><\<close>, \<^verbatim>\<open>>\<close>, \<^verbatim>\<open><=\<close> and \<^verbatim>\<open>>=\<close>; a lower value is a higher priority.\<close>

definition prio_eq :: "client_priority \<Rightarrow> client_priority \<Rightarrow> bool" where
  "prio_eq a b \<longleftrightarrow> mScore a = mScore b \<and> mState a = mState b"

definition prio_less :: "client_priority \<Rightarrow> client_priority \<Rightarrow> bool" where
  "prio_less a b \<longleftrightarrow> (if mScore a = mScore b then mState a < mState b else mScore a < mScore b)"

definition prio_greater :: "client_priority \<Rightarrow> client_priority \<Rightarrow> bool" where
  "prio_greater a b \<longleftrightarrow> prio_less b a"

definition prio_le :: "client_priority \<Rightarrow> client_priority \<Rightarrow> bool" where
  "prio_le a b \<longleftrightarrow> \<not> prio_greater a b"

definition prio_ge :: "client_priority \<Rightarrow> client_priority \<Rightarrow> bool" where
  "prio_ge a b \<longleftrightarrow> \<not> prio_less a b"

section \<open>Descriptors\<close>

record ('k, 'v) client_descriptor =
  mAddress :: nat
  mKey :: 'k
  mValue :: 'v
  mCost :: int
  mConflicting :: "'k list"
  mPriority :: client_priority
  mOwnerId :: int

definition ClientDescriptor ::
  "nat \<Rightarrow> 'k \<Rightarrow> 'v \<Rightarrow> int \<Rightarrow> 'k list \<Rightarrow> int \<Rightarrow> int \<Rightarrow> int \<Rightarrow> bool \<Rightarrow> int \<Rightarrow> ('k, 'v) client_descriptor ub" where
  "ClientDescriptor address key value cost conflictingKeys score ownerId state isVendorClient oomScoreOffset = do {
     priority \<leftarrow> ClientPriority score state isVendorClient oomScoreOffset;
     Some \<lparr>mAddress = address, mKey = key, mValue = value, mCost = cost, mConflicting = conflictingKeys, mPriority = priority,
           mOwnerId = ownerId\<rparr>
   }"

definition isConflicting :: "('k, 'v) client_descriptor \<Rightarrow> 'k \<Rightarrow> bool" where
  "isConflicting d key \<longleftrightarrow> key = mKey d \<or> list_ex (\<lambda>x. key = x) (mConflicting d)"

text \<open>The priority of a vendor client never changes.\<close>

definition setPriority :: "client_priority \<Rightarrow> ('k, 'v) client_descriptor \<Rightarrow> ('k, 'v) client_descriptor ub" where
  "setPriority priority d =
     (if mIsVendorClient (mPriority d) then Some d
      else do {
        p \<leftarrow> setScore (mScore priority) (mPriority d);
        Some (d\<lparr>mPriority := setState (mState priority) p\<rparr>)
      })"

section \<open>The manager\<close>

datatype ('k, 'v) client_event =
  ClientAdded "('k, 'v) client_descriptor"
| ClientRemoved "('k, 'v) client_descriptor"

record ('k, 'v) client_manager =
  mMaxCost :: int
  mClients :: "('k, 'v) client_descriptor list"
  mListener :: bool
  mEvents :: "('k, 'v) client_event list"

definition DEFAULT_MAX_COST :: int where "DEFAULT_MAX_COST = 100"

definition ClientManager :: "int \<Rightarrow> ('k, 'v) client_manager" where
  "ClientManager totalCost = \<lparr>mMaxCost = totalCost, mClients = [], mListener = False, mEvents = []\<rparr>"

definition setListener :: "bool \<Rightarrow> ('k, 'v) client_manager \<Rightarrow> ('k, 'v) client_manager" where
  "setListener listener m = m\<lparr>mListener := listener\<rparr>"

definition notify :: "('k, 'v) client_event \<Rightarrow> ('k, 'v) client_manager \<Rightarrow> ('k, 'v) client_manager" where
  "notify e m = (if mListener m then m\<lparr>mEvents := mEvents m @ [e]\<rparr> else m)"

definition getCurrentCostLocked :: "('k, 'v) client_manager \<Rightarrow> int" where
  "getCurrentCostLocked m = sum_list (map mCost (mClients m))"

text \<open>The owner with the highest priority, the most recent among equals, starting from the incoming client.\<close>

fun highestOwner :: "int \<times> client_priority \<Rightarrow> ('k, 'v) client_descriptor list \<Rightarrow> int \<times> client_priority" where
  "highestOwner best [] = best"
| "highestOwner best (i # rest) =
     highestOwner (if prio_le (mPriority i) (snd best) then (mOwnerId i, mPriority i) else best) rest"

definition highestPriorityOwner :: "('k, 'v) client_descriptor \<Rightarrow> ('k, 'v) client_descriptor list \<Rightarrow> int" where
  "highestPriorityOwner client clients =
     (let (owner, highest) = highestOwner (mOwnerId client, mPriority client) clients
      in if prio_eq highest (mPriority client) then mOwnerId client else owner)"

definition conflicting :: "('k, 'v) client_descriptor \<Rightarrow> ('k, 'v) client_descriptor \<Rightarrow> bool" where
  "conflicting client i \<longleftrightarrow> mKey i = mKey client \<or> isConflicting i (mKey client) \<or> isConflicting client (mKey i)"

text \<open>The loop that finds the evicted clients; \<open>None\<close> is the early return of the incoming client.\<close>

fun evictLoop ::
  "int \<Rightarrow> int \<Rightarrow> ('k, 'v) client_descriptor \<Rightarrow> int \<Rightarrow> ('k, 'v) client_descriptor list \<Rightarrow> ('k, 'v) client_descriptor list
   \<Rightarrow> (int \<times> ('k, 'v) client_descriptor list) option" where
  "evictLoop maxCost highest client totalCost evictList [] = Some (totalCost, evictList)"
| "evictLoop maxCost highest client totalCost evictList (i # rest) =
     (if conflicting client i \<and> mOwnerId client = mOwnerId i then
        if mKey i = mKey client then evictLoop maxCost highest client (totalCost - mCost i) (evictList @ [i]) rest
        else None
      else if conflicting client i \<and> prio_less (mPriority i) (mPriority client) then None
      else if conflicting client i \<or> totalCost > maxCost \<and> mCost i > 0 \<and> prio_ge (mPriority i) (mPriority client)
                \<and> \<not> (highest = mOwnerId client \<and> mOwnerId client = mOwnerId i)
      then evictLoop maxCost highest client (totalCost - mCost i) (evictList @ [i]) rest
      else evictLoop maxCost highest client totalCost evictList rest)"

text \<open>The evicted clients of a client that is not null.\<close>

definition evictedBy :: "('k, 'v) client_descriptor \<Rightarrow> ('k, 'v) client_manager \<Rightarrow> ('k, 'v) client_descriptor list" where
  "evictedBy client m =
     (let highest = highestPriorityOwner client (mClients m) in
      case evictLoop (mMaxCost m) highest client (getCurrentCostLocked m + mCost client) [] (mClients m) of
        None \<Rightarrow> [client]
      | Some (totalCost, evictList) \<Rightarrow>
          if totalCost > mMaxCost m \<and> highest \<noteq> mOwnerId client then [client] else evictList)"

definition incompatibleWith :: "('k, 'v) client_descriptor \<Rightarrow> ('k, 'v) client_manager \<Rightarrow> ('k, 'v) client_descriptor list" where
  "incompatibleWith client m =
     filter (\<lambda>i. prio_less (mPriority i) (mPriority client) \<and>
       (conflicting client i \<or> getCurrentCostLocked m + mCost client > mMaxCost m \<and> mCost i > 0)) (mClients m)"

definition wouldEvictLocked ::
  "('k, 'v) client_descriptor option \<Rightarrow> bool \<Rightarrow> ('k, 'v) client_manager \<Rightarrow> ('k, 'v) client_descriptor option list" where
  "wouldEvictLocked client returnIncompatibleClients m =
     (case client of
        None \<Rightarrow> [None]
      | Some c \<Rightarrow> map Some (if returnIncompatibleClients then incompatibleWith c m else evictedBy c m))"

definition wouldEvict :: "('k, 'v) client_descriptor option \<Rightarrow> ('k, 'v) client_manager \<Rightarrow> ('k, 'v) client_descriptor option list" where
  "wouldEvict client m = wouldEvictLocked client False m"

definition getIncompatibleClients ::
  "('k, 'v) client_descriptor option \<Rightarrow> ('k, 'v) client_manager \<Rightarrow> ('k, 'v) client_descriptor option list" where
  "getIncompatibleClients client m = wouldEvictLocked client True m"

text \<open>The removal in \<^verbatim>\<open>addAndEvict\<close>: an iterator over the evicted clients moves on with each match, and is dereferenced for every client.\<close>

fun removeEvicted ::
  "('k, 'v) client_descriptor list \<Rightarrow> ('k, 'v) client_descriptor list \<Rightarrow> ('k, 'v) client_descriptor list ub" where
  "removeEvicted iter [] = Some []"
| "removeEvicted [] (cur # rest) = None"
| "removeEvicted (e # iter) (cur # rest) =
     (if mKey cur = mKey e then removeEvicted iter rest
      else do {
        kept \<leftarrow> removeEvicted (e # iter) rest;
        Some (cur # kept)
      })"

definition same_pointer :: "('k, 'v) client_descriptor option \<Rightarrow> ('k, 'v) client_descriptor option \<Rightarrow> bool" where
  "same_pointer a b \<longleftrightarrow> map_option mAddress a = map_option mAddress b"

definition addAndEvict ::
  "('k, 'v) client_descriptor option \<Rightarrow> ('k, 'v) client_manager
   \<Rightarrow> (('k, 'v) client_descriptor option list \<times> ('k, 'v) client_manager) ub" where
  "addAndEvict client m =
     (let evicted = wouldEvictLocked client False m in
      if evicted \<noteq> [] \<and> same_pointer (hd evicted) client then Some (evicted, m)
      else do {
        c \<leftarrow> client;
        es \<leftarrow> those evicted;
        m \<leftarrow> (if es = [] then Some m
              else do {
                clients \<leftarrow> removeEvicted es (mClients m);
                Some ((notify (ClientRemoved (hd es)) m)\<lparr>mClients := clients\<rparr>)
              });
        let m = notify (ClientAdded c) m;
        Some (evicted, m\<lparr>mClients := mClients m @ [c]\<rparr>)
      })"

definition getAll :: "('k, 'v) client_manager \<Rightarrow> ('k, 'v) client_descriptor list" where
  "getAll m = mClients m"

text \<open>The vector starts with as many default keys as there are clients; \<open>default_key\<close> is the value a key type starts with.\<close>

definition getAllKeys :: "'k \<Rightarrow> ('k, 'v) client_manager \<Rightarrow> 'k list" where
  "getAllKeys default_key m = replicate (length (mClients m)) default_key @ map mKey (mClients m)"

text \<open>A \<^verbatim>\<open>std::set\<close>: sorted, without duplicates.\<close>

definition getAllOwners :: "('k, 'v) client_manager \<Rightarrow> int list" where
  "getAllOwners m = sort (remdups (map mOwnerId (mClients m)))"

fun updateEach :: "(int \<Rightarrow> client_priority option) \<Rightarrow> ('k, 'v) client_descriptor list \<Rightarrow> ('k, 'v) client_descriptor list ub" where
  "updateEach ownerPriorityList [] = Some []"
| "updateEach ownerPriorityList (i # rest) = do {
     i \<leftarrow> (case ownerPriorityList (mOwnerId i) of None \<Rightarrow> Some i | Some p \<Rightarrow> setPriority p i);
     rest \<leftarrow> updateEach ownerPriorityList rest;
     Some (i # rest)
   }"

definition updatePriorities :: "(int \<Rightarrow> client_priority option) \<Rightarrow> ('k, 'v) client_manager \<Rightarrow> ('k, 'v) client_manager ub" where
  "updatePriorities ownerPriorityList m = do {
     clients \<leftarrow> updateEach ownerPriorityList (mClients m);
     Some (m\<lparr>mClients := clients\<rparr>)
   }"

definition get :: "'k \<Rightarrow> ('k, 'v) client_manager \<Rightarrow> ('k, 'v) client_descriptor option" where
  "get key m = find (\<lambda>i. mKey i = key) (mClients m)"

fun notifyAll :: "('k, 'v) client_descriptor list \<Rightarrow> ('k, 'v) client_manager \<Rightarrow> ('k, 'v) client_manager" where
  "notifyAll [] m = m"
| "notifyAll (i # rest) m = notifyAll rest (notify (ClientRemoved i) m)"

definition removeAll_clients :: "('k, 'v) client_manager \<Rightarrow> ('k, 'v) client_manager" where
  "removeAll_clients m = (notifyAll (mClients m) m)\<lparr>mClients := []\<rparr>"

text \<open>\<^verbatim>\<open>remove\<close> by key: the last match is returned.\<close>

definition remove_key ::
  "'k \<Rightarrow> ('k, 'v) client_manager \<Rightarrow> ('k, 'v) client_descriptor option \<times> ('k, 'v) client_manager" where
  "remove_key key m =
     (let matches = filter (\<lambda>i. mKey i = key) (mClients m) in
      (if matches = [] then None else Some (last matches),
       (notifyAll matches m)\<lparr>mClients := filter (\<lambda>i. mKey i \<noteq> key) (mClients m)\<rparr>))"

text \<open>\<^verbatim>\<open>remove\<close> by pointer.\<close>

definition remove_pointer :: "nat \<Rightarrow> ('k, 'v) client_manager \<Rightarrow> ('k, 'v) client_manager" where
  "remove_pointer value m =
     (notifyAll (filter (\<lambda>i. mAddress i = value) (mClients m)) m)
       \<lparr>mClients := filter (\<lambda>i. mAddress i \<noteq> value) (mClients m)\<rparr>"

text \<open>
  \<^verbatim>\<open>waitUntilRemoved\<close>: each wait ends with a status and the state of the manager then; without another wake-up the call has not returned.
\<close>

fun waitUntilRemoved ::
  "nat \<Rightarrow> (int \<times> ('k, 'v) client_manager) list \<Rightarrow> ('k, 'v) client_manager \<Rightarrow> (int \<times> ('k, 'v) client_manager) option" where
  "waitUntilRemoved client wakes m =
     (if \<not> list_ex (\<lambda>i. mAddress i = client) (mClients m) then Some (0, m)
      else
        (case wakes of
           [] \<Rightarrow> None
         | (ret, m) # wakes \<Rightarrow> if ret \<noteq> 0 then Some (ret, m) else waitUntilRemoved client wakes m))"

declare waitUntilRemoved.simps [simp del]

end
