(* ===== verification/Camera_Eviction.thy ===== *)
theory Camera_Eviction
  imports Camera_Clients
begin

text \<open>
  The eviction policy of the camera service. The loop over the clients splits them into the evicted and the kept ones; what it says of each of
  them, and when it gives up, is stated once and carries the properties: clients that conflict are never active together, nobody loses a camera
  to a client of lower priority, and the cost stays within the budget unless the owner has the highest priority.
\<close>

section \<open>Priorities\<close>

lemma prio_ge_iff: "prio_ge a b \<longleftrightarrow> \<not> prio_less a b"
  by (simp add: prio_ge_def)

lemma prio_le_iff: "prio_le a b \<longleftrightarrow> \<not> prio_less b a"
  by (simp add: prio_le_def prio_greater_def)

lemma prio_less_trans: "prio_less a b \<Longrightarrow> prio_less b c \<Longrightarrow> prio_less a c"
  by (auto simp: prio_less_def split: if_splits)

lemma prio_less_irrefl [simp]: "\<not> prio_less a a"
  by (simp add: prio_less_def)

lemma prio_le_less_trans: "\<not> prio_less b a \<Longrightarrow> prio_less b c \<Longrightarrow> prio_less a c"
  by (auto simp: prio_less_def split: if_splits)

lemma prio_eq_iff: "prio_eq a b \<longleftrightarrow> \<not> prio_less a b \<and> \<not> prio_less b a"
  by (auto simp: prio_less_def prio_eq_def)

lemma highestOwner_best: "highestOwner best cs = (q, p) \<Longrightarrow> \<not> prio_less (snd best) p"
proof (induction cs arbitrary: best)
  case (Cons i cs)
  then show ?case
    by (cases "prio_le (mPriority i) (snd best)") (auto simp: prio_le_iff dest: prio_le_less_trans dest!: Cons.IH)
qed simp

lemma highestOwner_all: "highestOwner best cs = (q, p) \<Longrightarrow> i \<in> set cs \<Longrightarrow> \<not> prio_less (mPriority i) p"
proof (induction cs arbitrary: best)
  case (Cons j cs)
  have "\<not> prio_less (mPriority j) p"
    using highestOwner_best [of _ cs q p] Cons.prems(1)
    by (cases "prio_le (mPriority j) (snd best)") (fastforce simp: prio_le_iff dest: prio_less_trans)+
  moreover have h: "highestOwner (if prio_le (mPriority j) (snd best) then (mOwnerId j, mPriority j) else best) cs = (q, p)"
    using Cons.prems(1) by simp
  ultimately show ?case using Cons.IH [OF h] Cons.prems(2) by auto
qed simp

lemma highestOwner_from: "highestOwner best cs = (q, p) \<Longrightarrow> (q, p) = best \<or> (\<exists>i \<in> set cs. q = mOwnerId i \<and> p = mPriority i)"
  by (induction cs arbitrary: best) (fastforce split: if_splits)+

text \<open>The owner of the incoming client has the highest priority when nobody is above it, and only then, or through another client of its own.\<close>

lemma highestPriorityOwner_top:
  assumes "\<forall>i \<in> set cs. \<not> prio_less (mPriority i) (mPriority c)"
  shows "highestPriorityOwner c cs = mOwnerId c"
proof -
  obtain q p where h: "highestOwner (mOwnerId c, mPriority c) cs = (q, p)" by fastforce
  have "\<not> prio_less p (mPriority c)" using highestOwner_from [OF h] assms by auto
  moreover have "\<not> prio_less (mPriority c) p" using highestOwner_best [OF h] by simp
  ultimately show ?thesis using h by (simp add: highestPriorityOwner_def prio_eq_iff)
qed

lemma highestPriorityOwner_own:
  assumes "highestPriorityOwner c cs = mOwnerId c" "i \<in> set cs" "prio_less (mPriority i) (mPriority c)"
  shows "\<exists>j \<in> set cs. mOwnerId j = mOwnerId c \<and> prio_less (mPriority j) (mPriority c)"
proof -
  obtain q p where h: "highestOwner (mOwnerId c, mPriority c) cs = (q, p)" by fastforce
  have p: "prio_less p (mPriority c)" using highestOwner_all [OF h assms(2)] assms(3) prio_le_less_trans by blast
  then have "q = mOwnerId c" using assms(1) h by (simp add: highestPriorityOwner_def prio_eq_iff)
  then show ?thesis using highestOwner_from [OF h] p by auto
qed

text \<open>
  The owner of the highest priority, exactly: of the clients that nobody precedes the one added last, or the incoming one when it ties with them.
\<close>

lemma highestOwner_exact:
  "highestOwner best cs = (if \<exists>i \<in> set cs. \<not> prio_less (snd best) (mPriority i)
     then (let l = last (filter (\<lambda>i. \<forall>j \<in> set cs. \<not> prio_less (mPriority j) (mPriority i)) cs) in (mOwnerId l, mPriority l)) else best)"
proof (induction cs rule: rev_induct)
  case (snoc x cs)
  have step: "highestOwner best (cs @ [x]) =
      (if prio_le (mPriority x) (snd (highestOwner best cs)) then (mOwnerId x, mPriority x) else highestOwner best cs)"
    by (induction cs arbitrary: best) auto
  obtain q p where h: "highestOwner best cs = (q, p)" by fastforce
  have least: "\<not> prio_less (mPriority i) p" if "i \<in> set cs" for i by (rule highestOwner_all [OF h that])
  show ?case
  proof (cases "prio_less p (mPriority x)")
    case False
    have "\<not> prio_less (snd best) (mPriority x)"
      using highestOwner_best [OF h] False prio_le_less_trans [of "snd best" p "mPriority x"] by blast
    moreover have "\<not> prio_less (mPriority j) (mPriority x)" if "j \<in> set cs" for j
      using least [OF that] False prio_le_less_trans [of "mPriority j" p "mPriority x"] by blast
    ultimately show ?thesis unfolding step using h False by (auto simp: prio_le_iff Let_def)
  next
    case True
    have x: "(\<not> prio_less (snd best) (mPriority x)) \<Longrightarrow> \<exists>i \<in> set cs. \<not> prio_less (snd best) (mPriority i)"
      using highestOwner_from [OF h] True by (metis prio_less_trans snd_conv)
    show ?thesis
    proof (cases "\<exists>i \<in> set cs. \<not> prio_less (snd best) (mPriority i)")
      case False
      then have "(q, p) = best" using snoc h by simp
      then show ?thesis unfolding step using False x h True by (auto simp: prio_le_iff)
    next
      case some: True
      have qp: "(q, p) = (let l = last (filter (\<lambda>i. \<forall>j \<in> set cs. \<not> prio_less (mPriority j) (mPriority i)) cs) in (mOwnerId l, mPriority l))"
        using snoc h some by simp
      obtain i where i: "i \<in> set cs" "\<not> prio_less p (mPriority i)"
        using highestOwner_from [OF h] some by (elim disjE) auto
      have below: "prio_less (mPriority i) r" if "prio_less p r" for r by (rule prio_le_less_trans [OF i(2) that])
      have keep: "filter (\<lambda>i. \<forall>j \<in> set (cs @ [x]). \<not> prio_less (mPriority j) (mPriority i)) (cs @ [x])
          = filter (\<lambda>i. \<forall>j \<in> set cs. \<not> prio_less (mPriority j) (mPriority i)) cs"
      proof -
        have "\<not> prio_less (mPriority x) (mPriority k)" if "k \<in> set cs" "\<forall>j \<in> set cs. \<not> prio_less (mPriority j) (mPriority k)" for k
          using that(2) i(1) below prio_less_trans [OF True] by blast
        moreover have "\<exists>j \<in> set cs. prio_less (mPriority j) (mPriority x)" using i(1) below [OF True] by blast
        ultimately show ?thesis by (auto intro: filter_cong)
      qed
      have "\<exists>i \<in> set (cs @ [x]). \<not> prio_less (snd best) (mPriority i)" using some by auto
      then show ?thesis unfolding step keep h snd_conv using True qp by (simp add: prio_le_iff)
    qed
  qed
qed simp

lemma highestPriorityOwner_exact:
  "highestPriorityOwner c cs = (if \<exists>i \<in> set cs. prio_less (mPriority i) (mPriority c)
     then mOwnerId (last (filter (\<lambda>i. \<forall>j \<in> set cs. \<not> prio_less (mPriority j) (mPriority i)) cs)) else mOwnerId c)"
proof (cases "\<exists>i \<in> set cs. prio_less (mPriority i) (mPriority c)")
  case True
  then obtain i where i: "i \<in> set cs" "prio_less (mPriority i) (mPriority c)" by blast
  obtain q p where h: "highestOwner (mOwnerId c, mPriority c) cs = (q, p)" by fastforce
  have "prio_less p (mPriority c)" using highestOwner_all [OF h i(1)] i(2) prio_le_less_trans by blast
  then have "highestPriorityOwner c cs = q" using h by (simp add: highestPriorityOwner_def prio_eq_iff)
  moreover have "\<exists>i \<in> set cs. \<not> prio_less (mPriority c) (mPriority i)"
    by (rule bexI [OF _ i(1)]) (use prio_less_trans [OF i(2), of "mPriority i"] in auto)
  ultimately show ?thesis using True h highestOwner_exact [of "(mOwnerId c, mPriority c)" cs] by (simp add: Let_def)
qed (simp add: highestPriorityOwner_top)

section \<open>The loop\<close>

lemma conflicting_sym: "conflicting a b \<longleftrightarrow> conflicting b a"
  by (auto simp: conflicting_def)

text \<open>The clients that make the loop give up.\<close>

definition blocks :: "('k, 'v) client_descriptor \<Rightarrow> ('k, 'v) client_descriptor \<Rightarrow> bool" where
  "blocks c i \<longleftrightarrow> conflicting c i \<and> (if mOwnerId c = mOwnerId i then mKey i \<noteq> mKey c else prio_less (mPriority i) (mPriority c))"

lemma evictLoop_None: "evictLoop mx h c t acc cs = None \<longleftrightarrow> (\<exists>i \<in> set cs. blocks c i)"
  by (induction mx h c t acc cs rule: evictLoop.induct) (auto simp: blocks_def)

text \<open>Why a client is evicted, and why one is kept when the cost is too high at the end.\<close>

definition evictable :: "int \<Rightarrow> ('k, 'v) client_descriptor \<Rightarrow> ('k, 'v) client_descriptor \<Rightarrow> bool" where
  "evictable h c i \<longleftrightarrow> mKey i = mKey c \<and> mOwnerId i = mOwnerId c \<or> prio_ge (mPriority i) (mPriority c) \<and>
     (conflicting c i \<or> mCost i > 0 \<and> \<not> (h = mOwnerId c \<and> mOwnerId i = mOwnerId c))"

definition untouchable :: "int \<Rightarrow> ('k, 'v) client_descriptor \<Rightarrow> ('k, 'v) client_descriptor \<Rightarrow> bool" where
  "untouchable h c i \<longleftrightarrow> mCost i \<le> 0 \<or> prio_less (mPriority i) (mPriority c) \<or> h = mOwnerId c \<and> mOwnerId i = mOwnerId c"

definition costs :: "('k, 'v) client_descriptor list \<Rightarrow> int" where
  "costs cs = sum_list (map mCost cs)"

lemma costs_simps [simp]: "costs [] = 0" "costs (i # cs) = mCost i + costs cs" "costs (cs @ ds) = costs cs + costs ds"
  by (simp_all add: costs_def)

lemma costs_filter: "costs cs = costs (filter P cs) + costs (filter (\<lambda>i. \<not> P i) cs)"
  by (induction cs) auto

definition splits :: "int \<Rightarrow> int \<Rightarrow> ('k, 'v) client_descriptor \<Rightarrow> int \<Rightarrow> (('k, 'v) client_descriptor \<Rightarrow> bool)
    \<Rightarrow> ('k, 'v) client_descriptor list \<Rightarrow> bool" where
  "splits mx h c t P cs \<longleftrightarrow> (\<forall>i \<in> set cs. if P i then evictable h c i else \<not> conflicting c i \<and> (t > mx \<longrightarrow> untouchable h c i))"

lemma splits_Cons:
  "splits mx h c t P (i # cs) \<longleftrightarrow>
     (if P i then evictable h c i else \<not> conflicting c i \<and> (t > mx \<longrightarrow> untouchable h c i)) \<and> splits mx h c t P cs"
  by (simp add: splits_def)

lemma costs_nonneg: "\<forall>i \<in> set cs. 0 \<le> mCost i \<Longrightarrow> 0 \<le> costs cs"
  by (induction cs) auto

lemma evictLoop_Cons:
  assumes "evictLoop mx h c t acc (i # cs) = Some r"
  shows "evictLoop mx h c (t - mCost i) (acc @ [i]) cs = Some r \<and> evictable h c i
    \<or> evictLoop mx h c t acc cs = Some r \<and> \<not> conflicting c i \<and> (t > mx \<longrightarrow> untouchable h c i)"
proof (cases "conflicting c i")
  case True
  with assms show ?thesis by (simp add: evictable_def prio_ge_iff split: if_splits)
next
  case False
  with assms show ?thesis
    by (cases "0 < mCost i") (auto simp: evictable_def untouchable_def prio_ge_iff split: if_splits)
qed

lemma evictLoop_splits:
  assumes "evictLoop mx h c t acc cs = Some (t', es)" "distinct cs" "\<forall>i \<in> set cs. 0 \<le> mCost i"
  shows "\<exists>P. es = acc @ filter P cs \<and> t' = t - costs (filter P cs) \<and> splits mx h c t' P cs"
  using assms
proof (induction cs arbitrary: t acc)
  case Nil
  then show ?case by (auto simp: splits_def)
next
  case (Cons i cs)
  have tail: "distinct cs" "i \<notin> set cs" "\<forall>i \<in> set cs. 0 \<le> mCost i" using Cons.prems by auto
  have other: "(P(i := b)) j = P j" if "j \<in> set cs" for P j b using that tail(2) by auto
  have agree: "filter (P(i := b)) cs = filter P cs" for P b by (rule filter_cong [OF refl]) (rule other)
  have agree2: "splits mx h c t' (P(i := b)) cs = splits mx h c t' P cs" for P b
    unfolding splits_def by (rule ball_cong [OF refl]) (simp only: other)
  from evictLoop_Cons [OF Cons.prems(1)] show ?case
  proof (elim disjE conjE)
    assume evict: "evictLoop mx h c (t - mCost i) (acc @ [i]) cs = Some (t', es)" "evictable h c i"
    then obtain P where P: "es = (acc @ [i]) @ filter P cs" "t' = t - mCost i - costs (filter P cs)" "splits mx h c t' P cs"
      using Cons.IH [OF _ tail(1,3)] by blast
    show ?thesis by (rule exI [of _ "P(i := True)"]) (use P evict agree agree2 in \<open>simp add: splits_Cons fun_upd_same del: fun_upd_apply\<close>)
  next
    assume keep: "evictLoop mx h c t acc cs = Some (t', es)" "\<not> conflicting c i" "t > mx \<longrightarrow> untouchable h c i"
    then obtain P where P: "es = acc @ filter P cs" "t' = t - costs (filter P cs)" "splits mx h c t' P cs"
      using Cons.IH [OF _ tail(1,3)] by blast
    moreover have "t' \<le> t" using P(2) costs_nonneg [of "filter P cs"] tail(3) by simp
    ultimately show ?thesis by (intro exI [of _ "P(i := False)"]) (use keep agree agree2 in \<open>simp add: splits_Cons fun_upd_same del: fun_upd_apply\<close>)
  qed
qed

text \<open>Which clients the loop evicts, exactly: the one at a position by the cost that is left when the loop comes to it.\<close>

definition evicts :: "int \<Rightarrow> int \<Rightarrow> ('k, 'v) client_descriptor \<Rightarrow> int \<Rightarrow> ('k, 'v) client_descriptor \<Rightarrow> bool" where
  "evicts mx h c t i \<longleftrightarrow> conflicting c i \<or> mx < t \<and> 0 < mCost i \<and> prio_ge (mPriority i) (mPriority c) \<and> \<not> (h = mOwnerId c \<and> mOwnerId i = mOwnerId c)"

lemma evictLoop_step:
  assumes "evictLoop mx h c t acc (i # cs) = Some r"
  shows "(if evicts mx h c t i then evictLoop mx h c (t - mCost i) (acc @ [i]) cs else evictLoop mx h c t acc cs) = Some r"
  using assms by (auto simp: evicts_def split: if_splits)

lemma evictLoop_exact:
  assumes "evictLoop mx h c t acc cs = Some (t', es)" "distinct cs"
  shows "\<exists>P. es = acc @ filter P cs \<and> (\<forall>k < length cs. P (cs ! k) = evicts mx h c (t - costs (filter P (take k cs))) (cs ! k))"
  using assms
proof (induction cs arbitrary: t acc)
  case (Cons i cs)
  have tail: "distinct cs" "i \<notin> set cs" using Cons.prems(2) by auto
  define b where "b = evicts mx h c t i"
  have "evictLoop mx h c (if b then t - mCost i else t) (if b then acc @ [i] else acc) cs = Some (t', es)"
    using evictLoop_step [OF Cons.prems(1), folded b_def] by (cases b) simp_all
  from Cons.IH [OF this tail(1)] obtain P where P: "es = (if b then acc @ [i] else acc) @ filter P cs"
      "\<forall>k < length cs. P (cs ! k) = evicts mx h c ((if b then t - mCost i else t) - costs (filter P (take k cs))) (cs ! k)" by blast
  define Q where "Q = P(i := b)"
  have same: "filter Q ds = filter P ds" if "set ds \<subseteq> set cs" for ds
    by (rule filter_cong [OF refl]) (use that tail(2) in \<open>auto simp: Q_def\<close>)
  have "Q i = b" by (simp add: Q_def)
  then have "es = acc @ filter Q (i # cs)" using P(1) same [of cs] by simp
  moreover have "Q ((i # cs) ! k) = evicts mx h c (t - costs (filter Q (take k (i # cs)))) ((i # cs) ! k)" if "k < length (i # cs)" for k
  proof (cases k)
    case 0
    then show ?thesis by (simp add: Q_def b_def)
  next
    case (Suc n)
    then have n: "n < length cs" "cs ! n \<noteq> i" using that tail(2) by auto
    have "costs (filter Q (take k (i # cs))) = (if b then mCost i else 0) + costs (filter P (take n cs))"
      using same [of "take n cs"] Suc \<open>Q i = b\<close> by (simp add: set_take_subset)
    then show ?thesis using P(2) n Suc by (simp add: Q_def diff_diff_eq)
  qed
  ultimately show ?case by blast
qed simp

section \<open>The manager\<close>

text \<open>
  The invariant: no two active clients conflict (so the keys differ), and every descriptor is in the list once. \<open>costs_ok\<close>: the costs that the
  cameras state are not negative.
\<close>

definition compatible :: "('k, 'v) client_descriptor list \<Rightarrow> bool" where
  "compatible cs \<longleftrightarrow> sorted_wrt (\<lambda>i j. \<not> conflicting i j) cs"

definition costs_ok :: "('k, 'v) client_descriptor list \<Rightarrow> bool" where
  "costs_ok cs \<longleftrightarrow> list_all (\<lambda>i. 0 \<le> mCost i) cs"

lemma compatible_simps [simp]:
  "compatible []" "compatible (i # cs) \<longleftrightarrow> list_all (\<lambda>j. \<not> conflicting i j) cs \<and> compatible cs"
  "compatible (cs @ [c]) \<longleftrightarrow> compatible cs \<and> list_all (\<lambda>j. \<not> conflicting c j) cs"
  by (auto simp: compatible_def sorted_wrt_append list_all_iff conflicting_sym)

lemma compatible_filter: "compatible cs \<Longrightarrow> compatible (filter P cs)"
  by (simp add: compatible_def sorted_wrt_filter)

lemma compatible_distinct_keys: "compatible cs \<Longrightarrow> distinct (map mKey cs)"
  by (induction cs) (auto simp: list_all_iff conflicting_def)

lemma compatible_distinct: "compatible cs \<Longrightarrow> distinct cs"
  by (drule compatible_distinct_keys) (simp add: distinct_map)

text \<open>The decision, with what it means for every active client.\<close>

definition accepted :: "('k, 'v) client_descriptor \<Rightarrow> ('k, 'v) client_manager \<Rightarrow> bool" where
  "accepted c m \<longleftrightarrow> (\<exists>t es. evictLoop (mMaxCost m) (highestPriorityOwner c (mClients m)) c (getCurrentCostLocked m + mCost c) [] (mClients m)
       = Some (t, es) \<and> (t \<le> mMaxCost m \<or> highestPriorityOwner c (mClients m) = mOwnerId c))"

lemma accepted_splits:
  assumes "accepted c m" "compatible (mClients m)" "costs_ok (mClients m)"
  obtains P where "evictedBy c m = filter P (mClients m)"
    "splits (mMaxCost m) (highestPriorityOwner c (mClients m)) c (costs (filter (\<lambda>i. \<not> P i) (mClients m)) + mCost c) P (mClients m)"
    "costs (filter (\<lambda>i. \<not> P i) (mClients m)) + mCost c \<le> mMaxCost m \<or> highestPriorityOwner c (mClients m) = mOwnerId c"
proof -
  let ?h = "highestPriorityOwner c (mClients m)"
  obtain t es where loop: "evictLoop (mMaxCost m) ?h c (getCurrentCostLocked m + mCost c) [] (mClients m) = Some (t, es)"
    and fits: "t \<le> mMaxCost m \<or> ?h = mOwnerId c" using assms(1) by (auto simp: accepted_def)
  obtain P where P: "es = [] @ filter P (mClients m)" "t = getCurrentCostLocked m + mCost c - costs (filter P (mClients m))"
    "splits (mMaxCost m) ?h c t P (mClients m)"
    using evictLoop_splits [OF loop compatible_distinct [OF assms(2)]] assms(3) by (auto simp: costs_ok_def list_all_iff)
  have t: "t = costs (filter (\<lambda>i. \<not> P i) (mClients m)) + mCost c"
    using P(2) costs_filter [of "mClients m" P] by (simp add: getCurrentCostLocked_def costs_def)
  have "evictedBy c m = filter P (mClients m)" using loop fits P(1) by (auto simp: evictedBy_def Let_def)
  then show ?thesis using that P(3) fits t by simp
qed

lemma accepted_loop:
  assumes "accepted c m"
  obtains t where "evictLoop (mMaxCost m) (highestPriorityOwner c (mClients m)) c (getCurrentCostLocked m + mCost c) [] (mClients m)
    = Some (t, evictedBy c m)"
  using assms unfolding accepted_def by (auto simp: evictedBy_def Let_def)

lemma not_accepted: "\<not> accepted c m \<Longrightarrow> evictedBy c m = [c]"
  by (auto simp: accepted_def evictedBy_def Let_def split: option.splits)

lemma removeEvicted_filter:
  assumes "distinct (map mKey cs)"
  shows "removeEvicted (filter P cs) cs = (if cs = [] \<or> P (last cs) then Some (filter (\<lambda>i. \<not> P i) cs) else None)"
  using assms
proof (induction cs)
  case (Cons i cs)
  show ?case
  proof (cases "P i")
    case True
    with Cons show ?thesis by (cases cs) auto
  next
    case False
    show ?thesis
    proof (cases "\<exists>e \<in> set cs. P e")
      case True
      then obtain e es where es: "filter P cs = e # es" by (cases "filter P cs") (auto simp: filter_empty_conv)
      then have "e \<in> set cs" by (metis filter_is_subset list.set_intros(1) subsetD)
      then have "mKey i \<noteq> mKey e" "cs \<noteq> []" using Cons.prems by auto
      then show ?thesis using es Cons.IH Cons.prems False by simp
    next
      case none: False
      then have "filter P cs = []" "\<not> P (last (i # cs))" using False by (auto simp: filter_empty_conv)
      then show ?thesis using False by simp
    qed
  qed
qed simp

text \<open>Adding a client.\<close>

lemma those_map_Some [simp]: "those (map Some xs) = Some xs"
  by (induction xs) auto

lemma wouldEvictLocked_Some [simp]: "wouldEvictLocked (Some c) False m = map Some (evictedBy c m)"
  by (simp add: wouldEvictLocked_def)

lemma notify_simps [simp]:
  "mClients (notify e m) = mClients m" "mMaxCost (notify e m) = mMaxCost m" "mListener (notify e m) = mListener m"
  by (simp_all add: notify_def)

lemma notifyAll_simps [simp]:
  "mClients (notifyAll es m) = mClients m" "mMaxCost (notifyAll es m) = mMaxCost m" "mListener (notifyAll es m) = mListener m"
  by (induction es arbitrary: m) simp_all

definition fresh :: "('k, 'v) client_descriptor \<Rightarrow> ('k, 'v) client_manager \<Rightarrow> bool" where
  "fresh c m \<longleftrightarrow> list_all (\<lambda>i. mAddress i \<noteq> mAddress c) (mClients m)"

lemma addAndEvict_rejected: "\<not> accepted c m \<Longrightarrow> addAndEvict (Some c) m = Some ([Some c], m)"
  by (simp add: addAndEvict_def not_accepted same_pointer_def)

lemma addAndEvict_accepted:
  assumes "evictedBy c m = filter P (mClients m)" "compatible (mClients m)" "fresh c m"
  shows "addAndEvict (Some c) m =
    (if filter P (mClients m) = [] \<or> P (last (mClients m)) then
       Some (map Some (filter P (mClients m)),
         (notify (ClientAdded c) (if filter P (mClients m) = [] then m else notify (ClientRemoved (hd (filter P (mClients m)))) m))
           \<lparr>mClients := filter (\<lambda>i. \<not> P i) (mClients m) @ [c]\<rparr>)
     else None)"
proof (cases "filter P (mClients m)")
  case Nil
  then have "filter (\<lambda>i. \<not> P i) (mClients m) = mClients m" by (simp add: filter_empty_conv)
  with Nil assms(1) show ?thesis by (simp add: addAndEvict_def)
next
  case (Cons e es)
  then have "e \<in> set (mClients m)" by (metis filter_is_subset list.set_intros(1) subsetD)
  then have e: "mAddress e \<noteq> mAddress c" "mClients m \<noteq> []" using assms(3) by (auto simp: fresh_def list_all_iff)
  have "removeEvicted (e # es) (mClients m) = (if P (last (mClients m)) then Some (filter (\<lambda>i. \<not> P i) (mClients m)) else None)"
    using removeEvicted_filter [OF compatible_distinct_keys [OF assms(2)], of P] Cons e(2) by simp
  moreover have "((notify (ClientAdded c) (notify (ClientRemoved e) m\<lparr>mClients := xs\<rparr>))\<lparr>mClients := ys\<rparr>)
      = (notify (ClientAdded c) (notify (ClientRemoved e) m))\<lparr>mClients := ys\<rparr>" for xs ys
    by (simp add: notify_def)
  ultimately show ?thesis using Cons assms(1) e(1) by (simp add: addAndEvict_def same_pointer_def)
qed

section \<open>The machine\<close>

text \<open>Any sequence of calls; a new descriptor has an address of its own and a cost that is not negative.\<close>

inductive cm_reach :: "('k, 'v) client_manager \<Rightarrow> bool" where
  start: "cm_reach (ClientManager totalCost)"
| add: "cm_reach m \<Longrightarrow> fresh c m \<Longrightarrow> 0 \<le> mCost c \<Longrightarrow> addAndEvict (Some c) m = Some (evicted, m') \<Longrightarrow> cm_reach m'"
| add_null: "cm_reach m \<Longrightarrow> addAndEvict None m = Some (evicted, m') \<Longrightarrow> cm_reach m'"
| update: "cm_reach m \<Longrightarrow> updatePriorities ps m = Some m' \<Longrightarrow> cm_reach m'"
| remove_by_key: "cm_reach m \<Longrightarrow> remove_key key m = (d, m') \<Longrightarrow> cm_reach m'"
| remove_by_pointer: "cm_reach m \<Longrightarrow> cm_reach (remove_pointer a m)"
| remove_all: "cm_reach m \<Longrightarrow> cm_reach (removeAll_clients m)"
| listen: "cm_reach m \<Longrightarrow> cm_reach (setListener b m)"

definition cm_ok :: "('k, 'v) client_manager \<Rightarrow> bool" where
  "cm_ok m \<longleftrightarrow> compatible (mClients m) \<and> costs_ok (mClients m)"

lemma costs_ok_simps [simp]: "costs_ok []" "costs_ok (cs @ [c]) \<longleftrightarrow> costs_ok cs \<and> 0 \<le> mCost c"
  by (auto simp: costs_ok_def)

lemma cm_ok_filter: "cm_ok m \<Longrightarrow> mClients m' = filter P (mClients m) \<Longrightarrow> cm_ok m'"
  by (auto simp: cm_ok_def costs_ok_def list_all_iff compatible_filter)

lemma cm_ok_add:
  assumes "cm_ok m" "fresh c m" "0 \<le> mCost c" "addAndEvict (Some c) m = Some (evicted, m')"
  shows "cm_ok m'"
proof (cases "accepted c m")
  case True
  have ok: "compatible (mClients m)" "costs_ok (mClients m)" using assms(1) by (auto simp: cm_ok_def)
  obtain P where P: "evictedBy c m = filter P (mClients m)"
    "splits (mMaxCost m) (highestPriorityOwner c (mClients m)) c (costs (filter (\<lambda>i. \<not> P i) (mClients m)) + mCost c) P (mClients m)"
    using accepted_splits [OF True ok] by blast
  have "mClients m' = filter (\<lambda>i. \<not> P i) (mClients m) @ [c]"
    using addAndEvict_accepted [OF P(1) ok(1) assms(2)] assms(4) by (auto split: if_splits)
  moreover have "list_all (\<lambda>j. \<not> conflicting c j) (filter (\<lambda>i. \<not> P i) (mClients m))"
    using P(2) by (auto simp: splits_def list_all_iff)
  ultimately show ?thesis using ok assms(3) by (simp add: cm_ok_def compatible_filter costs_ok_def list_all_iff)
next
  case False
  then show ?thesis using addAndEvict_rejected [OF False] assms(1,4) by simp
qed

lemma setPriority_keeps: "setPriority p d = Some d' \<Longrightarrow> mKey d' = mKey d \<and> mConflicting d' = mConflicting d \<and> mCost d' = mCost d
    \<and> mOwnerId d' = mOwnerId d \<and> mAddress d' = mAddress d \<and> mValue d' = mValue d"
  by (auto simp: setPriority_def Option.bind_eq_Some_conv split: if_splits)

definition same_device :: "('k, 'v) client_descriptor \<Rightarrow> ('k, 'v) client_descriptor \<Rightarrow> bool" where
  "same_device d d' \<longleftrightarrow> mKey d' = mKey d \<and> mConflicting d' = mConflicting d \<and> mCost d' = mCost d \<and> mOwnerId d' = mOwnerId d
     \<and> mAddress d' = mAddress d \<and> mValue d' = mValue d"

lemma updateEach_keeps: "updateEach ps cs = Some cs' \<Longrightarrow> list_all2 same_device cs cs'"
  by (induction cs arbitrary: cs')
    (auto simp: same_device_def Option.bind_eq_Some_conv dest!: setPriority_keeps split: option.splits)

lemma compatible_same: "list_all2 same_device cs cs' \<Longrightarrow> compatible cs = compatible cs' \<and> costs_ok cs = costs_ok cs'"
proof (induction rule: list_all2_induct)
  case (Cons d cs d' cs')
  have c: "conflicting d i = conflicting d' i'" if "same_device i i'" for i i'
    using that Cons(1) by (simp add: same_device_def conflicting_def isConflicting_def)
  have "list_all (\<lambda>j. \<not> conflicting d j) cs = list_all (\<lambda>j. \<not> conflicting d' j) cs'"
    using Cons(2) by (induction rule: list_all2_induct) (auto simp: c)
  with Cons show ?case by (simp add: costs_ok_def same_device_def)
qed simp

lemma cm_reach_ok: "cm_reach m \<Longrightarrow> cm_ok m"
proof (induction rule: cm_reach.induct)
  case (start totalCost)
  show ?case by (simp add: cm_ok_def ClientManager_def)
next
  case (add m c evicted m')
  then show ?case using cm_ok_add by blast
next
  case (update m ps m')
  then obtain cs where cs: "updateEach ps (mClients m) = Some cs" "m' = m\<lparr>mClients := cs\<rparr>"
    by (auto simp: updatePriorities_def Option.bind_eq_Some_conv)
  from compatible_same [OF updateEach_keeps [OF cs(1)]] show ?case using update.IH cs(2) by (simp add: cm_ok_def)
qed (auto simp: addAndEvict_def wouldEvictLocked_def same_pointer_def remove_key_def remove_pointer_def removeAll_clients_def setListener_def
    cm_ok_def Let_def costs_ok_def list_all_iff compatible_filter)

section \<open>Acceptance\<close>

text \<open>The clients of higher priority, those that conflict left aside.\<close>

definition senior :: "('k, 'v) client_descriptor \<Rightarrow> ('k, 'v) client_descriptor list \<Rightarrow> ('k, 'v) client_descriptor list" where
  "senior c cs = filter (\<lambda>i. prio_less (mPriority i) (mPriority c) \<and> \<not> conflicting c i) cs"

lemma costs_mono:
  assumes "\<forall>i \<in> set cs. 0 \<le> mCost i" "\<forall>i \<in> set cs. Q i \<longrightarrow> R i"
  shows "costs (filter Q cs) \<le> costs (filter R cs)"
  using assms by (induction cs) auto

lemma costs_same:
  assumes "\<forall>i \<in> set cs. Q i \<longrightarrow> R i" "\<forall>i \<in> set cs. R i \<longrightarrow> Q i \<or> mCost i = 0"
  shows "costs (filter Q cs) = costs (filter R cs)"
  using assms by (induction cs) auto

lemma accepted_iff:
  assumes "compatible (mClients m)" "costs_ok (mClients m)"
  shows "accepted c m \<longleftrightarrow> (\<forall>i \<in> set (mClients m). \<not> blocks c i) \<and>
    (highestPriorityOwner c (mClients m) = mOwnerId c \<or> costs (senior c (mClients m)) + mCost c \<le> mMaxCost m)"
proof -
  let ?h = "highestPriorityOwner c (mClients m)" and ?cs = "mClients m"
  let ?loop = "evictLoop (mMaxCost m) ?h c (getCurrentCostLocked m + mCost c) [] ?cs"
  show ?thesis
  proof (cases ?loop)
    case None
    then show ?thesis using evictLoop_None [of "mMaxCost m" ?h c "getCurrentCostLocked m + mCost c" "[]" ?cs] by (auto simp: accepted_def)
  next
    case (Some r)
    obtain t es where r: "r = (t, es)" by (cases r)
    have unblocked: "\<forall>i \<in> set ?cs. \<not> blocks c i"
      using Some evictLoop_None [of "mMaxCost m" ?h c "getCurrentCostLocked m + mCost c" "[]" ?cs] by auto
    have pos: "\<forall>i \<in> set ?cs. 0 \<le> mCost i" using assms(2) by (simp add: costs_ok_def list_all_iff)
    obtain P where P: "t = getCurrentCostLocked m + mCost c - costs (filter P ?cs)" "splits (mMaxCost m) ?h c t P ?cs"
      using evictLoop_splits [of "mMaxCost m" ?h c "getCurrentCostLocked m + mCost c" "[]" ?cs t es]
        compatible_distinct [OF assms(1)] pos Some r by auto
    have t: "t = costs (filter (\<lambda>i. \<not> P i) ?cs) + mCost c"
      using P(1) costs_filter [of ?cs P] by (simp add: getCurrentCostLocked_def costs_def)
    have keeps: "\<not> P i" if "i \<in> set ?cs" "prio_less (mPriority i) (mPriority c)" "\<not> conflicting c i" for i
      using P(2) that by (auto simp: splits_def evictable_def prio_ge_iff conflicting_def split: if_splits)
    then have low: "costs (senior c ?cs) + mCost c \<le> t" unfolding t senior_def using costs_mono [OF pos] by auto
    have high: "t = costs (senior c ?cs) + mCost c" if "t > mMaxCost m" "?h \<noteq> mOwnerId c"
      unfolding t senior_def
      using costs_same [of ?cs "\<lambda>i. prio_less (mPriority i) (mPriority c) \<and> \<not> conflicting c i" "\<lambda>i. \<not> P i"] keeps P(2) that pos
      by (fastforce simp: splits_def untouchable_def split: if_splits)
    have "(t \<le> mMaxCost m \<or> ?h = mOwnerId c) \<longleftrightarrow> (?h = mOwnerId c \<or> costs (senior c ?cs) + mCost c \<le> mMaxCost m)"
      using low high by (metis linorder_not_less order_trans)
    then show ?thesis using Some r unblocked by (simp add: accepted_def)
  qed
qed

text \<open>Once the evicted clients are gone the same client evicts nobody.\<close>

lemma evictLoop_none:
  assumes "\<forall>i \<in> set cs. \<not> conflicting c i \<and> (t > mx \<longrightarrow> untouchable h c i)"
  shows "evictLoop mx h c t acc cs = Some (t, acc)"
  using assms by (induction cs) (auto simp: untouchable_def prio_ge_iff)

lemma second_attempt:
  assumes "accepted c m" "compatible (mClients m)" "costs_ok (mClients m)"
    and own: "\<forall>i \<in> set (mClients m). mOwnerId i = mOwnerId c \<longrightarrow> prio_eq (mPriority i) (mPriority c)"
    and P: "evictedBy c m = filter P (mClients m)"
      "splits (mMaxCost m) (highestPriorityOwner c (mClients m)) c (costs (filter (\<lambda>i. \<not> P i) (mClients m)) + mCost c) P (mClients m)"
      "costs (filter (\<lambda>i. \<not> P i) (mClients m)) + mCost c \<le> mMaxCost m \<or> highestPriorityOwner c (mClients m) = mOwnerId c"
    and rest: "mMaxCost m' = mMaxCost m" "mClients m' = filter (\<lambda>i. \<not> P i) (mClients m)"
  shows "evictedBy c m' = []"
proof -
  let ?h = "highestPriorityOwner c (mClients m)" and ?h' = "highestPriorityOwner c (mClients m')"
  let ?t = "costs (filter (\<lambda>i. \<not> P i) (mClients m)) + mCost c"
  have t: "getCurrentCostLocked m' + mCost c = ?t" by (simp add: getCurrentCostLocked_def costs_def rest)
  have top: "?h' = mOwnerId c" if "?t > mMaxCost m"
  proof (rule highestPriorityOwner_top, rule ballI)
    fix i assume "i \<in> set (mClients m')"
    then have "i \<in> set (mClients m)" by (simp add: rest)
    then show "\<not> prio_less (mPriority i) (mPriority c)"
      using highestPriorityOwner_own [of c "mClients m" i] P(3) that own by (auto simp: prio_eq_iff)
  qed
  have "\<not> conflicting c i \<and> (?t > mMaxCost m \<longrightarrow> untouchable ?h' c i)" if "i \<in> set (mClients m')" for i
  proof -
    have "i \<in> set (mClients m)" "\<not> P i" using that by (auto simp: rest)
    then have "\<not> conflicting c i" "?t > mMaxCost m \<longrightarrow> untouchable ?h c i" using P(2) by (auto simp: splits_def split: if_splits)
    then show ?thesis using top P(3) by (auto simp: untouchable_def)
  qed
  then have "evictLoop (mMaxCost m) ?h' c ?t [] (mClients m') = Some (?t, [])" by (intro evictLoop_none) blast
  then show ?thesis using top by (auto simp: evictedBy_def Let_def t rest(1))
qed

text \<open>A client that only conflicts with its owner's own client of the same camera evicts that one.\<close>

lemma evicts_same_camera:
  assumes ok: "compatible (mClients m)" "costs_ok (mClients m)" "fresh c m"
    and old: "old \<in> set (mClients m)" "mKey old = mKey c" "mOwnerId old = mOwnerId c"
    and only: "\<And>i. i \<in> set (mClients m) \<Longrightarrow> conflicting c i \<Longrightarrow> i = old"
    and cheap: "getCurrentCostLocked m + mCost c \<le> mMaxCost m"
  shows "addAndEvict (Some c) m = None \<or> (\<exists>es m'. es \<noteq> [] \<and> addAndEvict (Some c) m = Some (es, m'))"
proof -
  have "accepted c m"
    unfolding accepted_iff [OF ok(1,2)]
  proof (intro conjI ballI disjI2)
    show "\<not> blocks c i" if "i \<in> set (mClients m)" for i using only [OF that] old by (auto simp: blocks_def)
    have "costs (senior c (mClients m)) \<le> costs (filter (\<lambda>_. True) (mClients m))"
      unfolding senior_def using ok(2) by (intro costs_mono) (auto simp: costs_ok_def list_all_iff)
    then show "costs (senior c (mClients m)) + mCost c \<le> mMaxCost m" using cheap by (simp add: getCurrentCostLocked_def costs_def)
  qed
  then obtain P where P: "evictedBy c m = filter P (mClients m)"
    "splits (mMaxCost m) (highestPriorityOwner c (mClients m)) c (costs (filter (\<lambda>i. \<not> P i) (mClients m)) + mCost c) P (mClients m)"
    using accepted_splits [OF _ ok(1,2)] by blast
  have "conflicting c old" using old(2) by (simp add: conflicting_def)
  then have "P old" using P(2) old(1) by (auto simp: splits_def split: if_splits)
  then have "filter P (mClients m) \<noteq> []" using old(1) by (auto simp: filter_empty_conv)
  then show ?thesis using addAndEvict_accepted [OF P(1) ok(1,3)] by auto
qed

section \<open>The interface\<close>

text \<open>
  What the camera service relies on: a client that is added without evictions comes last, removal by pointer removes one client, and both keep the
  clients compatible.
\<close>

locale active_clients =
  fixes ok :: "'m \<Rightarrow> bool" and clients_of :: "'m \<Rightarrow> 'd list" and address :: "'d \<Rightarrow> nat" and admissible :: "'d \<Rightarrow> bool"
    and add :: "'d \<Rightarrow> 'm \<Rightarrow> ('d option list \<times> 'm) option" and remove :: "nat \<Rightarrow> 'm \<Rightarrow> 'm"
  assumes add_clients: "ok m \<Longrightarrow> address c \<notin> address ` set (clients_of m) \<Longrightarrow> add c m = Some ([], m') \<Longrightarrow> clients_of m' = clients_of m @ [c]"
    and add_ok: "ok m \<Longrightarrow> address c \<notin> address ` set (clients_of m) \<Longrightarrow> admissible c \<Longrightarrow> add c m = Some (es, m') \<Longrightarrow> ok m'"
    and remove_clients: "clients_of (remove a m) = filter (\<lambda>i. address i \<noteq> a) (clients_of m)"
    and remove_ok: "ok m \<Longrightarrow> ok (remove a m)"
begin

lemma add_remove:
  assumes "ok m" "address c \<notin> address ` set (clients_of m)" "add c m = Some ([], m')"
  shows "clients_of (remove (address c) m') = clients_of m"
proof -
  have "filter (\<lambda>i. address i \<noteq> address c) (clients_of m) = clients_of m"
    unfolding filter_id_conv using assms(2) by (metis imageI)
  then show ?thesis unfolding remove_clients add_clients [OF assms] by simp
qed

lemma remove_several: "clients_of (fold remove as m) = filter (\<lambda>i. address i \<notin> set as) (clients_of m)"
  by (induction as arbitrary: m) (auto simp: remove_clients intro: filter_cong)

lemma remove_several_ok: "ok m \<Longrightarrow> ok (fold remove as m)"
  by (induction as arbitrary: m) (auto simp: remove_ok)

lemma remove_matching:
  assumes "distinct (map address (clients_of m))"
  shows "clients_of (fold remove (map address (filter P (clients_of m))) m) = filter (\<lambda>i. \<not> P i) (clients_of m)"
  unfolding remove_several by (rule filter_cong) (use assms in \<open>auto simp: distinct_map inj_on_def\<close>)

end

lemma fresh_iff: "fresh c m \<longleftrightarrow> mAddress c \<notin> mAddress ` set (mClients m)"
  unfolding fresh_def list_all_iff by (metis imageE imageI)

lemma addAndEvict_alone:
  assumes "fresh c m" "addAndEvict (Some c) m = Some ([], m')"
  shows "mClients m' = mClients m @ [c]"
  using assms by (auto simp: addAndEvict_def Let_def Option.bind_eq_Some_conv split: if_splits)

interpretation am: active_clients cm_ok mClients mAddress "\<lambda>c. 0 \<le> mCost c" "\<lambda>c. addAndEvict (Some c)" remove_pointer
proof
  show "cm_ok (remove_pointer a m)" if "cm_ok m" for a and m :: "('a, 'b) client_manager"
    by (rule cm_ok_filter [OF that, of _ "\<lambda>i. mAddress i \<noteq> a"]) (simp add: remove_pointer_def)
qed (auto simp: remove_pointer_def simp flip: fresh_iff dest: addAndEvict_alone cm_ok_add)

section \<open>Properties\<close>

text \<open>
  C23: No two active clients of the camera service conflict. After any calls of the client manager, in any order, two different active clients hold
  different cameras, and neither camera is among the conflicting devices of the other; no call adds a client without removing the ones in its way.
\<close>
theorem active_clients_compatible:
  assumes "cm_reach m" "i < length (mClients m)" "j < length (mClients m)" "i \<noteq> j"
  shows "mKey (mClients m ! i) \<noteq> mKey (mClients m ! j) \<and> \<not> isConflicting (mClients m ! i) (mKey (mClients m ! j))"
proof -
  have s: "sorted_wrt (\<lambda>i j. \<not> conflicting i j) (mClients m)" using cm_reach_ok [OF assms(1)] by (simp add: cm_ok_def compatible_def)
  have "\<not> conflicting (mClients m ! i) (mClients m ! j)"
  proof (cases "i < j")
    case True
    with s assms(3) show ?thesis by (simp add: sorted_wrt_iff_nth_less)
  next
    case False
    then have "\<not> conflicting (mClients m ! j) (mClients m ! i)" using s assms(2,4) by (simp add: sorted_wrt_iff_nth_less)
    then show ?thesis using conflicting_sym by blast
  qed
  then show ?thesis by (auto simp: conflicting_def)
qed

text \<open>A client of camera \<open>k\<close> with a cost, a score and an owner.\<close>

definition example_client :: "nat \<Rightarrow> int \<Rightarrow> nat list \<Rightarrow> int \<Rightarrow> int \<Rightarrow> (nat, unit) client_descriptor" where
  "example_client k cost conflicts score owner = \<lparr>mAddress = k, mKey = k, mValue = (), mCost = cost, mConflicting = conflicts,
     mPriority = \<lparr>mScore = score, mState = 0, mIsVendorClient = False, mScoreOffset = 0\<rparr>, mOwnerId = owner\<rparr>"

definition example_manager :: "(nat, unit) client_manager" where
  "example_manager = \<lparr>mMaxCost = 100, mClients = [example_client 1 60 [] 500 10, example_client 2 30 [] 100 11], mListener = False, mEvents = []\<rparr>"

lemma example_manager_reach: "cm_reach example_manager"
proof -
  define m1 where "m1 = (ClientManager 100 :: (nat, unit) client_manager)\<lparr>mClients := [example_client 1 60 [] 500 10]\<rparr>"
  have "addAndEvict (Some (example_client 1 60 [] 500 10)) (ClientManager 100) = Some ([], m1)"
    unfolding m1_def by code_simp
  moreover have "fresh (example_client 1 60 [] 500 10) (ClientManager 100)" "0 \<le> mCost (example_client 1 60 [] 500 10)" by code_simp+
  ultimately have m1: "cm_reach m1" using cm_reach.add [OF cm_reach.start] by blast
  have "addAndEvict (Some (example_client 2 30 [] 100 11)) m1 = Some ([], example_manager)" unfolding m1_def by code_simp
  moreover have "fresh (example_client 2 30 [] 100 11) m1" "0 \<le> mCost (example_client 2 30 [] 100 11)" unfolding m1_def by code_simp+
  ultimately show ?thesis using cm_reach.add [OF m1] by blast
qed

theorem active_clients_compatible_witness:
  "cm_reach example_manager \<and> \<not> isConflicting (mClients example_manager ! 0) (mKey (mClients example_manager ! 1))"
  using active_clients_compatible [of example_manager 0 1] example_manager_reach by (simp add: example_manager_def)



text \<open>
  C27: What adding a client does, undefined behaviour included. A refused client leaves everything as it was. An accepted one is appended to the
  clients that stay. But the evicted clients are removed by an iterator that is read for every client: as soon as a client stays that was added
  after the last evicted one, the vector is read past its end. And of several evicted clients only the first is reported to the listener.
\<close>
theorem addAndEvict_exact:
  assumes "cm_reach m" "fresh c m" "mListener m"
  shows "addAndEvict (Some c) m =
    (let es = evictedBy c m in
     if es = [c] then Some ([Some c], m)
     else if es \<noteq> [] \<and> last (mClients m) \<notin> set es then None
     else Some (map Some es, m\<lparr>mClients := filter (\<lambda>i. i \<notin> set es) (mClients m) @ [c],
                 mEvents := mEvents m @ (if es = [] then [] else [ClientRemoved (hd es)]) @ [ClientAdded c]\<rparr>))"
proof (cases "accepted c m")
  case False
  then show ?thesis using not_accepted [OF False] addAndEvict_rejected [OF False] by (simp add: Let_def)
next
  case True
  have ok: "compatible (mClients m)" "costs_ok (mClients m)" using cm_reach_ok [OF assms(1)] by (auto simp: cm_ok_def)
  obtain P where P: "evictedBy c m = filter P (mClients m)" using accepted_splits [OF True ok] by blast
  have "c \<notin> set (mClients m)" using assms(2) by (auto simp: fresh_def list_all_iff)
  then have "filter P (mClients m) \<noteq> [c]" by (metis filter_is_subset list.set_intros(1) subsetD)
  moreover have "filter P (mClients m) \<noteq> [] \<and> last (mClients m) \<notin> set (filter P (mClients m)) \<longleftrightarrow>
      \<not> (filter P (mClients m) = [] \<or> P (last (mClients m)))" by (cases "mClients m") auto
  moreover have "filter (\<lambda>i. i \<notin> set (filter P (mClients m))) (mClients m) = filter (\<lambda>i. \<not> P i) (mClients m)"
    by (rule filter_cong) auto
  ultimately show ?thesis
    unfolding addAndEvict_accepted [OF P ok(1) assms(2)] P Let_def using assms(3) by (simp add: notify_def)
qed

theorem addAndEvict_exact_witness:
  "addAndEvict (Some (example_client 3 50 [] 400 12)) (setListener True example_manager) = None"
proof -
  have "cm_reach (setListener True example_manager)" by (rule cm_reach.listen [OF example_manager_reach])
  moreover have "fresh (example_client 3 50 [] 400 12) (setListener True example_manager)" "mListener (setListener True example_manager)"
    by code_simp+
  moreover have "evictedBy (example_client 3 50 [] 400 12) (setListener True example_manager) = [example_client 1 60 [] 500 10]"
    "last (mClients (setListener True example_manager)) \<notin> set [example_client 1 60 [] 500 10]"
    "example_client 1 60 [] 500 10 \<noteq> example_client 3 50 [] 400 12" by code_simp+
  ultimately show ?thesis using addAndEvict_exact [of "setListener True example_manager" "example_client 3 50 [] 400 12"] by (simp add: Let_def)
qed

end
