(* ===== verification/Camera_Connect.thy ===== *)
theory Camera_Connect
  imports Camera_Clients
begin

unbundle bit_operations_syntax

text \<open>
  The part of \<^verbatim>\<open>CameraService.cpp\<close> that decides who gets a camera and keeps the list of active clients: the evictions before a connection,
  its end, offline clients, disconnection, the death of a client's process and the switch of users.

  A \<^verbatim>\<open>BasicClient\<close> is an object with an address; \<open>bc_objects\<close> is the store of them. The null pointer is \<open>None\<close>. The record \<open>camera_env\<close> holds what
  the platform answers during a call. \<^verbatim>\<open>LOG_ALWAYS_FATAL\<close> and the use of a null pointer are \<open>None\<close>, as other undefined behaviour.
  \<open>serviceLocked\<close> tells whether the calling thread holds \<^verbatim>\<open>mServiceLock\<close>. Messages to the log, the application operations and the flashlight are left out.
\<close>

section \<open>State\<close>

datatype status_internal = NOT_PRESENT | PRESENT | ENUMERATING | NOT_AVAILABLE | UNKNOWN

record camera_state =
  mStatus :: status_internal
  mStateCost :: int
  mStateConflicting :: "string list"

record basic_client =
  mRemoteBinder :: "nat option"
  mClientUid :: int
  mIsApi1 :: bool
  mClientAudioRestriction :: u32
  mDisconnected :: bool

type_synonym camera_descriptor = "(string, nat option) client_descriptor"

datatype camera_call =
  NotifyError nat
| SetCameraAudioRestriction u32
| LinkToDeath nat
| UnlinkToDeath nat

record camera_service =
  mActiveClientManager :: "(string, nat option) client_manager"
  mCameraStates :: "string \<Rightarrow> camera_state option"
  mAllowedUsers :: "int list"
  mAudioRestriction :: u32
  bc_objects :: "nat \<Rightarrow> basic_client"
  nextAddress :: nat
  serviceLocked :: bool
  cs_calls :: "camera_call list"

record camera_env =
  processInfoAvailable :: bool
  automotivePrivileged :: bool
  boundTopState :: int
  persistentUiState :: int
  queryScores :: "int list \<Rightarrow> int + (int \<times> int) list"
  userOf :: "int \<Rightarrow> int"
  disconnectWakes :: "nat \<Rightarrow> (int \<times> (string, nat option) client_manager) list"
  usableAfter :: "camera_service \<Rightarrow> camera_service"

definition BAD_VALUE :: int where "BAD_VALUE = - 22"

definition EBUSY :: int where "EBUSY = 16"

definition EUSERS :: int where "EUSERS = 87"

definition ENODEV :: int where "ENODEV = 19"

definition TIMED_OUT :: int where "TIMED_OUT = - 110"

definition kOfflineDevice :: string where "kOfflineDevice = ''offline-''"

abbreviation log_call :: "camera_call \<Rightarrow> camera_service \<Rightarrow> camera_service" where
  "log_call c s \<equiv> s\<lparr>cs_calls := cs_calls s @ [c]\<rparr>"

abbreviation on_manager ::
  "((string, nat option) client_manager \<Rightarrow> (string, nat option) client_manager) \<Rightarrow> camera_service \<Rightarrow> camera_service" where
  "on_manager f s \<equiv> s\<lparr>mActiveClientManager := f (mActiveClientManager s)\<rparr>"

section \<open>Camera states\<close>

definition getCameraState :: "string \<Rightarrow> camera_service \<Rightarrow> camera_state option" where
  "getCameraState cameraId s = mCameraStates s cameraId"

text \<open>The new status, and whether the listeners are told.\<close>

definition updateStatus :: "status_internal \<Rightarrow> status_internal list \<Rightarrow> camera_state \<Rightarrow> bool \<times> camera_state" where
  "updateStatus status rejectSourceStates st =
     (let oldStatus = mStatus st in
      if oldStatus = status then (False, st\<lparr>mStatus := status\<rparr>)
      else if oldStatus = NOT_PRESENT \<and> status \<noteq> PRESENT \<and> status \<noteq> ENUMERATING then (False, st\<lparr>mStatus := oldStatus\<rparr>)
      else if oldStatus \<in> set rejectSourceStates then (False, st\<lparr>mStatus := oldStatus\<rparr>)
      else (True, st\<lparr>mStatus := status\<rparr>))"

definition checkIfDeviceIsUsable :: "string \<Rightarrow> camera_service \<Rightarrow> int" where
  "checkIfDeviceIsUsable cameraId s =
     (case getCameraState cameraId s of
        None \<Rightarrow> - ENODEV
      | Some st \<Rightarrow>
          if mStatus st = NOT_PRESENT then - ENODEV else if mStatus st = ENUMERATING then - EBUSY else 0)"

section \<open>Descriptors and listeners\<close>

definition kSystemNativeClientScore :: int where
  "kSystemNativeClientScore = PERCEPTIBLE_APP_ADJ"

definition makeClientDescriptor ::
  "camera_env \<Rightarrow> string \<Rightarrow> nat option \<Rightarrow> int \<Rightarrow> string list \<Rightarrow> int \<Rightarrow> int \<Rightarrow> int \<Rightarrow> int \<Rightarrow> bool \<Rightarrow> camera_service
   \<Rightarrow> (camera_descriptor \<times> camera_service) ub" where
  "makeClientDescriptor e key value cost conflictingKeys score ownerId state oomScoreOffset systemNativeClient s = do {
     let score_adj = (if systemNativeClient then kSystemNativeClientScore else score);
     let state_adj = (if systemNativeClient then persistentUiState e else state);
     d \<leftarrow> ClientDescriptor (nextAddress s) key value cost conflictingKeys score_adj ownerId state_adj systemNativeClient oomScoreOffset;
     Some (d, s\<lparr>nextAddress := Suc (nextAddress s)\<rparr>)
   }"

definition makeClientDescriptorFrom ::
  "camera_env \<Rightarrow> nat option \<Rightarrow> camera_descriptor \<Rightarrow> int \<Rightarrow> bool \<Rightarrow> camera_service \<Rightarrow> (camera_descriptor \<times> camera_service) ub" where
  "makeClientDescriptorFrom e value partial oomScoreOffset systemNativeClient s =
     makeClientDescriptor e (mKey partial) value (mCost partial) (mConflicting partial) (mScore (mPriority partial)) (mOwnerId partial)
       (mState (mPriority partial)) oomScoreOffset systemNativeClient s"

text \<open>What the battery notifier is told of an event of the client list.\<close>

datatype battery_call = noteStartCamera string int | noteStopCamera string int

definition onClientEvent :: "(nat \<Rightarrow> basic_client) \<Rightarrow> (string, nat option) client_event \<Rightarrow> battery_call option" where
  "onClientEvent objects ev =
     (case ev of
        ClientAdded d \<Rightarrow> map_option (\<lambda>b. noteStartCamera (mKey d) (mClientUid (objects b))) (mValue d)
      | ClientRemoved d \<Rightarrow> map_option (\<lambda>b. noteStopCamera (mKey d) (mClientUid (objects b))) (mValue d))"

definition CameraClientManager :: "(string, nat option) client_manager" where
  "CameraClientManager = setListener True (ClientManager DEFAULT_MAX_COST)"

definition getCameraClient :: "string \<Rightarrow> camera_service \<Rightarrow> nat option" where
  "getCameraClient cameraId s = (case get cameraId (mActiveClientManager s) of None \<Rightarrow> None | Some d \<Rightarrow> mValue d)"

section \<open>Disconnection\<close>

fun restrictionOf :: "(nat \<Rightarrow> basic_client) \<Rightarrow> camera_descriptor list \<Rightarrow> u32 ub" where
  "restrictionOf objects [] = Some 0"
| "restrictionOf objects (i # rest) = do {
     b \<leftarrow> mValue i;
     mode \<leftarrow> restrictionOf objects rest;
     Some (mClientAudioRestriction (objects b) OR mode)
   }"

definition updateAudioRestrictionLocked :: "camera_service \<Rightarrow> camera_service ub" where
  "updateAudioRestrictionLocked s = do {
     mode \<leftarrow> restrictionOf (bc_objects s) (getAll (mActiveClientManager s));
     let changed = (mAudioRestriction s \<noteq> mode);
     let s = s\<lparr>mAudioRestriction := mode\<rparr>;
     Some (if changed then log_call (SetCameraAudioRestriction mode) s else s)
   }"

fun removeMatching :: "nat \<Rightarrow> camera_descriptor list \<Rightarrow> camera_service \<Rightarrow> camera_service" where
  "removeMatching client [] s = s"
| "removeMatching client (i # rest) s =
     removeMatching client rest (if mValue i = Some client then on_manager (remove_pointer (mAddress i)) s else s)"

definition removeByClient :: "nat \<Rightarrow> camera_service \<Rightarrow> camera_service ub" where
  "removeByClient client s = updateAudioRestrictionLocked (removeMatching client (getAll (mActiveClientManager s)) s)"

definition disconnect :: "nat \<Rightarrow> camera_service \<Rightarrow> camera_service ub" where
  "disconnect client s =
     (if mDisconnected (bc_objects s client) then Some s
      else do {
        let s = s\<lparr>bc_objects := (bc_objects s)(client := (bc_objects s client)\<lparr>mDisconnected := True\<rparr>)\<rparr>;
        s \<leftarrow> removeByClient client s;
        Some (if mRemoteBinder (bc_objects s client) \<noteq> None then log_call (UnlinkToDeath client) s else s)
      })"

definition removeClientLocked :: "string \<Rightarrow> camera_service \<Rightarrow> nat option \<times> camera_service" where
  "removeClientLocked cameraId s =
     (let (d, m) = remove_key cameraId (mActiveClientManager s); s = s\<lparr>mActiveClientManager := m\<rparr>
      in (case d of None \<Rightarrow> (None, s) | Some d \<Rightarrow> (mValue d, s)))"

definition disconnectClient :: "nat option \<Rightarrow> camera_service \<Rightarrow> camera_service ub" where
  "disconnectClient clientToDisconnect s =
     (case clientToDisconnect of None \<Rightarrow> Some s | Some b \<Rightarrow> disconnect b (log_call (NotifyError b) s))"

text \<open>Both lists are copies, so clients can be removed on the way.\<close>

fun evictRemote :: "nat \<Rightarrow> camera_descriptor list \<Rightarrow> nat list \<Rightarrow> camera_service \<Rightarrow> nat list \<times> camera_service" where
  "evictRemote remote [] evicted s = (evicted, s)"
| "evictRemote remote (i # rest) evicted s =
     (case mValue i of
        None \<Rightarrow> evictRemote remote rest evicted (on_manager (remove_pointer (mAddress i)) s)
      | Some b \<Rightarrow>
          if mRemoteBinder (bc_objects s b) = Some remote
          then evictRemote remote rest (evicted @ [b]) (log_call (NotifyError b) (on_manager (remove_pointer (mAddress i)) s))
          else evictRemote remote rest evicted s)"

definition evictClientIdByRemote :: "nat \<Rightarrow> camera_service \<Rightarrow> (bool \<times> camera_service) ub" where
  "evictClientIdByRemote remote s = do {
     let (evicted, s) = evictRemote remote (getAll (mActiveClientManager s)) [] s;
     s \<leftarrow> foldM disconnect evicted (s\<lparr>serviceLocked := False\<rparr>);
     Some (evicted \<noteq> [], s\<lparr>serviceLocked := True\<rparr>)
   }"

definition notAllowed :: "camera_env \<Rightarrow> int list \<Rightarrow> camera_service \<Rightarrow> nat list" where
  "notAllowed e users s =
     concat (map (\<lambda>i. case mValue i of
         None \<Rightarrow> []
       | Some b \<Rightarrow> if userOf e (mClientUid (bc_objects s b)) \<in> set users then [] else [b]) (getAll (mActiveClientManager s)))"

definition doUserSwitch :: "camera_env \<Rightarrow> int list \<Rightarrow> camera_service \<Rightarrow> camera_service ub" where
  "doUserSwitch e newUserIds s =
     (if list_ex (\<lambda>u. u < 0) newUserIds then Some s
      else
        let newAllowedUsers = sort (remdups newUserIds) in
        if newAllowedUsers = mAllowedUsers s then Some s
        else
          let s = s\<lparr>mAllowedUsers := newAllowedUsers\<rparr>
          in map_option (serviceLocked_update (\<lambda>_. True))
               (foldM disconnect (notAllowed e newAllowedUsers s) (s\<lparr>serviceLocked := False\<rparr>)))"

section \<open>Connection\<close>

text \<open>The priorities of the owners, from the states and scores in the order of the pids.\<close>

fun pidToPriority :: "int list \<Rightarrow> (int \<times> int) list \<Rightarrow> (int \<Rightarrow> client_priority option) ub" where
  "pidToPriority (pid # pids) ((state, score) # answers) = do {
     p \<leftarrow> ClientPriority score state False 0;
     ps \<leftarrow> pidToPriority pids answers;
     Some (ps(pid \<mapsto> p))
   }"
| "pidToPriority _ _ = Some Map.empty"

text \<open>The descriptor of the incoming client, without its object yet; \<open>Inl\<close> is an error.\<close>

definition queryPriorities ::
  "camera_env \<Rightarrow> string \<Rightarrow> int \<Rightarrow> int \<Rightarrow> bool \<Rightarrow> camera_state \<Rightarrow> camera_service \<Rightarrow> ((int + camera_descriptor) \<times> camera_service) ub" where
  "queryPriorities e cameraId clientPid oomScoreOffset systemNativeClient st s =
     (if \<not> processInfoAvailable e \<and> automotivePrivileged e then do {
        (d, s) \<leftarrow> makeClientDescriptor e cameraId None (mStateCost st) (mStateConflicting st) NATIVE_ADJ clientPid (boundTopState e)
          oomScoreOffset systemNativeClient s;
        Some (Inr d, s)
      } else
        let owners = getAllOwners (mActiveClientManager s); ownerPids = owners @ [clientPid] in
        (case queryScores e ownerPids of
           Inl err \<Rightarrow> Some (Inl err, s)
         | Inr answers \<Rightarrow> do {
             priorities \<leftarrow> pidToPriority owners answers;
             m \<leftarrow> updatePriorities priorities (mActiveClientManager s);
             let s = s\<lparr>mActiveClientManager := m\<rparr>;
             let (actualState, actualScore) = last answers;
             (d, s) \<leftarrow> makeClientDescriptor e cameraId None (mStateCost st) (mStateConflicting st) actualScore clientPid actualState
               oomScoreOffset systemNativeClient s;
             Some (Inr d, s)
           }))"

datatype evict_outcome =
  SameClient nat
| Partial camera_descriptor
| ConnectError int
| NotReturned

text \<open>Telling the evicted clients; a client without an object is a fatal error.\<close>

fun notifyEvicted :: "camera_descriptor list \<Rightarrow> camera_service \<Rightarrow> camera_service ub" where
  "notifyEvicted [] s = Some s"
| "notifyEvicted (i # rest) s = do {
     b \<leftarrow> mValue i;
     notifyEvicted rest (log_call (NotifyError b) s)
   }"

definition disconnectEvicted :: "camera_descriptor list \<Rightarrow> camera_service \<Rightarrow> camera_service ub" where
  "disconnectEvicted evicted s = foldM (\<lambda>i s. do { b \<leftarrow> mValue i; disconnect b s }) evicted s"

text \<open>Waiting for the clients to go; \<open>Inl NotReturned\<close> while one of them stays.\<close>

fun waitForEvicted :: "camera_env \<Rightarrow> camera_descriptor list \<Rightarrow> camera_service \<Rightarrow> (evict_outcome + unit) \<times> camera_service" where
  "waitForEvicted e [] s = (Inr (), s)"
| "waitForEvicted e (i # rest) s =
     (case waitUntilRemoved (mAddress i) (disconnectWakes e (mAddress i)) (mActiveClientManager s) of
        None \<Rightarrow> (Inl NotReturned, s)
      | Some (ret, m) \<Rightarrow>
          let s = s\<lparr>mActiveClientManager := m\<rparr> in
          if ret = TIMED_OUT then (Inl (ConnectError (- EBUSY)), s)
          else if ret \<noteq> 0 then (Inl (ConnectError ret), s)
          else waitForEvicted e rest s)"

text \<open>An API 1 client that connects again from the same binder gets its client back.\<close>

definition existingClient :: "string \<Rightarrow> bool \<Rightarrow> nat option \<Rightarrow> camera_service \<Rightarrow> nat option" where
  "existingClient cameraId api1 remoteCallback s =
     (if api1 then
        (case get cameraId (mActiveClientManager s) of
           None \<Rightarrow> None
         | Some current \<Rightarrow>
             (case mValue current of
                None \<Rightarrow> None
              | Some b \<Rightarrow> if mIsApi1 (bc_objects s b) \<and> mRemoteBinder (bc_objects s b) = remoteCallback then Some b else None))
      else None)"

definition handleEvictionsLocked ::
  "camera_env \<Rightarrow> string \<Rightarrow> int \<Rightarrow> bool \<Rightarrow> nat option \<Rightarrow> int \<Rightarrow> bool \<Rightarrow> camera_service \<Rightarrow> (evict_outcome \<times> camera_service) ub" where
  "handleEvictionsLocked e cameraId clientPid api1 remoteCallback oomScoreOffset systemNativeClient s =
     (case existingClient cameraId api1 remoteCallback s of
        Some b \<Rightarrow> Some (SameClient b, s)
      | None \<Rightarrow>
          (case getCameraState cameraId s of
             None \<Rightarrow> Some (ConnectError BAD_VALUE, s)
           | Some st \<Rightarrow> do {
               (r, s) \<leftarrow> queryPriorities e cameraId clientPid oomScoreOffset systemNativeClient st s;
               (case r of
                  Inl err \<Rightarrow> Some (ConnectError err, s)
                | Inr clientDescriptor \<Rightarrow>
                    let evicted = evictedBy clientDescriptor (mActiveClientManager s) in
                    if list_ex (\<lambda>i. mAddress i = mAddress clientDescriptor) evicted
                    then Some (ConnectError (if get cameraId (mActiveClientManager s) \<noteq> None then - EBUSY else - EUSERS), s)
                    else do {
                      s \<leftarrow> notifyEvicted evicted s;
                      s \<leftarrow> disconnectEvicted evicted (s\<lparr>serviceLocked := False\<rparr>);
                      (case waitForEvicted e evicted s of
                         (Inl out, s) \<Rightarrow> Some (out, s)
                       | (Inr _, s) \<Rightarrow>
                           let s = (usableAfter e s)\<lparr>serviceLocked := True\<rparr>; ret = checkIfDeviceIsUsable cameraId s in
                           if ret \<noteq> 0 then Some (ConnectError ret, s) else Some (Partial clientDescriptor, s))
                    })
             }))"

definition finishConnectLocked ::
  "camera_env \<Rightarrow> nat \<Rightarrow> camera_descriptor \<Rightarrow> int \<Rightarrow> bool \<Rightarrow> camera_service \<Rightarrow> camera_service ub" where
  "finishConnectLocked e client desc oomScoreOffset systemNativeClient s = do {
     (clientDescriptor, s) \<leftarrow> makeClientDescriptorFrom e (Some client) desc oomScoreOffset systemNativeClient s;
     (evicted, m) \<leftarrow> addAndEvict (Some clientDescriptor) (mActiveClientManager s);
     let s = s\<lparr>mActiveClientManager := m\<rparr>;
     if evicted \<noteq> [] then None
     else Some (if mRemoteBinder (bc_objects s client) \<noteq> None then log_call (LinkToDeath client) s else s)
   }"

text \<open>\<open>initialized\<close> is the result of initialising the offline client; the connection lock is free.\<close>

definition addOfflineClient :: "camera_env \<Rightarrow> string \<Rightarrow> nat option \<Rightarrow> int \<Rightarrow> camera_service \<Rightarrow> (int \<times> camera_service) ub" where
  "addOfflineClient e cameraId offlineClient initialized s =
     (case offlineClient of
        None \<Rightarrow> Some (BAD_VALUE, s)
      | Some b \<Rightarrow>
          (case get cameraId (mActiveClientManager s) of
             None \<Rightarrow> Some (BAD_VALUE, s)
           | Some online \<Rightarrow> do {
               (d, s) \<leftarrow> makeClientDescriptor e (kOfflineDevice @ mKey online) (Some b) 0 [] (mScore (mPriority online)) (mOwnerId online)
                 (mState (mPriority online)) 0 False s;
               if getIncompatibleClients (Some d) (mActiveClientManager s) \<noteq> [] then Some (BAD_VALUE, s)
               else if initialized \<noteq> 0 then Some (initialized, s)
               else do {
                 (evicted, m) \<leftarrow> addAndEvict (Some d) (mActiveClientManager s);
                 let s = s\<lparr>mActiveClientManager := m\<rparr>;
                 if evicted \<noteq> [] then None
                 else Some (0, if mRemoteBinder (bc_objects s b) \<noteq> None then log_call (LinkToDeath b) s else s)
               }
             }))"

end
