(* ===== verification/Camera_Properties.thy ===== *)
theory Camera_Properties
  imports Camera_Eviction Camera_Connect
begin

text \<open>
  The camera service over its list of clients: what disconnection removes, and that the evictions before a connection leave nothing to evict
  when the connection is finished.
\<close>

section \<open>The invariant\<close>

abbreviation clients :: "camera_service \<Rightarrow> camera_descriptor list" where
  "clients s \<equiv> mClients (mActiveClientManager s)"

text \<open>
  The active clients are compatible, have an object each that is not disconnected, and every descriptor has an address of its own.
\<close>

definition alive :: "(nat \<Rightarrow> basic_client) \<Rightarrow> camera_descriptor \<Rightarrow> bool" where
  "alive objects i \<longleftrightarrow> (\<exists>b. mValue i = Some b \<and> \<not> mDisconnected (objects b))"

definition conn_ok :: "camera_service \<Rightarrow> bool" where
  "conn_ok s \<longleftrightarrow> cm_ok (mActiveClientManager s) \<and> list_all (alive (bc_objects s)) (clients s) \<and> distinct (map mValue (clients s))
     \<and> distinct (map mAddress (clients s)) \<and> list_all (\<lambda>i. mAddress i < nextAddress s) (clients s)"

lemma remove_pointer_simps [simp]:
  "mClients (remove_pointer a m) = filter (\<lambda>i. mAddress i \<noteq> a) (mClients m)" "mMaxCost (remove_pointer a m) = mMaxCost m"
  by (simp_all add: remove_pointer_def)

lemma removeMatching_clients:
  "clients (removeMatching b cs s) = filter (\<lambda>i. \<not> (\<exists>j \<in> set cs. mValue j = Some b \<and> mAddress j = mAddress i)) (clients s)"
proof (induction cs arbitrary: s)
  case (Cons j cs)
  then show ?case by (auto intro!: filter_cong)
qed simp

lemma removeMatching_rest [simp]:
  "bc_objects (removeMatching b cs s) = bc_objects s" "nextAddress (removeMatching b cs s) = nextAddress s"
  "mMaxCost (mActiveClientManager (removeMatching b cs s)) = mMaxCost (mActiveClientManager s)"
  "mCameraStates (removeMatching b cs s) = mCameraStates s" "mAllowedUsers (removeMatching b cs s) = mAllowedUsers s"
  "serviceLocked (removeMatching b cs s) = serviceLocked s"
  by (induction cs arbitrary: s) simp_all

lemma removeMatching_all:
  assumes "distinct (map mAddress (clients s))"
  shows "clients (removeMatching b (clients s) s) = filter (\<lambda>i. mValue i \<noteq> Some b) (clients s)"
  unfolding removeMatching_clients
  by (rule filter_cong) (use assms in \<open>auto simp: distinct_map inj_on_def\<close>)

lemma restrictionOf_Some: "list_all (alive objects) cs \<Longrightarrow> \<exists>mode. restrictionOf objects' cs = Some mode"
  by (induction cs) (auto simp: alive_def)

lemma updateAudioRestriction_Some:
  assumes "list_all (alive objects) (clients s)"
  shows "\<exists>mode cs. updateAudioRestrictionLocked s = Some (s\<lparr>mAudioRestriction := mode, cs_calls := cs\<rparr>)"
proof -
  obtain mode where "restrictionOf (bc_objects s) (clients s) = Some mode" using restrictionOf_Some [OF assms] by blast
  then have "updateAudioRestrictionLocked s = Some (s\<lparr>mAudioRestriction := mode,
      cs_calls := if mAudioRestriction s \<noteq> mode then cs_calls s @ [SetCameraAudioRestriction mode] else cs_calls s\<rparr>)"
    by (simp add: updateAudioRestrictionLocked_def getAll_def)
  then show ?thesis by blast
qed

text \<open>What a disconnection leaves.\<close>

definition left_after :: "nat list \<Rightarrow> camera_service \<Rightarrow> camera_service \<Rightarrow> bool" where
  "left_after bs s s' \<longleftrightarrow> clients s' = filter (\<lambda>i. mValue i \<notin> Some ` set bs) (clients s)
     \<and> mMaxCost (mActiveClientManager s') = mMaxCost (mActiveClientManager s) \<and> nextAddress s' = nextAddress s
     \<and> mCameraStates s' = mCameraStates s \<and> serviceLocked s' = serviceLocked s \<and> mAllowedUsers s' = mAllowedUsers s
     \<and> (\<forall>b. b \<notin> set bs \<longrightarrow> bc_objects s' b = bc_objects s b)"

lemma disconnect_active:
  assumes "list_all (alive (bc_objects s)) (clients s)" "distinct (map mAddress (clients s))" "\<not> mDisconnected (bc_objects s b)"
  shows "\<exists>s'. disconnect b s = Some s' \<and> left_after [b] s s'"
proof -
  define s1 where "s1 = s\<lparr>bc_objects := (bc_objects s)(b := (bc_objects s b)\<lparr>mDisconnected := True\<rparr>)\<rparr>"
  define s2 where "s2 = removeMatching b (clients s1) s1"
  have cs: "clients s2 = filter (\<lambda>i. mValue i \<noteq> Some b) (clients s)"
    using removeMatching_all [of s1 b] assms(2) by (simp add: s1_def s2_def)
  then have "list_all (alive (bc_objects s)) (clients s2)" using assms(1) by (auto simp: list_all_iff)
  then obtain mode ls where u: "updateAudioRestrictionLocked s2 = Some (s2\<lparr>mAudioRestriction := mode, cs_calls := ls\<rparr>)"
    using updateAudioRestriction_Some by blast
  then have "removeByClient b s1 = Some (s2\<lparr>mAudioRestriction := mode, cs_calls := ls\<rparr>)"
    by (simp add: removeByClient_def s2_def getAll_def)
  then have "disconnect b s = Some (let s3 = s2\<lparr>mAudioRestriction := mode, cs_calls := ls\<rparr>
      in if mRemoteBinder (bc_objects s3 b) \<noteq> None then log_call (UnlinkToDeath b) s3 else s3)"
    using assms(3) by (simp add: disconnect_def s1_def [symmetric] Let_def)
  moreover have "left_after [b] s (let s3 = s2\<lparr>mAudioRestriction := mode, cs_calls := ls\<rparr>
      in if mRemoteBinder (bc_objects s3 b) \<noteq> None then log_call (UnlinkToDeath b) s3 else s3)"
    by (simp add: left_after_def cs Let_def) (simp add: s2_def s1_def)
  ultimately show ?thesis by blast
qed

lemma left_after_trans: "left_after bs s s' \<Longrightarrow> left_after bs' s' s'' \<Longrightarrow> left_after (bs @ bs') s s''"
  by (auto simp: left_after_def intro: filter_cong)

lemma disconnect_all:
  assumes "list_all (alive (bc_objects s)) (clients s)" "distinct (map mAddress (clients s))" "distinct bs"
    "list_all (\<lambda>b. \<not> mDisconnected (bc_objects s b)) bs"
  shows "\<exists>s'. foldM disconnect bs s = Some s' \<and> left_after bs s s'"
  using assms
proof (induction bs arbitrary: s)
  case Nil
  then show ?case by (simp add: left_after_def)
next
  case (Cons b bs)
  obtain s1 where s1: "disconnect b s = Some s1" "left_after [b] s s1" using disconnect_active [of s b] Cons.prems by auto
  then have cs: "clients s1 = filter (\<lambda>i. mValue i \<noteq> Some b) (clients s)" "\<forall>c. c \<noteq> b \<longrightarrow> bc_objects s1 c = bc_objects s c"
    by (auto simp: left_after_def)
  have "list_all (alive (bc_objects s1)) (clients s1)" using Cons.prems(1) cs by (auto simp: list_all_iff alive_def)
  moreover have "distinct (map mAddress (clients s1))" using Cons.prems(2) by (simp add: cs distinct_map_filter)
  moreover have "list_all (\<lambda>c. \<not> mDisconnected (bc_objects s1 c)) bs"
    using Cons.prems(3,4) cs(2) by (auto simp: list_all_iff)
  ultimately obtain s' where "foldM disconnect bs s1 = Some s'" "left_after bs s1 s'" using Cons.IH [of s1] Cons.prems(3) by auto
  then show ?case using s1 left_after_trans [of "[b]" s s1 bs s'] by auto
qed

lemma disconnectEvicted_eq: "list_all (\<lambda>i. mValue i \<noteq> None) es \<Longrightarrow> disconnectEvicted es s = foldM disconnect (map (the \<circ> mValue) es) s"
  unfolding disconnectEvicted_def by (induction es arbitrary: s) (auto split: option.splits)

lemma notifyEvicted_Some: "list_all (\<lambda>i. mValue i \<noteq> None) es \<Longrightarrow> \<exists>cs. notifyEvicted es s = Some (s\<lparr>cs_calls := cs\<rparr>)"
proof (induction es arbitrary: s)
  case Nil
  have "s = s\<lparr>cs_calls := cs_calls s\<rparr>" by simp
  then show ?case by (metis notifyEvicted.simps(1))
next
  case (Cons i es)
  then obtain b where b: "mValue i = Some b" by auto
  obtain cs where "notifyEvicted es (log_call (NotifyError b) s) = Some (log_call (NotifyError b) s\<lparr>cs_calls := cs\<rparr>)"
    using Cons.IH Cons.prems by fastforce
  with b show ?case by auto
qed

lemma waitForEvicted_gone:
  assumes "\<forall>i \<in> set es. \<forall>j \<in> set (clients s). mAddress j \<noteq> mAddress i"
  shows "waitForEvicted e es s = (Inr (), s)"
  using assms
proof (induction es)
  case (Cons i es)
  then have "waitUntilRemoved (mAddress i) wakes (mActiveClientManager s) = Some (0, mActiveClientManager s)" for wakes
    by (subst waitUntilRemoved.simps) (auto simp: list_ex_iff)
  with Cons show ?case by (simp add: TIMED_OUT_def)
qed simp

text \<open>The priority of a descriptor made from another one is the same, unless the offset is counted again.\<close>

lemma makeClientDescriptorFrom_same:
  assumes "makeClientDescriptor e key v cost conf score owner state off native s = Some (d, s1)" "off = 0 \<or> native"
  shows "makeClientDescriptorFrom e (Some b) d off native s2
     = Some (d\<lparr>mAddress := nextAddress s2, mValue := Some b\<rparr>, s2\<lparr>nextAddress := Suc (nextAddress s2)\<rparr>)"
  using assms
  by (auto simp: makeClientDescriptorFrom_def makeClientDescriptor_def ClientDescriptor_def ClientPriority_def setScore_def setState_def add32_def
      Let_def Option.bind_eq_Some_conv INVALID_ADJ_def UNKNOWN_ADJ_def kSystemNativeClientScore_def PERCEPTIBLE_APP_ADJ_def split: if_splits)

lemma makeClientDescriptor_fields:
  "makeClientDescriptor e key v cost conf score owner state off native s = Some (d, s1) \<Longrightarrow>
     mAddress d = nextAddress s \<and> mKey d = key \<and> mCost d = cost \<and> mConflicting d = conf \<and> mOwnerId d = owner \<and> mValue d = v
     \<and> s1 = s\<lparr>nextAddress := Suc (nextAddress s)\<rparr>"
  by (auto simp: makeClientDescriptor_def ClientDescriptor_def Let_def Option.bind_eq_Some_conv)

lemma conflicting_object: "conflicting (d\<lparr>mAddress := a, mValue := v\<rparr>) i = conflicting d i"
  by (simp add: conflicting_def isConflicting_def)

lemma evictLoop_object: "evictLoop mx h (d\<lparr>mAddress := a, mValue := v\<rparr>) t acc cs = evictLoop mx h d t acc cs"
proof (induction cs arbitrary: t acc)
  case (Cons i cs)
  have same: "mKey (d\<lparr>mAddress := a, mValue := v\<rparr>) = mKey d" "mOwnerId (d\<lparr>mAddress := a, mValue := v\<rparr>) = mOwnerId d"
    "mPriority (d\<lparr>mAddress := a, mValue := v\<rparr>) = mPriority d" by simp_all
  show ?case by (simp only: evictLoop.simps conflicting_object same Cons.IH)
qed simp

lemma evictedBy_object: "evictedBy d m = [] \<Longrightarrow> evictedBy (d\<lparr>mAddress := a, mValue := v\<rparr>) m = []"
  by (auto simp: evictedBy_def evictLoop_object highestPriorityOwner_def Let_def split: option.splits if_splits prod.splits)

lemma list_all2_same_refl: "list_all2 same_device cs cs"
  by (simp add: list_all2_refl same_device_def)

lemma queryPriorities_same:
  assumes "queryPriorities e cameraId clientPid off native st s = Some (Inr d, s1)"
  obtains score state s0 where
    "makeClientDescriptor e cameraId None (mStateCost st) (mStateConflicting st) score clientPid state off native s0 = Some (d, s1)"
    "nextAddress s0 = nextAddress s" "list_all2 same_device (clients s) (clients s0)"
    "mMaxCost (mActiveClientManager s0) = mMaxCost (mActiveClientManager s)" "bc_objects s0 = bc_objects s"
    "mCameraStates s0 = mCameraStates s" "serviceLocked s0 = serviceLocked s"
proof (cases "\<not> processInfoAvailable e \<and> automotivePrivileged e")
  case True
  then have "makeClientDescriptor e cameraId None (mStateCost st) (mStateConflicting st) NATIVE_ADJ clientPid (boundTopState e) off native s = Some (d, s1)"
    using assms by (auto simp: queryPriorities_def Option.bind_eq_Some_conv)
  then show ?thesis using that list_all2_same_refl by blast
next
  case False
  let ?owners = "getAllOwners (mActiveClientManager s)"
  obtain answers where answers: "queryScores e (?owners @ [clientPid]) = Inr answers"
    using assms False by (auto simp: queryPriorities_def Let_def split: sum.splits)
  obtain state score where last: "last answers = (state, score)" by fastforce
  obtain ps m where m: "pidToPriority ?owners answers = Some ps" "updatePriorities ps (mActiveClientManager s) = Some m"
    "makeClientDescriptor e cameraId None (mStateCost st) (mStateConflicting st) score clientPid state off native
       (s\<lparr>mActiveClientManager := m\<rparr>) = Some (d, s1)"
    using assms False answers last by (auto simp: queryPriorities_def Let_def Option.bind_eq_Some_conv)
  have "list_all2 same_device (clients s) (mClients m)" "mMaxCost m = mMaxCost (mActiveClientManager s)"
    using m(2) updateEach_keeps by (auto simp: updatePriorities_def Option.bind_eq_Some_conv)
  then show ?thesis using that [OF m(3)] by simp
qed

lemma conn_ok_same:
  assumes "conn_ok s" "list_all2 same_device (clients s) (clients s0)" "bc_objects s0 = bc_objects s" "nextAddress s0 = nextAddress s"
  shows "conn_ok s0"
proof -
  have "map mValue (clients s0) = map mValue (clients s)" "map mAddress (clients s0) = map mAddress (clients s)"
    using assms(2) by (induction rule: list_all2_induct) (auto simp: same_device_def)
  moreover have "list_all (alive (bc_objects s)) (clients s) = list_all (alive (bc_objects s)) (clients s0)"
    using assms(2) by (induction rule: list_all2_induct) (auto simp: same_device_def alive_def)
  moreover have "list_all (\<lambda>i. mAddress i < nextAddress s) (clients s) = list_all (\<lambda>i. mAddress i < nextAddress s) (clients s0)"
    using assms(2) by (induction rule: list_all2_induct) (auto simp: same_device_def)
  ultimately show ?thesis using assms compatible_same [OF assms(2)] by (simp add: conn_ok_def cm_ok_def)
qed

section \<open>Connection\<close>

text \<open>Each active client has an object of its own, so the objects of some clients are those of no others.\<close>

abbreviation objects_of :: "camera_descriptor list \<Rightarrow> nat list" where
  "objects_of cs \<equiv> map (the \<circ> mValue) cs"

lemma conn_ok_alive: "conn_ok s \<Longrightarrow> i \<in> set (clients s) \<Longrightarrow> mValue i = Some (the (mValue i)) \<and> \<not> mDisconnected (bc_objects s (the (mValue i)))"
  by (auto simp: conn_ok_def alive_def list_all_iff)

lemma objects_inj: "conn_ok s \<Longrightarrow> inj_on (the \<circ> mValue) (set (clients s))"
proof (rule inj_onI)
  fix i j assume ok: "conn_ok s" and ij: "i \<in> set (clients s)" "j \<in> set (clients s)" "(the \<circ> mValue) i = (the \<circ> mValue) j"
  then have "mValue i = mValue j" using conn_ok_alive [OF ok ij(1)] conn_ok_alive [OF ok ij(2)] by simp
  then show "i = j" using ok ij(1,2) by (auto simp: conn_ok_def distinct_map inj_on_def)
qed

lemma objects_distinct: "conn_ok s \<Longrightarrow> distinct (objects_of (filter P (clients s)))"
  using objects_inj [of s] by (auto simp: conn_ok_def distinct_map intro: inj_on_subset)

lemma objects_mem:
  assumes "conn_ok s" "i \<in> set (clients s)"
  shows "mValue i \<in> Some ` set (objects_of (filter P (clients s))) \<longleftrightarrow> P i"
proof -
  have "mValue i \<in> Some ` set (objects_of (filter P (clients s))) \<longleftrightarrow> (the \<circ> mValue) i \<in> (the \<circ> mValue) ` {j \<in> set (clients s). P j}"
    using conn_ok_alive [OF assms] by (subst conjunct1 [OF conn_ok_alive [OF assms]]) auto
  also have "\<dots> \<longleftrightarrow> P i" using inj_on_image_mem_iff [OF objects_inj [OF assms(1)] assms(2), of "{j \<in> set (clients s). P j}"] assms(2) by auto
  finally show ?thesis .
qed

text \<open>The clients that the evictions leave, when nobody else acts meanwhile.\<close>

lemma evictions_leave:
  assumes ok: "conn_ok s1" and P: "evictedBy d (mActiveClientManager s1) = filter P (clients s1)"
  shows "\<exists>s2. (do { s \<leftarrow> notifyEvicted (filter P (clients s1)) s1; disconnectEvicted (filter P (clients s1)) (s\<lparr>serviceLocked := False\<rparr>) }) = Some s2
    \<and> clients s2 = filter (\<lambda>i. \<not> P i) (clients s1) \<and> mMaxCost (mActiveClientManager s2) = mMaxCost (mActiveClientManager s1)
    \<and> nextAddress s2 = nextAddress s1 \<and> mCameraStates s2 = mCameraStates s1 \<and> waitForEvicted e (filter P (clients s1)) s2 = (Inr (), s2)
    \<and> (\<forall>b. Some b \<notin> mValue ` set (clients s1) \<longrightarrow> bc_objects s2 b = bc_objects s1 b)
    \<and> list_all (alive (bc_objects s2)) (clients s2)"
proof -
  let ?es = "filter P (clients s1)" and ?bs = "objects_of (filter P (clients s1))"
  have some: "list_all (\<lambda>i. mValue i \<noteq> None) ?es" using conn_ok_alive [OF ok] by (fastforce simp: list_all_iff)
  obtain ls where n: "notifyEvicted ?es s1 = Some (s1\<lparr>cs_calls := ls\<rparr>)" using notifyEvicted_Some [OF some] by blast
  define s0 where "s0 = s1\<lparr>cs_calls := ls, serviceLocked := False\<rparr>"
  have "list_all (\<lambda>b. \<not> mDisconnected (bc_objects s0 b)) ?bs" using conn_ok_alive [OF ok] by (simp add: list_all_iff s0_def)
  then obtain s2 where s2: "foldM disconnect ?bs s0 = Some s2" "left_after ?bs s0 s2"
    using disconnect_all [of s0 ?bs] ok objects_distinct [OF ok] by (auto simp: conn_ok_def s0_def)
  have cs: "clients s2 = filter (\<lambda>i. \<not> P i) (clients s1)"
  proof -
    have "clients s2 = filter (\<lambda>i. mValue i \<notin> Some ` set ?bs) (clients s1)" using s2(2) by (simp add: left_after_def s0_def)
    also have "\<dots> = filter (\<lambda>i. \<not> P i) (clients s1)" by (rule filter_cong [OF refl]) (simp only: objects_mem [OF ok])
    finally show ?thesis .
  qed
  have kept: "bc_objects s2 b = bc_objects s1 b" if "b \<notin> set ?bs" for b using that s2(2) by (simp add: left_after_def s0_def)
  have "mAddress j \<noteq> mAddress i" if "i \<in> set ?es" "j \<in> set (clients s2)" for i j
    using that ok by (auto simp: cs conn_ok_def distinct_map inj_on_def)
  then have "waitForEvicted e ?es s2 = (Inr (), s2)" by (intro waitForEvicted_gone) metis
  moreover have "list_all (alive (bc_objects s2)) (clients s2)"
    unfolding list_all_iff
  proof (rule ballI)
    fix i assume "i \<in> set (clients s2)"
    then have i: "i \<in> set (clients s1)" "\<not> P i" by (auto simp: cs)
    then have "the (mValue i) \<notin> set ?bs" using objects_mem [OF ok i(1), of P] conn_ok_alive [OF ok i(1)] by (metis image_eqI)
    then show "alive (bc_objects s2) i" using conn_ok_alive [OF ok i(1)] kept by (auto simp: alive_def)
  qed
  moreover have "bc_objects s2 b = bc_objects s1 b" if "Some b \<notin> mValue ` set (clients s1)" for b
    using that conn_ok_alive [OF ok] by (intro kept) (force simp: image_iff)
  ultimately show ?thesis
    using n s2 cs disconnectEvicted_eq [OF some, of s0] by (auto simp: left_after_def s0_def)
qed

lemma filter_not_evicted:
  "filter (\<lambda>i. i \<notin> set (filter P cs)) cs = filter (\<lambda>i. \<not> P i) cs"
  by (rule filter_cong) auto

lemma waitForEvicted_outcome: "waitForEvicted e es s = (Inl out, s') \<Longrightarrow> out \<noteq> Partial d"
  by (induction es arbitrary: s) (auto simp: Let_def split: option.splits if_splits prod.splits)

lemma handleEvictions_partial:
  assumes "handleEvictionsLocked e cameraId clientPid api1 remote off native s = Some (Partial d, s')"
  obtains st s1 s2 s3 where "getCameraState cameraId s = Some st" "queryPriorities e cameraId clientPid off native st s = Some (Inr d, s1)"
    "\<not> list_ex (\<lambda>i. mAddress i = mAddress d) (evictedBy d (mActiveClientManager s1))"
    "(do { s \<leftarrow> notifyEvicted (evictedBy d (mActiveClientManager s1)) s1;
           disconnectEvicted (evictedBy d (mActiveClientManager s1)) (s\<lparr>serviceLocked := False\<rparr>) }) = Some s2"
    "waitForEvicted e (evictedBy d (mActiveClientManager s1)) s2 = (Inr (), s3)" "s' = (usableAfter e s3)\<lparr>serviceLocked := True\<rparr>"
proof -
  obtain st where st: "existingClient cameraId api1 remote s = None" "getCameraState cameraId s = Some st"
    using assms by (auto simp: handleEvictionsLocked_def split: option.splits)
  then obtain r s1 where q: "queryPriorities e cameraId clientPid off native st s = Some (r, s1)"
    using assms by (cases "queryPriorities e cameraId clientPid off native st s") (auto simp: handleEvictionsLocked_def)
  obtain c where r: "r = Inr c" using assms st q by (cases r) (auto simp: handleEvictionsLocked_def)
  let ?es = "evictedBy c (mActiveClientManager s1)"
  have in_list: "\<not> list_ex (\<lambda>i. mAddress i = mAddress c) ?es"
    using assms st q r by (auto simp: handleEvictionsLocked_def Let_def split: if_splits)
  then obtain sn s2 where n: "notifyEvicted ?es s1 = Some sn" "disconnectEvicted ?es (sn\<lparr>serviceLocked := False\<rparr>) = Some s2"
    using assms st q r by (auto simp: handleEvictionsLocked_def Let_def Option.bind_eq_Some_conv)
  obtain w s3 where w: "waitForEvicted e ?es s2 = (w, s3)" by fastforce
  have "w = Inr ()"
    using assms st q r in_list n w waitForEvicted_outcome [of e ?es s2] by (cases w) (auto simp: handleEvictionsLocked_def Let_def)
  moreover have "c = d" "s' = (usableAfter e s3)\<lparr>serviceLocked := True\<rparr>"
    using assms st q r in_list n w calculation by (auto simp: handleEvictionsLocked_def Let_def split: if_splits)
  ultimately show ?thesis using that st(2) q r in_list n w by auto
qed

lemma conn_ok_add:
  assumes "conn_ok s" "cm_ok m" "mClients m = clients s @ [c]" "mAddress c = nextAddress s" "mValue c = Some b"
    "\<not> mDisconnected (bc_objects s b)" "Some b \<notin> mValue ` set (clients s)"
  shows "conn_ok (s\<lparr>nextAddress := Suc (nextAddress s), mActiveClientManager := m\<rparr>)"
  using assms by (fastforce simp: conn_ok_def list_all_iff alive_def)

lemma incoming_ok:
  assumes "conn_ok s" "queryPriorities e cameraId clientPid off native st s = Some (Inr d, s1)"
  obtains score state s0 where
    "makeClientDescriptor e cameraId None (mStateCost st) (mStateConflicting st) score clientPid state off native s0 = Some (d, s1)"
    "conn_ok s1" "bc_objects s1 = bc_objects s" "mValue ` set (clients s1) = mValue ` set (clients s)"
proof -
  obtain score state s0 where made: "makeClientDescriptor e cameraId None (mStateCost st) (mStateConflicting st) score clientPid state off native s0 = Some (d, s1)"
    and s0: "nextAddress s0 = nextAddress s" "list_all2 same_device (clients s) (clients s0)" "bc_objects s0 = bc_objects s"
    by (rule queryPriorities_same [OF assms(2)]) blast
  have s1: "s1 = s0\<lparr>nextAddress := Suc (nextAddress s0)\<rparr>" using makeClientDescriptor_fields [OF made] by simp
  have "conn_ok s1" using conn_ok_same [OF assms(1) s0(2,3,1)] by (auto simp: s1 conn_ok_def list_all_iff less_Suc_eq)
  moreover have "map mValue (clients s0) = map mValue (clients s)"
    using s0(2) by (induction rule: list_all2_induct) (auto simp: same_device_def)
  then have "mValue ` set (clients s1) = mValue ` set (clients s)" by (simp add: s1 flip: set_map)
  ultimately show ?thesis using that [OF made] s0(3) by (simp add: s1)
qed

lemma connect_after_evictions:
  assumes ok: "conn_ok s" and handled: "handleEvictionsLocked e cameraId clientPid api1 remote off native s = Some (Partial d, s')"
    and st: "getCameraState cameraId s = Some st" "0 \<le> mStateCost st"
    and q: "queryPriorities e cameraId clientPid off native st s = Some (Inr d, s1)"
    and own: "\<forall>i \<in> set (clients s1). mOwnerId i = clientPid \<longrightarrow> prio_eq (mPriority i) (mPriority d)"
    and off: "off = 0 \<or> native" and quiet: "\<And>s. usableAfter e s = s"
    and new: "Some b \<notin> mValue ` set (clients s)" "\<not> mDisconnected (bc_objects s b)"
  shows "\<exists>s''. finishConnectLocked e b d off native s' = Some s'' \<and> conn_ok s'' \<and> serviceLocked s'
    \<and> clients s'' = filter (\<lambda>i. i \<notin> set (evictedBy d (mActiveClientManager s1))) (clients s1)
        @ [d\<lparr>mAddress := nextAddress s', mValue := Some b\<rparr>]"
proof -
  let ?m1 = "mActiveClientManager s1" and ?c = "d\<lparr>mAddress := nextAddress s', mValue := Some b\<rparr>"
  obtain s2 s3 where h: "\<not> list_ex (\<lambda>i. mAddress i = mAddress d) (evictedBy d ?m1)"
    "(do { s \<leftarrow> notifyEvicted (evictedBy d ?m1) s1; disconnectEvicted (evictedBy d ?m1) (s\<lparr>serviceLocked := False\<rparr>) }) = Some s2"
    "waitForEvicted e (evictedBy d ?m1) s2 = (Inr (), s3)" "s' = s3\<lparr>serviceLocked := True\<rparr>"
    by (rule handleEvictions_partial [OF handled]) (use st(1) q quiet in auto)
  obtain score state s0 where made: "makeClientDescriptor e cameraId None (mStateCost st) (mStateConflicting st) score clientPid state off native s0 = Some (d, s1)"
    and ok1: "conn_ok s1" and same: "bc_objects s1 = bc_objects s" "mValue ` set (clients s1) = mValue ` set (clients s)"
    by (rule incoming_ok [OF ok q])
  note fields = makeClientDescriptor_fields [OF made]
  have cm: "compatible (clients s1)" "costs_ok (clients s1)" using ok1 by (auto simp: conn_ok_def cm_ok_def)
  have acc: "accepted d ?m1" using h(1) not_accepted by fastforce
  from acc cm obtain P where P: "evictedBy d ?m1 = filter P (clients s1)"
    "splits (mMaxCost ?m1) (highestPriorityOwner d (clients s1)) d (costs (filter (\<lambda>i. \<not> P i) (clients s1)) + mCost d) P (clients s1)"
    "costs (filter (\<lambda>i. \<not> P i) (clients s1)) + mCost d \<le> mMaxCost ?m1 \<or> highestPriorityOwner d (clients s1) = mOwnerId d"
    by (rule accepted_splits)
  from evictions_leave [OF ok1 P(1), of e] h(2,3) have s3: "s3 = s2" "clients s2 = filter (\<lambda>i. \<not> P i) (clients s1)"
    "mMaxCost (mActiveClientManager s2) = mMaxCost ?m1" "nextAddress s2 = nextAddress s1"
    "bc_objects s2 b = bc_objects s b" "list_all (alive (bc_objects s2)) (clients s2)"
    using new same unfolding P(1) by auto
  have none: "evictedBy d (mActiveClientManager s') = []"
    by (rule second_attempt [OF acc cm _ P]) (use own fields s3 h(4) in auto)
  then have none': "evictedBy ?c (mActiveClientManager s') = []" by (rule evictedBy_object)
  have ok': "conn_ok s'"
    using ok1 s3 h(4) by (auto simp: conn_ok_def cm_ok_def compatible_filter costs_ok_def list_all_iff distinct_map_filter)
  have fresh: "fresh ?c (mActiveClientManager s')" using ok' by (auto simp: conn_ok_def fresh_def list_all_iff)
  define m where "m = notify (ClientAdded ?c) (mActiveClientManager s')\<lparr>mClients := clients s' @ [?c]\<rparr>"
  have add: "addAndEvict (Some ?c) (mActiveClientManager s') = Some ([], m)" using none' by (simp add: addAndEvict_def m_def)
  have "cm_ok m" by (rule cm_ok_add [OF _ fresh _ add]) (use ok' st(2) fields in \<open>auto simp: conn_ok_def\<close>)
  then have ok'': "conn_ok (s'\<lparr>nextAddress := Suc (nextAddress s'), mActiveClientManager := m\<rparr>)"
    by (intro conn_ok_add [OF ok', of _ ?c b]) (use new s3 h(4) same in \<open>auto simp: m_def\<close>)
  have "finishConnectLocked e b d off native s' = Some (let s'' = s'\<lparr>nextAddress := Suc (nextAddress s'), mActiveClientManager := m\<rparr>
      in if mRemoteBinder (bc_objects s'' b) \<noteq> None then log_call (LinkToDeath b) s'' else s'')"
    using makeClientDescriptorFrom_same [OF made off] add by (simp add: finishConnectLocked_def Let_def)
  moreover have "clients s' = filter (\<lambda>i. i \<notin> set (evictedBy d ?m1)) (clients s1)"
    using s3(1,2) h(4) by (simp only: P(1) filter_not_evicted) simp
  ultimately show ?thesis using ok'' h(4) by (auto simp: Let_def m_def conn_ok_def)
qed

section \<open>Properties\<close>


text \<open>Two cameras; the process 10 holds the first one, with the object 7.\<close>

definition example_env :: camera_env where
  "example_env = \<lparr>processInfoAvailable = True, automotivePrivileged = False, boundTopState = 3, persistentUiState = 1,
     queryScores = (\<lambda>pids. Inr (map (\<lambda>p. (2, if p = 10 then 500 else 100)) pids)), userOf = (\<lambda>u. u div 100000),
     disconnectWakes = (\<lambda>_. []), usableAfter = (\<lambda>t. t)\<rparr>"

definition example_holder :: camera_descriptor where
  "example_holder = \<lparr>mAddress = 0, mKey = ''0'', mValue = Some 7, mCost = 60, mConflicting = [],
     mPriority = \<lparr>mScore = 500, mState = 2, mIsVendorClient = False, mScoreOffset = 0\<rparr>, mOwnerId = 10\<rparr>"

definition example_service :: camera_service where
  "example_service = \<lparr>mActiveClientManager = CameraClientManager\<lparr>mClients := [example_holder]\<rparr>,
     mCameraStates = (\<lambda>_. Some \<lparr>mStatus = PRESENT, mStateCost = 60, mStateConflicting = []\<rparr>), mAllowedUsers = [0], mAudioRestriction = 0,
     bc_objects = (\<lambda>_. \<lparr>mRemoteBinder = None, mClientUid = 10000, mIsApi1 = False, mClientAudioRestriction = 0, mDisconnected = False\<rparr>),
     nextAddress = 1, serviceLocked = True, cs_calls = []\<rparr>"

lemma example_service_ok: "conn_ok example_service"
  by (simp add: conn_ok_def cm_ok_def costs_ok_def alive_def example_service_def example_holder_def CameraClientManager_def ClientManager_def
      setListener_def)


text \<open>
  C28: A second offline session aborts the service. When an offline client of a camera is active and the same process, with the same
  priority, moves its online client of that camera offline too, the check for incompatible clients finds nothing, because it only
  looks for clients of higher priority; the addition then evicts the first offline client, which is treated as a fatal error (or
  reads past the end of the list before).
\<close>
theorem second_offline_client_aborts:
  assumes "conn_ok s" "get cameraId (mActiveClientManager s) = Some online"
    "get (kOfflineDevice @ cameraId) (mActiveClientManager s) = Some old" "mOwnerId old = mOwnerId online"
    "prio_eq (mPriority old) (mPriority online)" "mScore (mPriority online) \<noteq> INVALID_ADJ"
    "getCurrentCostLocked (mActiveClientManager s) \<le> mMaxCost (mActiveClientManager s)"
    "\<forall>i \<in> set (clients s). kOfflineDevice @ cameraId \<notin> set (mConflicting i)"
  shows "addOfflineClient e cameraId (Some b) 0 s = None"
proof (cases "makeClientDescriptor e (kOfflineDevice @ cameraId) (Some b) 0 [] (mScore (mPriority online)) (mOwnerId online)
    (mState (mPriority online)) 0 False s")
  case None
  moreover have "mKey online = cameraId" using assms(2) by (auto simp: get_def find_Some_iff)
  ultimately show ?thesis using assms(2) by (simp add: addOfflineClient_def)
next
  case (Some r)
  obtain d s1 where r: "r = (d, s1)" by (cases r)
  let ?m = "mActiveClientManager s"
  note fields = makeClientDescriptor_fields [OF Some [unfolded r]]
  have prio: "prio_eq (mPriority d) (mPriority online)"
    using Some assms(6) unfolding r
    by (auto simp: makeClientDescriptor_def ClientDescriptor_def ClientPriority_def setScore_def setState_def add32_def prio_eq_def Let_def
        Option.bind_eq_Some_conv split: if_splits)
  have m1: "mActiveClientManager s1 = ?m" using fields by simp
  have online: "mKey online = cameraId" "online \<in> set (clients s)" using assms(2) by (auto simp: get_def find_Some_iff)
  have old: "mKey old = kOfflineDevice @ cameraId" "old \<in> set (clients s)" using assms(3) by (auto simp: get_def find_Some_iff)
  have cm: "compatible (clients s)" "costs_ok (clients s)" using assms(1) by (auto simp: conn_ok_def cm_ok_def)
  have only: "i = old" if "i \<in> set (clients s)" "conflicting d i" for i
  proof -
    have "mKey i = kOfflineDevice @ cameraId" using that assms(8) fields by (auto simp: conflicting_def isConflicting_def list_ex_iff)
    then show ?thesis using compatible_distinct_keys [OF cm(1)] that(1) old by (auto simp: distinct_map inj_on_def)
  qed
  have "\<not> prio_less (mPriority old) (mPriority d)" using prio assms(5) by (simp add: prio_eq_def prio_less_def)
  then have "incompatibleWith d ?m = []" using only assms(7) fields by (auto simp: incompatibleWith_def filter_empty_conv)
  moreover have "fresh d ?m" using assms(1) fields by (auto simp: conn_ok_def fresh_def list_all_iff)
  then have "addAndEvict (Some d) ?m = None \<or> (\<exists>es m'. es \<noteq> [] \<and> addAndEvict (Some d) ?m = Some (es, m'))"
    by (rule evicts_same_camera [OF cm _ old(2) _ _ only]) (use fields old assms(4,7) in auto)
  ultimately show ?thesis
    using assms(2) online Some r m1 by (auto simp: addOfflineClient_def getIncompatibleClients_def wouldEvictLocked_def)
qed

definition offline_service :: camera_service where
  "offline_service = example_service\<lparr>mActiveClientManager := CameraClientManager\<lparr>mClients :=
     [example_holder, example_holder\<lparr>mAddress := 1, mKey := ''offline-0'', mValue := Some 8, mCost := 0\<rparr>]\<rparr>, nextAddress := 2\<rparr>"

theorem second_offline_client_aborts_witness:
  "conn_ok offline_service \<and> addOfflineClient example_env ''0'' (Some 9) 0 offline_service = None"
proof -
  have ok: "conn_ok offline_service"
    by (simp add: conn_ok_def cm_ok_def costs_ok_def alive_def offline_service_def example_service_def example_holder_def CameraClientManager_def
        ClientManager_def setListener_def conflicting_def isConflicting_def)
  moreover have "addOfflineClient example_env ''0'' (Some 9) 0 offline_service = None"
    by (rule second_offline_client_aborts [OF ok, where online = example_holder and
          old = "example_holder\<lparr>mAddress := 1, mKey := ''offline-0'', mValue := Some 8, mCost := 0\<rparr>"])
      (simp_all add: offline_service_def example_holder_def CameraClientManager_def ClientManager_def setListener_def get_def kOfflineDevice_def
        prio_eq_def INVALID_ADJ_def getCurrentCostLocked_def DEFAULT_MAX_COST_def)
  ultimately show ?thesis by blast
qed

text \<open>The process 2 holds camera 1 with an offset of 100, the process 3 an offline client without cost.\<close>

definition offset_env :: camera_env where
  "offset_env = example_env\<lparr>queryScores := (\<lambda>pids. Inr (map (\<lambda>p. (2, if p = 2 then 100 else 150)) pids))\<rparr>"

definition offset_service :: camera_service where
  "offset_service = example_service\<lparr>mActiveClientManager := CameraClientManager\<lparr>mClients :=
     [example_holder\<lparr>mKey := ''1'', mPriority := \<lparr>mScore = 200, mState = 2, mIsVendorClient = False, mScoreOffset = 100\<rparr>, mOwnerId := 2\<rparr>,
      example_holder\<lparr>mAddress := 1, mKey := ''offline-3'', mValue := Some 8, mCost := 0, mOwnerId := 3,
        mPriority := \<lparr>mScore = 150, mState = 2, mIsVendorClient = False, mScoreOffset = 0\<rparr>\<rparr>]\<rparr>, nextAddress := 2\<rparr>"

text \<open>
  The score offset is counted twice. \<open>makeClientDescriptor\<close> for the finished connection starts from the score of the partial descriptor, which
  already has the offset, and adds it again. In a state that satisfies the invariant, the evictions of a connection with an offset succeed
  and evict nobody; finishing it, with the lower priority, then evicts a client and aborts the service.
\<close>
theorem score_offset_counted_twice:
  "conn_ok offset_service \<and>
   (case handleEvictionsLocked offset_env ''2'' 2 False None 40 False offset_service of
      Some (Partial d, s') \<Rightarrow> map mValue (clients s') = [Some 7, Some 8] \<and> mScore (mPriority d) = 140
        \<and> map_option (\<lambda>(c, _). mScore (mPriority c)) (makeClientDescriptorFrom offset_env (Some 9) d 40 False s') = Some 180
        \<and> finishConnectLocked offset_env 9 d 40 False s' = None
    | _ \<Rightarrow> False)"
proof
  show "conn_ok offset_service"
    by (simp add: conn_ok_def cm_ok_def costs_ok_def alive_def offset_service_def example_service_def example_holder_def CameraClientManager_def
        ClientManager_def setListener_def conflicting_def isConflicting_def)
qed code_simp

text \<open>
  A client that does not go in time leaves the caller without \<^verbatim>\<open>mServiceLock\<close>: the error is returned before the lock is taken again.
\<close>

lemma wait_failure_returns_unlocked:
  assumes "existingClient cameraId api1 remote s = None" "getCameraState cameraId s = Some st"
    "queryPriorities e cameraId clientPid off native st s = Some (Inr d, s1)"
    "\<not> list_ex (\<lambda>i. mAddress i = mAddress d) (evictedBy d (mActiveClientManager s1))"
    "notifyEvicted (evictedBy d (mActiveClientManager s1)) s1 = Some s2"
    "disconnectEvicted (evictedBy d (mActiveClientManager s1)) (s2\<lparr>serviceLocked := False\<rparr>) = Some s3" "\<not> serviceLocked s3"
    "waitForEvicted e (evictedBy d (mActiveClientManager s1)) s3 = (Inl out, s4)"
  shows "handleEvictionsLocked e cameraId clientPid api1 remote off native s = Some (out, s4) \<and> \<not> serviceLocked s4"
proof
  show "handleEvictionsLocked e cameraId clientPid api1 remote off native s = Some (out, s4)"
    unfolding handleEvictionsLocked_def
    by (simp only: assms option.case Option.bind.bind_lunit prod.case sum.case Let_def if_False)
  have "serviceLocked (snd (waitForEvicted e es t)) = serviceLocked t" for es t
    by (induction es arbitrary: t) (auto simp: Let_def split: option.splits prod.splits)
  from this [of "evictedBy d (mActiveClientManager s1)" s3] show "\<not> serviceLocked s4" using assms(7,8) by simp
qed

end
