(* ===== verification/Camera_Machine.thy ===== *)
theory Camera_Machine
  imports Camera_Properties
begin

text \<open>
  The camera service as a machine: connections, offline clients, disconnections, deaths of client processes, removed devices and user switches in any order. While
  a connection waits with the lock released, any sequence of calls may come in between.
  A disconnection is one step, so an evicted client is gone when its disconnection has returned and the wait for it ends at once.
\<close>

section \<open>The invariant\<close>

lemma conn_ok_sub:
  assumes "conn_ok s" "clients s' = filter P (clients s)" "nextAddress s' = nextAddress s"
    "\<And>i. i \<in> set (clients s') \<Longrightarrow> bc_objects s' (the (mValue i)) = bc_objects s (the (mValue i))"
  shows "conn_ok s'"
proof -
  have "alive (bc_objects s') i" if "i \<in> set (clients s')" for i
    using conn_ok_alive [OF assms(1), of i] that assms(2,4) by (auto simp: alive_def)
  then show ?thesis
    using assms(1-3) cm_ok_filter [OF _ assms(2)] by (auto simp: conn_ok_def list_all_iff distinct_map_filter)
qed

lemma left_after_ok:
  assumes "conn_ok s" "left_after bs s s'"
  shows "conn_ok s'"
proof (rule conn_ok_sub [OF assms(1), where P = "\<lambda>i. mValue i \<notin> Some ` set bs"])
  fix i assume "i \<in> set (clients s')"
  then have "i \<in> set (clients s)" "mValue i \<notin> Some ` set bs" using assms(2) by (auto simp: left_after_def)
  then have "the (mValue i) \<notin> set bs" using conn_ok_alive [OF assms(1)] by (metis imageI)
  then show "bc_objects s' (the (mValue i)) = bc_objects s (the (mValue i))" using assms(2) by (simp add: left_after_def)
qed (use assms(2) in \<open>simp_all add: left_after_def\<close>)

text \<open>An active client is never a disconnected one.\<close>

lemma disconnect_exact:
  assumes "conn_ok s"
  shows "\<exists>s'. disconnect b s = Some s' \<and> conn_ok s' \<and> left_after [b] s s'"
proof (cases "mDisconnected (bc_objects s b)")
  case True
  have "mValue i \<noteq> Some b" if "i \<in> set (clients s)" for i using conn_ok_alive [OF assms that] True by auto
  then have "left_after [b] s s" by (auto simp: left_after_def filter_id_conv)
  with True assms show ?thesis by (simp add: disconnect_def)
next
  case False
  then obtain s' where "disconnect b s = Some s'" "left_after [b] s s'"
    using disconnect_active [of s b] assms by (auto simp: conn_ok_def)
  with left_after_ok [OF assms] show ?thesis by blast
qed

lemma disconnects_exact:
  assumes "conn_ok s"
  shows "\<exists>s'. foldM disconnect bs s = Some s' \<and> conn_ok s' \<and> left_after bs s s'"
  using assms
proof (induction bs arbitrary: s)
  case (Cons b bs)
  obtain s1 where s1: "disconnect b s = Some s1" "conn_ok s1" "left_after [b] s s1" using disconnect_exact [OF Cons.prems] by blast
  obtain s' where "foldM disconnect bs s1 = Some s'" "conn_ok s'" "left_after bs s1 s'" using Cons.IH [OF s1(2)] by blast
  with s1 left_after_trans [of "[b]" s s1 bs s'] show ?case by auto
qed (simp add: left_after_def)

lemma conn_ok_lock [simp]: "conn_ok (s\<lparr>serviceLocked := l\<rparr>) = conn_ok s" "conn_ok (s\<lparr>cs_calls := ls\<rparr>) = conn_ok s"
  "conn_ok (s\<lparr>mAllowedUsers := us\<rparr>) = conn_ok s"
  by (simp_all add: conn_ok_def)

section \<open>Departures\<close>

lemma evictRemote_exact:
  assumes "list_all (\<lambda>i. mValue i \<noteq> None) cs"
  shows "\<exists>ls. evictRemote r cs bs s =
    (bs @ objects_of (filter (\<lambda>i. mRemoteBinder (bc_objects s (the (mValue i))) = Some r) cs),
     s\<lparr>mActiveClientManager := fold remove_pointer
         (map mAddress (filter (\<lambda>i. mRemoteBinder (bc_objects s (the (mValue i))) = Some r) cs)) (mActiveClientManager s), cs_calls := ls\<rparr>)"
  using assms
proof (induction cs arbitrary: bs s)
  case Nil
  show ?case by (auto intro!: exI [of _ "cs_calls s"])
next
  case (Cons i cs)
  then obtain b where b: "mValue i = Some b" by auto
  define s1 where "s1 = (if mRemoteBinder (bc_objects s b) = Some r
    then log_call (NotifyError b) (on_manager (remove_pointer (mAddress i)) s) else s)"
  have "bc_objects s1 = bc_objects s" by (simp add: s1_def)
  then show ?case using Cons.IH [of "if mRemoteBinder (bc_objects s b) = Some r then bs @ [b] else bs" s1] Cons.prems b
    by (auto simp: s1_def split: if_splits)
qed

lemma evictClientIdByRemote_exact:
  assumes ok: "conn_ok s"
  shows "\<exists>ret s'. evictClientIdByRemote r s = Some (ret, s') \<and> conn_ok s'
    \<and> clients s' = filter (\<lambda>i. mRemoteBinder (bc_objects s (the (mValue i))) \<noteq> Some r) (clients s) \<and> (ret \<longleftrightarrow> clients s' \<noteq> clients s)"
proof -
  let ?Q = "\<lambda>i. mRemoteBinder (bc_objects s (the (mValue i))) = Some r"
  let ?bs = "objects_of (filter ?Q (clients s))" and ?as = "map mAddress (filter ?Q (clients s))"
  have "list_all (\<lambda>i. mValue i \<noteq> None) (clients s)" using conn_ok_alive [OF ok] by (fastforce simp: list_all_iff)
  from evictRemote_exact [OF this, of r "[]" s] obtain ls where
    ev: "evictRemote r (clients s) [] s = (?bs, s\<lparr>mActiveClientManager := fold remove_pointer ?as (mActiveClientManager s), cs_calls := ls\<rparr>)"
    by auto
  define s1 where "s1 = s\<lparr>mActiveClientManager := fold remove_pointer ?as (mActiveClientManager s), cs_calls := ls, serviceLocked := False\<rparr>"
  have cs: "clients s1 = filter (\<lambda>i. \<not> ?Q i) (clients s)"
    using ok am.remove_matching [of "mActiveClientManager s" ?Q] by (simp add: s1_def conn_ok_def)
  have "conn_ok s1" by (rule conn_ok_sub [OF ok cs]) (simp_all add: s1_def)
  then obtain s' where s': "foldM disconnect ?bs s1 = Some s'" "conn_ok s'" "left_after ?bs s1 s'" using disconnects_exact by blast
  have "mValue i \<notin> Some ` set ?bs" if "i \<in> set (clients s1)" for i
  proof -
    have "i \<in> set (clients s)" "\<not> ?Q i" using that by (simp_all add: cs)
    with objects_mem [OF ok this(1), of ?Q] show ?thesis by blast
  qed
  then have "filter (\<lambda>i. mValue i \<notin> Some ` set ?bs) (clients s1) = clients s1" unfolding filter_id_conv by blast
  then have cs': "clients s' = filter (\<lambda>i. \<not> ?Q i) (clients s)" using s'(3) cs unfolding left_after_def by metis
  have "?bs \<noteq> [] \<longleftrightarrow> filter (\<lambda>i. \<not> ?Q i) (clients s) \<noteq> clients s" by (auto simp: filter_empty_conv filter_id_conv)
  moreover have "evictClientIdByRemote r s = Some (?bs \<noteq> [], s'\<lparr>serviceLocked := True\<rparr>)"
    using s'(1) ev by (simp add: evictClientIdByRemote_def getAll_def s1_def)
  ultimately show ?thesis using s'(2) cs' by auto
qed

lemma notAllowed_objects:
  assumes "conn_ok s"
  shows "notAllowed e us s = objects_of (filter (\<lambda>i. userOf e (mClientUid (bc_objects s (the (mValue i)))) \<notin> set us) (clients s))"
proof -
  have "concat (map (\<lambda>i. case mValue i of None \<Rightarrow> [] | Some b \<Rightarrow> if userOf e (mClientUid (bc_objects s b)) \<in> set us then [] else [b]) cs)
      = objects_of (filter (\<lambda>i. userOf e (mClientUid (bc_objects s (the (mValue i)))) \<notin> set us) cs)"
    if "\<forall>i \<in> set cs. mValue i \<noteq> None" for cs
    using that by (induction cs) (auto split: option.splits)
  then show ?thesis using conn_ok_alive [OF assms] by (fastforce simp: notAllowed_def getAll_def)
qed

definition switches :: "int list \<Rightarrow> camera_service \<Rightarrow> bool" where
  "switches us s \<longleftrightarrow> (\<forall>u \<in> set us. 0 \<le> u) \<and> sort (remdups us) \<noteq> mAllowedUsers s"

lemma doUserSwitch_exact:
  assumes ok: "conn_ok s"
  shows "\<exists>s'. doUserSwitch e us s = Some s' \<and> conn_ok s'
    \<and> clients s' = (if switches us s then filter (\<lambda>i. userOf e (mClientUid (bc_objects s (the (mValue i)))) \<in> set us) (clients s) else clients s)
    \<and> mAllowedUsers s' = (if switches us s then sort (remdups us) else mAllowedUsers s)"
proof (cases "switches us s")
  case True
  let ?Q = "\<lambda>i. userOf e (mClientUid (bc_objects s (the (mValue i)))) \<notin> set us"
  let ?bs = "objects_of (filter ?Q (clients s))"
  define s1 where "s1 = s\<lparr>mAllowedUsers := sort (remdups us), serviceLocked := False\<rparr>"
  have ok1: "conn_ok s1" using ok by (simp add: s1_def)
  then obtain s' where s': "foldM disconnect ?bs s1 = Some s'" "conn_ok s'" "left_after ?bs s1 s'" using disconnects_exact by blast
  have "clients s' = filter (\<lambda>i. \<not> ?Q i) (clients s)"
    using s'(3) objects_mem [OF ok, of _ ?Q] by (auto simp: left_after_def s1_def intro!: filter_cong)
  moreover have "notAllowed e (sort (remdups us)) (s\<lparr>mAllowedUsers := sort (remdups us)\<rparr>) = ?bs"
    using notAllowed_objects [of "s\<lparr>mAllowedUsers := sort (remdups us)\<rparr>" e "sort (remdups us)"] ok by simp
  then have "doUserSwitch e us s = Some (s'\<lparr>serviceLocked := True\<rparr>)"
    using True s'(1) by (auto simp: doUserSwitch_def switches_def list_ex_iff Let_def s1_def)
  moreover have "mAllowedUsers s' = mAllowedUsers s1" using s'(3) by (simp add: left_after_def)
  ultimately show ?thesis using True s'(2) by (simp add: s1_def)
next
  case False
  then have "doUserSwitch e us s = Some s" by (auto simp: doUserSwitch_def switches_def list_ex_iff Let_def)
  with False ok show ?thesis by simp
qed

section \<open>Arrivals\<close>

text \<open>The evictions are defined, end and keep the invariant, whatever other threads do with the lock released, as long as that keeps it too.\<close>

lemma queryPriorities_ok:
  assumes "conn_ok s" "queryPriorities e cameraId clientPid off native st s = Some (r, s1)"
  shows "conn_ok s1 \<and> serviceLocked s1 = serviceLocked s"
proof (cases r)
  case (Inl err)
  then have "s1 = s" using assms(2) by (auto simp: queryPriorities_def Let_def Option.bind_eq_Some_conv split: if_splits sum.splits prod.splits)
  with assms(1) show ?thesis by simp
next
  case (Inr d)
  note q = assms(2) [unfolded Inr]
  have "conn_ok s1" by (rule incoming_ok [OF assms(1) q])
  moreover have "serviceLocked s1 = serviceLocked s"
    by (rule queryPriorities_same [OF q]) (auto dest!: makeClientDescriptor_fields)
  ultimately show ?thesis by blast
qed

lemma handleEvictions_safe:
  assumes ok: "conn_ok s" and env: "\<And>t. conn_ok t \<Longrightarrow> conn_ok (usableAfter e t)"
    and q: "\<And>st. getCameraState cameraId s = Some st \<Longrightarrow> queryPriorities e cameraId clientPid off native st s \<noteq> None"
  shows "\<exists>out s'. handleEvictionsLocked e cameraId clientPid api1 remote off native s = Some (out, s') \<and> conn_ok s' \<and> out \<noteq> NotReturned
    \<and> (serviceLocked s \<longrightarrow> serviceLocked s')"
proof (cases "existingClient cameraId api1 remote s")
  case None
  show ?thesis
  proof (cases "getCameraState cameraId s")
    case (Some st)
    obtain r s1 where r: "queryPriorities e cameraId clientPid off native st s = Some (r, s1)" using q [OF Some] by auto
    note s1 = queryPriorities_ok [OF ok r]
    show ?thesis
    proof (cases r)
      case (Inr d)
      let ?es = "evictedBy d (mActiveClientManager s1)"
      show ?thesis
      proof (cases "list_ex (\<lambda>i. mAddress i = mAddress d) ?es")
        case True
        then show ?thesis using None Some r Inr s1 by (simp add: handleEvictionsLocked_def)
      next
        case False
        then have acc: "accepted d (mActiveClientManager s1)" using not_accepted by fastforce
        obtain P where P: "?es = filter P (clients s1)"
          using accepted_splits [OF acc] s1 by (auto simp: conn_ok_def cm_ok_def)
        obtain s2 where s2: "(do { s \<leftarrow> notifyEvicted ?es s1; disconnectEvicted ?es (s\<lparr>serviceLocked := False\<rparr>) }) = Some s2"
          "clients s2 = filter (\<lambda>i. \<not> P i) (clients s1)" "nextAddress s2 = nextAddress s1" "waitForEvicted e ?es s2 = (Inr (), s2)"
          "list_all (alive (bc_objects s2)) (clients s2)"
          using evictions_leave [OF conjunct1 [OF s1] P, of e] unfolding P by blast
        have "conn_ok s2"
          using s1 s2(2,3,5) cm_ok_filter [OF _ s2(2)] by (auto simp: conn_ok_def list_all_iff distinct_map_filter)
        then have "conn_ok ((usableAfter e s2)\<lparr>serviceLocked := True\<rparr>)" using env by simp
        then show ?thesis
          using None Some r Inr False s2(1,4) by (auto simp: handleEvictionsLocked_def Let_def Option.bind_eq_Some_conv)
      qed
    qed (use None Some r s1 in \<open>simp add: handleEvictionsLocked_def\<close>)
  qed (use None ok in \<open>simp add: handleEvictionsLocked_def\<close>)
qed (use ok in \<open>simp add: handleEvictionsLocked_def\<close>)

text \<open>A client with an object of its own that is added without evictions.\<close>

lemma add_conn_ok:
  assumes ok: "conn_ok s" and new: "Some b \<notin> mValue ` set (clients s)" "\<not> mDisconnected (bc_objects s b)"
    and c: "mValue c = Some b" "mAddress c = nextAddress s" "0 \<le> mCost c"
    and add: "addAndEvict (Some c) (mActiveClientManager s) = Some ([], m)"
  shows "conn_ok (s\<lparr>nextAddress := Suc (nextAddress s), mActiveClientManager := m\<rparr>)"
proof -
  have cm: "cm_ok (mActiveClientManager s)" using ok by (simp add: conn_ok_def)
  have fresh: "mAddress c \<notin> mAddress ` set (clients s)" using ok c(2) by (auto simp: conn_ok_def list_all_iff)
  show ?thesis
    using am.add_ok [OF cm fresh c(3) add] am.add_clients [OF cm fresh add] c new by (intro conn_ok_add [OF ok]) auto
qed

abbreviation with_object :: "nat \<Rightarrow> basic_client \<Rightarrow> camera_service \<Rightarrow> camera_service" where
  "with_object b obj s \<equiv> s\<lparr>bc_objects := (bc_objects s)(b := obj)\<rparr>"

lemma with_object_ok:
  assumes "conn_ok s" "Some b \<notin> mValue ` set (clients s)"
  shows "conn_ok (with_object b obj s)"
proof (rule conn_ok_sub [OF assms(1), where P = "\<lambda>_. True"])
  fix i assume "i \<in> set (clients (with_object b obj s))"
  then have "the (mValue i) \<noteq> b" using conn_ok_alive [OF assms(1), of i] assms(2) by (metis imageI camera_service.select_convs(1) camera_service.surjective camera_service.update_convs(5))
  then show "bc_objects (with_object b obj s) (the (mValue i)) = bc_objects s (the (mValue i))" by simp
qed simp_all

lemma finishConnect_ok:
  assumes "conn_ok s" "Some b \<notin> mValue ` set (clients s)" "\<not> mDisconnected (bc_objects s b)" "0 \<le> mCost d"
    "finishConnectLocked e b d off native s = Some s'"
  shows "conn_ok s'"
proof -
  obtain c s1 m where made: "makeClientDescriptorFrom e (Some b) d off native s = Some (c, s1)"
    and add: "addAndEvict (Some c) (mActiveClientManager s1) = Some ([], m)"
    and s': "s' = s1\<lparr>mActiveClientManager := m\<rparr> \<or> s' = log_call (LinkToDeath b) (s1\<lparr>mActiveClientManager := m\<rparr>)"
    using assms(5) by (auto simp: finishConnectLocked_def Let_def Option.bind_eq_Some_conv split: if_splits)
  note fields = makeClientDescriptor_fields [OF made [unfolded makeClientDescriptorFrom_def]]
  have "conn_ok (s\<lparr>nextAddress := Suc (nextAddress s), mActiveClientManager := m\<rparr>)"
    by (rule add_conn_ok [OF assms(1-3), of c]) (use fields add assms(4) in auto)
  with s' fields show ?thesis by auto
qed

lemma addOffline_ok:
  assumes "conn_ok s" "Some b \<notin> mValue ` set (clients s)" "\<not> mDisconnected (bc_objects s b)"
    "addOfflineClient e cameraId (Some b) initialized s = Some (ret, s')"
  shows "conn_ok s'"
proof (cases "get cameraId (mActiveClientManager s)")
  case None
  then show ?thesis using assms by (simp add: addOfflineClient_def)
next
  case (Some online)
  obtain d s1 where made: "makeClientDescriptor e (kOfflineDevice @ mKey online) (Some b) 0 [] (mScore (mPriority online)) (mOwnerId online)
      (mState (mPriority online)) 0 False s = Some (d, s1)"
    using assms(4) Some by (auto simp: addOfflineClient_def Option.bind_eq_Some_conv)
  note fields = makeClientDescriptor_fields [OF made]
  have ok1: "conn_ok s1" using assms(1) fields by (auto simp: conn_ok_def list_all_iff less_Suc_eq)
  show ?thesis
  proof (cases "getIncompatibleClients (Some d) (mActiveClientManager s1) \<noteq> [] \<or> initialized \<noteq> 0")
    case True
    then show ?thesis using assms(4) Some made ok1 by (auto simp: addOfflineClient_def split: if_splits)
  next
    case False
    then obtain m where add: "addAndEvict (Some d) (mActiveClientManager s1) = Some ([], m)"
      and s': "s' = s1\<lparr>mActiveClientManager := m\<rparr> \<or> s' = log_call (LinkToDeath b) (s1\<lparr>mActiveClientManager := m\<rparr>)"
      using assms(4) Some made by (auto simp: addOfflineClient_def Let_def Option.bind_eq_Some_conv split: if_splits)
    have "conn_ok (s\<lparr>nextAddress := Suc (nextAddress s), mActiveClientManager := m\<rparr>)"
      by (rule add_conn_ok [OF assms(1-3), of d]) (use fields add in auto)
    with s' fields show ?thesis by auto
  qed
qed

lemma removeClient_ok:
  assumes "conn_ok s" "removeClientLocked cameraId s = (c, s1)"
  shows "conn_ok s1 \<and> clients s1 = filter (\<lambda>i. mKey i \<noteq> cameraId) (clients s)"
proof
  have s1: "nextAddress s1 = nextAddress s" "bc_objects s1 = bc_objects s"
    and cs: "clients s1 = filter (\<lambda>i. mKey i \<noteq> cameraId) (clients s)"
    using assms(2) by (auto simp: removeClientLocked_def remove_key_def Let_def split: option.splits if_splits)
  show "clients s1 = filter (\<lambda>i. mKey i \<noteq> cameraId) (clients s)" by (rule cs)
  show "conn_ok s1" by (rule conn_ok_sub [OF assms(1) cs]) (simp_all add: s1)
qed

lemma disconnectClient_ok:
  assumes "conn_ok s" "disconnectClient c s = Some s'"
  shows "conn_ok s'"
proof (cases c)
  case (Some b)
  obtain s1 where "disconnect b (log_call (NotifyError b) s) = Some s1" "conn_ok s1"
    using disconnect_exact [of "log_call (NotifyError b) s" b] assms(1) by auto
  with assms(2) Some show ?thesis by (simp add: disconnectClient_def)
qed (use assms in \<open>simp add: disconnectClient_def\<close>)

section \<open>The machine\<close>

text \<open>
  \<open>cs_run s s'\<close>: some calls lead from \<open>s\<close> to \<open>s'\<close>. A connection is two steps, the evictions and, with a new client object, its end; the cost of a device
  is not negative. What comes in between while the lock is released is itself a run.
\<close>

inductive cs_run :: "camera_service \<Rightarrow> camera_service \<Rightarrow> bool" where
  idle: "cs_run s s"
| evictions: "cs_run s0 s \<Longrightarrow> (\<And>t. cs_run t (usableAfter e t)) \<Longrightarrow>
    handleEvictionsLocked e cameraId clientPid api1 remote off native s = Some (out, s') \<Longrightarrow> cs_run s0 s'"
| finish: "cs_run s0 s \<Longrightarrow> Some b \<notin> mValue ` set (clients s) \<Longrightarrow> \<not> mDisconnected obj \<Longrightarrow> 0 \<le> mCost d \<Longrightarrow>
    finishConnectLocked e b d off native (with_object b obj s) = Some s' \<Longrightarrow> cs_run s0 s'"
| offline: "cs_run s0 s \<Longrightarrow> Some b \<notin> mValue ` set (clients s) \<Longrightarrow> \<not> mDisconnected obj \<Longrightarrow>
    addOfflineClient e cameraId (Some b) initialized (with_object b obj s) = Some (ret, s') \<Longrightarrow> cs_run s0 s'"
| disconnected: "cs_run s0 s \<Longrightarrow> disconnect b s = Some s' \<Longrightarrow> cs_run s0 s'"
| died: "cs_run s0 s \<Longrightarrow> evictClientIdByRemote r s = Some (ret, s') \<Longrightarrow> cs_run s0 s'"
| unplugged: "cs_run s0 s \<Longrightarrow> removeClientLocked cameraId s = (c, s1) \<Longrightarrow> disconnectClient c s1 = Some s' \<Longrightarrow> cs_run s0 s'"
| user_switched: "cs_run s0 s \<Longrightarrow> doUserSwitch e us s = Some s' \<Longrightarrow> cs_run s0 s'"

lemma handleEvictions_keeps:
  assumes "conn_ok s" "\<And>t. conn_ok t \<Longrightarrow> conn_ok (usableAfter e t)"
    "handleEvictionsLocked e cameraId clientPid api1 remote off native s = Some (out, s')"
  shows "conn_ok s'"
proof (cases "existingClient cameraId api1 remote s")
  case (Some b)
  then show ?thesis using assms by (simp add: handleEvictionsLocked_def)
next
  case None
  then have "queryPriorities e cameraId clientPid off native st s \<noteq> None" if "getCameraState cameraId s = Some st" for st
    using that assms(3) by (cases "queryPriorities e cameraId clientPid off native st s") (simp_all add: handleEvictionsLocked_def)
  then have "\<exists>out s'. handleEvictionsLocked e cameraId clientPid api1 remote off native s = Some (out, s') \<and> conn_ok s' \<and> out \<noteq> NotReturned
      \<and> (serviceLocked s \<longrightarrow> serviceLocked s')" by (intro handleEvictions_safe [OF assms(1,2)])
  with assms(3) show ?thesis by auto
qed

lemma cs_run_ok: "cs_run s s' \<Longrightarrow> conn_ok s \<Longrightarrow> conn_ok s'"
proof (induction rule: cs_run.induct)
  case (evictions s0 s e cameraId clientPid api1 remote off native out s')
  then show ?case using handleEvictions_keeps [of s e] by blast
next
  case (finish s0 s b obj d e off native s')
  then show ?case using finishConnect_ok [OF with_object_ok, of s b b obj d e off native s'] by simp
next
  case (offline s0 s b obj e cameraId initialized ret s')
  then show ?case using addOffline_ok [OF with_object_ok, of s b b obj e cameraId initialized ret s'] by simp
next
  case (disconnected s0 s b s')
  then show ?case using disconnect_exact [of s b] by auto
next
  case (died s0 s r ret s')
  then show ?case using evictClientIdByRemote_exact [of s r] by auto
next
  case (unplugged s0 s cameraId c s1 s')
  then show ?case using removeClient_ok disconnectClient_ok by blast
next
  case (user_switched s0 s e us s')
  then show ?case using doUserSwitch_exact [of s e us] by auto
qed

lemma started_ok: "clients s = [] \<Longrightarrow> conn_ok s"
  by (simp add: conn_ok_def cm_ok_def)

section \<open>Properties\<close>


text \<open>A service without clients, and the run that connects the object 7 to the first camera.\<close>

definition empty_service :: camera_service where
  "empty_service = example_service\<lparr>mActiveClientManager := CameraClientManager\<rparr>"

definition example_object :: basic_client where
  "example_object = \<lparr>mRemoteBinder = Some 5, mClientUid = 10000, mIsApi1 = False, mClientAudioRestriction = 0, mDisconnected = False\<rparr>"

lemma example_run:
  obtains s i where "cs_run empty_service s" "clients s = [i]" "mValue i = Some 7" "bc_objects s 7 = example_object" "mAllowedUsers s = [0]"
proof -
  have "map_option (\<lambda>s. (map mValue (clients s), bc_objects s 7, mAllowedUsers s))
      (finishConnectLocked example_env 7 example_holder 0 False (with_object 7 example_object empty_service))
    = Some ([Some 7], example_object, [0])" by code_simp
  then obtain s where s: "finishConnectLocked example_env 7 example_holder 0 False (with_object 7 example_object empty_service) = Some s"
    "map mValue (clients s) = [Some 7]" "bc_objects s 7 = example_object" "mAllowedUsers s = [0]" by auto
  obtain i where i: "clients s = [i]" "mValue i = Some 7" using s(2) by (auto simp: map_eq_Cons_conv)
  have "clients empty_service = []" by (simp add: empty_service_def CameraClientManager_def ClientManager_def setListener_def)
  then have "cs_run empty_service s"
    by (intro cs_run.finish [OF cs_run.idle _ _ _ s(1)]) (simp_all add: example_object_def example_holder_def)
  then show thesis by (rule that [OF _ i s(3,4)])
qed


text \<open>
  C26: Who leaves. In every state that can be reached, a disconnection removes the active clients of that object and nobody else, the death of a process those
  whose remote binder it was (and the call tells whether there were any), and a switch of users those of users that are no longer allowed;
  a switch with a negative user or without a change does nothing.
\<close>
theorem departures_exact:
  assumes "cs_run s0 s" "clients s0 = []"
  shows "map_option clients (disconnect b s) = Some (filter (\<lambda>i. mValue i \<noteq> Some b) (clients s))
    \<and> map_option (\<lambda>(ret, s'). (ret, clients s')) (evictClientIdByRemote r s) =
        (let kept = filter (\<lambda>i. mRemoteBinder (bc_objects s (the (mValue i))) \<noteq> Some r) (clients s) in Some (kept \<noteq> clients s, kept))
    \<and> map_option (\<lambda>s'. (mAllowedUsers s', clients s')) (doUserSwitch e us s) =
        (if (\<exists>u \<in> set us. u < 0) \<or> sort (remdups us) = mAllowedUsers s then Some (mAllowedUsers s, clients s)
         else Some (sort (remdups us), filter (\<lambda>i. userOf e (mClientUid (bc_objects s (the (mValue i)))) \<in> set us) (clients s)))"
proof (intro conjI)
  have ok: "conn_ok s" by (rule cs_run_ok [OF assms(1) started_ok [OF assms(2)]])
  show "map_option clients (disconnect b s) = Some (filter (\<lambda>i. mValue i \<noteq> Some b) (clients s))"
    using disconnect_exact [OF ok, of b] by (auto simp: left_after_def)
  show "map_option (\<lambda>(ret, s'). (ret, clients s')) (evictClientIdByRemote r s) =
      (let kept = filter (\<lambda>i. mRemoteBinder (bc_objects s (the (mValue i))) \<noteq> Some r) (clients s) in Some (kept \<noteq> clients s, kept))"
    using evictClientIdByRemote_exact [OF ok, of r] by (auto simp: Let_def)
  have "switches us s \<longleftrightarrow> \<not> ((\<exists>u \<in> set us. u < 0) \<or> sort (remdups us) = mAllowedUsers s)" by (auto simp: switches_def not_less)
  then show "map_option (\<lambda>s'. (mAllowedUsers s', clients s')) (doUserSwitch e us s) =
      (if (\<exists>u \<in> set us. u < 0) \<or> sort (remdups us) = mAllowedUsers s then Some (mAllowedUsers s, clients s)
       else Some (sort (remdups us), filter (\<lambda>i. userOf e (mClientUid (bc_objects s (the (mValue i)))) \<in> set us) (clients s)))"
    using doUserSwitch_exact [OF ok, of e us] by auto
qed

theorem departures_exact_witness:
  "\<exists>s. cs_run empty_service s \<and> map mValue (clients s) = [Some 7] \<and> map_option (\<lambda>(ret, s'). (ret, clients s')) (evictClientIdByRemote 5 s) = Some (True, [])
     \<and> map_option (\<lambda>s'. (mAllowedUsers s', clients s')) (doUserSwitch example_env [3] s) = Some ([3], [])"
proof -
  have empty: "clients empty_service = []" by (simp add: empty_service_def CameraClientManager_def ClientManager_def setListener_def)
  obtain s i where s: "cs_run empty_service s" "clients s = [i]" "mValue i = Some 7" "bc_objects s 7 = example_object" "mAllowedUsers s = [0]"
    by (rule example_run)
  show ?thesis
    using departures_exact [OF s(1) empty, where r = 5 and us = "[3]" and e = example_env] s
    by (intro exI [of _ s]) (simp add: example_object_def example_env_def)
qed

end
