(* ===== verification/Spec2Isabelle.thy ===== *)
theory Spec2Isabelle
  imports Controller_Properties Service_Machine Bit_Reader Base64 C_String Message_Properties Looper_Properties
    A_String Nal_Units Param_Properties Newer_Properties Camera_Machine
begin

text \<open>
  A verification library for parts of the Android media framework: the media transcoding service, the media resource
  manager, the client arbitration of the camera service and the foundation library of stagefright.

  \<^bold>\<open>The program.\<close> The repository holds the media and camera services of the platform and the libraries they share.
  Four parts with logic of their own, away from hardware and codecs, are modelled here.

  \<^item> The media transcoding service (\<^verbatim>\<open>src/media/module/libmediatranscoding\<close> and
    \<^verbatim>\<open>src/media/module/service.mediatranscoding\<close>). Clients register through the client manager and submit
    sessions. The session controller keeps a queue of sessions for each uid, decides which single session may run, and
    starts, pauses, resumes and stops it on the transcoder. The uid policy tells which uids are on top of the screen, the
    resource and thermal policies when to pause everything, the pacer which uid exceeds its quota, and the watchdog
    which session makes no progress. All of them call back into the controller.
  \<^item> The media resource manager (\<^verbatim>\<open>src/services/mediaresourcemanager\<close>, with \<^verbatim>\<open>ProcessInfo.cpp\<close> of the media utilities).
    Codecs register the resources they hold. The service keeps them for each client of each process, tells the battery
    and scheduling services, the resource monitor and the observers what changes, counts codecs for the metrics, and, when a codec
    cannot get a resource, asks other clients to give theirs up. There are two implementations: the older service does
    everything itself; the newer one, a subclass, leaves the record to a tracker, the search for holders to a
    resource model and the choice to a list of reclaim policies. The transcoding service is one of the observers.
  \<^item> The camera service (\<^verbatim>\<open>src/services/camera/libcameraservice\<close>): which client may hold which camera. Every active client has a cost, a priority
    from its process, and cameras it conflicts with. A connection asks the client manager whom it evicts, disconnects them with
    the lock released, waits until they are gone and joins the list; clients leave when they disconnect, die or their user is switched away.
  \<^item> The foundation library (\<^verbatim>\<open>src/media/module/foundation\<close>): bit readers, base64, byte order, strings,
    messages, loopers with their handlers, and the helpers for AVC and MPEG streams.

  \<^bold>\<open>Conventions\<close> (theory \<open>Prelude\<close>). Machine integers are words of their width, or integers with the bounds written out
  where the code cannot overflow. A type \<open>'a ub\<close> is \<open>'a option\<close>, where \<open>None\<close> stands for undefined
  behaviour or a failed \<^verbatim>\<open>CHECK\<close>: a read outside a buffer, an iterator past the end, a null dereference, a shift by
  the width. A theorem that a result is \<open>Some\<close> is thus a theorem that the code is safe. Errors that the code returns are ordinary values.
  \<^verbatim>\<open>std::map\<close> is a sorted association list; the locale \<open>ordered_map\<close> states its interface and \<open>sm\<close>
  interprets it. Every loop is a total function, by structural recursion or with a termination proof; there is no fuel.

  \<^bold>\<open>The transcoding service\<close>, theory by theory.

  \<^item> \<open>Transcoding_Env\<close>: request parcels, session keys and error codes; the record \<open>env\<close> with everything that is asked
    of the platform (clock, permissions, activity manager, package names, iteration order of unordered containers).
  \<^item> \<open>Uid_Policy\<close> (\<^verbatim>\<open>TranscodingUidPolicy.cpp\<close>): the monitored uids and their importance. The locale
    \<open>uid_policy_interface\<close> is what the controller relies on, \<open>up\<close> interprets it. The cached top importance refines
    a specification of the top uids.
  \<^item> \<open>Device_Policies\<close> (\<^verbatim>\<open>TranscodingResourcePolicy.cpp\<close>, \<^verbatim>\<open>TranscodingThermalPolicy.cpp\<close>): one report of
    availability for each loss, throttling callbacks that alternate.
  \<^item> \<open>Pacer\<close> and \<open>Watchdog\<close> (\<^verbatim>\<open>TranscodingSessionController.cpp\<close>): the quota and the timer. The thread of
    the watchdog is a step that may happen at any time.
  \<^item> \<open>Session_Controller\<close> and \<open>Session_Handlers\<close> (\<^verbatim>\<open>TranscodingSessionController.cpp\<close>): the state as a record, the
    private operations, and the public calls and callbacks. The transcoder is the list of calls made to it.
  \<^item> \<open>Session_Queues\<close>, \<open>Session_Invariant\<close>, \<open>Session_Removal\<close>, \<open>Session_Scheduling\<close>,
    \<open>Session_Correctness\<close>, \<open>Session_Machine\<close>: the invariant of the controller and that every handler keeps it, without
    undefined behaviour, for every iteration order; the scheduling loop ends.
  \<^item> \<open>Controller_Properties\<close>: the theorems on reachable states (the debug assertions hold, at most one session runs, the
    front uid runs when it may, nothing runs while paused) and the effect of each call.
  \<^item> \<open>Client_Manager\<close> (\<^verbatim>\<open>TranscodingClientManager.cpp\<close>, \<^verbatim>\<open>MediaTranscodingService.cpp\<close>) and \<open>Service_Machine\<close>: clients,
    trust checks, death of client processes, composed with the controller into one machine.

  \<^bold>\<open>The resource manager\<close>, theory by theory.

  \<^item> \<open>Media_Resource\<close> (\<^verbatim>\<open>ResourceManagerServiceUtils.cpp\<close>): lists of resources as maps from kinds to amounts that saturate; the
    records of the clients.
  \<^item> \<open>Process_Info\<close> (\<^verbatim>\<open>ProcessInfo.cpp\<close>): priorities, trust and overrides; the record \<open>rm_env\<close> with what the platform
    answers during one call.
  \<^item> \<open>Resource_Observer\<close> (\<^verbatim>\<open>ResourceObserverService.cpp\<close>): each observer is told exactly what it subscribed to.
  \<^item> \<open>Resource_Metrics\<close> (\<^verbatim>\<open>ResourceManagerMetrics.cpp\<close>, \<^verbatim>\<open>UidObserver.cpp\<close>): the counters count the codecs that run.
  \<^item> \<open>Resource_Service\<close> and \<open>Resource_Selection\<close> (\<^verbatim>\<open>ResourceManagerService.cpp\<close>): the state as a record, the calls, the
    choice of the clients to ask and the reclaim. Operations that call virtual methods take a table of them; \<open>baseMethods\<close>
    and \<open>newMethods\<close> are the tables of the two classes. Calls to other services are a list; what happens while a client
    is asked, with the lock released, is an argument.
  \<^item> \<open>Resource_Invariant\<close> and \<open>Resource_Machine\<close>: the machine of all calls in any order; amounts stay in range, nothing
    overflows, and the accounts with the battery and scheduling services are exact. The locale \<open>resource_manager\<close> is what both
    implementations promise; \<open>old\<close> interprets it.
  \<^item> \<open>Reclaim_Choice\<close>: every target is justified, the choice is the biggest client of the process with the lowest priority, and
    every request is handled.
  \<^item> \<open>Resource_Tracker\<close> (\<^verbatim>\<open>ResourceTracker.cpp\<close>) and \<open>Reclaim_Policies\<close> (\<^verbatim>\<open>DefaultResourceModel.cpp\<close>,
    \<^verbatim>\<open>ProcessPriorityReclaimPolicy.cpp\<close>, \<^verbatim>\<open>ClientImportanceReclaimPolicy.cpp\<close>, \<^verbatim>\<open>ResourceManagerServiceNew.cpp\<close>): the newer service,
    whose state extends the record of the older one.
  \<^item> \<open>Tracker_Refinement\<close> and \<open>Tracker_Machine\<close>: read through \<open>asService\<close> the newer service is the older one, so the invariant
    carries over; \<open>new\<close> interprets \<open>resource_manager\<close>.
  \<^item> \<open>Policy_Choice\<close> and \<open>Newer_Properties\<close>: the locale \<open>reclaim_policy_contract\<close> is the interface \<^verbatim>\<open>IReclaimPolicy\<close>, interpreted
    by \<open>pp\<close> and \<open>ci\<close>; the targets of the newer service are justified as long as clients are registered for
    their own processes, and a reachable state shows what goes wrong otherwise.

  \<^bold>\<open>The camera service\<close>, theory by theory.

  \<^item> \<open>Camera_Clients\<close> (\<^verbatim>\<open>utils/ClientManager.h\<close>): priorities, descriptors and the client manager, generic in keys and values. A
    \<^verbatim>\<open>std::shared_ptr\<close> to a descriptor is the descriptor with its address; the null pointer is \<open>None\<close>. Notifications of the listener are a list.
  \<^item> \<open>Camera_Eviction\<close>: the machine \<open>cm_reach\<close> of all calls in any order; active clients never conflict, and the decision on a new client
    is characterised completely, the read past the end of the evicted vector included. The locale \<open>active_clients\<close> is what the
    service relies on, \<open>am\<close> interprets it.
  \<^item> \<open>Camera_Connect\<close> (\<^verbatim>\<open>CameraService.cpp\<close>): the evictions before a connection, its end, offline clients, disconnection, the death of a client's
    process and the switch of users. What other threads do while the lock is released is in the record \<open>camera_env\<close>.
  \<^item> \<open>Camera_Properties\<close>: a connection that is finished after its evictions evicts nobody, and the cases in which the service aborts.
  \<^item> \<open>Camera_Machine\<close>: the machine \<open>cs_run\<close> of all calls in any order, with runs of other calls while a connection has released its lock; the service
    stays safe, and exactly the right clients leave.

  \<^bold>\<open>The foundation library\<close>, theory by theory.

  \<^item> \<open>Bit_Reader\<close> (\<^verbatim>\<open>ABitReader.cpp\<close>): the locale \<open>bit_source\<close> is the refilling of the reservoir; the readers
    \<open>ab\<close> and \<open>nr\<close> interpret it, so that reading, skipping and putting back bits is proved once, against a list of bits.
  \<^item> \<open>Base64\<close> (\<^verbatim>\<open>base64.cpp\<close>, \<^verbatim>\<open>ByteUtils.cpp\<close>): round trips and the bound on what is written.
  \<^item> \<open>C_String\<close> (\<^verbatim>\<open>AStringUtils.cpp\<close>): the C string functions, and the glob matcher against the meaning of globs.
  \<^item> \<open>A_String\<close> (\<^verbatim>\<open>AString.cpp\<close>): the growing block, against lists of characters.
  \<^item> \<open>A_Message\<close> and \<open>Message_Properties\<close> (\<^verbatim>\<open>AMessage.cpp\<close>): typed items, copies and differences; the locale
    \<open>keyed_store\<close>, interpreted by \<open>ms\<close>.
  \<^item> \<open>A_Looper\<close> and \<open>Looper_Properties\<close> (\<^verbatim>\<open>ALooper.cpp\<close>, \<^verbatim>\<open>ALooperRoster.cpp\<close>, \<^verbatim>\<open>AHandler.cpp\<close>): the event queue,
    delivery, registration and reply tokens; the locale \<open>event_source\<close>, interpreted by \<open>eq\<close>.
  \<^item> \<open>Nal_Units\<close> (\<^verbatim>\<open>avc_utils.cpp\<close>): the scan for NAL units ends and stays inside the buffer; the sizes of MPEG audio frames.
  \<^item> \<open>Param_Sets\<close> and \<open>Param_Properties\<close> (\<^verbatim>\<open>avc_utils.cpp\<close>): the parsers of Exp-Golomb codes, sequence parameter sets and VOL
    headers over the bit reader, and the codec specific data. A small logic of parsers (\<open>parses\<close>, \<open>skips\<close>, \<open>gives\<close>) composes along
    the code: on the bits of any well-formed set or header the parser returns the dimensions they mean.

  \<^bold>\<open>Concurrency.\<close> Each public operation holds its object's lock from beginning to end, so a concurrent run is a sequence of
  operations in some order; the machines allow every order. Where the code releases the lock on the way (the
  watchdog before it reports, a looper between two events), the parts are separate steps.

  \<^bold>\<open>Not modelled.\<close> The dump and logging functions, the transcoder and its codecs (I/O through the NDK);
  the parcels of messages and strings and formatted printing (they depend on \<^verbatim>\<open>Parcel\<close> and \<^verbatim>\<open>printf\<close>); floating point values
  are carried as they are, never computed with. In the resource manager, the usage report
  that is only logged, the linking of death notifiers to binder objects, and the registration of an observer while a change is being
  reported are left out. Of the camera service,
  permissions, the flashlight, the enumeration of devices and the streams are left out; they and the audio and codec services depend on hardware interfaces.
\<close>

end
